(* ===== verification/Prelude.thy ===== *)
theory Prelude
  imports Main "HOL-Library.Code_Target_Nat"
begin

text \<open>
  Shared vocabulary of the development: the theorem collections the component proofs use,
  generic facts on lists and options, insertion-ordered sets (JavaScript's \<open>Set\<close>), and the
  interface of a deterministic machine driven by events, of which the stateful components
  (the stream controller, the chat handler, the session refresh) are instances.
\<close>

named_theorems js_lit \<open>evaluation of string literals\<close>
named_theorems js_eval \<open>executable equations used to evaluate the model on concrete inputs\<close>
named_theorems frame \<open>what an operation leaves unchanged\<close>


section \<open>Lists and options\<close>

text \<open>\<open>a ?? b\<close>.\<close>

definition coalesce :: "'a option \<Rightarrow> 'a \<Rightarrow> 'a" where
  "coalesce a b = (case a of Some x \<Rightarrow> x | None \<Rightarrow> b)"

lemma option_bind_Some_iff:
  "Option.bind x f = Some z \<longleftrightarrow> (\<exists>y. x = Some y \<and> f y = Some z)"
  by (cases x) auto

lemma foldl_inv:
  assumes "P a" and "\<And>a x. x \<in> set xs \<Longrightarrow> P a \<Longrightarrow> P (f a x)"
  shows "P (foldl f a xs)"
  using assms by (induction xs arbitrary: a) auto

lemma mem_map_filter: "y \<in> set (List.map_filter f xs) \<longleftrightarrow> (\<exists>x\<in>set xs. f x = Some y)"
  by (force simp: List.map_filter_def)

lemma map_filter_Nil: "List.map_filter f xs = [] \<longleftrightarrow> (\<forall>x\<in>set xs. f x = None)"
  by (auto simp: List.map_filter_def filter_empty_conv)

lemma find_SomeD: "find P xs = Some x \<Longrightarrow> x \<in> set xs \<and> P x"
  by (auto simp: find_Some_iff)

lemma find_key: "x \<in> set xs \<Longrightarrow> distinct (map f xs) \<Longrightarrow> find (\<lambda>y. f y = f x) xs = Some x"
  by (induction xs) (auto simp: rev_image_eqI)

lemma last_conv_snoc: "xs \<noteq> [] \<Longrightarrow> \<exists>ys y. xs = ys @ [y]"
  by (metis append_butlast_last_id)

lemma list_update_last [simp]:
  "(xs @ [x])[length xs := y] = xs @ [y]"
  by simp

text \<open>JavaScript's \<open>arr.slice(-k)\<close>: the last \<open>k\<close> elements.\<close>

definition take_last :: "nat \<Rightarrow> 'a list \<Rightarrow> 'a list" where
  "take_last k xs = drop (length xs - k) xs"

lemma length_take_last: "length (take_last k xs) = min k (length xs)"
  by (auto simp: take_last_def)

lemma set_take_last: "set (take_last k xs) \<subseteq> set xs"
  by (simp add: take_last_def set_drop_subset)

lemma take_last_all: "length xs \<le> k \<Longrightarrow> take_last k xs = xs"
  by (simp add: take_last_def)


section \<open>Insertion-ordered sets\<close>

text \<open>\<open>new Set(xs)\<close>, read back in insertion order: the first occurrence of every element.\<close>

definition set_add :: "'a list \<Rightarrow> 'a \<Rightarrow> 'a list" where
  "set_add acc x = (if x \<in> set acc then acc else acc @ [x])"

definition js_set :: "'a list \<Rightarrow> 'a list" where
  "js_set xs = foldl set_add [] xs"

lemma set_set_add [simp]: "set (set_add acc x) = insert x (set acc)"
  by (auto simp: set_add_def)

lemma distinct_set_add [simp]: "distinct (set_add acc x) = distinct acc"
  by (auto simp: set_add_def)

lemma set_foldl_set_add: "set (foldl set_add acc xs) = set acc \<union> set xs"
  by (induction xs arbitrary: acc) auto

lemma distinct_foldl_set_add: "distinct (foldl set_add acc xs) = distinct acc"
  by (induction xs arbitrary: acc) auto

lemma set_js_set [simp]: "set (js_set xs) = set xs"
  by (simp add: js_set_def set_foldl_set_add)

lemma distinct_js_set [simp]: "distinct (js_set xs)"
  by (simp add: js_set_def distinct_foldl_set_add)

lemma js_set_Nil [simp]: "js_set [] = []"
  by (simp add: js_set_def)

lemma foldl_set_add_distinct:
  "distinct (acc @ xs) \<Longrightarrow> foldl set_add acc xs = acc @ xs"
  by (induction xs arbitrary: acc) (auto simp: set_add_def)

lemma js_set_distinct: "distinct xs \<Longrightarrow> js_set xs = xs"
  by (simp add: js_set_def foldl_set_add_distinct)


section \<open>Machines driven by events\<close>

text \<open>
  A component is a start state and a step function that takes an event to the next state and
  to the calls it makes to the outside (its outputs, in order). What holds of a run is proved
  once, from an invariant the steps keep and a property of the outputs of a single step.
\<close>

fun run_events :: "('s \<Rightarrow> 'e \<Rightarrow> 's \<times> 'o list) \<Rightarrow> 's \<Rightarrow> 'e list \<Rightarrow> 's \<times> 'o list" where
  "run_events step s [] = (s, [])"
| "run_events step s (e # es) =
     (let (s1, o1) = step s e; (s2, o2) = run_events step s1 es in (s2, o1 @ o2))"

lemma run_events_append:
  "run_events step s (es @ fs) =
     (let (s1, o1) = run_events step s es; (s2, o2) = run_events step s1 fs in (s2, o1 @ o2))"
  by (induction es arbitrary: s) (auto simp: Let_def split: prod.splits)

locale machine =
  fixes init :: 's
    and step :: "'s \<Rightarrow> 'e \<Rightarrow> 's \<times> 'o list"
    and inv :: "'s \<Rightarrow> bool"
  assumes inv_init: "inv init"
    and inv_step: "inv s \<Longrightarrow> inv (fst (step s e))"
begin

lemma inv_run_from: "inv s \<Longrightarrow> inv (fst (run_events step s es))"
proof (induction es arbitrary: s)
  case Nil
  then show ?case by simp
next
  case (Cons e es)
  from Cons.prems have "inv (fst (step s e))" by (rule inv_step)
  then have "inv (fst (run_events step (fst (step s e)) es))" by (rule Cons.IH)
  then show ?case by (simp add: case_prod_beta)
qed

lemma inv_run: "inv (fst (run_events step init es))"
  by (rule inv_run_from) (rule inv_init)

text \<open>An output property that every step from an invariant state has holds of the whole run.\<close>

lemma outputs_run_from:
  assumes "\<And>s e x. inv s \<Longrightarrow> x \<in> set (snd (step s e)) \<Longrightarrow> Q x"
    and "inv s" and "x \<in> set (snd (run_events step s es))"
  shows "Q x"
  using assms(2,3)
proof (induction es arbitrary: s)
  case Nil
  then show ?case by simp
next
  case (Cons e es)
  from Cons.prems(2) consider "x \<in> set (snd (step s e))"
    | "x \<in> set (snd (run_events step (fst (step s e)) es))"
    by (auto simp: case_prod_beta)
  then show ?case
  proof cases
    case 1
    with assms(1) Cons.prems(1) show ?thesis by blast
  next
    case 2
    with Cons.IH inv_step [OF Cons.prems(1)] show ?thesis by blast
  qed
qed

end

text \<open>
  A potential bounds the outputs of one kind: an event adds at most its cost to it, and every
  such output takes one unit from it.
\<close>

locale metered = machine init step inv
  for init :: 's and step :: "'s \<Rightarrow> 'e \<Rightarrow> 's \<times> 'o list" and inv :: "'s \<Rightarrow> bool" +
  fixes counted :: "'o \<Rightarrow> bool"
    and potential :: "'s \<Rightarrow> nat"
    and cost :: "'e \<Rightarrow> nat"
  assumes potential_step:
    "inv s \<Longrightarrow> length (filter counted (snd (step s e))) + potential (fst (step s e)) \<le>
       potential s + cost e"
begin

lemma counted_run_from:
  "inv s \<Longrightarrow> length (filter counted (snd (run_events step s es))) \<le>
     potential s + sum_list (map cost es)"
proof (induction es arbitrary: s)
  case (Cons e es)
  from Cons.IH [OF inv_step [OF Cons.prems, of e]] potential_step [OF Cons.prems, of e]
  show ?case by (simp add: case_prod_beta)
qed simp

lemma counted_run:
  "length (filter counted (snd (run_events step init es))) \<le> potential init + sum_list (map cost es)"
  by (rule counted_run_from) (rule inv_init)

end

end
