(* ===== verification/JsString.thy ===== *)
theory JsString
  imports Prelude "HOL-Library.List_Lexorder"
begin

text \<open>
  JavaScript strings. A string is the list of its UTF-16 code units (natural numbers), which
  is what \<open>length\<close>, \<open>slice\<close>, \<open>indexOf\<close>, \<open>===\<close> and the default sort order are defined on; the
  function \<open>js\<close> turns an ASCII literal into one. The order on strings is the lexicographic
  order of code units (\<open>HOL-Library.List_Lexorder\<close>), as in \<open>Array.prototype.sort\<close>.
\<close>

type_synonym jstring = "nat list"

definition js :: "string \<Rightarrow> jstring" where
  "js s = map of_char s"

lemma js_Nil [simp, js_lit]: "js [] = []"
  by (simp add: js_def)

lemma js_Cons [js_lit]: "js (c # cs) = of_char c # js cs"
  by (simp add: js_def)

lemma js_append: "js (s @ t) = js s @ js t"
  by (simp add: js_def)

lemma length_js [simp]: "length (js s) = length s"
  by (simp add: js_def)

lemma js_inj [simp]: "js s = js t \<longleftrightarrow> s = t"
proof -
  have "inj (of_char :: char \<Rightarrow> nat)"
    by (rule inj_of_char)
  then show ?thesis
    by (simp add: js_def inj_map_eq_map)
qed

lemma js_eq_Nil [simp]: "js s = [] \<longleftrightarrow> s = []" "[] = js s \<longleftrightarrow> s = []"
  by (auto simp: js_def)


section \<open>White space and trimming\<close>

text \<open>The white space and line terminators of ECMAScript, which \<open>trim\<close> and \<open>\s\<close> use.\<close>

definition is_ws :: "nat \<Rightarrow> bool" where
  "is_ws u \<longleftrightarrow> (9 \<le> u \<and> u \<le> 13) \<or> u = 32 \<or> u = 160 \<or> u = 5760 \<or> (8192 \<le> u \<and> u \<le> 8202) \<or>
     u = 8232 \<or> u = 8233 \<or> u = 8239 \<or> u = 8287 \<or> u = 12288 \<or> u = 65279"

definition trimStart :: "jstring \<Rightarrow> jstring" where
  "trimStart s = dropWhile is_ws s"

definition trimEnd :: "jstring \<Rightarrow> jstring" where
  "trimEnd s = rev (dropWhile is_ws (rev s))"

definition trim :: "jstring \<Rightarrow> jstring" where
  "trim s = trimEnd (trimStart s)"

lemma trim_Nil [simp]: "trim [] = []"
  by (simp add: trim_def trimStart_def trimEnd_def)

lemma dropWhile_rev_Cons:
  "\<not> P x \<Longrightarrow> rev (dropWhile P (rev (x # xs))) = x # rev (dropWhile P (rev xs))"
  by (simp add: dropWhile_append3)

lemma trim_hd: "trim s \<noteq> [] \<Longrightarrow> \<not> is_ws (hd (trim s))"
proof -
  assume ne: "trim s \<noteq> []"
  have ds: "dropWhile is_ws s \<noteq> []"
  proof
    assume "dropWhile is_ws s = []"
    with ne show False by (simp add: trim_def trimStart_def trimEnd_def)
  qed
  then obtain x xs where x: "dropWhile is_ws s = x # xs" by (cases "dropWhile is_ws s") auto
  have nx: "\<not> is_ws x" using hd_dropWhile [OF ds] x by simp
  then show ?thesis
    by (simp add: trim_def trimStart_def trimEnd_def x dropWhile_append3)
qed

lemma trim_last: "trim s \<noteq> [] \<Longrightarrow> \<not> is_ws (last (trim s))"
proof -
  assume ne: "trim s \<noteq> []"
  let ?d = "dropWhile is_ws (rev (trimStart s))"
  from ne have ds: "?d \<noteq> []" by (auto simp: trim_def trimEnd_def)
  then have "\<not> is_ws (hd ?d)" by (rule hd_dropWhile)
  with ds show ?thesis by (simp add: trim_def trimEnd_def last_rev)
qed

text \<open>Trimming leaves a string alone that neither starts nor ends with white space.\<close>

lemma trim_id: "s = [] \<or> (\<not> is_ws (hd s) \<and> \<not> is_ws (last s)) \<Longrightarrow> trim s = s"
proof -
  assume a: "s = [] \<or> (\<not> is_ws (hd s) \<and> \<not> is_ws (last s))"
  show ?thesis
  proof (cases "s = []")
    case False
    with a have h: "\<not> is_ws (hd s)" and l: "\<not> is_ws (last s)" by auto
    from False h have 1: "dropWhile is_ws s = s" by (cases s) auto
    from False l have 2: "dropWhile is_ws (rev s) = rev s"
      by (cases s rule: rev_cases) auto
    show ?thesis by (simp add: trim_def trimStart_def trimEnd_def 1 2)
  qed simp
qed

lemma trim_eq_Nil: "trim s = [] \<longleftrightarrow> list_all is_ws s"
  by (auto simp: trim_def trimStart_def trimEnd_def list_all_iff dropWhile_eq_Nil_conv
      dest: set_dropWhileD) (metis dropWhile_eq_Nil_conv hd_dropWhile list.set_sel(1))

lemma trim_trim [simp]: "trim (trim s) = trim s"
  using trim_id trim_hd trim_last by blast

lemma trim_no_ws: "list_all (\<lambda>u. \<not> is_ws u) s \<Longrightarrow> trim s = s"
  by (rule trim_id) (auto simp: list_all_iff)

lemma set_trim: "set (trim s) \<subseteq> set s"
proof -
  have "set (dropWhile P xs) \<subseteq> set xs" for P :: "nat \<Rightarrow> bool" and xs
    using set_dropWhileD by fastforce
  then show ?thesis
    unfolding trim_def trimStart_def trimEnd_def set_rev by (metis set_rev subset_trans)
qed


section \<open>Searching, splitting and joining\<close>

definition startsWith :: "jstring \<Rightarrow> jstring \<Rightarrow> bool" where
  "startsWith s p \<longleftrightarrow> take (length p) s = p"

definition endsWith :: "jstring \<Rightarrow> jstring \<Rightarrow> bool" where
  "endsWith s p \<longleftrightarrow> length p \<le> length s \<and> drop (length s - length p) s = p"

text \<open>\<open>s.indexOf(p)\<close>, with \<open>None\<close> for \<open>-1\<close>.\<close>

fun indexOf :: "jstring \<Rightarrow> jstring \<Rightarrow> nat option" where
  "indexOf p [] = (if p = [] then Some 0 else None)"
| "indexOf p (u # s) =
     (if startsWith (u # s) p then Some 0 else map_option Suc (indexOf p s))"

definition js_includes :: "jstring \<Rightarrow> jstring \<Rightarrow> bool" where
  "js_includes s p \<longleftrightarrow> indexOf p s \<noteq> None"

text \<open>\<open>s.split(c)\<close> for a separator of one code unit, and \<open>xs.join(sep)\<close>.\<close>

fun split_on :: "nat \<Rightarrow> jstring \<Rightarrow> jstring list" where
  "split_on c [] = [[]]"
| "split_on c (u # s) =
     (if u = c then [] # split_on c s
      else (case split_on c s of [] \<Rightarrow> [[u]] | t # ts \<Rightarrow> (u # t) # ts))"

fun join :: "jstring \<Rightarrow> jstring list \<Rightarrow> jstring" where
  "join sep [] = []"
| "join sep [x] = x"
| "join sep (x # y # ys) = x @ sep @ join sep (y # ys)"

lemma startsWith_append [simp]: "startsWith (p @ s) p"
  by (simp add: startsWith_def)

lemma startsWith_iff: "startsWith s p \<longleftrightarrow> (\<exists>t. s = p @ t)"
  by (metis append_eq_conv_conj startsWith_def append_take_drop_id)

lemma indexOf_Some_split:
  "indexOf p s = Some i \<Longrightarrow> i \<le> length s \<and> startsWith (drop i s) p"
  by (induction s arbitrary: i) (auto simp: startsWith_def split: if_splits)

lemma indexOf_infix: "indexOf p (a @ p @ b) \<noteq> None"
proof (induction a)
  case Nil
  show ?case using startsWith_append [of p b] by (cases "p @ b") auto
qed auto

lemma js_includes_iff: "js_includes s p \<longleftrightarrow> (\<exists>a b. s = a @ p @ b)"
proof
  assume "js_includes s p"
  then obtain i where "indexOf p s = Some i" by (auto simp: js_includes_def)
  then have "startsWith (drop i s) p" by (simp add: indexOf_Some_split)
  then obtain b where "drop i s = p @ b" by (auto simp: startsWith_iff)
  then have "s = take i s @ p @ b" by (metis append_take_drop_id)
  then show "\<exists>a b. s = a @ p @ b" by blast
qed (use indexOf_infix in \<open>auto simp: js_includes_def\<close>)

lemma split_on_ne [simp]: "split_on c s \<noteq> []"
  by (induction s) (auto split: list.splits)

lemma split_on_no_sep: "c \<notin> set s \<Longrightarrow> split_on c s = [s]"
  by (induction s) auto

lemma split_on_append:
  "c \<notin> set s \<Longrightarrow> split_on c (s @ c # t) = s # split_on c t"
  by (induction s) auto

text \<open>Splitting at the separator undoes joining pieces that do not contain it.\<close>

lemma split_on_join:
  "xs \<noteq> [] \<Longrightarrow> \<forall>x\<in>set xs. c \<notin> set x \<Longrightarrow> split_on c (join [c] xs) = xs"
proof (induction xs rule: induct_list012)
  case (3 x y zs)
  then show ?case by (simp add: split_on_append)
qed (auto simp: split_on_no_sep)

lemma join_split_on [simp]: "join [c] (split_on c s) = s"
proof (induction s)
  case (Cons u s)
  then show ?case
    by (cases "split_on c s"; cases "tl (split_on c s)") (auto simp: neq_Nil_conv)
qed simp

lemma join_eq_Nil: "sep \<noteq> [] \<Longrightarrow> join sep xs = [] \<longleftrightarrow> xs = [] \<or> xs = [[]]"
  by (induction xs rule: induct_list012) auto


section \<open>Decimal numerals\<close>

definition is_digit :: "nat \<Rightarrow> bool" where
  "is_digit u \<longleftrightarrow> 48 \<le> u \<and> u \<le> 57"

text \<open>The regular expression \<open>/^\d+$/\<close>, and \<open>Number.parseInt(s, 10)\<close> on such a string.\<close>

definition all_digits :: "jstring \<Rightarrow> bool" where
  "all_digits s \<longleftrightarrow> s \<noteq> [] \<and> list_all is_digit s"

definition digits_val :: "jstring \<Rightarrow> nat" where
  "digits_val s = foldl (\<lambda>n d. n * 10 + (d - 48)) 0 s"

fun show_nat :: "nat \<Rightarrow> jstring" where
  "show_nat n = (if n < 10 then [48 + n] else show_nat (n div 10) @ [48 + n mod 10])"

declare show_nat.simps [simp del]

definition show_int :: "int \<Rightarrow> jstring" where
  "show_int i = (if i < 0 then 45 # show_nat (nat (- i)) else show_nat (nat i))"

lemma show_nat_ne [simp]: "show_nat n \<noteq> []"
  by (subst show_nat.simps) simp

lemma show_nat_digits: "list_all is_digit (show_nat n)"
proof (induction n rule: show_nat.induct)
  case (1 n)
  show ?case
  proof (cases "n < 10")
    case True
    then show ?thesis by (subst show_nat.simps) (simp add: is_digit_def)
  next
    case False
    with "1.IH" have "list_all is_digit (show_nat (n div 10))" by simp
    with False show ?thesis by (subst show_nat.simps) (simp add: is_digit_def)
  qed
qed

lemma all_digits_show_nat [simp]: "all_digits (show_nat n)"
  by (simp add: all_digits_def show_nat_digits)

lemma digits_val_snoc: "digits_val (s @ [d]) = digits_val s * 10 + (d - 48)"
  by (simp add: digits_val_def)

lemma digits_val_show_nat [simp]: "digits_val (show_nat n) = n"
proof (induction n rule: show_nat.induct)
  case (1 n)
  show ?case
  proof (cases "n < 10")
    case True
    then show ?thesis by (subst show_nat.simps) (simp add: digits_val_def)
  next
    case False
    with "1.IH" have "digits_val (show_nat (n div 10)) = n div 10" by simp
    with False show ?thesis by (subst show_nat.simps) (simp add: digits_val_snoc)
  qed
qed

lemma show_nat_inj [simp]: "show_nat m = show_nat n \<longleftrightarrow> m = n"
  by (metis digits_val_show_nat)

lemma digit_not_ws: "is_digit u \<Longrightarrow> \<not> is_ws u"
  by (auto simp: is_digit_def is_ws_def)

lemma show_nat_no_ws: "list_all (\<lambda>u. \<not> is_ws u) (show_nat n)"
  using show_nat_digits [of n] by (auto simp: list_all_iff digit_not_ws)

lemma show_nat_not_in: "\<not> is_digit u \<Longrightarrow> u \<notin> set (show_nat n)"
  using show_nat_digits [of n] by (auto simp: list_all_iff)

lemma show_nat_hd: "is_digit (hd (show_nat n))"
  using show_nat_digits [of n] show_nat_ne [of n] by (cases "show_nat n") auto

text \<open>ASCII lower case, which decides comparisons of \<open>toLowerCase()\<close> with ASCII words.\<close>

definition lower_unit :: "nat \<Rightarrow> nat" where
  "lower_unit u = (if 65 \<le> u \<and> u \<le> 90 then u + 32 else u)"

definition toLowerCase :: "jstring \<Rightarrow> jstring" where
  "toLowerCase s = map lower_unit s"

end
