(* ===== verification/JsObject.thy ===== *)
theory JsObject
  imports JsString
begin

text \<open>
  JavaScript objects used as dictionaries, and \<open>Map\<close>s keyed by strings: association lists in
  enumeration order (\<open>Object.keys\<close>, \<open>Object.entries\<close>). Own properties only: the members of
  \<open>Object.prototype\<close> are not looked up. Canonical array indices come first, in ascending
  order, then the other keys in insertion order; writing to a key keeps its position.
\<close>

type_synonym 'v jobj = "(jstring \<times> 'v) list"

definition arr_index :: "jstring \<Rightarrow> bool" where
  "arr_index k \<longleftrightarrow> all_digits k \<and> show_nat (digits_val k) = k \<and> digits_val k < 2 ^ 32 - 1"

definition obj_get :: "'v jobj \<Rightarrow> jstring \<Rightarrow> 'v option" where
  "obj_get ob k = map_of ob k"

definition obj_keys :: "'v jobj \<Rightarrow> jstring list" where
  "obj_keys ob = map fst ob"

fun obj_insert :: "jstring \<Rightarrow> 'v \<Rightarrow> 'v jobj \<Rightarrow> 'v jobj" where
  "obj_insert k v [] = [(k, v)]"
| "obj_insert k v ((k', v') # ob) =
     (if arr_index k \<and> (\<not> arr_index k' \<or> digits_val k < digits_val k')
      then (k, v) # (k', v') # ob else (k', v') # obj_insert k v ob)"

text \<open>\<open>ob[k] = v\<close> and \<open>delete ob[k]\<close>.\<close>

definition obj_put :: "jstring \<Rightarrow> 'v \<Rightarrow> 'v jobj \<Rightarrow> 'v jobj" where
  "obj_put k v ob =
     (if k \<in> set (obj_keys ob) then map (\<lambda>(k', v'). if k' = k then (k, v) else (k', v')) ob
      else obj_insert k v ob)"

definition obj_del :: "jstring \<Rightarrow> 'v jobj \<Rightarrow> 'v jobj" where
  "obj_del k ob = filter (\<lambda>(k', v'). k' \<noteq> k) ob"

text \<open>\<open>{...a, ...b}\<close>: the entries of \<open>b\<close> written over \<open>a\<close> in order.\<close>

definition obj_spread :: "'v jobj \<Rightarrow> 'v jobj \<Rightarrow> 'v jobj" where
  "obj_spread a b = foldl (\<lambda>ob (k, v). obj_put k v ob) a b"

definition key_before :: "jstring \<Rightarrow> jstring \<Rightarrow> bool" where
  "key_before a b \<longleftrightarrow> (arr_index b \<longrightarrow> arr_index a \<and> digits_val a < digits_val b)"

definition obj_wf :: "'v jobj \<Rightarrow> bool" where
  "obj_wf ob \<longleftrightarrow> distinct (obj_keys ob) \<and> sorted_wrt key_before (obj_keys ob)"


section \<open>The dictionary interface\<close>

locale dictionary =
  fixes wf :: "'d \<Rightarrow> bool"
    and get :: "'d \<Rightarrow> 'k \<Rightarrow> 'v option"
    and put :: "'k \<Rightarrow> 'v \<Rightarrow> 'd \<Rightarrow> 'd"
    and del :: "'k \<Rightarrow> 'd \<Rightarrow> 'd"
  assumes get_put: "get (put k v d) = (get d)(k \<mapsto> v)"
    and get_del: "get (del k d) = (get d)(k := None)"
    and wf_put: "wf d \<Longrightarrow> wf (put k v d)"
    and wf_del: "wf d \<Longrightarrow> wf (del k d)"
begin

text \<open>Writing a list of entries: the last write to a key wins, other keys keep their value.\<close>

lemma get_put_all:
  "get (foldl (\<lambda>d (k, v). put k v d) d es) k =
     (case map_of (rev es) k of None \<Rightarrow> get d k | Some v \<Rightarrow> Some v)"
proof (induction es arbitrary: d)
  case (Cons e es)
  then show ?case
    by (cases e) (auto simp: get_put map_add_def split: option.splits)
qed simp

lemma wf_put_all: "wf d \<Longrightarrow> wf (foldl (\<lambda>d (k, v). put k v d) d es)"
  by (induction es arbitrary: d) (auto simp: wf_put)

lemma get_del_all:
  "get (foldl (\<lambda>d k. del k d) d ks) k = (if k \<in> set ks then None else get d k)"
  by (induction ks arbitrary: d) (auto simp: get_del)

lemma wf_del_all: "wf d \<Longrightarrow> wf (foldl (\<lambda>d k. del k d) d ks)"
  by (induction ks arbitrary: d) (auto simp: wf_del)

end

lemma set_keys_obj_insert: "set (obj_keys (obj_insert k v ob)) = insert k (set (obj_keys ob))"
proof (induction ob)
  case (Cons e ob)
  then show ?case by (cases e) (simp add: obj_keys_def insert_commute)
qed (simp add: obj_keys_def)

lemma keys_obj_put_mem:
  "k \<in> set (obj_keys ob) \<Longrightarrow> obj_keys (obj_put k v ob) = obj_keys ob"
  by (auto simp: obj_put_def obj_keys_def)

lemma set_keys_obj_put [simp]: "set (obj_keys (obj_put k v ob)) = insert k (set (obj_keys ob))"
proof (cases "k \<in> set (obj_keys ob)")
  case True
  then show ?thesis by (simp add: keys_obj_put_mem insert_absorb)
next
  case False
  then show ?thesis by (simp add: obj_put_def set_keys_obj_insert)
qed

lemma map_of_obj_insert:
  "k \<notin> set (obj_keys ob) \<Longrightarrow> map_of (obj_insert k v ob) = (map_of ob)(k \<mapsto> v)"
  by (induction ob) (auto simp: obj_keys_def fun_upd_twist)

lemma map_of_replace:
  "k \<in> fst ` set ob \<Longrightarrow>
     map_of (map (\<lambda>(k', v'). if k' = k then (k, v) else (k', v')) ob) = (map_of ob)(k \<mapsto> v)"
proof (induction ob)
  case (Cons e ob)
  have idem: "k \<notin> fst ` set ob \<Longrightarrow>
      map (\<lambda>(k', v'). if k' = k then (k, v) else (k', v')) ob = ob"
    by (induction ob) auto
  show ?case
  proof (cases "k \<in> fst ` set ob")
    case True
    with Cons show ?thesis by (cases e) (auto simp: fun_eq_iff)
  next
    case False
    with Cons.prems idem show ?thesis by (cases e) (auto simp: fun_eq_iff)
  qed
qed simp

lemma obj_get_put: "obj_get (obj_put k v ob) = (obj_get ob)(k \<mapsto> v)"
  by (rule ext, cases "k \<in> set (obj_keys ob)")
    (auto simp: obj_get_def obj_put_def map_of_obj_insert obj_keys_def map_of_replace)

lemma obj_get_del: "obj_get (obj_del k ob) = (obj_get ob)(k := None)"
proof
  fix x
  show "obj_get (obj_del k ob) x = ((obj_get ob)(k := None)) x"
    by (induction ob) (auto simp: obj_get_def obj_del_def)
qed

lemma key_before_trans: "key_before a b \<Longrightarrow> key_before b c \<Longrightarrow> key_before a c"
  by (auto simp: key_before_def)

lemma obj_wf_insert:
  "obj_wf ob \<Longrightarrow> k \<notin> set (obj_keys ob) \<Longrightarrow> obj_wf (obj_insert k v ob)"
proof (induction ob)
  case (Cons e ob)
  obtain k' v' where e: "e = (k', v')" by (cases e)
  from Cons.prems e have wf: "obj_wf ob" and kn: "k \<notin> set (obj_keys ob)" "k \<noteq> k'"
    and k': "k' \<notin> set (obj_keys ob)" "\<forall>b\<in>set (obj_keys ob). key_before k' b"
    by (auto simp: obj_wf_def obj_keys_def)
  have neq: "arr_index k \<Longrightarrow> arr_index k' \<Longrightarrow> digits_val k \<noteq> digits_val k'"
    using kn(2) by (metis arr_index_def)
  show ?case
  proof (cases "arr_index k \<and> (\<not> arr_index k' \<or> digits_val k < digits_val k')")
    case True
    then have kk: "key_before k k'" by (auto simp: key_before_def)
    with k'(2) have "\<forall>b\<in>set (obj_keys ob). key_before k b" by (blast intro: key_before_trans)
    with True kk kn k' wf Cons.prems e show ?thesis by (auto simp: obj_wf_def obj_keys_def)
  next
    case False
    with neq have "key_before k' k" by (force simp: key_before_def)
    moreover from Cons.IH wf kn(1) have "obj_wf (obj_insert k v ob)" by blast
    ultimately show ?thesis using False e k' kn(2) set_keys_obj_insert [of k v ob]
      by (auto simp: obj_wf_def obj_keys_def)
  qed
qed (simp add: obj_wf_def obj_keys_def)

lemma obj_wf_put: "obj_wf ob \<Longrightarrow> obj_wf (obj_put k v ob)"
proof (cases "k \<in> set (obj_keys ob)")
  case True
  assume "obj_wf ob"
  with keys_obj_put_mem [OF True] show ?thesis by (simp add: obj_wf_def)
next
  case False
  assume "obj_wf ob"
  with False show ?thesis by (simp add: obj_put_def obj_wf_insert)
qed

lemma keys_obj_del: "obj_keys (obj_del k ob) = filter (\<lambda>x. x \<noteq> k) (obj_keys ob)"
  by (induction ob) (auto simp: obj_keys_def obj_del_def)

lemma obj_wf_del: "obj_wf ob \<Longrightarrow> obj_wf (obj_del k ob)"
  by (auto simp: obj_wf_def keys_obj_del intro: sorted_wrt_filter)

interpretation obj: dictionary obj_wf obj_get obj_put obj_del
  by unfold_locales (simp_all add: obj_get_put obj_get_del obj_wf_put obj_wf_del)

lemma obj_wf_Nil [simp]: "obj_wf []"
  by (simp add: obj_wf_def obj_keys_def)

lemma obj_get_Nil [simp]: "obj_get [] k = None"
  by (simp add: obj_get_def)

lemma obj_get_Cons [simp]: "obj_get (e # ob) k = (if k = fst e then Some (snd e) else obj_get ob k)"
  by (cases e) (auto simp: obj_get_def)

lemma obj_get_Some_mem: "obj_get ob k = Some v \<Longrightarrow> (k, v) \<in> set ob"
  by (simp add: obj_get_def map_of_SomeD)

lemma obj_get_mem_iff: "obj_wf ob \<Longrightarrow> obj_get ob k = Some v \<longleftrightarrow> (k, v) \<in> set ob"
  by (auto simp: obj_get_def obj_wf_def obj_keys_def)

lemma obj_get_None_iff: "obj_get ob k = None \<longleftrightarrow> k \<notin> set (obj_keys ob)"
  by (auto simp: obj_get_def obj_keys_def map_of_eq_None_iff)

lemma obj_get_spread:
  "obj_get (obj_spread a b) k =
     (case map_of (rev b) k of None \<Rightarrow> obj_get a k | Some v \<Rightarrow> Some v)"
  unfolding obj_spread_def by (rule obj.get_put_all)

lemma obj_get_spread_distinct:
  "distinct (obj_keys b) \<Longrightarrow>
     obj_get (obj_spread a b) k = (case obj_get b k of None \<Rightarrow> obj_get a k | Some v \<Rightarrow> Some v)"
proof -
  assume "distinct (obj_keys b)"
  then have "map_of (rev b) = map_of b"
    unfolding obj_keys_def by (metis map_of_inject_set rev_map distinct_rev set_rev)
  then show ?thesis by (simp add: obj_get_spread) (simp add: obj_get_def)
qed

lemma obj_get_spread_wf:
  "obj_wf b \<Longrightarrow>
     obj_get (obj_spread a b) k = (case obj_get b k of None \<Rightarrow> obj_get a k | Some v \<Rightarrow> Some v)"
  by (simp add: obj_get_spread_distinct obj_wf_def)

lemma obj_wf_spread: "obj_wf a \<Longrightarrow> obj_wf (obj_spread a b)"
  unfolding obj_spread_def by (rule obj.wf_put_all)

text \<open>Adding entries in enumeration order rebuilds the object: \<open>{...ob}\<close> is a copy.\<close>

lemma obj_insert_last:
  "\<forall>a\<in>set (obj_keys ob). key_before a k \<and> a \<noteq> k \<Longrightarrow> obj_insert k v ob = ob @ [(k, v)]"
proof (induction ob)
  case (Cons e ob)
  obtain k' v' where e: "e = (k', v')" by (cases e)
  from Cons.prems e have "key_before k' k" by (simp add: obj_keys_def)
  then have "\<not> (arr_index k \<and> (\<not> arr_index k' \<or> digits_val k < digits_val k'))"
    by (auto simp: key_before_def)
  then show ?case using Cons e by (simp only: obj_insert.simps if_False) (simp add: obj_keys_def)
qed simp

lemma put_all_append:
  "obj_wf (a @ b) \<Longrightarrow> foldl (\<lambda>ob (k, v). obj_put k v ob) a b = a @ b"
proof (induction b arbitrary: a)
  case (Cons e b)
  obtain k v where e: "e = (k, v)" by (cases e)
  from Cons.prems e have k: "\<forall>x\<in>set (obj_keys a). key_before x k \<and> x \<noteq> k"
    by (auto simp: obj_wf_def obj_keys_def sorted_wrt_append)
  then have "obj_put k v a = a @ [(k, v)]"
    by (auto simp: obj_put_def obj_insert_last)
  with Cons.IH [of "a @ [(k, v)]"] Cons.prems e show ?case by simp
qed simp

lemma obj_spread_Nil: "obj_wf b \<Longrightarrow> obj_spread [] b = b"
  by (simp add: obj_spread_def put_all_append)


section \<open>Maps\<close>

text \<open>\<open>map.set(k, v)\<close> on a \<open>Map\<close>: entries stay in insertion order, whatever the key;
  \<open>map.get\<close> and \<open>map.delete\<close> are as for objects.\<close>

definition map_put :: "jstring \<Rightarrow> 'v \<Rightarrow> 'v jobj \<Rightarrow> 'v jobj" where
  "map_put k v m =
     (if k \<in> set (obj_keys m) then map (\<lambda>(k', v'). if k' = k then (k, v) else (k', v')) m
      else m @ [(k, v)])"

lemma map_get_put: "obj_get (map_put k v m) = (obj_get m)(k \<mapsto> v)"
proof
  fix x
  show "obj_get (map_put k v m) x = ((obj_get m)(k \<mapsto> v)) x"
  proof (cases "k \<in> set (obj_keys m)")
    case True
    then show ?thesis by (simp add: map_put_def obj_get_def obj_keys_def map_of_replace)
  next
    case False
    then have "map_of m k = None" by (simp add: obj_keys_def map_of_eq_None_iff)
    with False show ?thesis by (auto simp: map_put_def obj_get_def map_add_def split: option.split)
  qed
qed

lemma keys_map_put: "obj_keys (map_put k v m) = (if k \<in> set (obj_keys m) then obj_keys m else obj_keys m @ [k])"
  by (auto simp: map_put_def obj_keys_def)

interpretation jmap: dictionary "\<lambda>m. distinct (obj_keys m)" obj_get map_put obj_del
  by unfold_locales (auto simp: map_get_put obj_get_del keys_map_put keys_obj_del)

end
