(* ===== verification/JsJson.thy ===== *)
theory JsJson
  imports Complex_Main JsObject
begin

text \<open>
  JSON values and the two built-ins of the language the code uses on them, \<open>JSON.parse\<close> and
  \<open>JSON.stringify\<close>. A value of the source's type \<open>unknown\<close> is a \<open>json option\<close>, with \<open>None\<close>
  for \<open>undefined\<close>. Numbers are exact rationals: the rounding and overflow of IEEE doubles is
  not modelled. The parser is by recursive descent with fuel; \<open>json_parse_fuel\<close> shows that
  the fuel \<open>json_parse\<close> starts with is never exhausted.
\<close>

datatype json =
    JNull
  | JBool bool
  | JNum rat
  | JStr jstring
  | JArr "json list"
  | JObj "(jstring \<times> json) list"


section \<open>Reading properties of unknown values\<close>

text \<open>\<open>Object.entries\<close>: of an array or a string, its elements under their indices.\<close>

definition index_entries :: "'a list \<Rightarrow> 'a jobj" where
  "index_entries xs = map (\<lambda>(i, x). (show_nat i, x)) (zip [0..<length xs] xs)"

fun entries :: "json \<Rightarrow> json jobj" where
  "entries (JObj ob) = ob"
| "entries (JArr xs) = index_entries xs"
| "entries (JStr s) = index_entries (map (\<lambda>u. JStr [u]) s)"
| "entries _ = []"

text \<open>\<open>value[k]\<close> (\<open>None\<close> is \<open>undefined\<close>): an own property, the elements and the length of arrays
  and strings included.\<close>

fun jfield :: "json \<Rightarrow> jstring \<Rightarrow> json option" where
  "jfield (JObj ob) k = obj_get ob k"
| "jfield (JArr xs) k =
     (if k = js ''length'' then Some (JNum (of_nat (length xs))) else obj_get (index_entries xs) k)"
| "jfield (JStr s) k =
     (if k = js ''length'' then Some (JNum (of_nat (length s)))
      else obj_get (index_entries (map (\<lambda>u. JStr [u]) s)) k)"
| "jfield _ k = None"

definition jget :: "json option \<Rightarrow> jstring \<Rightarrow> json option" where
  "jget v k = Option.bind v (\<lambda>j. jfield j k)"

text \<open>\<open>Boolean(value)\<close>.\<close>

fun truthy :: "json option \<Rightarrow> bool" where
  "truthy None = False"
| "truthy (Some JNull) = False"
| "truthy (Some (JBool b)) = b"
| "truthy (Some (JNum q)) = (q \<noteq> 0)"
| "truthy (Some (JStr s)) = (s \<noteq> [])"
| "truthy (Some (JArr xs)) = True"
| "truthy (Some (JObj ob)) = True"

text \<open>\<open>typeof value === 'object'\<close> for a truthy value, and \<open>Array.isArray\<close>.\<close>

fun is_object :: "json option \<Rightarrow> bool" where
  "is_object (Some (JObj ob)) = True"
| "is_object (Some (JArr xs)) = True"
| "is_object _ = False"

fun is_array :: "json option \<Rightarrow> bool" where
  "is_array (Some (JArr xs)) = True"
| "is_array _ = False"

fun is_string :: "json option \<Rightarrow> bool" where
  "is_string (Some (JStr s)) = True"
| "is_string _ = False"

fun is_number :: "json option \<Rightarrow> bool" where
  "is_number (Some (JNum q)) = True"
| "is_number _ = False"

fun is_boolean :: "json option \<Rightarrow> bool" where
  "is_boolean (Some (JBool b)) = True"
| "is_boolean _ = False"

lemma jfield_entries: "k \<noteq> js ''length'' \<Longrightarrow> jfield v k = obj_get (entries v) k"
  by (cases v) auto

lemma obj_get_index_entries: "\<not> all_digits k \<Longrightarrow> obj_get (index_entries xs) k = None"
  using show_nat_digits by (auto simp: obj_get_None_iff obj_keys_def index_entries_def)


section \<open>JSON.parse\<close>

definition json_ws :: "nat \<Rightarrow> bool" where
  "json_ws u \<longleftrightarrow> u = 9 \<or> u = 10 \<or> u = 13 \<or> u = 32"

definition skip_ws :: "jstring \<Rightarrow> jstring" where
  "skip_ws s = dropWhile json_ws s"

definition hex_val :: "nat \<Rightarrow> nat option" where
  "hex_val u =
     (if 48 \<le> u \<and> u \<le> 57 then Some (u - 48)
      else if 97 \<le> u \<and> u \<le> 102 then Some (u - 87)
      else if 65 \<le> u \<and> u \<le> 70 then Some (u - 55) else None)"

definition hex4 :: "nat \<Rightarrow> nat \<Rightarrow> nat \<Rightarrow> nat \<Rightarrow> nat option" where
  "hex4 a b c d =
     (case (hex_val a, hex_val b, hex_val c, hex_val d) of
        (Some w, Some x, Some y, Some z) \<Rightarrow> Some (w * 4096 + x * 256 + y * 16 + z)
      | _ \<Rightarrow> None)"

definition unescape :: "nat \<Rightarrow> nat option" where
  "unescape e =
     (if e = 34 \<or> e = 92 \<or> e = 47 then Some e
      else if e = 98 then Some 8 else if e = 102 then Some 12
      else if e = 110 then Some 10 else if e = 114 then Some 13
      else if e = 116 then Some 9 else None)"

definition cons_unit :: "nat \<Rightarrow> (jstring \<times> jstring) option \<Rightarrow> (jstring \<times> jstring) option" where
  "cons_unit u r = map_option (\<lambda>(t, rest). (u # t, rest)) r"

text \<open>The characters of a string literal, after its opening quote.\<close>

fun p_chars :: "jstring \<Rightarrow> (jstring \<times> jstring) option" where
  "p_chars [] = None"
| "p_chars (u # s) =
     (if u = 34 then Some ([], s)
      else if u = 92 then
        (case s of
           [] \<Rightarrow> None
         | e # s1 \<Rightarrow>
             if e = 117 then
               (case s1 of
                  a # b # c # d # s2 \<Rightarrow>
                    (case hex4 a b c d of None \<Rightarrow> None | Some v \<Rightarrow> cons_unit v (p_chars s2))
                | _ \<Rightarrow> None)
             else (case unescape e of None \<Rightarrow> None | Some v \<Rightarrow> cons_unit v (p_chars s1)))
      else if u < 32 then None
      else cons_unit u (p_chars s))"

definition p_int :: "jstring \<Rightarrow> (jstring \<times> jstring) option" where
  "p_int s =
     (case s of
        [] \<Rightarrow> None
      | u # r \<Rightarrow>
          if u = 48 then Some ([48], r)
          else if is_digit u then Some (takeWhile is_digit s, dropWhile is_digit s)
          else None)"

definition p_digits :: "jstring \<Rightarrow> (jstring \<times> jstring) option" where
  "p_digits s =
     (if takeWhile is_digit s = [] then None
      else Some (takeWhile is_digit s, dropWhile is_digit s))"

definition p_frac :: "jstring \<Rightarrow> (jstring \<times> jstring) option" where
  "p_frac s = (case s of u # r \<Rightarrow> if u = 46 then p_digits r else Some ([], s) | [] \<Rightarrow> Some ([], s))"

definition p_exp :: "jstring \<Rightarrow> (int \<times> jstring) option" where
  "p_exp s =
     (case s of
        u # r \<Rightarrow>
          if u = 101 \<or> u = 69 then
            (let (neg, r1) = (case r of
                 v # r' \<Rightarrow> if v = 45 then (True, r') else if v = 43 then (False, r') else (False, r)
               | [] \<Rightarrow> (False, r))
             in map_option (\<lambda>(ds, rest).
                  (if neg then - int (digits_val ds) else int (digits_val ds), rest)) (p_digits r1))
          else Some (0, s)
      | [] \<Rightarrow> Some (0, s))"

definition num_value :: "bool \<Rightarrow> jstring \<Rightarrow> jstring \<Rightarrow> int \<Rightarrow> rat" where
  "num_value neg ds fs e =
     (let m = of_nat (digits_val (ds @ fs)) / 10 ^ length fs;
          q = (if e < 0 then m / 10 ^ nat (- e) else m * 10 ^ nat e)
      in if neg then - q else q)"

definition p_number :: "jstring \<Rightarrow> (rat \<times> jstring) option" where
  "p_number s =
     (let (neg, s1) = (case s of u # r \<Rightarrow> if u = 45 then (True, r) else (False, s) | [] \<Rightarrow> (False, s))
      in case p_int s1 of
           None \<Rightarrow> None
         | Some (ds, s2) \<Rightarrow>
             (case p_frac s2 of
                None \<Rightarrow> None
              | Some (fs, s3) \<Rightarrow>
                  (case p_exp s3 of
                     None \<Rightarrow> None
                   | Some (e, s4) \<Rightarrow> Some (num_value neg ds fs e, s4))))"

text \<open>A scalar: one of the three words or a number.\<close>

definition p_scalar :: "jstring \<Rightarrow> (json \<times> jstring) option" where
  "p_scalar s =
     (if startsWith s (js ''null'') then Some (JNull, drop 4 s)
      else if startsWith s (js ''true'') then Some (JBool True, drop 4 s)
      else if startsWith s (js ''false'') then Some (JBool False, drop 5 s)
      else map_option (\<lambda>(q, r). (JNum q, r)) (p_number s))"

definition obj_of_members :: "json jobj \<Rightarrow> json" where
  "obj_of_members kvs = JObj (obj_spread [] kvs)"

text \<open>The next token is the one-unit punctuator \<open>u\<close>: what follows it.\<close>

definition punct :: "nat \<Rightarrow> jstring \<Rightarrow> jstring option" where
  "punct u s = (case skip_ws s of v # r \<Rightarrow> if v = u then Some r else None | [] \<Rightarrow> None)"

fun p_value :: "nat \<Rightarrow> jstring \<Rightarrow> (json \<times> jstring) option"
  and p_elems :: "nat \<Rightarrow> jstring \<Rightarrow> (json list \<times> jstring) option"
  and p_members :: "nat \<Rightarrow> jstring \<Rightarrow> (json jobj \<times> jstring) option" where
  "p_value 0 s = None"
| "p_value (Suc n) s =
     (case punct 34 s of
        Some r \<Rightarrow> map_option (\<lambda>(t, r'). (JStr t, r')) (p_chars r)
      | None \<Rightarrow>
     (case punct 91 s of
        Some r \<Rightarrow>
          (case punct 93 r of
             Some r' \<Rightarrow> Some (JArr [], r')
           | None \<Rightarrow> map_option (\<lambda>(vs, r'). (JArr vs, r')) (p_elems n r))
      | None \<Rightarrow>
     (case punct 123 s of
        Some r \<Rightarrow>
          (case punct 125 r of
             Some r' \<Rightarrow> Some (JObj [], r')
           | None \<Rightarrow> map_option (\<lambda>(kvs, r'). (obj_of_members kvs, r')) (p_members n r))
      | None \<Rightarrow> p_scalar (skip_ws s))))"
| "p_elems 0 s = None"
| "p_elems (Suc n) s =
     (case p_value n s of
        None \<Rightarrow> None
      | Some (v, r) \<Rightarrow>
          (case punct 44 r of
             Some r' \<Rightarrow> map_option (\<lambda>(vs, r''). (v # vs, r'')) (p_elems n r')
           | None \<Rightarrow> map_option (\<lambda>r'. ([v], r')) (punct 93 r)))"
| "p_members 0 s = None"
| "p_members (Suc n) s =
     (case Option.bind (punct 34 s) p_chars of
        None \<Rightarrow> None
      | Some (k, r1) \<Rightarrow>
          (case Option.bind (punct 58 r1) (p_value n) of
             None \<Rightarrow> None
           | Some (v, r2) \<Rightarrow>
               (case punct 44 r2 of
                  Some r' \<Rightarrow> map_option (\<lambda>(kvs, r''). ((k, v) # kvs, r'')) (p_members n r')
                | None \<Rightarrow> map_option (\<lambda>r'. ([(k, v)], r')) (punct 125 r2))))"

text \<open>\<open>JSON.parse(s)\<close>, with \<open>None\<close> for the \<open>SyntaxError\<close> it throws.\<close>

definition parse_fuel :: "jstring \<Rightarrow> nat" where
  "parse_fuel s = 2 * length s + 2"

definition json_parse :: "jstring \<Rightarrow> json option" where
  "json_parse s =
     (case p_value (parse_fuel s) s of
        None \<Rightarrow> None
      | Some (v, r) \<Rightarrow> if skip_ws r = [] then Some v else None)"


section \<open>JSON.stringify\<close>

definition hex_digit :: "nat \<Rightarrow> nat" where
  "hex_digit n = (if n < 10 then 48 + n else 87 + n)"

definition esc_u :: "nat \<Rightarrow> jstring" where
  "esc_u u = [92, 117, hex_digit (u div 4096 mod 16), hex_digit (u div 256 mod 16),
              hex_digit (u div 16 mod 16), hex_digit (u mod 16)]"

definition esc_unit :: "nat \<Rightarrow> jstring" where
  "esc_unit u =
     (if u = 34 then [92, 34] else if u = 92 then [92, 92]
      else if u = 8 then [92, 98] else if u = 12 then [92, 102]
      else if u = 10 then [92, 110] else if u = 13 then [92, 114]
      else if u = 9 then [92, 116] else if u < 32 then esc_u u else [u])"

definition hi_surrogate :: "nat \<Rightarrow> bool" where
  "hi_surrogate u \<longleftrightarrow> 55296 \<le> u \<and> u \<le> 56319"

definition lo_surrogate :: "nat \<Rightarrow> bool" where
  "lo_surrogate u \<longleftrightarrow> 56320 \<le> u \<and> u \<le> 57343"

text \<open>Lone surrogates are escaped, pairs are copied.\<close>

fun quote_body :: "jstring \<Rightarrow> jstring" where
  "quote_body [] = []"
| "quote_body [u] = (if hi_surrogate u \<or> lo_surrogate u then esc_u u else esc_unit u)"
| "quote_body (u # v # s) =
     (if hi_surrogate u \<and> lo_surrogate v then u # v # quote_body s
      else (if hi_surrogate u \<or> lo_surrogate u then esc_u u else esc_unit u) @ quote_body (v # s))"

definition json_quote :: "jstring \<Rightarrow> jstring" where
  "json_quote s = 34 # quote_body s @ [34]"

text \<open>
  \<open>Number.prototype.toString\<close> on integers; \<open>nonint\<close> stands for the shortest decimal the
  language prints for other numbers.
\<close>

definition num_str :: "(rat \<Rightarrow> jstring) \<Rightarrow> rat \<Rightarrow> jstring" where
  "num_str nonint q = (if q = of_int \<lfloor>q\<rfloor> then show_int \<lfloor>q\<rfloor> else nonint q)"

fun stringify :: "(rat \<Rightarrow> jstring) \<Rightarrow> json \<Rightarrow> jstring"
  and str_elems :: "(rat \<Rightarrow> jstring) \<Rightarrow> json list \<Rightarrow> jstring"
  and str_members :: "(rat \<Rightarrow> jstring) \<Rightarrow> json jobj \<Rightarrow> jstring" where
  "stringify ni JNull = js ''null''"
| "stringify ni (JBool b) = (if b then js ''true'' else js ''false'')"
| "stringify ni (JNum q) = num_str ni q"
| "stringify ni (JStr s) = json_quote s"
| "stringify ni (JArr xs) = (if xs = [] then [91, 93] else 91 # str_elems ni xs)"
| "stringify ni (JObj ob) = (if ob = [] then [123, 125] else 123 # str_members ni ob)"
| "str_elems ni [] = [93]"
| "str_elems ni (x # xs) =
     stringify ni x @ (if xs = [] then [93] else 44 # str_elems ni xs)"
| "str_members ni [] = [125]"
| "str_members ni ((k, v) # ob) =
     json_quote k @ 58 # stringify ni v @ (if ob = [] then [125] else 44 # str_members ni ob)"


text \<open>\<open>String(v)\<close>: arrays are joined with commas, their \<open>null\<close> elements left out.\<close>

fun js_to_string :: "(rat \<Rightarrow> jstring) \<Rightarrow> json \<Rightarrow> jstring"
  and js_to_strings :: "(rat \<Rightarrow> jstring) \<Rightarrow> json list \<Rightarrow> jstring list" where
  "js_to_string ni JNull = js ''null''"
| "js_to_string ni (JBool b) = (if b then js ''true'' else js ''false'')"
| "js_to_string ni (JNum q) = num_str ni q"
| "js_to_string ni (JStr s) = s"
| "js_to_string ni (JArr xs) = join [44] (js_to_strings ni xs)"
| "js_to_string ni (JObj ob) = js ''[object Object]''"
| "js_to_strings ni [] = []"
| "js_to_strings ni (x # xs) =
     (if x = JNull then [] else js_to_string ni x) # js_to_strings ni xs"

text \<open>
  The test \<open>!parsed || typeof parsed !== 'object' || Array.isArray(parsed)\<close> that several callers
  make on a parsed text: its entries when the text is a JSON object, \<open>None\<close> when it does not
  parse or is anything else.
\<close>

definition parse_plain_object :: "jstring \<Rightarrow> json jobj option" where
  "parse_plain_object s = (case json_parse s of Some (JObj ob) \<Rightarrow> Some ob | _ \<Rightarrow> None)"


section \<open>The parser consumes its input, and its fuel suffices\<close>

lemma length_skip_ws: "length (skip_ws s) \<le> length s"
  by (simp add: skip_ws_def length_dropWhile_le)

lemma punct_len: "punct u s = Some r \<Longrightarrow> length r < length s"
  using length_skip_ws [of s] by (auto simp: punct_def split: list.splits if_splits)

lemma cons_unit_Some: "cons_unit u p = Some (t, r) \<longleftrightarrow> (\<exists>t'. t = u # t' \<and> p = Some (t', r))"
  by (auto simp: cons_unit_def)

lemma p_chars_len: "p_chars s = Some (t, r) \<Longrightarrow> length r < length s"
proof (induction s arbitrary: t r rule: p_chars.induct)
  case (2 u s)
  consider (quote) "u = 34" | (esc) e s1 v where "u = 92" "s = e # s1" "unescape e = Some v" "e \<noteq> 117"
    | (hex) a b c d s2 v where "u = 92" "s = 117 # a # b # c # d # s2" "hex4 a b c d = Some v"
    | (plain) "u \<noteq> 34" "u \<noteq> 92" "\<not> u < 32"
    using "2.prems" by (auto split: if_splits list.splits option.splits)
  then show ?case
  proof cases
    case quote
    with "2.prems" show ?thesis by simp
  next
    case esc
    with "2.prems" obtain t' where "p_chars s1 = Some (t', r)" by (auto simp: cons_unit_Some)
    with "2.IH"(2) esc have "length r < length s1" by simp
    with esc show ?thesis by simp
  next
    case hex
    with "2.prems" obtain t' where "p_chars s2 = Some (t', r)" by (auto simp: cons_unit_Some)
    with "2.IH"(1) hex have "length r < length s2" by simp
    with hex show ?thesis by simp
  next
    case plain
    with "2.prems" obtain t' where "p_chars s = Some (t', r)" by (auto simp: cons_unit_Some)
    with "2.IH"(3) plain have "length r < length s" by simp
    then show ?thesis by simp
  qed
qed simp

lemma p_digits_len: "p_digits s = Some (t, r) \<Longrightarrow> length r \<le> length s"
  by (auto simp: p_digits_def length_dropWhile_le split: if_splits)

lemma p_int_len: "p_int s = Some (t, r) \<Longrightarrow> length r < length s"
  by (auto simp: p_int_def length_dropWhile_le less_Suc_eq_le split: if_splits list.splits)

lemma p_frac_len: "p_frac s = Some (t, r) \<Longrightarrow> length r \<le> length s"
  by (auto simp: p_frac_def dest!: p_digits_len split: if_splits list.splits)

lemma p_exp_len: "p_exp s = Some (t, r) \<Longrightarrow> length r \<le> length s"
  by (fastforce simp: p_exp_def dest!: p_digits_len split: if_splits list.splits prod.splits)

lemma p_number_len:
  assumes "p_number s = Some (q, r)"
  shows "length r < length s"
proof -
  let ?s1 = "snd (case s of u # r \<Rightarrow> if u = 45 then (True, r) else (False, s) | [] \<Rightarrow> (False, s))"
  from assms obtain ds s2 fs s3 e where
    "p_int ?s1 = Some (ds, s2)" "p_frac s2 = Some (fs, s3)" "p_exp s3 = Some (e, r)"
    by (auto simp: p_number_def Let_def case_prod_beta split: option.splits)
  moreover have "length ?s1 \<le> length s" by (auto split: list.splits)
  ultimately show ?thesis
    using p_int_len p_frac_len p_exp_len by (meson le_less_trans le_trans less_le_trans)
qed

lemma p_scalar_len: "p_scalar s = Some (v, r) \<Longrightarrow> length r < length s"
proof -
  assume a: "p_scalar s = Some (v, r)"
  have w: "startsWith s p \<Longrightarrow> p \<noteq> [] \<Longrightarrow> length (drop (length p) s) < length s" for p
    by (auto simp: startsWith_iff)
  from a show ?thesis
    using w [of "js ''null''"] w [of "js ''true''"] w [of "js ''false''"]
    by (auto simp: p_scalar_def dest!: p_number_len split: if_splits)
qed

lemma p_value_Suc_Some:
  assumes "p_value (Suc n) s = Some (v, r)"
  obtains (str) r1 t where "punct 34 s = Some r1" "p_chars r1 = Some (t, r)" "v = JStr t"
    | (nil) u u' r1 where "punct u s = Some r1" "punct u' r1 = Some r" "v \<in> {JArr [], JObj []}"
    | (arr) r1 vs where "punct 91 s = Some r1" "p_elems n r1 = Some (vs, r)" "v = JArr vs"
    | (ob) r1 kvs where "punct 123 s = Some r1" "p_members n r1 = Some (kvs, r)"
        "v = obj_of_members kvs"
    | (scalar) "p_scalar (skip_ws s) = Some (v, r)"
  using assms by (auto split: option.splits)

lemma p_elems_Suc_Some:
  assumes "p_elems (Suc n) s = Some (vs, r)"
  obtains (more) v r1 r2 vs' where "p_value n s = Some (v, r1)" "punct 44 r1 = Some r2"
      "p_elems n r2 = Some (vs', r)" "vs = v # vs'"
    | (final) v r1 where "p_value n s = Some (v, r1)" "punct 93 r1 = Some r" "vs = [v]"
  using assms by (auto split: option.splits)

lemma p_members_Suc_Some:
  assumes "p_members (Suc n) s = Some (kvs, r)"
  obtains (more) r0 k r1 r2 v r3 r4 kvs' where "punct 34 s = Some r0" "p_chars r0 = Some (k, r1)"
      "punct 58 r1 = Some r2" "p_value n r2 = Some (v, r3)" "punct 44 r3 = Some r4"
      "p_members n r4 = Some (kvs', r)" "kvs = (k, v) # kvs'"
    | (final) r0 k r1 r2 v r3 where "punct 34 s = Some r0" "p_chars r0 = Some (k, r1)"
      "punct 58 r1 = Some r2" "p_value n r2 = Some (v, r3)" "punct 125 r3 = Some r" "kvs = [(k, v)]"
  using assms by (auto simp: option_bind_Some_iff split: option.splits)

lemmas token_len = punct_len p_chars_len p_scalar_len

lemma p_len:
  "p_value n s = Some (v, r) \<Longrightarrow> length r < length s"
  "p_elems n s = Some (vs, r) \<Longrightarrow> length r < length s"
  "p_members n s = Some (kvs, r) \<Longrightarrow> length r < length s"
proof (induction n arbitrary: s v r vs kvs)
  case (Suc n)
  { case 1
    then show ?case
    proof (cases rule: p_value_Suc_Some)
      case scalar
      then have "length r < length (skip_ws s)" by (rule p_scalar_len)
      then show ?thesis using length_skip_ws [of s] by linarith
    qed (auto dest!: Suc.IH token_len)
  next
    case 2
    then show ?case
      by (cases rule: p_elems_Suc_Some) (auto dest!: Suc.IH token_len)
  next
    case 3
    then show ?case
    proof (cases rule: p_members_Suc_Some)
      case (more r0 k r1 r2 v r3 r4 kvs')
      then have "length r < length r4" "length r4 < length r3" "length r3 < length r2"
        using Suc.IH token_len by blast+
      moreover have "length r2 < length r1" "length r1 < length r0" "length r0 < length s"
        using more token_len by blast+
      ultimately show ?thesis by linarith
    next
      case (final r0 k r1 r2 v r3)
      then have "length r < length r3" "length r3 < length r2"
        using Suc.IH token_len by blast+
      moreover have "length r2 < length r1" "length r1 < length r0" "length r0 < length s"
        using final token_len by blast+
      ultimately show ?thesis by linarith
    qed
  }
qed auto

lemma fuel_value_step:
  assumes "2 * length s \<le> n"
    and "\<And>r. 2 * length r + 1 < n \<Longrightarrow> p_elems m r = p_elems n r"
    and "\<And>r. 2 * length r + 1 < n \<Longrightarrow> p_members m r = p_members n r"
  shows "p_value (Suc m) s = p_value (Suc n) s"
proof -
  have "2 * length r + 1 < n" if "punct u s = Some r" for u r
    using punct_len [OF that] assms(1) by linarith
  then show ?thesis using assms(2,3) by (simp split: option.split)
qed

lemma fuel_elems_step:
  assumes "2 * length s + 1 \<le> n" and "p_value m s = p_value n s"
    and "\<And>r. 2 * length r + 1 < n \<Longrightarrow> p_elems m r = p_elems n r"
  shows "p_elems (Suc m) s = p_elems (Suc n) s"
proof (cases "p_value n s")
  case (Some vr)
  obtain v r where vr: "vr = (v, r)" by (cases vr)
  have "2 * length r' + 1 < n" if "punct 44 r = Some r'" for r'
    using p_len(1) [OF Some [unfolded vr]] punct_len [OF that] assms(1) by linarith
  then show ?thesis using Some vr assms(2,3) by (simp split: option.split)
qed (simp add: assms(2))

lemma fuel_members_step:
  assumes "2 * length s + 1 \<le> n"
    and "\<And>r. 2 * length r < n \<Longrightarrow> p_value m r = p_value n r"
    and "\<And>r. 2 * length r + 1 < n \<Longrightarrow> p_members m r = p_members n r"
  shows "p_members (Suc m) s = p_members (Suc n) s"
proof (cases "Option.bind (punct 34 s) p_chars")
  case (Some kr)
  then obtain r0 k r1 where r: "punct 34 s = Some r0" "p_chars r0 = Some (k, r1)" "kr = (k, r1)"
    by (cases kr) (auto simp: option_bind_Some_iff)
  note l1 = punct_len [OF r(1)] p_chars_len [OF r(2)]
  show ?thesis
  proof (cases "punct 58 r1")
    case None
    with Some r show ?thesis by simp
  next
    case r2: (Some r2)
    note l2 = punct_len [OF r2]
    have v: "p_value m r2 = p_value n r2" using l1 l2 assms(1) by (intro assms(2)) linarith
    have "p_members m r4 = p_members n r4"
      if "p_value n r2 = Some (v, r3)" "punct 44 r3 = Some r4" for v r3 r4
      using l1 l2 p_len(1) [OF that(1)] punct_len [OF that(2)] assms(1)
      by (intro assms(3)) linarith
    with Some r r2 v show ?thesis by (simp split: option.split)
  qed
qed simp

lemma fuel_mono:
  "2 * length s < n \<Longrightarrow> n \<le> m \<Longrightarrow> p_value m s = p_value n s"
  "2 * length s + 1 < n \<Longrightarrow> n \<le> m \<Longrightarrow> p_elems m s = p_elems n s"
  "2 * length s + 1 < n \<Longrightarrow> n \<le> m \<Longrightarrow> p_members m s = p_members n s"
proof (induction n arbitrary: m s)
  case (Suc n)
  { case 1
    then obtain m' where m: "m = Suc m'" "n \<le> m'" by (cases m) auto
    from 1 show ?case unfolding m(1)
      by (intro fuel_value_step Suc.IH(2,3) [OF _ m(2)]) simp_all
  next
    case 2
    then obtain m' where m: "m = Suc m'" "n \<le> m'" by (cases m) auto
    from 2 show ?case unfolding m(1)
      by (intro fuel_elems_step Suc.IH(1,2) [OF _ m(2)]) simp_all
  next
    case 3
    then obtain m' where m: "m = Suc m'" "n \<le> m'" by (cases m) auto
    from 3 show ?case unfolding m(1)
      by (intro fuel_members_step Suc.IH(1,3) [OF _ m(2)]) simp_all
  }
qed auto

text \<open>More fuel than \<open>json_parse\<close> starts with changes nothing: it never runs out.\<close>

lemma json_parse_fuel: "parse_fuel s \<le> m \<Longrightarrow> p_value m s = p_value (parse_fuel s) s"
  by (rule fuel_mono(1)) (simp_all add: parse_fuel_def)

end
