(* ===== verification/JsRoundTrip.thy ===== *)
theory JsRoundTrip
  imports JsJson
begin

text \<open>
  \<open>JSON.parse(JSON.stringify(v))\<close> gives \<open>v\<close> back, for every value whose strings are made of
  16-bit code units, whose objects enumerate their keys as JavaScript does, and whose numbers
  are integers (the decimal form of other numbers is a parameter of \<open>stringify\<close>).
\<close>

definition units_ok :: "jstring \<Rightarrow> bool" where
  "units_ok s \<longleftrightarrow> list_all (\<lambda>u. u < 65536) s"

fun json_ok :: "json \<Rightarrow> bool"
  and elems_ok :: "json list \<Rightarrow> bool"
  and members_ok :: "json jobj \<Rightarrow> bool" where
  "json_ok JNull = True"
| "json_ok (JBool b) = True"
| "json_ok (JNum q) = (q = of_int \<lfloor>q\<rfloor>)"
| "json_ok (JStr s) = units_ok s"
| "json_ok (JArr xs) = elems_ok xs"
| "json_ok (JObj ob) = (obj_wf ob \<and> members_ok ob)"
| "elems_ok [] = True"
| "elems_ok (x # xs) = (json_ok x \<and> elems_ok xs)"
| "members_ok [] = True"
| "members_ok ((k, v) # ob) = (units_ok k \<and> json_ok v \<and> members_ok ob)"

lemma elems_ok_iff: "elems_ok xs \<longleftrightarrow> (\<forall>x\<in>set xs. json_ok x)"
  by (induction xs) auto

lemma members_ok_iff: "members_ok ob \<longleftrightarrow> (\<forall>(k, v)\<in>set ob. units_ok k \<and> json_ok v)"
proof (induction ob)
  case (Cons e ob)
  then show ?case by (cases e) auto
qed simp


section \<open>Strings\<close>

lemma hex_val_digit: "n < 16 \<Longrightarrow> hex_val (hex_digit n) = Some n"
  by (auto simp: hex_val_def hex_digit_def)

lemma hex_split:
  "u div 4096 * 4096 + u div 256 mod 16 * 256 + u div 16 mod 16 * 16 + u mod 16 = (u::nat)"
proof -
  have "u = 16 * (u div 16) + u mod 16" by simp
  moreover have "u div 16 = 16 * (u div 256) + u div 16 mod 16"
    using mult_div_mod_eq [of 16 "u div 16"] by (simp flip: div_mult2_eq)
  moreover have "u div 256 = 16 * (u div 4096) + u div 256 mod 16"
    using mult_div_mod_eq [of 16 "u div 256"] by (simp flip: div_mult2_eq)
  ultimately show ?thesis by linarith
qed

lemma p_chars_esc_u: "u < 65536 \<Longrightarrow> p_chars (esc_u u @ s) = cons_unit u (p_chars s)"
  by (simp add: esc_u_def hex4_def hex_val_digit hex_split)

lemma p_chars_esc_unit: "u < 65536 \<Longrightarrow> p_chars (esc_unit u @ s) = cons_unit u (p_chars s)"
  by (auto simp: esc_unit_def p_chars_esc_u unescape_def)

lemma p_chars_quote: "units_ok s \<Longrightarrow> p_chars (quote_body s @ 34 # r) = Some (s, r)"
proof (induction s rule: quote_body.induct)
  case (3 u v s)
  then show ?case
    by (auto simp: units_ok_def cons_unit_def p_chars_esc_u p_chars_esc_unit
        hi_surrogate_def lo_surrogate_def)
qed (auto simp: units_ok_def cons_unit_def p_chars_esc_u p_chars_esc_unit)


section \<open>Tokens\<close>

text \<open>What may follow a printed value: nothing, or a closing or separating punctuator.\<close>

definition delim :: "jstring \<Rightarrow> bool" where
  "delim r \<longleftrightarrow> r = [] \<or> hd r = 44 \<or> hd r = 93 \<or> hd r = 125"

lemma punct_Cons: "\<not> json_ws v \<Longrightarrow> punct u (v # r) = (if v = u then Some r else None)"
  by (simp add: punct_def skip_ws_def)

lemma punct_Nil [simp]: "punct u [] = None"
  by (simp add: punct_def skip_ws_def)

lemma not_json_ws [simp]:
  "\<not> json_ws 34" "\<not> json_ws 44" "\<not> json_ws 45" "\<not> json_ws 58" "\<not> json_ws 91" "\<not> json_ws 93"
  "\<not> json_ws 123" "\<not> json_ws 125" "\<not> json_ws 110" "\<not> json_ws 116" "\<not> json_ws 102"
  by (simp_all add: json_ws_def)

lemma show_nat_hd_nonzero: "n \<noteq> 0 \<Longrightarrow> hd (show_nat n) \<noteq> 48"
proof (induction n rule: show_nat.induct)
  case (1 n)
  show ?case
  proof (cases "n < 10")
    case True
    with "1.prems" show ?thesis by (simp add: show_nat.simps [of n])
  next
    case False
    with "1.IH" have "hd (show_nat (n div 10)) \<noteq> 48" by simp
    with False show ?thesis by (simp add: show_nat.simps [of n])
  qed
qed

lemma p_number_nat:
  assumes "delim r"
  shows "p_int (show_nat n @ r) = Some (show_nat n, r)"
proof -
  have nd: "r = [] \<or> \<not> is_digit (hd r)" using assms by (auto simp: delim_def is_digit_def)
  then have tw: "takeWhile is_digit r = []" "dropWhile is_digit r = r"
    by (cases r; auto)+
  have all: "\<And>x. x \<in> set (show_nat n) \<Longrightarrow> is_digit x"
    using show_nat_digits [of n] by (auto simp: list_all_iff)
  obtain d ds where d: "show_nat n = d # ds" using show_nat_ne [of n] by (cases "show_nat n") auto
  show ?thesis
  proof (cases "n = 0")
    case True
    then have "show_nat n = [48]" by (simp add: show_nat.simps [of 0])
    then show ?thesis by (simp add: p_int_def)
  next
    case False
    then have "d \<noteq> 48" using show_nat_hd_nonzero [of n] d by simp
    moreover have "takeWhile is_digit (show_nat n @ r) = show_nat n"
      "dropWhile is_digit (show_nat n @ r) = r"
      using all tw by (simp_all add: takeWhile_append2 dropWhile_append2)
    moreover have "is_digit d" using all d by simp
    ultimately show ?thesis using d by (simp add: p_int_def)
  qed
qed

lemma p_frac_delim: "delim r \<Longrightarrow> p_frac r = Some ([], r)"
  by (cases r) (auto simp: delim_def p_frac_def)

lemma p_exp_delim: "delim r \<Longrightarrow> p_exp r = Some (0, r)"
  by (cases r) (auto simp: delim_def p_exp_def)

lemma p_number_int: "delim r \<Longrightarrow> p_number (show_int i @ r) = Some (of_int i, r)"
proof -
  assume r: "delim r"
  obtain d ds where d: "show_nat (nat i) = d # ds" "is_digit d"
    using show_nat_ne [of "nat i"] show_nat_hd [of "nat i"] by (cases "show_nat (nat i)") auto
  have "d \<noteq> 45" using d(2) by (auto simp: is_digit_def)
  moreover have "digits_val (d # ds) = nat i" using d(1) digits_val_show_nat [of "nat i"] by simp
  ultimately show ?thesis
    using d r p_number_nat [OF r, of "nat i"] p_number_nat [OF r, of "nat (- i)"]
    by (auto simp: p_number_def show_int_def p_frac_delim p_exp_delim num_value_def of_nat_nat)
qed

lemma show_int_hd: "is_digit (hd (show_int i)) \<or> hd (show_int i) = 45" "show_int i \<noteq> []"
  using show_nat_hd by (auto simp: show_int_def)

lemma p_value_int:
  assumes "delim r"
  shows "p_value (Suc n) (show_int i @ r) = Some (JNum (of_int i), r)"
proof -
  obtain d ds where d: "show_int i = d # ds" "is_digit d \<or> d = 45"
    using show_int_hd [of i] by (cases "show_int i") auto
  then have ws: "\<not> json_ws d" and ne: "d \<noteq> 34" "d \<noteq> 91" "d \<noteq> 123" "d \<noteq> 110" "d \<noteq> 116" "d \<noteq> 102"
    by (auto simp: is_digit_def json_ws_def)
  have "p_scalar (show_int i @ r) = Some (JNum (of_int i), r)"
    using ne d(1) p_number_int [OF assms, of i]
    by (simp add: p_scalar_def startsWith_def js_lit)
  moreover have "skip_ws (show_int i @ r) = show_int i @ r"
    using ws d(1) by (simp add: skip_ws_def)
  ultimately show ?thesis using ws ne d(1) by (simp add: punct_Cons)
qed


section \<open>Values\<close>

lemma stringify_ne: "json_ok v \<Longrightarrow> stringify ni v \<noteq> []"
  by (cases v) (auto simp: num_str_def show_int_hd json_quote_def)

lemma stringify_hd_elem: "json_ok v \<Longrightarrow> punct 93 (stringify ni v @ r) = None"
proof (cases v)
  case (JNum q)
  assume "json_ok v"
  obtain d ds where d: "show_int \<lfloor>q\<rfloor> = d # ds" "is_digit d \<or> d = 45"
    using show_int_hd [of "\<lfloor>q\<rfloor>"] by (cases "show_int \<lfloor>q\<rfloor>") auto
  then have "\<not> json_ws d" "d \<noteq> 93" by (auto simp: is_digit_def json_ws_def)
  with d JNum \<open>json_ok v\<close> show ?thesis by (simp add: num_str_def punct_Cons)
qed (auto simp: json_quote_def js_lit punct_Cons)

lemma punct_str_elems: "elems_ok xs \<Longrightarrow> xs \<noteq> [] \<Longrightarrow> punct 93 (str_elems ni xs @ r) = None"
  by (cases xs) (auto simp: stringify_hd_elem)

lemma punct_str_members: "ob \<noteq> [] \<Longrightarrow> punct 125 (str_members ni ob @ r) = None"
  by (cases ob) (auto simp: json_quote_def punct_Cons)

lemma delim_simps [simp]: "delim (44 # r)" "delim (93 # r)" "delim (125 # r)" "delim []"
  by (simp_all add: delim_def)

lemma parse_print:
  "json_ok v \<Longrightarrow> delim r \<Longrightarrow> 2 * length (stringify ni v @ r) < n \<Longrightarrow>
     p_value n (stringify ni v @ r) = Some (v, r)"
  "elems_ok xs \<Longrightarrow> xs \<noteq> [] \<Longrightarrow> 2 * length (str_elems ni xs @ r) + 1 < n \<Longrightarrow>
     p_elems n (str_elems ni xs @ r) = Some (xs, r)"
  "members_ok ob \<Longrightarrow> ob \<noteq> [] \<Longrightarrow> 2 * length (str_members ni ob @ r) + 1 < n \<Longrightarrow>
     p_members n (str_members ni ob @ r) = Some (ob, r)"
proof (induction ni v and ni xs and ni ob arbitrary: r n and r n and r n
    rule: stringify_str_elems_str_members.induct)
  case (1 ni)
  then show ?case
    by (cases n) (auto simp: js_lit punct_Cons p_scalar_def startsWith_def skip_ws_def)
next
  case (2 ni b)
  then show ?case
    by (cases n) (auto simp: js_lit punct_Cons p_scalar_def startsWith_def skip_ws_def)
next
  case (3 ni q)
  then show ?case using p_value_int [OF 3(2)] by (cases n) (auto simp: num_str_def)
next
  case (4 ni s)
  then show ?case by (cases n) (auto simp: json_quote_def punct_Cons p_chars_quote)
next
  case (5 ni xs)
  then show ?case
    by (cases n) (auto simp: punct_Cons punct_str_elems)
next
  case (6 ni ob)
  then show ?case
    by (cases n) (auto simp: punct_Cons punct_str_members obj_of_members_def obj_spread_Nil)
next
  case (8 ni x xs)
  then show ?case by (cases n) (auto simp: punct_Cons)
next
  case (10 ni k v ob)
  then show ?case
    by (cases n) (auto simp: json_quote_def punct_Cons p_chars_quote)
qed auto

theorem json_round_trip: "json_ok v \<Longrightarrow> json_parse (stringify ni v) = Some v"
  using parse_print(1) [of v "[]" ni "parse_fuel (stringify ni v)"]
  by (simp add: json_parse_def parse_fuel_def skip_ws_def)


section \<open>What \<open>JSON.parse\<close> returns\<close>

text \<open>Objects that enumerate their keys as the language does and strings of 16-bit units, at
  every depth: the values \<open>JSON.parse\<close> can return.\<close>

fun json_wf :: "json \<Rightarrow> bool"
  and elems_wf :: "json list \<Rightarrow> bool"
  and members_wf :: "json jobj \<Rightarrow> bool" where
  "json_wf (JStr s) = units_ok s"
| "json_wf (JArr xs) = elems_wf xs"
| "json_wf (JObj ob) = (obj_wf ob \<and> members_wf ob)"
| "json_wf _ = True"
| "elems_wf [] = True"
| "elems_wf (x # xs) = (json_wf x \<and> elems_wf xs)"
| "members_wf [] = True"
| "members_wf ((k, v) # ob) = (units_ok k \<and> json_wf v \<and> members_wf ob)"

lemma members_wf_iff: "members_wf ob \<longleftrightarrow> (\<forall>(k, v)\<in>set ob. units_ok k \<and> json_wf v)"
proof (induction ob)
  case (Cons e ob)
  then show ?case by (cases e) auto
qed simp

lemma elems_wf_iff: "elems_wf xs \<longleftrightarrow> (\<forall>x\<in>set xs. json_wf x)"
  by (induction xs) auto

lemma mem_obj_put: "e \<in> set (obj_put k v ob) \<Longrightarrow> e = (k, v) \<or> e \<in> set ob"
proof -
  have "e \<in> set (obj_insert k v ob) \<Longrightarrow> e = (k, v) \<or> e \<in> set ob"
    by (induction ob) (auto split: if_splits)
  then show "e \<in> set (obj_put k v ob) \<Longrightarrow> e = (k, v) \<or> e \<in> set ob"
    by (auto simp: obj_put_def split: if_splits)
qed

lemma mem_obj_spread: "e \<in> set (obj_spread a b) \<Longrightarrow> e \<in> set a \<or> e \<in> set b"
  unfolding obj_spread_def
proof (induction b arbitrary: a)
  case (Cons kv b)
  then have "e \<in> set (case kv of (k, v) \<Rightarrow> obj_put k v a) \<or> e \<in> set b" by fastforce
  then show ?case by (cases kv) (auto dest!: mem_obj_put)
qed simp

lemma json_wf_members: "members_wf kvs \<Longrightarrow> json_wf (obj_of_members kvs)"
  by (auto simp: obj_of_members_def obj_wf_spread members_wf_iff dest!: mem_obj_spread)

lemma units_ok_suffix: "units_ok s \<Longrightarrow> set r \<subseteq> set s \<Longrightarrow> units_ok r"
  by (auto simp: units_ok_def list_all_iff)

lemma units_ok_simps [simp]: "units_ok []" "units_ok (u # s) \<longleftrightarrow> u < 65536 \<and> units_ok s"
  by (simp_all add: units_ok_def)

lemma units_ok_punct: "punct u s = Some r \<Longrightarrow> units_ok s \<Longrightarrow> units_ok r"
proof -
  assume "punct u s = Some r" and ok: "units_ok s"
  then have "set r \<subseteq> set (dropWhile json_ws s)"
    by (auto simp: punct_def skip_ws_def split: list.splits if_splits)
  then have "set r \<subseteq> set s" using set_dropWhileD by fastforce
  with ok show ?thesis by (rule units_ok_suffix)
qed

lemma hex4_bound: "hex4 a b c d = Some v \<Longrightarrow> v < 65536"
proof -
  have h: "hex_val u = Some w \<Longrightarrow> w < 16" for u w by (auto simp: hex_val_def split: if_splits)
  assume "hex4 a b c d = Some v"
  then obtain w x y z where "hex_val a = Some w" "hex_val b = Some x" "hex_val c = Some y"
    "hex_val d = Some z" "v = w * 4096 + x * 256 + y * 16 + z"
    by (auto simp: hex4_def split: option.splits)
  with h [of a w] h [of b x] h [of c y] h [of d z] show ?thesis by simp
qed

lemma unescape_bound: "unescape e = Some v \<Longrightarrow> v < 65536"
  by (auto simp: unescape_def split: if_splits)

lemma units_ok_p_chars: "p_chars s = Some (t, r) \<Longrightarrow> units_ok s \<Longrightarrow> units_ok t \<and> units_ok r"
proof (induction s arbitrary: t r rule: p_chars.induct)
  case (2 u s)
  consider (quote) "u = 34" | (esc) e s1 v where "u = 92" "s = e # s1" "unescape e = Some v" "e \<noteq> 117"
    | (hex) a b c d s2 v where "u = 92" "s = 117 # a # b # c # d # s2" "hex4 a b c d = Some v"
    | (plain) "u \<noteq> 34" "u \<noteq> 92" "\<not> u < 32"
    using "2.prems" by (auto split: if_splits list.splits option.splits)
  then show ?case
  proof cases
    case quote
    with "2.prems" show ?thesis by simp
  next
    case esc
    with "2.prems"(1) obtain t' where "t = v # t'" "p_chars s1 = Some (t', r)"
      by (auto simp: cons_unit_Some)
    with "2.IH"(2) [OF _ _ esc(2)] esc "2.prems"(2) show ?thesis by (auto dest: unescape_bound)
  next
    case hex
    with "2.prems"(1) obtain t' where "t = v # t'" "p_chars s2 = Some (t', r)"
      by (auto simp: cons_unit_Some)
    with "2.IH"(1) [OF _ _ hex(2)] hex "2.prems"(2) show ?thesis by (auto dest: hex4_bound)
  next
    case plain
    with "2.prems"(1) obtain t' where "t = u # t'" "p_chars s = Some (t', r)"
      by (auto simp: cons_unit_Some)
    with "2.IH"(3) plain "2.prems"(2) show ?thesis by auto
  qed
qed simp

lemma set_dropWhile: "set (dropWhile P s) \<subseteq> set s"
  using set_dropWhileD by fastforce

lemma p_digits_set: "p_digits s = Some (t, r) \<Longrightarrow> set r \<subseteq> set s"
  using set_dropWhile by (fastforce simp: p_digits_def split: if_splits)

lemma p_int_set: "p_int s = Some (t, r) \<Longrightarrow> set r \<subseteq> set s"
  using set_dropWhile by (fastforce simp: p_int_def split: if_splits list.splits)

lemma p_frac_set: "p_frac s = Some (t, r) \<Longrightarrow> set r \<subseteq> set s"
  using p_digits_set by (fastforce simp: p_frac_def split: if_splits list.splits)

lemma p_exp_set: "p_exp s = Some (t, r) \<Longrightarrow> set r \<subseteq> set s"
  by (fastforce simp: p_exp_def dest!: p_digits_set split: if_splits list.splits prod.splits)

lemma p_number_set:
  assumes "p_number s = Some (q, r)"
  shows "set r \<subseteq> set s"
proof -
  let ?s1 = "snd (case s of u # r \<Rightarrow> if u = 45 then (True, r) else (False, s) | [] \<Rightarrow> (False, s))"
  from assms obtain ds s2 fs s3 e where
    "p_int ?s1 = Some (ds, s2)" "p_frac s2 = Some (fs, s3)" "p_exp s3 = Some (e, r)"
    by (auto simp: p_number_def Let_def case_prod_beta split: option.splits)
  moreover have "set ?s1 \<subseteq> set s" by (auto split: list.splits)
  ultimately show ?thesis
    using p_int_set p_frac_set p_exp_set by (meson subset_trans)
qed

lemma p_scalar_wf:
  "p_scalar (skip_ws s) = Some (v, r) \<Longrightarrow> units_ok s \<Longrightarrow> json_wf v \<and> units_ok r"
proof -
  assume a: "p_scalar (skip_ws s) = Some (v, r)" and ok: "units_ok s"
  have "set (skip_ws s) \<subseteq> set s" by (simp add: skip_ws_def set_dropWhile)
  moreover from a have "set r \<subseteq> set (skip_ws s)" and "json_wf v"
    by (auto simp: p_scalar_def dest: p_number_set [THEN subsetD] in_set_dropD split: if_splits)
  ultimately show ?thesis using units_ok_suffix [OF ok] by blast
qed

lemma parsed_wf:
  "p_value n s = Some (v, r) \<Longrightarrow> units_ok s \<Longrightarrow> json_wf v \<and> units_ok r"
  "p_elems n s = Some (vs, r) \<Longrightarrow> units_ok s \<Longrightarrow> elems_wf vs \<and> units_ok r"
  "p_members n s = Some (kvs, r) \<Longrightarrow> units_ok s \<Longrightarrow> members_wf kvs \<and> units_ok r"
proof (induction n arbitrary: s v r vs kvs)
  case (Suc n)
  note parts = units_ok_punct units_ok_p_chars Suc.IH
  { case 1
    from 1(1) show ?case
    proof (cases rule: p_value_Suc_Some)
      case scalar
      with 1(2) show ?thesis by (simp add: p_scalar_wf)
    next
      case (str r1 t)
      with 1(2) parts(1,2) show ?thesis by fastforce
    next
      case (nil u u' r1)
      with 1(2) parts(1) show ?thesis by fastforce
    next
      case (arr r1 vs)
      with 1(2) parts(1,4) show ?thesis by fastforce
    next
      case (ob r1 kvs)
      with 1(2) parts(1,5) show ?thesis by (metis json_wf_members)
    qed
  next
    case 2
    from 2(1) show ?case
      by (cases rule: p_elems_Suc_Some) (use 2(2) parts(1,3,4) in fastforce)+
  next
    case 3
    from 3(1) show ?case
    proof (cases rule: p_members_Suc_Some)
      case (more r0 k r1 r2 v r3 r4 kvs')
      then have "units_ok k" "units_ok r2" using 3(2) parts(1,2) by blast+
      moreover from this more have "json_wf v" "units_ok r4" using parts(1,3) by blast+
      ultimately show ?thesis using more parts(5) by simp
    next
      case (final r0 k r1 r2 v r3)
      then have "units_ok k" "units_ok r2" using 3(2) parts(1,2) by blast+
      moreover from this final have "json_wf v" "units_ok r" using parts(1,3) by blast+
      ultimately show ?thesis using final by simp
    qed
  }
qed auto

lemma json_parse_wf: "json_parse s = Some v \<Longrightarrow> units_ok s \<Longrightarrow> json_wf v"
  by (auto simp: json_parse_def dest: parsed_wf(1) split: option.splits if_splits)

lemma distinct_index_entries: "distinct (obj_keys (index_entries xs))"
proof -
  have "obj_keys (index_entries xs) = map show_nat (map fst (zip [0..<length xs] xs))"
    by (simp add: obj_keys_def index_entries_def case_prod_beta comp_def del: map_fst_zip)
  also have "map fst (zip [0..<length xs] xs) = [0..<length xs]" by (subst map_fst_zip) simp_all
  finally show ?thesis by (simp add: distinct_map inj_on_def)
qed

lemma distinct_entries: "json_wf v \<Longrightarrow> distinct (obj_keys (entries v))"
proof (cases v)
  case (JObj ob)
  moreover assume "json_wf v"
  ultimately show ?thesis by (simp add: obj_wf_def)
qed (simp_all add: distinct_index_entries, simp_all add: obj_keys_def)

lemma json_wf_entries: "json_wf v \<Longrightarrow> members_wf (entries v)"
proof -
  have "members_wf (index_entries xs)" if "elems_wf xs" for xs :: "json list"
  proof -
    have "units_ok (show_nat n)" for n
      using show_nat_digits [of n] by (auto simp: units_ok_def list_all_iff is_digit_def)
    with that show ?thesis
      by (auto simp: members_wf_iff elems_wf_iff index_entries_def dest: set_zip_rightD)
  qed
  moreover assume "json_wf v"
  ultimately show ?thesis
    by (cases v) (auto simp: elems_wf_iff units_ok_def list_all_iff)
qed

lemma json_parse_entries:
  "json_parse s = Some v \<Longrightarrow> units_ok s \<Longrightarrow>
     distinct (obj_keys (entries v)) \<and> members_wf (entries v)"
  by (simp add: json_parse_wf distinct_entries json_wf_entries)

end
