(* ===== verification/JsNumber.thy ===== *)
theory JsNumber
  imports JsJson
begin

text \<open>
  \<open>Number(v)\<close> on scalars: \<open>None\<close> is a result that is not finite (\<open>NaN\<close> or an infinity). Numbers
  are exact rationals.
\<close>

definition radix_digit :: "nat \<Rightarrow> nat \<Rightarrow> nat option" where
  "radix_digit b u = (case hex_val u of Some d \<Rightarrow> if d < b then Some d else None | None \<Rightarrow> None)"

fun radix_val :: "nat \<Rightarrow> nat \<Rightarrow> jstring \<Rightarrow> nat option" where
  "radix_val b acc [] = Some acc"
| "radix_val b acc (u # s) =
     (case radix_digit b u of None \<Rightarrow> None | Some d \<Rightarrow> radix_val b (acc * b + d) s)"

text \<open>The digits after one of the prefixes \<open>0x\<close>, \<open>0o\<close>, \<open>0b\<close>, in either case.\<close>

definition radix_literal :: "jstring \<Rightarrow> (nat \<times> jstring) option" where
  "radix_literal s =
     (case s of
        z # x # r \<Rightarrow>
          if z = 48 \<and> (x = 120 \<or> x = 88) then Some (16, r)
          else if z = 48 \<and> (x = 111 \<or> x = 79) then Some (8, r)
          else if z = 48 \<and> (x = 98 \<or> x = 66) then Some (2, r)
          else None
      | _ \<Rightarrow> None)"

definition unsigned_decimal :: "bool \<Rightarrow> jstring \<Rightarrow> rat option" where
  "unsigned_decimal neg s =
     (let ds = takeWhile is_digit s; r1 = dropWhile is_digit s;
          (fs, r2) = (case r1 of
              u # r \<Rightarrow> if u = 46 then (takeWhile is_digit r, dropWhile is_digit r) else ([], r1)
            | [] \<Rightarrow> ([], r1))
      in if ds = [] \<and> fs = [] then None
         else case p_exp r2 of
                Some (e, r3) \<Rightarrow> if r3 = [] then Some (num_value neg ds fs e) else None
              | None \<Rightarrow> None)"

definition decimal_literal :: "jstring \<Rightarrow> rat option" where
  "decimal_literal s =
     (case s of
        u # r \<Rightarrow>
          if u = 45 then unsigned_decimal True r
          else if u = 43 then unsigned_decimal False r
          else unsigned_decimal False s
      | [] \<Rightarrow> None)"

definition string_to_number :: "jstring \<Rightarrow> rat option" where
  "string_to_number s =
     (let t = trim s
      in if t = [] then Some 0
         else case radix_literal t of
                Some (b, ds) \<Rightarrow> if ds = [] then None else map_option of_nat (radix_val b 0 ds)
              | None \<Rightarrow> decimal_literal t)"

fun js_number :: "json \<Rightarrow> rat option" where
  "js_number JNull = Some 0"
| "js_number (JBool b) = Some (if b then 1 else 0)"
| "js_number (JNum q) = Some q"
| "js_number (JStr s) = string_to_number s"
| "js_number _ = None"

text \<open>An integer printed in decimal is read back.\<close>

lemma unsigned_decimal_nat: "unsigned_decimal neg (show_nat n) = Some (if neg then - of_nat n else of_nat n)"
proof -
  have t: "takeWhile is_digit (show_nat n) = show_nat n" "dropWhile is_digit (show_nat n) = []"
    using show_nat_digits [of n] by (auto simp: takeWhile_eq_all_conv list_all_iff)
  show ?thesis by (simp add: unsigned_decimal_def p_exp_def num_value_def t)
qed

lemma trim_show_nat: "trim (show_nat n) = show_nat n"
  using show_nat_no_ws [of n] by (simp add: trim_no_ws)

lemma show_nat_second: "show_nat n = z # x # r \<Longrightarrow> is_digit x"
  using show_nat_digits [of n] by simp

lemma number_show_nat: "string_to_number (show_nat n) = Some (of_nat n)"
proof -
  have "radix_literal (show_nat n) = None"
    using show_nat_second [of n] by (auto simp: radix_literal_def is_digit_def split: list.split)
  moreover have "decimal_literal (show_nat n) = Some (of_nat n)"
    using unsigned_decimal_nat [of False n] show_nat_hd [of n] show_nat_ne [of n]
    by (cases "show_nat n") (auto simp: decimal_literal_def is_digit_def)
  ultimately show ?thesis by (simp add: string_to_number_def trim_show_nat)
qed

end
