(* ===== verification/StatusCodeRules.thy ===== *)
theory StatusCodeRules
  imports JsString "HOL-Library.Product_Lexorder"
begin

text \<open>
  The parser of HTTP status code rules (\<open>web/src/lib/http-status-code-rules.ts\<close>): a list of
  codes and ranges such as \<open>401, 403, 500-599\<close> becomes a sorted list of disjoint,
  non-adjacent ranges and its canonical text. The lemmas show that merging keeps exactly the
  codes of the input, that the result is the only such list for that set of codes, and that
  the canonical text parses back to the same result.
\<close>

record status_code_range =
  start_code :: nat
  end_code :: nat

record parsed_rules =
  pr_ok :: bool
  pr_ranges :: "status_code_range list"
  pr_tokens :: "jstring list"
  pr_normalized :: jstring
  pr_invalidTokens :: "jstring list"

definition isNumber :: "jstring \<Rightarrow> bool" where
  "isNumber s \<longleftrightarrow> all_digits s"

definition isValidCode :: "nat \<Rightarrow> bool" where
  "isValidCode code \<longleftrightarrow> code \<ge> 100 \<and> code \<le> 599"

text \<open>\<open>const [a, b] = cleaned.split('-')\<close> reads the first two parts; with a \<open>-\<close> present there
  are at least two. \<open>token.trim().replace(/\s/g, '')\<close> drops all white space.\<close>

definition parseToken :: "jstring \<Rightarrow> status_code_range option" where
  "parseToken token =
     (let cleaned = filter (\<lambda>u. \<not> is_ws u) (trim token)
      in if cleaned = [] then None
         else if 45 \<in> set cleaned then
           (case split_on 45 cleaned of
              a # b # _ \<Rightarrow>
                if \<not> isNumber a \<or> \<not> isNumber b then None
                else let s = digits_val a; e = digits_val b
                     in if \<not> isValidCode s \<or> \<not> isValidCode e \<or> s > e then None
                        else Some \<lparr>start_code = s, end_code = e\<rparr>
            | _ \<Rightarrow> None)
         else if \<not> isNumber cleaned then None
         else let code = digits_val cleaned
              in if \<not> isValidCode code then None
                 else Some \<lparr>start_code = code, end_code = code\<rparr>)"

text \<open>One step of the \<open>reduce\<close> of \<open>mergeRanges\<close>.\<close>

definition merge_step ::
    "status_code_range list \<Rightarrow> status_code_range \<Rightarrow> status_code_range list" where
  "merge_step merged current =
     (if merged = [] \<or> start_code current > end_code (last merged) + 1
      then merged @ [current]
      else butlast merged @
        [(last merged)\<lparr>end_code := max (end_code (last merged)) (end_code current)\<rparr>])"

definition mergeRanges :: "status_code_range list \<Rightarrow> status_code_range list" where
  "mergeRanges ranges =
     (if ranges = [] then []
      else foldl merge_step [] (sort_key (\<lambda>r. (start_code r, end_code r)) ranges))"

definition show_range :: "status_code_range \<Rightarrow> jstring" where
  "show_range r =
     (if start_code r = end_code r then show_nat (start_code r)
      else show_nat (start_code r) @ 45 # show_nat (end_code r))"

text \<open>The argument is the input after \<open>toString()\<close>, \<open>None\<close> for \<open>null\<close> and \<open>undefined\<close>;
  65292 is the full-width comma.\<close>

definition parseHttpStatusCodeRules :: "jstring option \<Rightarrow> parsed_rules" where
  "parseHttpStatusCodeRules input =
     (let raw = trim (case input of None \<Rightarrow> [] | Some s \<Rightarrow> s)
      in if raw = [] then
           \<lparr>pr_ok = True, pr_ranges = [], pr_tokens = [], pr_normalized = [], pr_invalidTokens = []\<rparr>
         else
           let sanitized = map (\<lambda>u. if u = 65292 then 44 else u) raw;
               segments = filter (\<lambda>s. s \<noteq> []) (map trim (split_on 44 sanitized));
               invalidTokens = filter (\<lambda>s. parseToken s = None) segments;
               ranges = List.map_filter parseToken segments
           in if invalidTokens \<noteq> [] then
                \<lparr>pr_ok = False, pr_ranges = [], pr_tokens = [], pr_normalized = raw,
                 pr_invalidTokens = invalidTokens\<rparr>
              else
                let merged = mergeRanges ranges; tokens = map show_range merged
                in \<lparr>pr_ok = True, pr_ranges = merged, pr_tokens = tokens,
                    pr_normalized = join [44] tokens, pr_invalidTokens = []\<rparr>)"

text \<open>Specification vocabulary: the codes a list of ranges admits, and canonical lists.\<close>

definition covers :: "status_code_range list \<Rightarrow> nat \<Rightarrow> bool" where
  "covers rs c \<longleftrightarrow> list_ex (\<lambda>r. start_code r \<le> c \<and> c \<le> end_code r) rs"

definition range_wf :: "status_code_range \<Rightarrow> bool" where
  "range_wf r \<longleftrightarrow> start_code r \<le> end_code r"

fun separated :: "status_code_range list \<Rightarrow> bool" where
  "separated [] = True"
| "separated (r # rs) =
     (range_wf r \<and> list_all (\<lambda>r'. end_code r + 1 < start_code r') rs \<and> separated rs)"


section \<open>Merging\<close>

lemma covers_append: "covers (xs @ ys) c \<longleftrightarrow> covers xs c \<or> covers ys c"
  by (simp add: covers_def)

lemma covers_Cons: "covers (r # rs) c \<longleftrightarrow> (start_code r \<le> c \<and> c \<le> end_code r) \<or> covers rs c"
  by (simp add: covers_def)

lemma covers_Nil [simp]: "\<not> covers [] c"
  by (simp add: covers_def)

lemma separated_snoc:
  "separated (rs @ [r]) \<longleftrightarrow>
     separated rs \<and> range_wf r \<and> list_all (\<lambda>r'. end_code r' + 1 < start_code r) rs"
  by (induction rs) auto

lemma separated_mono_start:
  "separated (rs @ [r]) \<Longrightarrow> r' \<in> set rs \<Longrightarrow> end_code r' < start_code r"
  by (auto simp: separated_snoc list_all_iff)

lemma merge_step_sound:
  assumes "separated m" and "range_wf c" and "m \<noteq> [] \<Longrightarrow> start_code (last m) \<le> start_code c"
  shows "separated (merge_step m c)"
    and "covers (merge_step m c) x \<longleftrightarrow> covers m x \<or> covers [c] x"
    and "merge_step m c \<noteq> []" and "start_code (last (merge_step m c)) \<le> start_code c"
proof -
  have "separated (merge_step m c) \<and>
      (covers (merge_step m c) x \<longleftrightarrow> covers m x \<or> covers [c] x) \<and>
      merge_step m c \<noteq> [] \<and> start_code (last (merge_step m c)) \<le> start_code c"
  proof (cases m rule: rev_cases)
    case Nil
    with assms(2) show ?thesis by (simp add: merge_step_def)
  next
    case (snoc ys l)
    show ?thesis
    proof (cases "start_code c > end_code l + 1")
      case True
      have "end_code r + 1 < start_code c" if "r \<in> set m" for r
        using that snoc assms(1) True
        by (auto simp: separated_snoc list_all_iff range_wf_def)
      then have "separated (m @ [c])"
        using assms(1,2) by (simp add: separated_snoc list_all_iff)
      moreover have "merge_step m c = m @ [c]" using True snoc by (simp add: merge_step_def)
      ultimately show ?thesis by (simp add: covers_append)
    next
      case False
      let ?l = "l\<lparr>end_code := max (end_code l) (end_code c)\<rparr>"
      have ms: "merge_step m c = ys @ [?l]" using False snoc by (simp add: merge_step_def)
      have le: "start_code l \<le> start_code c" using assms(3) snoc by simp
      have "separated (ys @ [?l])"
        using assms(1) snoc by (auto simp: separated_snoc range_wf_def)
      moreover have "covers [?l] x \<longleftrightarrow> covers [l] x \<or> covers [c] x"
        using le False assms(1,2) snoc by (auto simp: covers_def separated_snoc range_wf_def)
      ultimately show ?thesis using ms le snoc by (auto simp: covers_append)
    qed
  qed
  then show "separated (merge_step m c)"
    and "covers (merge_step m c) x \<longleftrightarrow> covers m x \<or> covers [c] x"
    and "merge_step m c \<noteq> []" and "start_code (last (merge_step m c)) \<le> start_code c"
    by blast+
qed

lemma merge_fold_sound:
  assumes "separated m" and "\<forall>r\<in>set rs. range_wf r"
    and "sorted (map start_code rs)"
    and "m \<noteq> [] \<Longrightarrow> \<forall>r\<in>set rs. start_code (last m) \<le> start_code r"
  shows "separated (foldl merge_step m rs) \<and>
         (covers (foldl merge_step m rs) x \<longleftrightarrow> covers m x \<or> covers rs x)"
  using assms
proof (induction rs arbitrary: m)
  case Nil
  then show ?case by simp
next
  case (Cons c rs)
  have c: "range_wf c" "m \<noteq> [] \<Longrightarrow> start_code (last m) \<le> start_code c"
    using Cons.prems by auto
  note ms = merge_step_sound [OF Cons.prems(1) c]
  have "\<forall>r\<in>set rs. start_code (last (merge_step m c)) \<le> start_code r"
    using ms(4) Cons.prems(3) by (auto intro: order_trans)
  with Cons.IH [OF ms(1)] Cons.prems(2,3)
  have "separated (foldl merge_step (merge_step m c) rs) \<and>
      (covers (foldl merge_step (merge_step m c) rs) x \<longleftrightarrow> covers (merge_step m c) x \<or> covers rs x)"
    by simp
  then show ?case by (auto simp: ms(2) covers_Cons)
qed

lemma sorted_starts:
  "sorted (map start_code (sort_key (\<lambda>r. (start_code r, end_code r)) rs))"
proof -
  let ?s = "sort_key (\<lambda>r. (start_code r, end_code r)) rs"
  have "sorted (map (\<lambda>r. (start_code r, end_code r)) ?s)" by (rule sorted_sort_key)
  then show ?thesis
    by (auto simp: sorted_wrt_map elim!: sorted_wrt_mono_rel [rotated])
qed

lemma covers_cong: "set xs = set ys \<Longrightarrow> covers xs = covers ys"
  by (auto simp: covers_def list_ex_iff fun_eq_iff)

lemma mergeRanges_sound:
  assumes "\<forall>r\<in>set rs. range_wf r"
  shows "separated (mergeRanges rs)" and "covers (mergeRanges rs) = covers rs"
proof -
  let ?s = "sort_key (\<lambda>r. (start_code r, end_code r)) rs"
  have fold: "separated (foldl merge_step [] ?s) \<and>
      (covers (foldl merge_step [] ?s) x \<longleftrightarrow> covers [] x \<or> covers ?s x)" for x
    by (rule merge_fold_sound) (use assms sorted_starts in auto)
  have "covers ?s = covers rs" by (rule covers_cong) simp
  with fold show "separated (mergeRanges rs)" and "covers (mergeRanges rs) = covers rs"
    by (auto simp: mergeRanges_def fun_eq_iff)
qed


section \<open>Canonical lists\<close>

lemma separated_all_wf: "separated rs \<Longrightarrow> \<forall>r\<in>set rs. range_wf r"
  by (induction rs) auto

lemma separated_lower: "separated (r # rs) \<Longrightarrow> covers rs c \<Longrightarrow> end_code r + 1 < c"
  by (auto simp: covers_def list_ex_iff list_all_iff)

lemma separated_unique_hd:
  assumes a: "separated (a # as)" and b: "separated (b # bs)"
    and eq: "covers (a # as) = covers (b # bs)"
  shows "start_code a \<le> start_code b" and "end_code a \<le> end_code b \<Longrightarrow> end_code b \<le> end_code a"
proof -
  have wf: "start_code a \<le> end_code a" "start_code b \<le> end_code b"
    using a b by (auto simp: range_wf_def)
  have "covers (b # bs) (start_code b)" using wf by (simp add: covers_Cons)
  then have "covers (a # as) (start_code b)" using eq by simp
  then show le: "start_code a \<le> start_code b"
    using separated_lower [OF a, of "start_code b"] wf by (auto simp: covers_Cons)
  have "covers (a # as) (start_code a)" using wf by (simp add: covers_Cons)
  then have "covers (b # bs) (start_code a)" using eq by simp
  then have "start_code b \<le> start_code a"
    using separated_lower [OF b, of "start_code a"] wf by (auto simp: covers_Cons)
  moreover assume "end_code a \<le> end_code b"
  ultimately show "end_code b \<le> end_code a"
  proof -
    assume s: "start_code b \<le> start_code a" and e: "end_code a \<le> end_code b"
    show ?thesis
    proof (rule ccontr)
      assume "\<not> end_code b \<le> end_code a"
      then have "covers (b # bs) (end_code a + 1)" using s wf by (auto simp: covers_Cons)
      then have "covers (a # as) (end_code a + 1)" using eq by simp
      then have "covers as (end_code a + 1)" by (simp add: covers_Cons)
      with separated_lower [OF a] show False by blast
    qed
  qed
qed

lemma separated_unique:
  "separated as \<Longrightarrow> separated bs \<Longrightarrow> covers as = covers bs \<Longrightarrow> as = bs"
proof (induction as arbitrary: bs)
  case Nil
  show ?case
  proof (cases bs)
    case (Cons b bs')
    with Nil have "covers bs (start_code b)" by (simp add: covers_Cons range_wf_def)
    with Nil(3) show ?thesis by (simp flip: Nil(3))
  qed simp
next
  case (Cons a as)
  show ?case
  proof (cases bs)
    case Nil
    with Cons.prems have "covers (a # as) (start_code a)" by (simp add: covers_Cons range_wf_def)
    with Cons.prems(3) Nil show ?thesis by simp
  next
    case bs: (Cons b bs')
    note p = Cons.prems(1) Cons.prems(2) [unfolded bs] Cons.prems(3) [unfolded bs]
    note ab = separated_unique_hd [OF p(1,2,3)]
    note ba = separated_unique_hd [OF p(2,1) p(3) [symmetric]]
    have s: "start_code a = start_code b" and e: "end_code a = end_code b"
      using ab ba by linarith+
    then have "a = b" by simp
    moreover have "covers as = covers bs'"
    proof
      fix x
      have "covers as x \<longleftrightarrow> covers (a # as) x \<and> end_code a < x"
        using separated_lower [OF p(1), of x] by (auto simp: covers_Cons)
      moreover have "covers bs' x \<longleftrightarrow> covers (b # bs') x \<and> end_code b < x"
        using separated_lower [OF p(2), of x] by (auto simp: covers_Cons)
      ultimately show "covers as x = covers bs' x" using p(3) e by simp
    qed
    ultimately show ?thesis using Cons.IH [of bs'] p bs by simp
  qed
qed

lemma mergeRanges_separated: "separated rs \<Longrightarrow> mergeRanges rs = rs"
  using mergeRanges_sound [OF separated_all_wf] by (blast intro: separated_unique)


section \<open>Tokens and the whole rule text\<close>

lemma parseToken_valid:
  "parseToken t = Some r \<Longrightarrow> range_wf r \<and> 100 \<le> start_code r \<and> end_code r \<le> 599"
  by (auto simp: parseToken_def Let_def isValidCode_def range_wf_def
      split: if_splits list.splits)

lemma show_range_units: "u \<in> set (show_range r) \<Longrightarrow> is_digit u \<or> u = 45"
  using show_nat_digits by (auto simp: show_range_def list_all_iff split: if_splits)

lemma show_range_no_ws: "list_all (\<lambda>u. \<not> is_ws u) (show_range r)"
  using show_range_units by (fastforce simp: list_all_iff is_digit_def is_ws_def)

lemma show_range_ne [simp]: "show_range r \<noteq> []"
  by (simp add: show_range_def)

lemma trim_show_range [simp]: "trim (show_range r) = show_range r"
  by (rule trim_no_ws) (rule show_range_no_ws)

lemma filter_ws_show_range [simp]: "filter (\<lambda>u. \<not> is_ws u) (show_range r) = show_range r"
  using show_range_no_ws by (auto simp: filter_id_conv list_all_iff)

lemma dash_not_digit [simp]: "45 \<notin> set (show_nat n)"
  by (rule show_nat_not_in) (simp add: is_digit_def)

text \<open>A printed range parses back to itself.\<close>

lemma parseToken_show_range:
  assumes "range_wf r" and "100 \<le> start_code r" and "end_code r \<le> 599"
  shows "parseToken (show_range r) = Some r"
proof -
  have cleaned: "filter (\<lambda>u. \<not> is_ws u) (trim (show_range r)) = show_range r" by simp
  show ?thesis
  proof (cases "start_code r = end_code r")
    case True
    then have "show_range r = show_nat (start_code r)" by (simp add: show_range_def)
    with True assms show ?thesis
      unfolding parseToken_def cleaned
      by (cases r) (simp add: isNumber_def isValidCode_def Let_def)
  next
    case False
    then have sr: "show_range r = show_nat (start_code r) @ 45 # show_nat (end_code r)"
      by (simp add: show_range_def)
    then have "split_on 45 (show_range r) = [show_nat (start_code r), show_nat (end_code r)]"
      by (simp add: split_on_append split_on_no_sep)
    moreover have "45 \<in> set (show_range r)" using sr by simp
    ultimately show ?thesis using assms
      unfolding parseToken_def cleaned by (simp add: isNumber_def isValidCode_def range_wf_def)
  qed
qed

lemma map_filter_parse_show:
  assumes "\<forall>r\<in>set rs. range_wf r \<and> 100 \<le> start_code r \<and> end_code r \<le> 599"
  shows "List.map_filter parseToken (map show_range rs) = rs"
    and "filter (\<lambda>s. parseToken s = None) (map show_range rs) = []"
  using assms by (induction rs) (auto simp: parseToken_show_range List.map_filter_def)

lemma join_show_ranges_units: "u \<in> set (join [44] (map show_range rs)) \<Longrightarrow> is_digit u \<or> u = 45 \<or> u = 44"
proof (induction rs rule: induct_list012)
  case (3 x y zs)
  then show ?case using show_range_units by auto
qed (use show_range_units in auto)

lemma trim_join_show_ranges [simp]: "trim (join [44] (map show_range rs)) = join [44] (map show_range rs)"
proof (rule trim_no_ws)
  show "list_all (\<lambda>u. \<not> is_ws u) (join [44] (map show_range rs))"
    using join_show_ranges_units by (fastforce simp: list_all_iff is_digit_def is_ws_def)
qed

text \<open>The canonical text of a canonical list of valid ranges parses to that list.\<close>

lemma parse_canonical:
  assumes "separated rs" and "\<forall>r\<in>set rs. 100 \<le> start_code r \<and> end_code r \<le> 599"
  shows "parseHttpStatusCodeRules (Some (join [44] (map show_range rs))) =
    \<lparr>pr_ok = True, pr_ranges = rs, pr_tokens = map show_range rs,
     pr_normalized = join [44] (map show_range rs), pr_invalidTokens = []\<rparr>"
proof (cases "rs = []")
  case True
  then show ?thesis by (simp add: parseHttpStatusCodeRules_def)
next
  case False
  let ?j = "join [44] (map show_range rs)"
  have ne: "?j \<noteq> []" using False by (cases rs) (auto simp: join_eq_Nil)
  have comma: "44 \<notin> set (show_range r)" for r
    using show_range_units [of 44 r] by (auto simp: is_digit_def)
  have nofw: "map (\<lambda>u. if u = 65292 then 44 else u) ?j = ?j"
    using join_show_ranges_units [of 65292 rs] by (intro map_idI) (auto simp: is_digit_def)
  have parts: "split_on 44 ?j = map show_range rs"
    by (rule split_on_join) (use False comma in auto)
  have "map trim (map show_range rs) = map show_range rs" by simp
  moreover have "filter (\<lambda>s. s \<noteq> []) (map show_range rs) = map show_range rs"
    by (simp add: filter_id_conv)
  moreover note map_filter_parse_show [of rs]
  ultimately show ?thesis
    using ne assms separated_all_wf [OF assms(1)] mergeRanges_separated [OF assms(1)]
    by (simp add: parseHttpStatusCodeRules_def Let_def nofw parts del: map_map filter_filter)
qed

lemma merged_valid:
  assumes "\<forall>r\<in>set rs. range_wf r \<and> 100 \<le> start_code r \<and> end_code r \<le> 599"
  shows "\<forall>r\<in>set (mergeRanges rs). 100 \<le> start_code r \<and> end_code r \<le> 599"
proof
  fix r assume r: "r \<in> set (mergeRanges rs)"
  have wf: "\<forall>r\<in>set rs. range_wf r" using assms by blast
  note m = mergeRanges_sound [OF wf]
  have rw: "start_code r \<le> end_code r"
    using separated_all_wf [OF m(1)] r by (auto simp: range_wf_def)
  have "covers (mergeRanges rs) (start_code r)" "covers (mergeRanges rs) (end_code r)"
    using r rw by (auto simp: covers_def list_ex_iff)
  then have "covers rs (start_code r)" "covers rs (end_code r)" by (simp_all add: m(2))
  then show "100 \<le> start_code r \<and> end_code r \<le> 599"
    using assms by (fastforce simp: covers_def list_ex_iff)
qed

lemma map_filter_valid:
  "\<forall>r\<in>set (List.map_filter parseToken ts). range_wf r \<and> 100 \<le> start_code r \<and> end_code r \<le> 599"
  by (auto simp: List.map_filter_def dest: parseToken_valid)

lemma parse_ok_ranges:
  assumes "pr_ok (parseHttpStatusCodeRules input)"
  shows "separated (pr_ranges (parseHttpStatusCodeRules input))"
    and "\<forall>r\<in>set (pr_ranges (parseHttpStatusCodeRules input)). 100 \<le> start_code r \<and> end_code r \<le> 599"
    and "parseHttpStatusCodeRules input =
      \<lparr>pr_ok = True, pr_ranges = pr_ranges (parseHttpStatusCodeRules input),
       pr_tokens = map show_range (pr_ranges (parseHttpStatusCodeRules input)),
       pr_normalized = join [44] (map show_range (pr_ranges (parseHttpStatusCodeRules input))),
       pr_invalidTokens = []\<rparr>"
  using assms map_filter_valid merged_valid [OF map_filter_valid] mergeRanges_sound(1)
  by (auto simp: parseHttpStatusCodeRules_def Let_def split: if_splits)


section \<open>Properties\<close>

text \<open>C40 [mergeRanges_exact]: \<open>mergeRanges\<close> neither adds nor loses a status code, whatever the
  order and overlap of the input ranges, and its result is sorted with a gap of at least one
  code between consecutive ranges.\<close>

theorem mergeRanges_exact:
  assumes "\<forall>r\<in>set rs. range_wf r"
  shows "(covers (mergeRanges rs) c \<longleftrightarrow> covers rs c) \<and> separated (mergeRanges rs)"
  using mergeRanges_sound [OF assms] by simp

theorem mergeRanges_exact_witness:
  "let rs = [\<lparr>start_code = 500, end_code = 505\<rparr>, \<lparr>start_code = 401, end_code = 401\<rparr>,
             \<lparr>start_code = 402, end_code = 403\<rparr>]
   in (\<forall>r\<in>set rs. range_wf r) \<and> (covers (mergeRanges rs) 403 \<longleftrightarrow> covers rs 403) \<and>
      separated (mergeRanges rs)"
  using mergeRanges_exact [of "[\<lparr>start_code = 500, end_code = 505\<rparr>,
      \<lparr>start_code = 401, end_code = 401\<rparr>, \<lparr>start_code = 402, end_code = 403\<rparr>]" 403]
  by (simp add: range_wf_def)

text \<open>Parsing the normalised text of a parse result gives the same result,
  for every input, valid or not: saving the form and opening it again changes nothing.\<close>

theorem rules_round_trip:
  "parseHttpStatusCodeRules (Some (pr_normalized (parseHttpStatusCodeRules input))) =
     parseHttpStatusCodeRules input"
proof (cases "pr_ok (parseHttpStatusCodeRules input)")
  case True
  note r = parse_ok_ranges [OF True]
  have n: "pr_normalized (parseHttpStatusCodeRules input) =
      join [44] (map show_range (pr_ranges (parseHttpStatusCodeRules input)))"
    by (subst r(3)) simp
  show ?thesis unfolding n parse_canonical [OF r(1,2)] by (rule r(3) [symmetric])
next
  case False
  then have "pr_normalized (parseHttpStatusCodeRules input) =
      trim (case input of None \<Rightarrow> [] | Some s \<Rightarrow> s)"
    by (auto simp: parseHttpStatusCodeRules_def Let_def split: if_splits)
  then show ?thesis by (simp add: parseHttpStatusCodeRules_def)
qed

text \<open>The normalised text is canonical: two accepted rule texts have the
  same normalised text exactly when they admit the same status codes.\<close>

theorem rules_canonical:
  assumes "pr_ok (parseHttpStatusCodeRules x)" and "pr_ok (parseHttpStatusCodeRules y)"
  shows "pr_normalized (parseHttpStatusCodeRules x) = pr_normalized (parseHttpStatusCodeRules y)
     \<longleftrightarrow> (\<forall>c. covers (pr_ranges (parseHttpStatusCodeRules x)) c =
              covers (pr_ranges (parseHttpStatusCodeRules y)) c)"
    (is "?n \<longleftrightarrow> ?c")
proof
  assume ?n
  then have "join [44] (map show_range (pr_ranges (parseHttpStatusCodeRules x))) =
      join [44] (map show_range (pr_ranges (parseHttpStatusCodeRules y)))"
    using parse_ok_ranges(3) [OF assms(1)] parse_ok_ranges(3) [OF assms(2)]
    by (metis parsed_rules.select_convs(4))
  then have "pr_ranges (parseHttpStatusCodeRules x) = pr_ranges (parseHttpStatusCodeRules y)"
    using parse_canonical [OF parse_ok_ranges(1,2) [OF assms(1)]]
      parse_canonical [OF parse_ok_ranges(1,2) [OF assms(2)]]
    by (metis parsed_rules.select_convs(2))
  then show ?c by simp
next
  assume ?c
  then have "pr_ranges (parseHttpStatusCodeRules x) = pr_ranges (parseHttpStatusCodeRules y)"
    using parse_ok_ranges(1) [OF assms(1)] parse_ok_ranges(1) [OF assms(2)]
    by (intro separated_unique) (auto simp: fun_eq_iff)
  then show ?n
    using parse_ok_ranges(3) [OF assms(1)] parse_ok_ranges(3) [OF assms(2)]
    by (metis parsed_rules.select_convs(4))
qed

theorem rules_canonical_witness:
  "pr_ok (parseHttpStatusCodeRules (Some (js ''403, 401-402''))) \<and>
   pr_ok (parseHttpStatusCodeRules (Some (js ''401-403''))) \<and>
   (pr_normalized (parseHttpStatusCodeRules (Some (js ''403, 401-402''))) =
      pr_normalized (parseHttpStatusCodeRules (Some (js ''401-403'')))
    \<longleftrightarrow> (\<forall>c. covers (pr_ranges (parseHttpStatusCodeRules (Some (js ''403, 401-402'')))) c =
             covers (pr_ranges (parseHttpStatusCodeRules (Some (js ''401-403'')))) c))"
proof -
  have x: "pr_ok (parseHttpStatusCodeRules (Some (js ''403, 401-402'')))" by code_simp
  have y: "pr_ok (parseHttpStatusCodeRules (Some (js ''401-403'')))" by code_simp
  show ?thesis using x y rules_canonical [OF x y] by blast
qed

text \<open>A token with three dash-separated parts is accepted as the range
  of its first two; the server's parser of the same setting rejects it.\<close>

theorem range_third_part_ignored:
  "parseToken (js ''400-450-499'') = Some \<lparr>start_code = 400, end_code = 450\<rparr>"
  by (simp add: parseToken_def js_lit is_ws_def trim_def trimStart_def trimEnd_def isNumber_def
      all_digits_def is_digit_def digits_val_def isValidCode_def)

end
