(* ===== verification/RedirectGuard.thy ===== *)
theory RedirectGuard
  imports JsJson
begin

text \<open>
  The guard on status code redirects of a channel
  (\<open>web/src/features/channels/lib/status-code-risk-guard.ts\<close>): which entries of the mapping are
  not valid, which redirect a code that must not be redirected (504 and 524), and which of
  those are new in an edit. The parameter \<open>ni\<close> prints non-integer numbers.
\<close>

definition NON_REDIRECTABLE_STATUS_CODES :: "nat list" where
  "NON_REDIRECTABLE_STATUS_CODES = [504, 524]"

text \<open>The regular expression \<open>/^[1-5]\d{2}$/\<close>.\<close>

definition code_pattern :: "jstring \<Rightarrow> bool" where
  "code_pattern s \<longleftrightarrow>
     (case s of [a, b, c] \<Rightarrow> 49 \<le> a \<and> a \<le> 53 \<and> is_digit b \<and> is_digit c | _ \<Rightarrow> False)"

definition parseStatusCodeKey :: "jstring \<Rightarrow> nat option" where
  "parseStatusCodeKey rawKey =
     (let normalized = trim rawKey
      in if \<not> code_pattern normalized then None else Some (digits_val normalized))"

definition parseStatusCodeMappingTarget :: "json \<Rightarrow> nat option" where
  "parseStatusCodeMappingTarget rawValue =
     (case rawValue of
        JNum q \<Rightarrow>
          if q = of_int \<lfloor>q\<rfloor> \<and> q \<ge> 100 \<and> q \<le> 599 then Some (nat \<lfloor>q\<rfloor>) else None
      | JStr s \<Rightarrow>
          let normalized = trim s
          in if \<not> code_pattern normalized then None
             else let code = digits_val normalized
                  in if code \<ge> 100 \<and> code \<le> 599 then Some code else None
      | _ \<Rightarrow> None)"

definition status_entries :: "jstring \<Rightarrow> json jobj" where
  "status_entries str =
     (if trim str = [] then [] else
        case parse_plain_object str of None \<Rightarrow> [] | Some ob \<Rightarrow> ob)"

text \<open>8594 is the arrow \<open>\<rightarrow>\<close>.\<close>

definition collectInvalidStatusCodeEntries :: "(rat \<Rightarrow> jstring) \<Rightarrow> jstring \<Rightarrow> jstring list" where
  "collectInvalidStatusCodeEntries ni str =
     List.map_filter
       (\<lambda>(rawKey, rawValue).
          if parseStatusCodeKey rawKey = None \<or> parseStatusCodeMappingTarget rawValue = None
          then Some (rawKey @ [32, 8594, 32] @ js_to_string ni rawValue) else None)
       (status_entries str)"

definition redirect_text :: "nat \<Rightarrow> nat \<Rightarrow> jstring" where
  "redirect_text fromCode toCode = show_nat fromCode @ js '' -> '' @ show_nat toCode"

definition risky_entry :: "jstring \<times> json \<Rightarrow> jstring option" where
  "risky_entry e =
     (case (parseStatusCodeKey (fst e), parseStatusCodeMappingTarget (snd e)) of
        (Some fromCode, Some toCode) \<Rightarrow>
          if fromCode \<notin> set NON_REDIRECTABLE_STATUS_CODES then None
          else if fromCode = toCode then None
          else Some (redirect_text fromCode toCode)
      | _ \<Rightarrow> None)"

definition collectDisallowedStatusCodeRedirects :: "jstring \<Rightarrow> jstring list" where
  "collectDisallowedStatusCodeRedirects str =
     sort (js_set (List.map_filter risky_entry (status_entries str)))"

definition collectNewDisallowedStatusCodeRedirects :: "jstring \<Rightarrow> jstring \<Rightarrow> jstring list" where
  "collectNewDisallowedStatusCodeRedirects originalStr currentStr =
     (let currentRisky = collectDisallowedStatusCodeRedirects currentStr
      in if currentRisky = [] then []
         else let originalRiskySet = set (collectDisallowedStatusCodeRedirects originalStr)
              in filter (\<lambda>mapping. mapping \<notin> originalRiskySet) currentRisky)"


section \<open>Lemmas\<close>

lemma code_pattern_val: "code_pattern s \<Longrightarrow> 100 \<le> digits_val s \<and> digits_val s \<le> 599"
  by (auto simp: code_pattern_def digits_val_def is_digit_def split: list.splits)

lemma parse_key_bounds: "parseStatusCodeKey k = Some c \<Longrightarrow> 100 \<le> c \<and> c \<le> 599"
  by (auto simp: parseStatusCodeKey_def Let_def dest: code_pattern_val split: if_splits)

lemma parse_target_bounds: "parseStatusCodeMappingTarget v = Some c \<Longrightarrow> 100 \<le> c \<and> c \<le> 599"
proof (cases v)
  case (JNum q)
  assume "parseStatusCodeMappingTarget v = Some c"
  with JNum have "q = of_int \<lfloor>q\<rfloor>" "q \<ge> 100" "q \<le> 599" "c = nat \<lfloor>q\<rfloor>"
    by (auto simp: parseStatusCodeMappingTarget_def split: if_splits)
  then have "100 \<le> \<lfloor>q\<rfloor>" "\<lfloor>q\<rfloor> \<le> 599" by linarith+
  with \<open>c = nat \<lfloor>q\<rfloor>\<close> show ?thesis by (simp add: nat_le_iff le_nat_iff del: le_floor_iff floor_le_iff)
qed (auto simp: parseStatusCodeMappingTarget_def Let_def split: if_splits)

lemma redirect_text_inj:
  assumes "redirect_text a b = redirect_text a' b'"
  shows "a = a' \<and> b = b'"
proof -
  have d: "takeWhile is_digit (show_nat n @ js '' -> '' @ r) = show_nat n"
    "dropWhile is_digit (show_nat n @ js '' -> '' @ r) = js '' -> '' @ r" for n r
    using show_nat_digits [of n]
    by (auto simp: takeWhile_append dropWhile_append list_all_iff js_lit is_digit_def)
  from assms have "show_nat a = show_nat a'" "js '' -> '' @ show_nat b = js '' -> '' @ show_nat b'"
    unfolding redirect_text_def by (metis d(1), metis d(2))
  then show ?thesis by simp
qed

lemma mem_disallowed:
  "t \<in> set (collectDisallowedStatusCodeRedirects str) \<longleftrightarrow>
     (\<exists>k v. (k, v) \<in> set (status_entries str) \<and> risky_entry (k, v) = Some t)"
  by (auto simp: collectDisallowedStatusCodeRedirects_def mem_map_filter)

lemma risky_entry_iff:
  "risky_entry (k, v) = Some t \<longleftrightarrow>
     (\<exists>f c. parseStatusCodeKey k = Some f \<and> parseStatusCodeMappingTarget v = Some c \<and>
        f \<in> {504, 524} \<and> f \<noteq> c \<and> t = redirect_text f c)"
  by (auto simp: risky_entry_def NON_REDIRECTABLE_STATUS_CODES_def split: option.splits)


section \<open>Properties\<close>

text \<open>The guard reports exactly the entries of the mapping whose key
  and target are valid status codes, whose key is 504 or 524 and whose target is another
  code; the report is sorted and has no duplicates.\<close>

theorem disallowed_redirects_exact:
  "(t \<in> set (collectDisallowedStatusCodeRedirects str) \<longleftrightarrow>
     (\<exists>k v f c. (k, v) \<in> set (status_entries str) \<and> parseStatusCodeKey k = Some f \<and>
        parseStatusCodeMappingTarget v = Some c \<and> f \<in> {504, 524} \<and> f \<noteq> c \<and>
        t = redirect_text f c)) \<and>
   sorted (collectDisallowedStatusCodeRedirects str) \<and>
   distinct (collectDisallowedStatusCodeRedirects str)"
proof (intro conjI)
  show "t \<in> set (collectDisallowedStatusCodeRedirects str) \<longleftrightarrow>
     (\<exists>k v f c. (k, v) \<in> set (status_entries str) \<and> parseStatusCodeKey k = Some f \<and>
        parseStatusCodeMappingTarget v = Some c \<and> f \<in> {504, 524} \<and> f \<noteq> c \<and>
        t = redirect_text f c)"
    by (auto simp: mem_disallowed risky_entry_iff)
qed (simp_all add: collectDisallowedStatusCodeRedirects_def)

text \<open>The list of new risky redirects of an edit is empty exactly when
  every risky redirect of the edited mapping was already in the original one, so a save
  without confirmation cannot add one.\<close>

theorem new_redirects_confirmed:
  "collectNewDisallowedStatusCodeRedirects originalStr currentStr = [] \<longleftrightarrow>
     set (collectDisallowedStatusCodeRedirects currentStr) \<subseteq>
     set (collectDisallowedStatusCodeRedirects originalStr)"
  by (auto simp: collectNewDisallowedStatusCodeRedirects_def Let_def filter_empty_conv)

text \<open>A mapping with no invalid entry and no risky redirect maps
  every 504 and 524 key to itself.\<close>

theorem clean_mapping_keeps_timeouts:
  assumes "collectInvalidStatusCodeEntries ni str = []"
    and "collectDisallowedStatusCodeRedirects str = []"
    and "(k, v) \<in> set (status_entries str)" and "parseStatusCodeKey k = Some f" and "f \<in> {504, 524}"
  shows "parseStatusCodeMappingTarget v = Some f"
proof -
  from assms(1,3) have "parseStatusCodeMappingTarget v \<noteq> None"
    by (fastforce simp: collectInvalidStatusCodeEntries_def map_filter_Nil split: if_splits)
  then obtain c where c: "parseStatusCodeMappingTarget v = Some c" by blast
  have "risky_entry (k, v) \<noteq> Some (redirect_text f c)"
    using assms(2,3) mem_disallowed [of _ str] by fastforce
  with c assms(4,5) show ?thesis by (auto simp: risky_entry_iff)
qed

theorem clean_mapping_keeps_timeouts_witness:
  "let str = js ''{\"504\":504,\"429\":\"503\"}''; ni = (\<lambda>_. []) in
   collectInvalidStatusCodeEntries ni str = [] \<and> collectDisallowedStatusCodeRedirects str = [] \<and>
   (js ''504'', JNum 504) \<in> set (status_entries str) \<and> parseStatusCodeKey (js ''504'') = Some 504 \<and>
   parseStatusCodeMappingTarget (JNum 504) = Some 504"
proof -
  let ?str = "js ''{\"504\":504,\"429\":\"503\"}''"
  have 1: "collectInvalidStatusCodeEntries (\<lambda>_. []) ?str = []" by code_simp
  have 2: "collectDisallowedStatusCodeRedirects ?str = []" by code_simp
  have 3: "(js ''504'', JNum 504) \<in> set (status_entries ?str)" by code_simp
  have 4: "parseStatusCodeKey (js ''504'') = Some 504" by code_simp
  show ?thesis
    using 1 2 3 4 clean_mapping_keeps_timeouts [OF 1 2 3 4] by simp
qed

end
