(* ===== verification/ModelMapping.thy ===== *)
theory ModelMapping
  imports JsJson
begin

text \<open>
  Validation of a channel's model list and model mapping
  (\<open>web/src/features/channels/lib/model-mapping-validation.ts\<close>). A \<open>Set\<close> is the list of its
  elements in insertion order.
\<close>

definition parseModelsString :: "jstring \<Rightarrow> jstring list" where
  "parseModelsString modelsStr =
     (if modelsStr = [] then []
      else filter (\<lambda>m. m \<noteq> []) (map trim (split_on 44 modelsStr)))"

definition formatModelsArray :: "jstring list \<Rightarrow> jstring" where
  "formatModelsArray models = join [44] (js_set models)"

definition normalizeModelName :: "jstring \<Rightarrow> jstring" where
  "normalizeModelName model = trim model"

definition extractMappingSourceModels :: "jstring \<Rightarrow> jstring list" where
  "extractMappingSourceModels modelMapping =
     (let trimmed = trim modelMapping
      in if trimmed = [] then []
         else case parse_plain_object trimmed of
                None \<Rightarrow> []
              | Some parsed \<Rightarrow> js_set (filter (\<lambda>key. key \<noteq> []) (map trim (obj_keys parsed))))"

definition trimmed_string :: "json \<Rightarrow> jstring option" where
  "trimmed_string value =
     (case value of JStr s \<Rightarrow> if trim s = [] then None else Some (trim s) | _ \<Rightarrow> None)"

definition extractRedirectModels :: "jstring \<Rightarrow> jstring list" where
  "extractRedirectModels modelMapping =
     (let trimmed = trim modelMapping
      in if trimmed = [] then []
         else case parse_plain_object trimmed of
                None \<Rightarrow> []
              | Some parsed \<Rightarrow> js_set (List.map_filter trimmed_string (map snd parsed)))"

definition hasModelConfigChanged ::
  "jstring list \<Rightarrow> jstring \<Rightarrow> jstring list \<Rightarrow> jstring \<Rightarrow> bool" where
  "hasModelConfigChanged currentModels currentModelMapping initialModels initialModelMapping =
     (if initialModels = [] \<and> initialModelMapping = [] then True
      else if length currentModels \<noteq> length initialModels then True
      else if list_ex (\<lambda>i. currentModels ! i \<noteq> initialModels ! i) [0..<length currentModels] then True
      else trim currentModelMapping \<noteq> trim initialModelMapping)"

definition findMissingModelsInMapping :: "jstring \<Rightarrow> jstring list \<Rightarrow> jstring list" where
  "findMissingModelsInMapping modelMapping currentModels =
     (if modelMapping = [] \<or> trim modelMapping = [] then []
      else case parse_plain_object modelMapping of
             None \<Rightarrow> []
           | Some parsedMapping \<Rightarrow>
               let modelSet = js_set (map normalizeModelName currentModels)
               in js_set (filter (\<lambda>key. key \<noteq> [] \<and> key \<notin> set modelSet)
                    (map normalizeModelName (obj_keys parsedMapping))))"

datatype mapping_verdict = MappingValid | MappingNotObject | MappingNotStrings | MappingNotJson

definition validateModelMappingJson :: "jstring \<Rightarrow> mapping_verdict" where
  "validateModelMappingJson modelMapping =
     (if modelMapping = [] \<or> trim modelMapping = [] then MappingValid
      else case json_parse modelMapping of
             None \<Rightarrow> MappingNotJson
           | Some (JObj parsed) \<Rightarrow>
               if list_ex (\<lambda>value. \<not> is_string (Some value)) (map snd parsed) then MappingNotStrings
               else MappingValid
           | Some _ \<Rightarrow> MappingNotObject)"

definition findExposedTargetModels :: "jstring \<Rightarrow> jstring list \<Rightarrow> jstring list" where
  "findExposedTargetModels modelMapping currentModels =
     (let redirectModels = extractRedirectModels modelMapping
      in if redirectModels = [] then []
         else let modelSet = js_set (map normalizeModelName currentModels)
              in filter (\<lambda>model. normalizeModelName model \<in> set modelSet) redirectModels)"

record model_categories =
  normalizedCurrentModels :: "jstring list"
  normalizedRedirectModels :: "jstring list"
  classificationSet :: "jstring list"
  redirectOnlySet :: "jstring list"

definition categorizeModelsWithRedirect :: "jstring list \<Rightarrow> jstring list \<Rightarrow> model_categories" where
  "categorizeModelsWithRedirect currentModels redirectModels =
     (let normalizedCurrent =
            js_set (filter (\<lambda>m. m \<noteq> []) (map normalizeModelName currentModels));
          normalizedRedirect =
            js_set (filter (\<lambda>m. m \<noteq> []) (map normalizeModelName redirectModels))
      in \<lparr> normalizedCurrentModels = normalizedCurrent,
           normalizedRedirectModels = normalizedRedirect,
           classificationSet = js_set (normalizedCurrent @ normalizedRedirect),
           redirectOnlySet =
             js_set (filter (\<lambda>m. m \<notin> set normalizedCurrent) normalizedRedirect) \<rparr>)"


section \<open>Lemmas\<close>

definition model_name_ok :: "jstring \<Rightarrow> bool" where
  "model_name_ok m \<longleftrightarrow> m \<noteq> [] \<and> trim m = m \<and> 44 \<notin> set m"

lemma split_members_no_sep: "m \<in> set (split_on c s) \<Longrightarrow> c \<notin> set m"
  by (induction c s arbitrary: m rule: split_on.induct) (auto split: if_splits list.splits)

lemma parseModels_names_ok: "m \<in> set (parseModelsString s) \<Longrightarrow> model_name_ok m"
  by (auto simp: parseModelsString_def model_name_ok_def split: if_splits
      dest!: split_members_no_sep set_trim [THEN subsetD])

lemma parse_format_names:
  assumes "list_all model_name_ok ms"
  shows "parseModelsString (formatModelsArray ms) = js_set ms"
proof (cases "ms = []")
  case True
  then show ?thesis by (simp add: parseModelsString_def formatModelsArray_def js_set_def)
next
  case False
  have ok: "\<forall>m\<in>set (js_set ms). model_name_ok m" using assms by (simp add: list_all_iff)
  have ne: "js_set ms \<noteq> []" using False by (metis set_empty set_js_set)
  have "split_on 44 (join [44] (js_set ms)) = js_set ms"
    using ok ne by (intro split_on_join) (auto simp: model_name_ok_def)
  moreover have "join [44] (js_set ms) \<noteq> []"
    using ok ne by (fastforce simp: join_eq_Nil model_name_ok_def simp del: set_js_set)
  moreover have "map trim (js_set ms) = js_set ms" "filter (\<lambda>m. m \<noteq> []) (js_set ms) = js_set ms"
    using ok by (auto simp: model_name_ok_def intro: map_idI filter_True)
  ultimately show ?thesis by (simp add: parseModelsString_def formatModelsArray_def)
qed

lemma mem_redirects:
  "m \<in> set (extractRedirectModels s) \<longleftrightarrow>
     trim s \<noteq> [] \<and> m \<noteq> [] \<and>
     (\<exists>ob k v. parse_plain_object (trim s) = Some ob \<and> (k, JStr v) \<in> set ob \<and> m = trim v)"
proof -
  have t: "trimmed_string v = Some m \<longleftrightarrow> m \<noteq> [] \<and> (\<exists>w. v = JStr w \<and> m = trim w)" for v
    by (cases v) (auto simp: trimmed_string_def)
  show ?thesis
    by (cases "parse_plain_object (trim s)")
      (auto simp: extractRedirectModels_def Let_def mem_map_filter t,
        metis, metis snd_conv)
qed


section \<open>Properties\<close>

text \<open>What the form reads from a stored model list survives being written
  back: every text reads as a list of non-empty trimmed names without commas, and writing
  any such list and reading it again gives the list without its duplicates.\<close>

theorem models_round_trip:
  "list_all model_name_ok (parseModelsString s) \<and>
   parseModelsString (formatModelsArray (parseModelsString s)) = js_set (parseModelsString s)"
proof -
  have "list_all model_name_ok (parseModelsString s)"
    by (simp add: list_all_iff parseModels_names_ok)
  then show ?thesis by (simp add: parse_format_names)
qed

text \<open>For a channel being edited, the configuration counts as unchanged
  exactly when the model lists are equal and the mappings are equal up to outer whitespace.\<close>

theorem model_config_unchanged_iff:
  "\<not> hasModelConfigChanged cur curMap ini iniMap \<longleftrightarrow>
     \<not> (ini = [] \<and> iniMap = []) \<and> cur = ini \<and> trim curMap = trim iniMap"
proof -
  have "(length cur \<noteq> length ini \<or> list_ex (\<lambda>i. cur ! i \<noteq> ini ! i) [0..<length cur]) \<longleftrightarrow> cur \<noteq> ini"
    unfolding list_ex_iff list_eq_iff_nth_eq [of cur ini] by auto
  then show ?thesis unfolding hasModelConfigChanged_def by argo
qed

text \<open>For a mapping that parses as an object, the missing-model check reports
  exactly the non-blank trimmed source names that the model list (up to trimming) does not
  have, and the exposed-target check exactly the non-blank trimmed string targets it does
  have.\<close>

theorem mapping_checks_exact:
  assumes "parse_plain_object mapping = Some ob" and "trim mapping = mapping" and "mapping \<noteq> []"
  shows "(m \<in> set (findMissingModelsInMapping mapping models) \<longleftrightarrow>
            m \<noteq> [] \<and> m \<in> trim ` set (obj_keys ob) \<and> m \<notin> trim ` set models) \<and>
         (m \<in> set (findExposedTargetModels mapping models) \<longleftrightarrow>
            m \<noteq> [] \<and> (\<exists>k v. (k, JStr v) \<in> set ob \<and> m = trim v) \<and> m \<in> trim ` set models)"
proof
  show "m \<in> set (findMissingModelsInMapping mapping models) \<longleftrightarrow>
          m \<noteq> [] \<and> m \<in> trim ` set (obj_keys ob) \<and> m \<notin> trim ` set models"
    using assms by (auto simp: findMissingModelsInMapping_def normalizeModelName_def Let_def)
  have "m \<in> set (findExposedTargetModels mapping models) \<longleftrightarrow>
          m \<in> set (extractRedirectModels mapping) \<and> trim m \<in> trim ` set models"
    by (auto simp: findExposedTargetModels_def normalizeModelName_def Let_def)
  then show "m \<in> set (findExposedTargetModels mapping models) \<longleftrightarrow>
          m \<noteq> [] \<and> (\<exists>k v. (k, JStr v) \<in> set ob \<and> m = trim v) \<and> m \<in> trim ` set models"
    using assms by (simp add: mem_redirects) (metis trim_trim)
qed

theorem mapping_checks_exact_witness:
  "js ''a'' \<in> set (findMissingModelsInMapping (js ''{\"a\":\"b\"}'') [js ''b'']) \<and>
   js ''b'' \<in> set (findExposedTargetModels (js ''{\"a\":\"b\"}'') [js ''b''])"
proof -
  have p: "parse_plain_object (js ''{\"a\":\"b\"}'') = Some [(js ''a'', JStr (js ''b''))]"
    by code_simp
  have t: "trim (js ''{\"a\":\"b\"}'') = js ''{\"a\":\"b\"}''" "js ''{\"a\":\"b\"}'' \<noteq> []"
    "trim (js ''a'') = js ''a''" "trim (js ''b'') = js ''b''" "js ''a'' \<noteq> js ''b''" by code_simp+
  show ?thesis
    using t(3-5) mapping_checks_exact [OF p t(1,2), of "js ''a''" "[js ''b'']"]
      mapping_checks_exact [OF p t(1,2), of "js ''b''" "[js ''b'']"]
    by (simp add: obj_keys_def)
qed

text \<open>The categories shown for a channel's models partition: the
  redirect-only names and the current names are disjoint and together make up the
  classification set.\<close>

theorem redirect_categories_partition:
  "let c = categorizeModelsWithRedirect cur red in
     set (redirectOnlySet c) \<inter> set (normalizedCurrentModels c) = {} \<and>
     set (redirectOnlySet c) \<union> set (normalizedCurrentModels c) = set (classificationSet c) \<and>
     set (classificationSet c) = trim ` (set cur \<union> set red) - {[]}"
  by (auto simp: categorizeModelsWithRedirect_def normalizeModelName_def Let_def)

end
