(* ===== verification/SidebarAccess.thy ===== *)
theory SidebarAccess
  imports JsRoundTrip
begin

text \<open>
  Which navigation entries a user sees (\<open>web/src/hooks/use-sidebar-config.ts\<close>): an entry's URL
  is looked up in a whitelist by its longest registered prefix, the administrator's
  configuration decides first, and the user's configuration can only narrow it. Both
  configurations are stored JSON texts; the parsed values keep whatever shape the text has.
\<close>

type_synonym section_config = "json jobj"
type_synonym admin_config = "json jobj"

definition flags :: "string list \<Rightarrow> json" where
  "flags ks = JObj (map (\<lambda>k. (js k, JBool True)) ks)"

definition DEFAULT_SIDEBAR_MODULES :: admin_config where
  "DEFAULT_SIDEBAR_MODULES =
     [(js ''playground'', flags [''enabled'', ''playground'']),
      (js ''console'', flags [''enabled'', ''detail'', ''token'', ''log'', ''midjourney'', ''task'']),
      (js ''personal'', flags [''enabled'', ''topup'', ''plans'', ''customers'', ''billing'', ''personal'']),
      (js ''business'', flags [''enabled'', ''channels'', ''models'', ''users'', ''billing'', ''site'',
         ''content'', ''policies'']),
      (js ''system'', flags [''enabled'', ''runtime'', ''auth'', ''security'', ''routing''])]"

text \<open>One default section merged into the configuration; spreading a value that is not an
  object copies its indexed entries, if any.\<close>

definition fill_module :: "section_config \<Rightarrow> jstring \<times> json \<Rightarrow> section_config" where
  "fill_module sec e =
     (if obj_get sec (fst e) = None then obj_put (fst e) (snd e) sec else sec)"

definition merged_section :: "section_config \<Rightarrow> json option \<Rightarrow> section_config" where
  "merged_section defaultSection existingSection =
     (if \<not> truthy existingSection then obj_spread [] defaultSection
      else foldl fill_module
             (obj_spread (obj_spread [] defaultSection) (entries (the existingSection)))
             defaultSection)"

definition merge_section :: "admin_config \<Rightarrow> jstring \<times> json \<Rightarrow> admin_config" where
  "merge_section merged e =
     obj_put (fst e) (JObj (merged_section (entries (snd e)) (obj_get merged (fst e)))) merged"

definition mergeWithDefaultSidebarModules :: "json \<Rightarrow> admin_config" where
  "mergeWithDefaultSidebarModules config =
     foldl merge_section (obj_spread [] (entries config)) DEFAULT_SIDEBAR_MODULES"

record config_mapping =
  cm_section :: jstring
  cm_module :: jstring

definition cm :: "string \<Rightarrow> string \<Rightarrow> string \<Rightarrow> jstring \<times> config_mapping" where
  "cm url sec m = (js url, \<lparr>cm_section = js sec, cm_module = js m\<rparr>)"

definition URL_TO_CONFIG_MAP :: "(jstring \<times> config_mapping) list" where
  "URL_TO_CONFIG_MAP =
     [cm ''/playground'' ''playground'' ''playground'',
      cm ''/dashboard'' ''console'' ''detail'',
      cm ''/dashboard/overview'' ''console'' ''detail'',
      cm ''/dashboard/models'' ''console'' ''detail'',
      cm ''/dashboard/users'' ''console'' ''detail'',
      cm ''/keys'' ''console'' ''token'',
      cm ''/usage-logs'' ''console'' ''log'',
      cm ''/usage-logs/common'' ''console'' ''log'',
      cm ''/usage-logs/drawing'' ''console'' ''midjourney'',
      cm ''/usage-logs/task'' ''console'' ''task'',
      cm ''/wallet'' ''personal'' ''topup'',
      cm ''/plans'' ''personal'' ''plans'',
      cm ''/customers'' ''personal'' ''customers'',
      cm ''/billing'' ''personal'' ''billing'',
      cm ''/profile'' ''personal'' ''personal'',
      cm ''/business-settings'' ''business'' ''billing'',
      cm ''/business-settings/billing'' ''business'' ''billing'',
      cm ''/business-settings/site'' ''business'' ''site'',
      cm ''/business-settings/content'' ''business'' ''content'',
      cm ''/business-settings/policies'' ''business'' ''policies'',
      cm ''/users'' ''business'' ''users'',
      cm ''/redemption-codes'' ''business'' ''users'',
      cm ''/subscriptions'' ''business'' ''users'',
      cm ''/discounts'' ''business'' ''billing'',
      cm ''/channels'' ''business'' ''channels'',
      cm ''/models'' ''business'' ''models'',
      cm ''/models/metadata'' ''business'' ''models'',
      cm ''/models/deployments'' ''business'' ''models'',
      cm ''/system-info'' ''system'' ''runtime'',
      cm ''/system-settings'' ''system'' ''runtime'',
      cm ''/system-settings/auth'' ''system'' ''auth'',
      cm ''/system-settings/models'' ''system'' ''routing'',
      cm ''/system-settings/security'' ''system'' ''security'',
      cm ''/system-settings/operations'' ''system'' ''runtime'']"

text \<open>\<open>url === prefix || url.startsWith(`${prefix}/`)\<close>.\<close>

definition url_matches :: "jstring \<Rightarrow> jstring \<Rightarrow> bool" where
  "url_matches prefix url \<longleftrightarrow> url = prefix \<or> startsWith url (prefix @ [47])"

definition match_step ::
    "jstring \<Rightarrow> config_mapping option \<times> int \<Rightarrow> jstring \<times> config_mapping \<Rightarrow> config_mapping option \<times> int" where
  "match_step url acc e =
     (let (matched, matchedLength) = acc; (prefix, mapping) = e
      in if int (length prefix) \<le> matchedLength then (matched, matchedLength)
         else if url_matches prefix url then (Some mapping, int (length prefix))
         else (matched, matchedLength))"

definition findConfigMapping :: "jstring \<Rightarrow> config_mapping option" where
  "findConfigMapping url = fst (foldl (match_step url) (None, -1) URL_TO_CONFIG_MAP)"

definition parseSidebarConfig :: "jstring option \<Rightarrow> admin_config" where
  "parseSidebarConfig value =
     (case value of
        None \<Rightarrow> DEFAULT_SIDEBAR_MODULES
      | Some s \<Rightarrow>
          if s = [] \<or> trim s = [] then DEFAULT_SIDEBAR_MODULES
          else case json_parse s of
                 None \<Rightarrow> DEFAULT_SIDEBAR_MODULES
               | Some parsed \<Rightarrow> mergeWithDefaultSidebarModules parsed)"

text \<open>\<open>None\<close> is the \<open>null\<close> that means the user narrows nothing.\<close>

definition parseUserSidebarConfig :: "jstring option \<Rightarrow> json option" where
  "parseUserSidebarConfig value =
     (case value of
        None \<Rightarrow> None
      | Some s \<Rightarrow>
          if s = [] \<or> trim s = [] then None
          else case json_parse s of
                 None \<Rightarrow> None
               | Some parsed \<Rightarrow>
                   if \<not> truthy (Some parsed) \<or> \<not> is_object (Some parsed) then None else Some parsed)"

text \<open>The two layers for a section and a module key, as \<open>isModuleEnabled\<close> and the chat presets
  branch of \<open>isNavItemVisible\<close> both write them out.\<close>

definition admin_allows :: "admin_config \<Rightarrow> jstring \<Rightarrow> jstring \<Rightarrow> bool" where
  "admin_allows adminConfig sectionKey moduleKey =
     (let adminSection = obj_get adminConfig sectionKey
      in truthy adminSection \<and> truthy (jget adminSection (js ''enabled'')) \<and>
         jget adminSection moduleKey = Some (JBool True))"

definition user_allows :: "json option \<Rightarrow> jstring \<Rightarrow> jstring \<Rightarrow> bool" where
  "user_allows userConfig sectionKey moduleKey =
     (if userConfig = None then True
      else let userSection = jget userConfig sectionKey
           in if \<not> truthy userSection then True
              else if jget userSection (js ''enabled'') = Some (JBool False) then False
              else jget userSection moduleKey \<noteq> Some (JBool False))"

definition isModuleEnabled :: "jstring \<Rightarrow> admin_config \<Rightarrow> json option \<Rightarrow> bool" where
  "isModuleEnabled url adminConfig userConfig =
     (case findConfigMapping url of
        None \<Rightarrow> False
      | Some mapping \<Rightarrow>
          if \<not> admin_allows adminConfig (cm_section mapping) (cm_module mapping) then False
          else user_allows userConfig (cm_section mapping) (cm_module mapping))"

text \<open>The three kinds of navigation item; \<open>requiredRole\<close> is read by the sidebar view.\<close>

record nav_link =
  nl_title :: jstring
  nl_url :: jstring
  nl_configUrls :: "jstring list option"
  nl_requiredRole :: "int option"

datatype nav_item =
    NavLink nav_link
  | NavCollapsible jstring "nav_link list" "int option"
  | NavChatPresets jstring "int option"

definition isNavItemVisible :: "nav_item \<Rightarrow> admin_config \<Rightarrow> json option \<Rightarrow> bool" where
  "isNavItemVisible item adminConfig userConfig =
     (case item of
        NavChatPresets _ _ \<Rightarrow>
          if \<not> admin_allows adminConfig (js ''chat'') (js ''chat'') then False
          else user_allows userConfig (js ''chat'') (js ''chat'')
      | NavLink l \<Rightarrow>
          if nl_url l = [] then True
          else list_ex (\<lambda>url. isModuleEnabled url adminConfig userConfig)
                 (case nl_configUrls l of None \<Rightarrow> [nl_url l] | Some urls \<Rightarrow> urls)
      | NavCollapsible _ subs _ \<Rightarrow>
          list_ex (\<lambda>subItem. isModuleEnabled (nl_url subItem) adminConfig userConfig) subs)"

definition filter_subitems :: "admin_config \<Rightarrow> json option \<Rightarrow> nav_item \<Rightarrow> nav_item" where
  "filter_subitems adminConfig userConfig item =
     (case item of
        NavCollapsible t subs r \<Rightarrow>
          NavCollapsible t
            (filter (\<lambda>subItem. isModuleEnabled (nl_url subItem) adminConfig userConfig) subs) r
      | _ \<Rightarrow> item)"

definition filterNavItems :: "nav_item list \<Rightarrow> admin_config \<Rightarrow> json option \<Rightarrow> nav_item list" where
  "filterNavItems items adminConfig userConfig =
     filter (\<lambda>item. isNavItemVisible item adminConfig userConfig)
       (map (filter_subitems adminConfig userConfig) items)"

record nav_group =
  ng_id :: "jstring option"
  ng_title :: jstring
  ng_items :: "nav_item list"

text \<open>\<open>sidebar_settings === false\<close> in the user's permissions skips the user layer.\<close>

definition effective_user_config :: "bool option \<Rightarrow> jstring option \<Rightarrow> json option" where
  "effective_user_config sidebarSettings sidebarModules =
     (if sidebarSettings = Some False then None else parseUserSidebarConfig sidebarModules)"

definition useSidebarConfig ::
    "jstring option \<Rightarrow> bool option \<Rightarrow> jstring option \<Rightarrow> nav_group list \<Rightarrow> nav_group list" where
  "useSidebarConfig adminRaw sidebarSettings sidebarModules navGroups =
     (let adminConfig = parseSidebarConfig adminRaw;
          userConfig = effective_user_config sidebarSettings sidebarModules
      in filter (\<lambda>group. ng_items group \<noteq> [])
           (map (\<lambda>group. group\<lparr>ng_items := filterNavItems (ng_items group) adminConfig userConfig\<rparr>)
             navGroups))"

definition useIsSidebarModuleVisible ::
    "jstring option \<Rightarrow> bool option \<Rightarrow> jstring option \<Rightarrow> jstring \<Rightarrow> bool" where
  "useIsSidebarModuleVisible adminRaw sidebarSettings sidebarModules url =
     isModuleEnabled url (parseSidebarConfig adminRaw)
       (effective_user_config sidebarSettings sidebarModules)"


section \<open>Longest prefix\<close>

lemma url_matches_take: "url_matches p url \<Longrightarrow> take (length p) url = p"
  by (auto simp: url_matches_def startsWith_iff)

definition best_match :: "(jstring \<times> config_mapping) list \<Rightarrow> jstring \<Rightarrow> jstring \<Rightarrow> bool" where
  "best_match es url p \<longleftrightarrow>
     url_matches p url \<and> list_all (\<lambda>(p', _). url_matches p' url \<longrightarrow> length p' \<le> length p) es"

lemma best_match_longest:
  "best_match es url p \<Longrightarrow> (q, c) \<in> set es \<Longrightarrow> url_matches q url \<Longrightarrow> length q \<le> length p"
  by (auto simp: best_match_def list_all_iff)

lemma match_step_pair:
  "match_step url (m, l) (p, c) =
     (if int (length p) \<le> l \<or> \<not> url_matches p url then (m, l) else (Some c, int (length p)))"
  by (simp add: match_step_def)

lemma match_fold:
  "case foldl (match_step url) (None, -1) es of
     (None, l) \<Rightarrow> l = -1 \<and> list_all (\<lambda>(p, _). \<not> url_matches p url) es
   | (Some c, l) \<Rightarrow> \<exists>p. (p, c) \<in> set es \<and> l = int (length p) \<and> best_match es url p"
proof (induction es rule: rev_induct)
  case (snoc e es)
  obtain p c where e: "e = (p, c)" by (cases e)
  obtain m l where a: "foldl (match_step url) (None, -1) es = (m, l)" by fastforce
  show ?case
  proof (cases m)
    case None
    with snoc a have "l = -1" "list_all (\<lambda>(p, _). \<not> url_matches p url) es" by simp_all
    with a e None show ?thesis
      by (auto simp: match_step_pair best_match_def list_all_iff)
  next
    case (Some c')
    with snoc a obtain q where q: "(q, c') \<in> set es" "l = int (length q)" "best_match es url q"
      by auto
    show ?thesis
    proof (cases "length p \<le> length q \<or> \<not> url_matches p url")
      case True
      with q a e Some show ?thesis
        by (auto simp: match_step_pair best_match_def list_all_iff)
    next
      case False
      with q a e Some show ?thesis
        by (fastforce simp: match_step_pair best_match_def list_all_iff)
    qed
  qed
qed simp

lemma url_map_keys_distinct: "distinct (map fst URL_TO_CONFIG_MAP)"
  by code_simp

lemma find_config_iff:
  "findConfigMapping url = Some c \<longleftrightarrow>
     (\<exists>p. (p, c) \<in> set URL_TO_CONFIG_MAP \<and> best_match URL_TO_CONFIG_MAP url p)"
proof
  assume "findConfigMapping url = Some c"
  then show "\<exists>p. (p, c) \<in> set URL_TO_CONFIG_MAP \<and> best_match URL_TO_CONFIG_MAP url p"
    using match_fold [of url URL_TO_CONFIG_MAP]
    by (auto simp: findConfigMapping_def split: prod.splits option.splits)
next
  assume "\<exists>p. (p, c) \<in> set URL_TO_CONFIG_MAP \<and> best_match URL_TO_CONFIG_MAP url p"
  then obtain p where p: "(p, c) \<in> set URL_TO_CONFIG_MAP" "best_match URL_TO_CONFIG_MAP url p"
    by blast
  obtain m l where f: "foldl (match_step url) (None, -1) URL_TO_CONFIG_MAP = (m, l)" by fastforce
  have "m \<noteq> None"
    using match_fold [of url URL_TO_CONFIG_MAP] f p
    by (auto simp: best_match_def list_all_iff split: option.splits)
  then obtain q c' where q: "m = Some c'" "(q, c') \<in> set URL_TO_CONFIG_MAP"
    "best_match URL_TO_CONFIG_MAP url q"
    using match_fold [of url URL_TO_CONFIG_MAP] f by auto
  have "length p = length q"
    using best_match_longest [OF p(2) q(2)] best_match_longest [OF q(3) p(1)] p(2) q(3)
    by (simp add: best_match_def)
  moreover have "take (length p) url = p" "take (length q) url = q"
    using p(2) q(3) unfolding best_match_def by (blast dest: url_matches_take)+
  ultimately have "p = q" by argo
  with p(1) q(2) have "c = c'" using eq_key_imp_eq_value [OF url_map_keys_distinct] by blast
  with q f show "findConfigMapping url = Some c" by (simp add: findConfigMapping_def)
qed


section \<open>The administrator's layer\<close>

lemma fill_id:
  "\<forall>k\<in>set (obj_keys d). obj_get sec k \<noteq> None \<Longrightarrow> foldl fill_module sec d = sec"
  by (induction d) (auto simp: fill_module_def obj_keys_def)

lemma get_merged_section:
  assumes "distinct (obj_keys d)" and "truthy v \<Longrightarrow> distinct (obj_keys (entries (the v)))"
  shows "obj_get (merged_section d v) k =
     (if truthy v then
        (case obj_get (entries (the v)) k of None \<Rightarrow> obj_get d k | Some x \<Rightarrow> Some x)
      else obj_get d k)"
proof (cases "truthy v")
  case True
  let ?sec = "obj_spread (obj_spread [] d) (entries (the v))"
  have g: "obj_get ?sec k = (case obj_get (entries (the v)) k of None \<Rightarrow> obj_get d k | Some x \<Rightarrow> Some x)"
    for k
    using assms(2) [OF True] assms(1) by (simp add: obj_get_spread_distinct split: option.split)
  then have "\<forall>k\<in>set (obj_keys d). obj_get ?sec k \<noteq> None"
    using obj_get_None_iff [of d] by (auto split: option.splits)
  with True g show ?thesis by (simp add: merged_section_def fill_id)
qed (use assms(1) in \<open>simp add: merged_section_def obj_get_spread_distinct split: option.split\<close>)

lemma get_merge_all:
  "distinct (map fst es) \<Longrightarrow>
     obj_get (foldl merge_section m es) k =
       (case map_of es k of
          None \<Rightarrow> obj_get m k
        | Some d \<Rightarrow> Some (JObj (merged_section (entries d) (obj_get m k))))"
proof (induction es arbitrary: m)
  case (Cons e es)
  obtain k' d where e: "e = (k', d)" by (cases e)
  have m: "obj_get (merge_section m e) =
      (obj_get m)(k' \<mapsto> JObj (merged_section (entries d) (obj_get m k')))"
    by (simp add: e merge_section_def obj_get_put)
  have "map_of es k' = None" using Cons.prems e by (simp add: map_of_eq_None_iff)
  with Cons e m show ?case by (simp split: option.split)
qed simp

definition registered :: "config_mapping \<Rightarrow> bool" where
  "registered c \<longleftrightarrow>
     (case obj_get DEFAULT_SIDEBAR_MODULES (cm_section c) of
        Some (JObj d) \<Rightarrow>
          distinct (obj_keys d) \<and> obj_get d (js ''enabled'') = Some (JBool True) \<and>
          obj_get d (cm_module c) = Some (JBool True) \<and> cm_module c \<noteq> js ''length''
      | _ \<Rightarrow> False)"

lemma url_map_registered: "list_all (\<lambda>(_, c). registered c) URL_TO_CONFIG_MAP"
  by code_simp

lemma find_config_registered: "findConfigMapping url = Some c \<Longrightarrow> registered c"
  using url_map_registered by (auto simp: find_config_iff list_all_iff)

lemma default_keys_distinct: "distinct (map fst DEFAULT_SIDEBAR_MODULES)"
  by code_simp

text \<open>What a section of the parsed text says about a module: nothing said means enabled.\<close>

definition section_allows :: "json option \<Rightarrow> jstring \<Rightarrow> bool" where
  "section_allows sec moduleKey \<longleftrightarrow>
     (truthy sec \<longrightarrow>
        (jget sec (js ''enabled'') = None \<or> truthy (jget sec (js ''enabled''))) \<and>
        jget sec moduleKey \<in> {None, Some (JBool True)})"

lemma admin_allows_merged:
  assumes "json_parse s = Some v" "units_ok s" "trim s \<noteq> []" "registered c"
  shows "admin_allows (parseSidebarConfig (Some s)) (cm_section c) (cm_module c) \<longleftrightarrow>
           section_allows (obj_get (entries v) (cm_section c)) (cm_module c)"
proof -
  let ?sec = "obj_get (entries v) (cm_section c)"
  from assms(4) obtain d where d: "map_of DEFAULT_SIDEBAR_MODULES (cm_section c) = Some (JObj d)"
    "distinct (obj_keys d)" "obj_get d (js ''enabled'') = Some (JBool True)"
    "obj_get d (cm_module c) = Some (JBool True)" "cm_module c \<noteq> js ''length''"
    by (auto simp: registered_def obj_get_def split: option.splits json.splits)
  have wf: "distinct (obj_keys (entries v))" "members_wf (entries v)"
    using json_parse_entries [OF assms(1,2)] by simp_all
  then have sec: "distinct (obj_keys (entries (the ?sec)))" if "truthy ?sec"
    using that by (cases ?sec) (auto simp: members_wf_iff intro!: distinct_entries dest!: obj_get_Some_mem)
  have s: "s \<noteq> []" using assms(3) by (auto simp: trim_def trimStart_def trimEnd_def)
  have "obj_get (parseSidebarConfig (Some s)) (cm_section c) = Some (JObj (merged_section d ?sec))"
    using s assms(1,3) d(1) wf(1)
    by (simp add: parseSidebarConfig_def mergeWithDefaultSidebarModules_def
        get_merge_all [OF default_keys_distinct] obj_get_spread_distinct split: option.split)
  moreover have "jget (Some (JObj (merged_section d ?sec))) k =
      (if truthy ?sec \<and> jget ?sec k \<noteq> None then jget ?sec k else obj_get d k)"
    if "k \<noteq> js ''length''" for k
    using get_merged_section [OF d(2) sec, of k] that
    by (cases ?sec) (auto simp: jget_def jfield_entries split: option.splits)
  ultimately show ?thesis
    using d by (auto simp: admin_allows_def section_allows_def Let_def)
qed


section \<open>Properties\<close>

text \<open>The lookup is a whitelist with longest-prefix matching on path
  boundaries: a URL has a mapping exactly when some registered prefix matches it, and the
  mapping is that of the longest one.\<close>

theorem sidebar_longest_prefix:
  "findConfigMapping url = Some c \<longleftrightarrow>
     (\<exists>p. (p, c) \<in> set URL_TO_CONFIG_MAP \<and> url_matches p url \<and>
        list_all (\<lambda>(p', _). url_matches p' url \<longrightarrow> length p' \<le> length p) URL_TO_CONFIG_MAP)"
  by (simp add: find_config_iff best_match_def)

theorem sidebar_longest_prefix_witness:
  "findConfigMapping (js ''/usage-logs/task/7'') =
     Some \<lparr>cm_section = js ''console'', cm_module = js ''task''\<rparr>"
proof -
  have "(js ''/usage-logs/task'', \<lparr>cm_section = js ''console'', cm_module = js ''task''\<rparr>)
      \<in> set URL_TO_CONFIG_MAP \<and> url_matches (js ''/usage-logs/task'') (js ''/usage-logs/task/7'') \<and>
      list_all (\<lambda>(p', _). url_matches p' (js ''/usage-logs/task/7'') \<longrightarrow>
        length p' \<le> length (js ''/usage-logs/task'')) URL_TO_CONFIG_MAP"
    by code_simp
  then show ?thesis
    using sidebar_longest_prefix [of "js ''/usage-logs/task/7''"] by blast
qed

text \<open>C33 [admin_layer_exact]: without a user layer, a registered URL is visible exactly when the
  administrator's stored section is absent, or says nothing false about its \<open>enabled\<close> flag
  and says nothing but \<open>true\<close> about the module: what the text leaves out is enabled.\<close>

theorem admin_layer_exact:
  assumes "json_parse s = Some v" and "units_ok s" and "trim s \<noteq> []"
    and "findConfigMapping url = Some c"
  shows "isModuleEnabled url (parseSidebarConfig (Some s)) None \<longleftrightarrow>
           section_allows (obj_get (entries v) (cm_section c)) (cm_module c)"
  using admin_allows_merged [OF assms(1-3) find_config_registered [OF assms(4)]] assms(4)
  by (simp add: isModuleEnabled_def user_allows_def)

theorem admin_layer_exact_witness:
  "\<not> isModuleEnabled (js ''/keys'') (parseSidebarConfig (Some (js ''{\"console\":{\"token\":false}}''))) None"
proof -
  let ?s = "js ''{\"console\":{\"token\":false}}''"
  have 1: "json_parse ?s = Some (JObj [(js ''console'', JObj [(js ''token'', JBool False)])])"
    by code_simp
  have 2: "units_ok ?s" by code_simp
  have 3: "trim ?s \<noteq> []" by code_simp
  have 4: "findConfigMapping (js ''/keys'') =
      Some \<lparr>cm_section = js ''console'', cm_module = js ''token''\<rparr>" by code_simp
  have "\<not> section_allows (Some (JObj [(js ''token'', JBool False)])) (js ''token'')" by code_simp
  then show ?thesis using admin_layer_exact [OF 1 2 3 4] by (simp add: obj_get_def)
qed

lemma user_narrows: "isModuleEnabled url a u \<Longrightarrow> isModuleEnabled url a None"
  by (auto simp: isModuleEnabled_def user_allows_def split: option.splits if_splits)

lemma filter_sub_narrows:
  assumes "isNavItemVisible (filter_subitems a u i) a u"
  shows "isNavItemVisible (filter_subitems a None i) a None"
  using assms user_narrows
  by (cases i) (auto simp: isNavItemVisible_def filter_subitems_def list_ex_iff user_allows_def
      split: if_splits)

text \<open>The URLs of the entries that are rendered, sub-entries included.\<close>

definition item_urls :: "nav_item \<Rightarrow> jstring list" where
  "item_urls item =
     (case item of
        NavLink l \<Rightarrow> [nl_url l]
      | NavCollapsible _ subs _ \<Rightarrow> map nl_url subs
      | NavChatPresets _ _ \<Rightarrow> [])"

definition shown_urls :: "nav_group list \<Rightarrow> jstring list" where
  "shown_urls groups = concat (map item_urls (concat (map ng_items groups)))"

lemma filtered_urls_narrow:
  assumes "url \<in> set (item_urls (filter_subitems a u i))"
  shows "url \<in> set (item_urls (filter_subitems a None i))"
  using assms user_narrows by (cases i) (auto simp: item_urls_def filter_subitems_def)

lemma concat_drop_empty:
  "concat (map ng_items (filter (\<lambda>g. ng_items g \<noteq> []) gs)) = concat (map ng_items gs)"
  by (induction gs) auto

lemma mem_shown_urls:
  "url \<in> set (shown_urls (useSidebarConfig ar ss sm gs)) \<longleftrightarrow>
     (\<exists>g\<in>set gs. \<exists>i\<in>set (ng_items g).
        let a = parseSidebarConfig ar; u = effective_user_config ss sm; i' = filter_subitems a u i in
          isNavItemVisible i' a u \<and> url \<in> set (item_urls i'))"
  by (auto simp: shown_urls_def useSidebarConfig_def filterNavItems_def Let_def
      concat_drop_empty)

text \<open>C34 [sidebar_only_narrows]: whatever the user's configuration holds, an entry it leaves in the
  sidebar is one the administrator's configuration shows on its own, at both levels of the
  navigation.\<close>

theorem sidebar_only_narrows:
  "set (shown_urls (useSidebarConfig adminRaw settings userRaw groups)) \<subseteq>
     set (shown_urls (useSidebarConfig adminRaw settings None groups)) \<and>
   list_all (\<lambda>g. ng_items g \<noteq> []) (useSidebarConfig adminRaw settings userRaw groups)"
proof
  have "effective_user_config settings None = None"
    by (simp add: effective_user_config_def parseUserSidebarConfig_def)
  then show "set (shown_urls (useSidebarConfig adminRaw settings userRaw groups)) \<subseteq>
      set (shown_urls (useSidebarConfig adminRaw settings None groups))"
    using filter_sub_narrows filtered_urls_narrow by (auto simp: mem_shown_urls Let_def) blast
qed (simp add: useSidebarConfig_def Let_def list_all_iff)

end
