(* ===== verification/NavModules.thy ===== *)
theory NavModules
  imports SidebarAccess
begin

text \<open>
  The switches of the public navigation and the route guards that read them
  (\<open>web/src/lib/nav-modules.ts\<close> and the route of the playground): parsing of \<open>HeaderNavModules\<close>, the access of the pricing and
  rankings pages from the cached or a fresh status, and the guard on sidebar modules. The
  cached status is the text under the key \<open>status\<close> of the browser's local storage, \<open>None\<close>
  when absent; \<open>ni\<close> prints non-integer numbers.
\<close>

record module_access =
  ma_enabled :: bool
  ma_requireAuth :: bool

datatype nav_value = NavBool bool | NavAccess module_access

type_synonym header_nav = "nav_value jobj"

datatype header_nav_module = Rankings | Pricing

definition module_key :: "header_nav_module \<Rightarrow> jstring" where
  "module_key m = (case m of Rankings \<Rightarrow> js ''rankings'' | Pricing \<Rightarrow> js ''pricing'')"

definition open_access :: module_access where
  "open_access = \<lparr>ma_enabled = True, ma_requireAuth = False\<rparr>"

definition DEFAULT_HEADER_NAV_MODULES :: header_nav where
  "DEFAULT_HEADER_NAV_MODULES =
     [(js ''home'', NavBool True), (js ''console'', NavBool True),
      (js ''pricing'', NavAccess open_access), (js ''rankings'', NavAccess open_access),
      (js ''docs'', NavBool True), (js ''about'', NavBool True)]"

definition DEFAULTS :: "header_nav_module \<Rightarrow> module_access" where
  "DEFAULTS m =
     (case obj_get DEFAULT_HEADER_NAV_MODULES (module_key m) of
        Some (NavAccess a) \<Rightarrow> a | _ \<Rightarrow> open_access)"

definition cloneHeaderNavDefaults :: header_nav where
  "cloneHeaderNavDefaults =
     obj_put (js ''rankings'') (NavAccess (DEFAULTS Rankings))
       (obj_put (js ''pricing'') (NavAccess (DEFAULTS Pricing))
         (obj_spread [] DEFAULT_HEADER_NAV_MODULES))"

definition parseHeaderNavBoolean :: "json option \<Rightarrow> bool \<Rightarrow> bool" where
  "parseHeaderNavBoolean raw fallback =
     (case raw of
        Some (JBool b) \<Rightarrow> b
      | Some (JNum q) \<Rightarrow> if q = 1 then True else if q = 0 then False else fallback
      | Some (JStr s) \<Rightarrow>
          let normalized = toLowerCase (trim s)
          in if normalized = js ''true'' \<or> normalized = js ''1'' then True
             else if normalized = js ''false'' \<or> normalized = js ''0'' then False
             else fallback
      | _ \<Rightarrow> fallback)"

definition parseAccess :: "json option \<Rightarrow> module_access \<Rightarrow> module_access" where
  "parseAccess raw fallback =
     (if is_boolean raw \<or> is_number raw \<or> is_string raw then
        \<lparr>ma_enabled = parseHeaderNavBoolean raw (ma_enabled fallback),
         ma_requireAuth = ma_requireAuth fallback\<rparr>
      else if truthy raw \<and> is_object raw then
        \<lparr>ma_enabled = parseHeaderNavBoolean (jget raw (js ''enabled'')) (ma_enabled fallback),
         ma_requireAuth =
           parseHeaderNavBoolean (jget raw (js ''requireAuth'')) (ma_requireAuth fallback)\<rparr>
      else fallback)"

definition parseHeaderNavRecord :: "(rat \<Rightarrow> jstring) \<Rightarrow> json option \<Rightarrow> json option" where
  "parseHeaderNavRecord ni raw =
     (case raw of
        None \<Rightarrow> None
      | Some v \<Rightarrow>
          if \<not> truthy raw \<or> trim (js_to_string ni v) = [] then None
          else if is_object raw then raw
          else json_parse (js_to_string ni v))"

text \<open>The entries of \<open>pricing\<close> and \<open>rankings\<close> always hold an access record, all others a
  boolean (\<open>header_nav_wf\<close> below), so the last case of \<open>access_of\<close> never arises.\<close>

definition access_of :: "header_nav \<Rightarrow> header_nav_module \<Rightarrow> module_access" where
  "access_of result m =
     (case obj_get result (module_key m) of Some (NavAccess a) \<Rightarrow> a | _ \<Rightarrow> DEFAULTS m)"

definition nav_entry :: "header_nav \<Rightarrow> jstring \<times> json \<Rightarrow> header_nav" where
  "nav_entry result e =
     (let key = fst e; value = Some (snd e)
      in if key = js ''pricing'' then
           obj_put key (NavAccess (parseAccess value (access_of result Pricing))) result
         else if key = js ''rankings'' then
           obj_put key (NavAccess (parseAccess value (access_of result Rankings))) result
         else
           let fallback = (case obj_get result key of Some (NavBool b) \<Rightarrow> Some b | _ \<Rightarrow> None)
           in if fallback \<noteq> None \<or> is_boolean value \<or> is_number value \<or> is_string value then
                obj_put key (NavBool (parseHeaderNavBoolean value
                  (case fallback of Some b \<Rightarrow> b | None \<Rightarrow> True))) result
              else result)"

definition parseHeaderNavModules :: "(rat \<Rightarrow> jstring) \<Rightarrow> json option \<Rightarrow> header_nav" where
  "parseHeaderNavModules ni raw =
     (case parseHeaderNavRecord ni raw of
        None \<Rightarrow> cloneHeaderNavDefaults
      | Some parsed \<Rightarrow>
          if \<not> truthy (Some parsed) then cloneHeaderNavDefaults
          else foldl nav_entry cloneHeaderNavDefaults (entries parsed))"

definition parseHeaderNavModulesFromStatus :: "(rat \<Rightarrow> jstring) \<Rightarrow> json option \<Rightarrow> header_nav" where
  "parseHeaderNavModulesFromStatus ni status =
     parseHeaderNavModules ni (jget status (js ''HeaderNavModules''))"

text \<open>\<open>None\<close> is \<open>null\<close>; a cached text that is \<open>null\<close> reads the same.\<close>

definition getCachedStatus :: "jstring option \<Rightarrow> json option" where
  "getCachedStatus storage =
     (case storage of None \<Rightarrow> None | Some raw \<Rightarrow> if raw = [] then None else json_parse raw)"

text \<open>\<open>writable\<close> is False when \<open>setItem\<close> throws, which the code ignores.\<close>

definition cacheStatus ::
    "(rat \<Rightarrow> jstring) \<Rightarrow> bool \<Rightarrow> json option \<Rightarrow> jstring option \<Rightarrow> jstring option" where
  "cacheStatus ni writable status storage =
     (if truthy status \<and> writable then Some (stringify ni (the status)) else storage)"

definition getModuleAccessFromStatus ::
    "(rat \<Rightarrow> jstring) \<Rightarrow> json option \<Rightarrow> header_nav_module \<Rightarrow> module_access" where
  "getModuleAccessFromStatus ni status m =
     access_of (parseHeaderNavModulesFromStatus ni status) m"

definition getModuleAccess ::
    "(rat \<Rightarrow> jstring) \<Rightarrow> jstring option \<Rightarrow> header_nav_module \<Rightarrow> module_access" where
  "getModuleAccess ni storage m = getModuleAccessFromStatus ni (getCachedStatus storage) m"

text \<open>The response of \<open>getStatus\<close> is \<open>None\<close> when the request fails.\<close>

definition getFreshModuleAccess ::
    "(rat \<Rightarrow> jstring) \<Rightarrow> bool \<Rightarrow> json option option \<Rightarrow> header_nav_module \<Rightarrow> jstring option \<Rightarrow>
     module_access \<times> jstring option" where
  "getFreshModuleAccess ni writable response m storage =
     (case response of
        None \<Rightarrow> (\<lparr>ma_enabled = False, ma_requireAuth = True\<rparr>, storage)
      | Some status \<Rightarrow>
          (getModuleAccessFromStatus ni status m, cacheStatus ni writable status storage))"

definition isSidebarModuleEnabled ::
    "(rat \<Rightarrow> jstring) \<Rightarrow> jstring option \<Rightarrow> jstring \<Rightarrow> jstring \<Rightarrow> bool" where
  "isSidebarModuleEnabled ni storage sectionKey moduleKey =
     (let status = getCachedStatus storage; raw = jget status (js ''SidebarModulesAdmin'')
      in if \<not> truthy status then True
         else if \<not> truthy raw \<or> trim (js_to_string ni (the raw)) = [] then True
         else case json_parse (js_to_string ni (the raw)) of
                None \<Rightarrow> True
              | Some JNull \<Rightarrow> True
              | Some parsed \<Rightarrow>
                  let sectionConfig = jget (Some parsed) sectionKey
                  in if \<not> truthy sectionConfig then True
                     else if jget sectionConfig (js ''enabled'') = Some (JBool False) then False
                     else if jget sectionConfig moduleKey = Some (JBool False) then False
                     else True)"

text \<open>The \<open>beforeLoad\<close> of the playground route (\<open>routes/_authenticated/playground/index.tsx\<close>), the one
  caller of this guard.\<close>

datatype route_decision = LoadRoute | RedirectTo jstring

definition playground_beforeLoad :: "(rat \<Rightarrow> jstring) \<Rightarrow> jstring option \<Rightarrow> route_decision" where
  "playground_beforeLoad ni storage =
     (if \<not> isSidebarModuleEnabled ni storage (js ''chat'') (js ''playground'')
      then RedirectTo (js ''/dashboard/overview'') else LoadRoute)"


section \<open>Lemmas\<close>

definition header_nav_wf :: "header_nav \<Rightarrow> bool" where
  "header_nav_wf h \<longleftrightarrow>
     (\<exists>a. obj_get h (js ''pricing'') = Some (NavAccess a)) \<and>
     (\<exists>a. obj_get h (js ''rankings'') = Some (NavAccess a)) \<and>
     (\<forall>k v. k \<notin> {js ''pricing'', js ''rankings''} \<longrightarrow> obj_get h k = Some v \<longrightarrow> (\<exists>b. v = NavBool b))"

lemma header_nav_defaults:
  "obj_get cloneHeaderNavDefaults k = obj_get DEFAULT_HEADER_NAV_MODULES k"
  by (auto simp: cloneHeaderNavDefaults_def obj_get_put DEFAULTS_def module_key_def
      DEFAULT_HEADER_NAV_MODULES_def obj_get_spread)

lemma header_nav_wf_defaults: "header_nav_wf cloneHeaderNavDefaults"
  by (auto simp: header_nav_wf_def header_nav_defaults DEFAULT_HEADER_NAV_MODULES_def
      split: if_splits)

lemma header_nav_wf_entry: "header_nav_wf h \<Longrightarrow> header_nav_wf (nav_entry h e)"
  by (cases e) (auto simp: header_nav_wf_def nav_entry_def obj_get_put Let_def)

lemma header_nav_wf_entries: "header_nav_wf h \<Longrightarrow> header_nav_wf (foldl nav_entry h es)"
  by (rule foldl_inv) (simp_all add: header_nav_wf_entry)

lemma parse_header_wf: "header_nav_wf (parseHeaderNavModules ni raw)"
  by (simp add: parseHeaderNavModules_def header_nav_wf_defaults header_nav_wf_entries
      split: option.split)


lemma access_entry:
  "access_of (nav_entry h (k, v)) m =
     (if k = module_key m then parseAccess (Some v) (access_of h m) else access_of h m)"
  by (cases m) (auto simp: access_of_def nav_entry_def obj_get_put Let_def module_key_def)

lemma access_entries:
  "distinct (obj_keys es) \<Longrightarrow>
     access_of (foldl nav_entry h es) m =
       (case obj_get es (module_key m) of
          None \<Rightarrow> access_of h m | Some v \<Rightarrow> parseAccess (Some v) (access_of h m))"
proof (induction es arbitrary: h)
  case (Cons e es)
  obtain k v where e: "e = (k, v)" by (cases e)
  have "obj_get es k = None" using Cons.prems e by (simp add: obj_get_None_iff) (simp add: obj_keys_def)
  with Cons e show ?case by (auto simp: access_entry obj_keys_def split: option.split)
qed simp

lemma access_defaults: "access_of cloneHeaderNavDefaults m = open_access"
  by (cases m) (simp_all add: access_of_def header_nav_defaults DEFAULTS_def module_key_def
      DEFAULT_HEADER_NAV_MODULES_def)


text \<open>The administrator's text of the cached status, and what the guard makes of it.\<close>

definition admin_text :: "jstring option \<Rightarrow> jstring \<Rightarrow> json \<Rightarrow> bool" where
  "admin_text storage s v \<longleftrightarrow>
     jget (getCachedStatus storage) (js ''SidebarModulesAdmin'') = Some (JStr s) \<and>
     units_ok s \<and> trim s \<noteq> [] \<and> json_parse s = Some v"

definition denies :: "json option \<Rightarrow> jstring \<Rightarrow> bool" where
  "denies sec moduleKey \<longleftrightarrow>
     truthy sec \<and> (jget sec (js ''enabled'') = Some (JBool False) \<or> jget sec moduleKey = Some (JBool False))"

lemma guard_exact:
  assumes "admin_text storage s v"
  shows "isSidebarModuleEnabled ni storage sec m \<longleftrightarrow> \<not> denies (jget (Some v) sec) m"
proof -
  have t: "jget (getCachedStatus storage) (js ''SidebarModulesAdmin'') = Some (JStr s)" "trim s \<noteq> []"
    "json_parse s = Some v" using assms by (simp_all add: admin_text_def)
  then have "s \<noteq> []" by (auto simp: trim_eq_Nil)
  moreover have "truthy (getCachedStatus storage)"
    using t(1) by (cases "getCachedStatus storage"; cases "the (getCachedStatus storage)")
      (auto simp: jget_def jfield_entries index_entries_def)
  ultimately show ?thesis
    using t by (cases v) (auto simp: isSidebarModuleEnabled_def Let_def denies_def jget_def)
qed

lemma playground_mapping:
  "findConfigMapping (js ''/playground'') =
     Some \<lparr>cm_section = js ''playground'', cm_module = js ''playground''\<rparr>"
  by code_simp

lemma playground_visible:
  assumes "admin_text storage s v"
  shows "isModuleEnabled (js ''/playground'') (parseSidebarConfig (Some s)) u \<longleftrightarrow>
     section_allows (jget (Some v) (js ''playground'')) (js ''playground'') \<and>
     user_allows u (js ''playground'') (js ''playground'')"
proof -
  have "jget (Some v) (js ''playground'') = obj_get (entries v) (js ''playground'')"
    by (simp add: jget_def jfield_entries)
  with admin_allows_merged [of s v, OF _ _ _ find_config_registered [OF playground_mapping]] assms
  show ?thesis by (simp add: isModuleEnabled_def playground_mapping admin_text_def)
qed


section \<open>Properties\<close>

text \<open>With a \<open>HeaderNavModules\<close> text that parses as an object, the access of the
  pricing and the rankings page is read from their own entry alone, field by field, and an
  absent entry leaves the page open to everyone.\<close>

theorem module_access_exact:
  assumes "jget status (js ''HeaderNavModules'') = Some (JStr s)" and "trim s \<noteq> []"
    and "json_parse s = Some (JObj ob)" and "units_ok s"
  shows "getModuleAccessFromStatus ni status m =
           (case obj_get ob (module_key m) of
              None \<Rightarrow> open_access | Some v \<Rightarrow> parseAccess (Some v) open_access)"
proof -
  have "s \<noteq> []" using assms(2) by (auto simp: trim_eq_Nil)
  with assms(1-3) have "parseHeaderNavModulesFromStatus ni status = foldl nav_entry cloneHeaderNavDefaults ob"
    by (simp add: parseHeaderNavModulesFromStatus_def parseHeaderNavModules_def parseHeaderNavRecord_def)
  moreover have "distinct (obj_keys ob)"
    using json_parse_entries [OF assms(3,4)] by simp
  ultimately show ?thesis
    by (simp add: getModuleAccessFromStatus_def access_entries access_defaults split: option.split)
qed

theorem module_access_exact_witness:
  "getModuleAccessFromStatus (\<lambda>_. [])
     (Some (JObj [(js ''HeaderNavModules'', JStr (js ''{\"pricing\":{\"requireAuth\":true}}''))])) Pricing =
   \<lparr>ma_enabled = True, ma_requireAuth = True\<rparr>"
proof -
  let ?s = "js ''{\"pricing\":{\"requireAuth\":true}}''"
  let ?st = "Some (JObj [(js ''HeaderNavModules'', JStr ?s)])"
  have 1: "jget ?st (js ''HeaderNavModules'') = Some (JStr ?s)" by (simp add: jget_def)
  have 2: "trim ?s \<noteq> []" by code_simp
  have 3: "json_parse ?s = Some (JObj [(js ''pricing'', JObj [(js ''requireAuth'', JBool True)])])"
    by code_simp
  have 4: "units_ok ?s" by code_simp
  show ?thesis
    using module_access_exact [OF 1 2 3 4, of "\<lambda>_. []" Pricing]
    by (simp add: module_key_def parseAccess_def open_access_def jget_def parseHeaderNavBoolean_def)
qed

text \<open>After a successful refresh that could be written, the cached access is the
  fresh one; a failed request closes the page and requires a login, and leaves the cache as
  it was.\<close>

theorem fresh_access_cached:
  assumes "json_ok status" and "truthy (Some status)"
  shows "(let (access, storage') = getFreshModuleAccess ni True (Some (Some status)) m storage
          in getModuleAccess ni storage' m = access) \<and>
         getFreshModuleAccess ni writable None m storage =
           (\<lparr>ma_enabled = False, ma_requireAuth = True\<rparr>, storage)"
  using assms
  by (auto simp: getFreshModuleAccess_def getModuleAccess_def getCachedStatus_def cacheStatus_def
      stringify_ne json_round_trip)

theorem fresh_access_cached_witness:
  "let status = JObj [(js ''HeaderNavModules'', JStr (js ''{\"rankings\":false}''))];
       (access, storage) = getFreshModuleAccess (\<lambda>_. []) True (Some (Some status)) Rankings None
   in getModuleAccess (\<lambda>_. []) storage Rankings = access"
proof -
  let ?status = "JObj [(js ''HeaderNavModules'', JStr (js ''{\"rankings\":false}''))]"
  have 1: "json_ok ?status" by code_simp
  have 2: "truthy (Some ?status)" by simp
  show ?thesis
    using fresh_access_cached [OF 1 2, of "\<lambda>_. []" Rankings None] by (simp add: Let_def)
qed

text \<open>A cached status with an administrator's text for the examples.\<close>

definition status_with :: "jstring \<Rightarrow> jstring option" where
  "status_with s = Some (stringify (\<lambda>_. []) (JObj [(js ''SidebarModulesAdmin'', JStr s)]))"

text \<open>C37 [playground_shown_but_blocked]: the route of the playground redirects to the overview as soon as the
  section \<open>chat\<close> of the administrator's text denies the module or the section, and that section has no
  effect on the sidebar: under two texts with the same section \<open>playground\<close> the entry is shown, or
  hidden, alike, whatever the user's own configuration. So an entry can be shown that leads nowhere.\<close>

theorem playground_shown_but_blocked:
  assumes "admin_text storage s v" and "admin_text storage' s' v'"
    and "denies (jget (Some v') (js ''chat'')) (js ''playground'')"
    and "jget (Some v') (js ''playground'') = jget (Some v) (js ''playground'')"
  shows "playground_beforeLoad ni storage' = RedirectTo (js ''/dashboard/overview'') \<and>
     isModuleEnabled (js ''/playground'') (parseSidebarConfig (Some s')) u =
       isModuleEnabled (js ''/playground'') (parseSidebarConfig (Some s)) u"
  using assms
  by (simp add: playground_beforeLoad_def guard_exact [OF assms(2)] playground_visible [OF assms(1)]
      playground_visible [OF assms(2)])

theorem playground_shown_but_blocked_witness:
  "let s = js ''{\"chat\":{\"playground\":false}}'' in
     playground_beforeLoad (\<lambda>_. []) (status_with s) = RedirectTo (js ''/dashboard/overview'') \<and>
     isModuleEnabled (js ''/playground'') (parseSidebarConfig (Some s)) None"
proof -
  let ?s = "js ''{\"chat\":{\"playground\":false}}''"
  let ?v = "JObj [(js ''chat'', JObj [(js ''playground'', JBool False)])]"
  have 1: "admin_text (status_with (js ''{}'')) (js ''{}'') (JObj [])" by code_simp
  have 2: "admin_text (status_with ?s) ?s ?v" by code_simp
  have 3: "denies (jget (Some ?v) (js ''chat'')) (js ''playground'')" by code_simp
  have 4: "jget (Some ?v) (js ''playground'') = jget (Some (JObj [])) (js ''playground'')" by code_simp
  have 5: "isModuleEnabled (js ''/playground'') (parseSidebarConfig (Some (js ''{}''))) None" by code_simp
  show ?thesis using playground_shown_but_blocked [OF 1 2 3 4, of "\<lambda>_. []" None] 5 unfolding Let_def by blast
qed

text \<open>C39 [playground_guard_ineffective]: switching the playground off has no effect on its route. Whatever
  the section \<open>playground\<close> of the administrator's text says, the route decides as under any other text
  with the same section \<open>chat\<close>, also when the section hides the entry from the sidebar for every user;
  without a section \<open>chat\<close>, which the default configuration does not have, it always loads.\<close>

theorem playground_guard_ineffective:
  assumes "admin_text storage s v" and "admin_text storage' s' v'"
    and "jget (Some v') (js ''chat'') = jget (Some v) (js ''chat'')"
    and "\<not> section_allows (jget (Some v') (js ''playground'')) (js ''playground'')"
  shows "\<not> isModuleEnabled (js ''/playground'') (parseSidebarConfig (Some s')) u \<and>
     playground_beforeLoad ni storage' = playground_beforeLoad ni storage \<and>
     (jget (Some v) (js ''chat'') = None \<longrightarrow> playground_beforeLoad ni storage' = LoadRoute)"
  using assms
  by (simp add: playground_beforeLoad_def guard_exact [OF assms(1)] guard_exact [OF assms(2)]
      playground_visible [OF assms(2)] denies_def)

theorem playground_guard_ineffective_witness:
  "let s = js ''{\"playground\":{\"enabled\":false}}'' in
     \<not> isModuleEnabled (js ''/playground'') (parseSidebarConfig (Some s)) None \<and>
     playground_beforeLoad (\<lambda>_. []) (status_with s) = LoadRoute"
proof -
  let ?s = "js ''{\"playground\":{\"enabled\":false}}''"
  let ?v = "JObj [(js ''playground'', JObj [(js ''enabled'', JBool False)])]"
  have 1: "admin_text (status_with (js ''{}'')) (js ''{}'') (JObj [])" by code_simp
  have 2: "admin_text (status_with ?s) ?s ?v" by code_simp
  have 3: "jget (Some ?v) (js ''chat'') = jget (Some (JObj [])) (js ''chat'')" by code_simp
  have 4: "\<not> section_allows (jget (Some ?v) (js ''playground'')) (js ''playground'')" by code_simp
  have 5: "jget (Some (JObj [])) (js ''chat'') = None" by code_simp
  show ?thesis using playground_guard_ineffective [OF 1 2 3 4, of None "\<lambda>_. []"] 5 unfolding Let_def by blast
qed

end
