(* ===== verification/ManagementAccess.thy ===== *)
theory ManagementAccess
  imports SidebarAccess
begin

text \<open>
  The management workspaces an administrator grants to a user
  (\<open>web/src/features/users/lib/management-access.ts\<close>) and the roles
  (\<open>web/src/lib/roles.ts\<close>). The form edits the user layer of the sidebar configuration: the
  lemmas relate what it stores to what the sidebar then shows.
\<close>

definition ROLE_GUEST :: int where "ROLE_GUEST = 0"
definition ROLE_USER :: int where "ROLE_USER = 1"
definition ROLE_ADMIN :: int where "ROLE_ADMIN = 10"
definition ROLE_SUPER_ADMIN :: int where "ROLE_SUPER_ADMIN = 100"

definition ROLE_LABEL_KEYS :: "(int \<times> jstring) list" where
  "ROLE_LABEL_KEYS =
     [(ROLE_SUPER_ADMIN, js ''Super Admin''), (ROLE_ADMIN, js ''Business Admin''),
      (ROLE_USER, js ''User''), (ROLE_GUEST, js ''Guest'')]"

definition getRoleLabelKey :: "int option \<Rightarrow> jstring" where
  "getRoleLabelKey role =
     (case Option.bind role (map_of ROLE_LABEL_KEYS) of
        None \<Rightarrow> the (map_of ROLE_LABEL_KEYS ROLE_GUEST)
      | Some label \<Rightarrow> label)"

type_synonym sidebar_section = "bool jobj"
type_synonym sidebar_modules = "sidebar_section jobj"

record access_module =
  am_key :: jstring
  am_labelKey :: jstring
  am_descriptionKey :: jstring

record access_section =
  as_key :: jstring
  as_labelKey :: jstring
  as_descriptionKey :: jstring
  as_requiredRole :: int
  as_modules :: "access_module list"

definition acc_mod :: "string \<Rightarrow> string \<Rightarrow> string \<Rightarrow> access_module" where
  "acc_mod k l d = \<lparr>am_key = js k, am_labelKey = js l, am_descriptionKey = js d\<rparr>"

definition MANAGEMENT_ACCESS_SECTIONS :: "access_section list" where
  "MANAGEMENT_ACCESS_SECTIONS =
     [\<lparr>as_key = js ''business'', as_labelKey = js ''Business Management'',
       as_descriptionKey = js ''Visible to administrators. Upstream supply, pricing, payment, site branding, console content, and access policy.'',
       as_requiredRole = ROLE_ADMIN,
       as_modules =
         [acc_mod ''channels'' ''Channels'' ''Configure upstream providers and routing.'',
          acc_mod ''models'' ''Available Models Maintenance'' ''Manage the model catalog and deployments.'',
          acc_mod ''users'' ''User Management'' ''User accounts, redemption codes, and subscriptions.'',
          acc_mod ''billing'' ''Billing & Pricing'' ''Model pricing, group ratios, quota grants, payment gateways, and discount policy.'',
          acc_mod ''site'' ''Site & Appearance'' ''Site name, logo, footer, notices, and navigation.'',
          acc_mod ''content'' ''Console Content'' ''Announcements, API addresses, FAQ, status page, and presets.'',
          acc_mod ''policies'' ''Access & Limits'' ''Registration policy, request rate limits, and per-user token caps.'']\<rparr>,
      \<lparr>as_key = js ''system'', as_labelKey = js ''System Management'',
       as_descriptionKey = js ''Visible to super administrators only. Routing, authentication, security, and operations.'',
       as_requiredRole = ROLE_SUPER_ADMIN,
       as_modules =
         [acc_mod ''runtime'' ''Runtime & Access'' ''Instance status, performance, monitoring, email, worker proxy, logs, and updates.'',
          acc_mod ''auth'' ''Authentication'' ''OAuth providers, passkeys, and bot protection.'',
          acc_mod ''security'' ''Security'' ''Sensitive word filtering and SSRF protection.'',
          acc_mod ''routing'' ''Models & Routing'' ''Global model config, retry policy, and channel affinity.'']\<rparr>]"

definition managementSectionsForRole :: "int \<Rightarrow> access_section list" where
  "managementSectionsForRole role =
     filter (\<lambda>section. role \<ge> as_requiredRole section) MANAGEMENT_ACCESS_SECTIONS"

definition store_module :: "sidebar_section \<Rightarrow> jstring \<times> json \<Rightarrow> sidebar_section" where
  "store_module section e =
     (case snd e of JBool b \<Rightarrow> obj_put (fst e) b section | _ \<Rightarrow> section)"

definition store_section :: "sidebar_modules \<Rightarrow> jstring \<times> json \<Rightarrow> sidebar_modules" where
  "store_section sections e =
     (if \<not> truthy (Some (snd e)) \<or> \<not> is_object (Some (snd e)) then sections
      else obj_put (fst e)
             (foldl store_module [(js ''enabled'', True)] (entries (snd e))) sections)"

definition parseStoredSections :: "jstring option \<Rightarrow> sidebar_modules" where
  "parseStoredSections raw =
     (case raw of
        None \<Rightarrow> []
      | Some s \<Rightarrow>
          if s = [] \<or> trim s = [] then []
          else case json_parse s of
                 None \<Rightarrow> []
               | Some parsed \<Rightarrow>
                   if \<not> truthy (Some parsed) \<or> \<not> is_object (Some parsed) then []
                   else foldl store_section [] (entries parsed))"

text \<open>\<open>current?.[key] !== false\<close>.\<close>

definition not_false :: "sidebar_section option \<Rightarrow> jstring \<Rightarrow> bool" where
  "not_false current k \<longleftrightarrow> Option.bind current (\<lambda>sec. obj_get sec k) \<noteq> Some False"

definition normalize_section :: "sidebar_section option \<Rightarrow> access_section \<Rightarrow> sidebar_section" where
  "normalize_section current section =
     foldl (\<lambda>n m. obj_put (am_key m) (not_false current (am_key m)) n)
       [(js ''enabled'', not_false current (js ''enabled''))] (as_modules section)"

definition parseSidebarModules :: "jstring option \<Rightarrow> sidebar_modules" where
  "parseSidebarModules raw =
     (let stored = parseStoredSections raw
      in foldl (\<lambda>config section.
             obj_put (as_key section)
               (normalize_section (obj_get stored (as_key section)) section) config)
           (obj_spread [] stored) MANAGEMENT_ACCESS_SECTIONS)"

definition modules_json :: "sidebar_modules \<Rightarrow> json" where
  "modules_json config =
     JObj (map (\<lambda>(k, sec). (k, JObj (map (\<lambda>(m, b). (m, JBool b)) sec))) config)"

text \<open>\<open>JSON.stringify(config)\<close>; a configuration holds no numbers.\<close>

definition serializeSidebarModules :: "sidebar_modules \<Rightarrow> jstring" where
  "serializeSidebarModules config = stringify (\<lambda>_. []) (modules_json config)"

definition updateSectionConfig ::
    "sidebar_modules option \<Rightarrow> jstring \<Rightarrow> bool jobj \<Rightarrow> sidebar_modules" where
  "updateSectionConfig config sectionKey patch =
     (let base = (case config of None \<Rightarrow> [] | Some c \<Rightarrow> c);
          stored = obj_get base sectionKey;
          section = (case stored of None \<Rightarrow> [(js ''enabled'', True)] | Some sec \<Rightarrow> obj_spread [] sec);
          section' = foldl (\<lambda>sec (key, value). obj_put key value sec) section patch
      in obj_put sectionKey section' (obj_spread [] base))"


section \<open>What the store holds after parsing\<close>

definition modules_wf :: "sidebar_modules \<Rightarrow> bool" where
  "modules_wf config \<longleftrightarrow>
     obj_wf config \<and>
     (\<forall>(k, sec)\<in>set config. units_ok k \<and> obj_wf sec \<and> (\<forall>(m, b)\<in>set sec. units_ok m))"

lemma keys_map_snd: "obj_keys (map (\<lambda>(k, v). (k, f v)) ob) = obj_keys ob"
  by (simp add: obj_keys_def comp_def case_prod_beta)

lemma obj_wf_map_snd: "obj_wf (map (\<lambda>(k, v). (k, f v)) ob) = obj_wf ob"
  by (simp add: obj_wf_def keys_map_snd)

lemma obj_get_map_snd: "obj_get (map (\<lambda>(k, v). (k, f v)) ob) k = map_option f (obj_get ob k)"
  by (induction ob) (auto simp: obj_get_def)

lemma json_ok_modules: "modules_wf config \<Longrightarrow> json_ok (modules_json config)"
  by (fastforce simp: modules_wf_def modules_json_def obj_wf_map_snd members_ok_iff)

lemma parse_serialize:
  "modules_wf config \<Longrightarrow> json_parse (serializeSidebarModules config) = Some (modules_json config)"
  by (simp add: serializeSidebarModules_def json_round_trip json_ok_modules)


definition sec_wf :: "sidebar_section \<Rightarrow> bool" where
  "sec_wf sec \<longleftrightarrow> obj_wf sec \<and> (\<forall>(m, b)\<in>set sec. units_ok m)"

lemma modules_wf_alt:
  "modules_wf config \<longleftrightarrow> obj_wf config \<and> (\<forall>(k, sec)\<in>set config. units_ok k \<and> sec_wf sec)"
  by (auto simp: modules_wf_def sec_wf_def)

lemma units_ok_js [simp]: "units_ok (js s)"
  by (auto simp: units_ok_def js_def list_all_iff intro: less_trans [OF nat_of_char_less_256])

lemma sec_wf_enabled [simp]: "sec_wf [(js ''enabled'', b)]"
  by (simp add: sec_wf_def obj_wf_def obj_keys_def)

lemma sec_wf_put: "sec_wf sec \<Longrightarrow> units_ok k \<Longrightarrow> sec_wf (obj_put k b sec)"
  by (auto simp: sec_wf_def obj_wf_put dest!: mem_obj_put)

lemma modules_wf_put:
  "modules_wf config \<Longrightarrow> units_ok k \<Longrightarrow> sec_wf sec \<Longrightarrow> modules_wf (obj_put k sec config)"
  by (auto simp: modules_wf_alt obj_wf_put dest!: mem_obj_put)

lemma modules_wf_get: "modules_wf config \<Longrightarrow> obj_get config k = Some sec \<Longrightarrow> sec_wf sec"
  by (auto simp: modules_wf_alt dest!: obj_get_Some_mem)

lemma sec_wf_puts:
  "sec_wf sec \<Longrightarrow> list_all (\<lambda>m. units_ok (f m)) ms \<Longrightarrow>
     sec_wf (foldl (\<lambda>n m. obj_put (f m) (g m) n) sec ms)"
  by (induction ms arbitrary: sec) (auto simp: sec_wf_put)

lemma modules_wf_puts:
  "modules_wf c \<Longrightarrow> list_all (\<lambda>m. units_ok (f m) \<and> sec_wf (g m)) ms \<Longrightarrow>
     modules_wf (foldl (\<lambda>n m. obj_put (f m) (g m) n) c ms)"
  by (induction ms arbitrary: c) (auto simp: modules_wf_put)

lemma store_modules_wf:
  "sec_wf sec \<Longrightarrow> members_wf es \<Longrightarrow> sec_wf (foldl store_module sec es)"
proof (induction es arbitrary: sec)
  case (Cons e es)
  then show ?case
    by (cases e) (auto simp: store_module_def sec_wf_put split: json.split)
qed simp

lemma store_sections_wf:
  "modules_wf c \<Longrightarrow> members_wf es \<Longrightarrow> modules_wf (foldl store_section c es)"
proof (induction es arbitrary: c)
  case (Cons e es)
  then have "modules_wf (store_section c e)"
    by (cases e) (auto simp: store_section_def intro!: modules_wf_put store_modules_wf json_wf_entries)
  with Cons show ?case by (cases e) simp
qed simp

definition raw_ok :: "jstring option \<Rightarrow> bool" where
  "raw_ok raw \<longleftrightarrow> (case raw of None \<Rightarrow> True | Some s \<Rightarrow> units_ok s)"

lemma modules_wf_Nil [simp]: "modules_wf []"
  by (simp add: modules_wf_def)

lemma stored_wf: "raw_ok raw \<Longrightarrow> modules_wf (parseStoredSections raw)"
  by (auto simp: raw_ok_def parseStoredSections_def json_wf_entries
      intro!: store_sections_wf dest!: json_parse_wf split: option.splits)

lemma access_keys_ok:
  "list_all (\<lambda>s. units_ok (as_key s) \<and> list_all (\<lambda>m. units_ok (am_key m)) (as_modules s))
     MANAGEMENT_ACCESS_SECTIONS"
  by (simp add: MANAGEMENT_ACCESS_SECTIONS_def acc_mod_def)

lemma sidebar_modules_wf: "raw_ok raw \<Longrightarrow> modules_wf (parseSidebarModules raw)"
  using access_keys_ok stored_wf [of raw]
  by (auto simp: parseSidebarModules_def Let_def obj_spread_Nil modules_wf_alt [of "parseStoredSections raw"]
      normalize_section_def list_all_iff intro!: modules_wf_puts sec_wf_puts stored_wf)


section \<open>The stored text and the sidebar\<close>

lemma get_store_modules:
  "distinct (obj_keys es) \<Longrightarrow>
     obj_get (foldl store_module sec es) m =
       (case obj_get es m of Some (JBool b) \<Rightarrow> Some b | _ \<Rightarrow> obj_get sec m)"
proof (induction es arbitrary: sec)
  case (Cons e es)
  obtain k v where e: "e = (k, v)" by (cases e)
  have "obj_get es k = None" using Cons.prems e by (simp add: obj_get_None_iff) (simp add: obj_keys_def)
  moreover have "obj_get (e # es) m = (if m = k then Some v else obj_get es m)"
    by (simp add: e obj_get_def)
  ultimately show ?case
    using Cons e by (auto simp: store_module_def obj_get_put obj_keys_def split: json.splits option.splits)
qed simp

lemma get_store_sections:
  "distinct (obj_keys es) \<Longrightarrow>
     obj_get (foldl store_section c es) k =
       (case obj_get es k of
          Some v \<Rightarrow> if is_object (Some v)
                   then Some (foldl store_module [(js ''enabled'', True)] (entries v))
                   else obj_get c k
        | None \<Rightarrow> obj_get c k)"
proof (induction es arbitrary: c)
  case (Cons e es)
  obtain k' v where e: "e = (k', v)" by (cases e)
  have t: "is_object (Some v) \<Longrightarrow> truthy (Some v)" by (cases v) auto
  have "obj_get es k' = None" using Cons.prems e by (simp add: obj_get_None_iff) (simp add: obj_keys_def)
  moreover have "obj_get (e # es) k = (if k = k' then Some v else obj_get es k)"
    by (simp add: e obj_get_def)
  ultimately show ?case
    using Cons e t by (auto simp: store_section_def obj_get_put obj_keys_def split: option.splits)
qed simp

text \<open>The user layer hides a module exactly when the stored section or module is \<open>false\<close>.\<close>

definition stored_allows :: "sidebar_modules \<Rightarrow> jstring \<Rightarrow> jstring \<Rightarrow> bool" where
  "stored_allows config sec m \<longleftrightarrow>
     not_false (obj_get config sec) (js ''enabled'') \<and> not_false (obj_get config sec) m"

lemma user_allows_modules:
  "user_allows (Some (modules_json config)) sec m \<longleftrightarrow> stored_allows config sec m"
  by (cases "obj_get config sec")
    (auto simp: user_allows_def modules_json_def jget_def obj_get_map_snd stored_allows_def
      not_false_def Let_def)

lemma user_allows_stored:
  assumes "raw_ok raw" and "sec \<noteq> js ''length''" and "m \<noteq> js ''length''"
  shows "user_allows (parseUserSidebarConfig raw) sec m \<longleftrightarrow>
           stored_allows (parseStoredSections raw) sec m"
proof (cases "parseUserSidebarConfig raw")
  case None
  then have "parseStoredSections raw = []"
    by (auto simp: parseUserSidebarConfig_def parseStoredSections_def split: option.splits if_splits)
  with None show ?thesis by (simp add: user_allows_def stored_allows_def not_false_def)
next
  case (Some v)
  then obtain s where s: "raw = Some s" "json_parse s = Some v" "truthy (Some v)" "is_object (Some v)"
    "parseStoredSections raw = foldl store_section [] (entries v)"
    by (auto simp: parseUserSidebarConfig_def parseStoredSections_def split: option.splits if_splits)
  with assms(1) have wf: "json_wf v" by (auto simp: raw_ok_def intro: json_parse_wf)
  have g: "obj_get (parseStoredSections raw) sec =
      (case jget (Some v) sec of
         Some w \<Rightarrow> if is_object (Some w)
                  then Some (foldl store_module [(js ''enabled'', True)] (entries w)) else None
       | None \<Rightarrow> None)"
    using assms(2)
    by (simp add: s(5) get_store_sections [OF distinct_entries [OF wf]] jget_def jfield_entries
        split: option.split)
  show ?thesis
  proof (cases "jget (Some v) sec")
    case None
    with g Some show ?thesis by (simp add: user_allows_def stored_allows_def not_false_def)
  next
    case w: (Some w)
    then have "json_wf w"
      using json_wf_entries [OF wf] assms(2)
      by (auto simp: jget_def jfield_entries members_wf_iff dest!: obj_get_Some_mem)
    then have "obj_get (foldl store_module [(js ''enabled'', True)] (entries w)) k = Some False \<longleftrightarrow>
        jget (Some w) k = Some (JBool False)" if "k \<noteq> js ''length''" for k
      using that by (auto simp: get_store_modules [OF distinct_entries] jget_def jfield_entries
          split: option.splits json.splits if_splits)
    moreover have "\<not> is_object (Some w) \<Longrightarrow> jget (Some w) k \<noteq> Some (JBool False)" for k
      by (cases w) (auto simp: jget_def index_entries_def dest!: obj_get_Some_mem set_zip_rightD)
    moreover have "is_object (Some w) \<Longrightarrow> truthy (Some w)" by (cases w) auto
    ultimately show ?thesis
      using g w Some assms(3) by (auto simp: user_allows_def stored_allows_def not_false_def Let_def)
  qed
qed


lemma serialize_nonblank: "trim (serializeSidebarModules config) \<noteq> []"
proof -
  obtain r where "serializeSidebarModules config = 123 # r"
    by (fastforce simp: serializeSidebarModules_def modules_json_def split: if_splits)
  then show ?thesis by (auto simp: trim_eq_Nil is_ws_def)
qed

lemma parse_user_serialize:
  "modules_wf config \<Longrightarrow>
     parseUserSidebarConfig (Some (serializeSidebarModules config)) = Some (modules_json config)"
  using serialize_nonblank [of config]
  by (auto simp: parseUserSidebarConfig_def parse_serialize modules_json_def trim_eq_Nil)

text \<open>The sections and modules of the form and those of the sidebar's URL map.\<close>

definition managed :: "jstring \<Rightarrow> jstring list option" where
  "managed sec = map_option (\<lambda>s. map am_key (as_modules s))
     (find (\<lambda>s. as_key s = sec) MANAGEMENT_ACCESS_SECTIONS)"

lemma url_map_managed:
  "list_all (\<lambda>(_, c). cm_section c \<noteq> js ''length'' \<and> cm_module c \<noteq> js ''length'' \<and>
      cm_module c \<noteq> js ''enabled'' \<and>
      (case managed (cm_section c) of None \<Rightarrow> True | Some ms \<Rightarrow> cm_module c \<in> set ms))
     URL_TO_CONFIG_MAP"
  by code_simp

lemma find_config_managed:
  "findConfigMapping url = Some c \<Longrightarrow>
     cm_section c \<noteq> js ''length'' \<and> cm_module c \<noteq> js ''length'' \<and> cm_module c \<noteq> js ''enabled'' \<and>
     (case managed (cm_section c) of None \<Rightarrow> True | Some ms \<Rightarrow> cm_module c \<in> set ms)"
  using url_map_managed by (auto simp: find_config_iff list_all_iff)

lemma get_puts:
  "distinct (map f ms) \<Longrightarrow>
     obj_get (foldl (\<lambda>n m. obj_put (f m) (g m) n) c ms) k =
       (case find (\<lambda>m. f m = k) ms of None \<Rightarrow> obj_get c k | Some m \<Rightarrow> Some (g m))"
proof (induction ms arbitrary: c)
  case (Cons m ms)
  have "find (\<lambda>m'. f m' = f m) ms = None" using Cons.prems by (auto simp: find_None_iff rev_image_eqI)
  with Cons show ?case by (auto simp: obj_get_put split: option.split)
qed simp

lemma access_keys_distinct:
  "distinct (map as_key MANAGEMENT_ACCESS_SECTIONS) \<and>
   list_all (\<lambda>s. distinct (js ''enabled'' # map am_key (as_modules s))) MANAGEMENT_ACCESS_SECTIONS"
  by code_simp

lemma get_normalize:
  assumes "s \<in> set MANAGEMENT_ACCESS_SECTIONS" "k = js ''enabled'' \<or> k \<in> am_key ` set (as_modules s)"
  shows "obj_get (normalize_section cur s) k = Some (not_false cur k)"
proof -
  have d: "distinct (map am_key (as_modules s))" "js ''enabled'' \<notin> am_key ` set (as_modules s)"
    using assms(1) access_keys_distinct by (auto simp: list_all_iff)
  have "find (\<lambda>m. am_key m = js ''enabled'') (as_modules s) = None"
    using d(2) by (auto simp: find_None_iff rev_image_eqI)
  with assms(2) show ?thesis
    by (auto simp: normalize_section_def get_puts [OF d(1)] find_key [OF _ d(1)])
qed

lemma parsed_allows:
  assumes "findConfigMapping url = Some c" and "raw_ok raw"
  shows "stored_allows (parseSidebarModules raw) (cm_section c) (cm_module c) \<longleftrightarrow>
           stored_allows (parseStoredSections raw) (cm_section c) (cm_module c)"
proof -
  let ?st = "parseStoredSections raw" and ?sec = "cm_section c"
  have d: "distinct (map as_key MANAGEMENT_ACCESS_SECTIONS)" using access_keys_distinct by simp
  have g: "obj_get (parseSidebarModules raw) ?sec =
      (case find (\<lambda>s. as_key s = ?sec) MANAGEMENT_ACCESS_SECTIONS of
         None \<Rightarrow> obj_get ?st ?sec | Some s \<Rightarrow> Some (normalize_section (obj_get ?st ?sec) s))"
    using stored_wf [OF assms(2)]
    by (auto simp: parseSidebarModules_def Let_def get_puts [OF d] obj_spread_Nil modules_wf_alt
        dest: find_SomeD split: option.split)
  show ?thesis
  proof (cases "find (\<lambda>s. as_key s = ?sec) MANAGEMENT_ACCESS_SECTIONS")
    case None
    with g show ?thesis by (simp add: stored_allows_def)
  next
    case (Some s)
    then have s: "s \<in> set MANAGEMENT_ACCESS_SECTIONS" by (auto dest: find_SomeD)
    have "cm_module c \<in> am_key ` set (as_modules s)"
      using find_config_managed [OF assms(1)] Some by (auto simp: managed_def)
    with g Some get_normalize [OF s] show ?thesis by (simp add: stored_allows_def not_false_def)
  qed
qed


lemma allows_serialized:
  assumes "findConfigMapping url = Some c" and "modules_wf config"
  shows "isModuleEnabled url a (parseUserSidebarConfig (Some (serializeSidebarModules config))) \<longleftrightarrow>
           admin_allows a (cm_section c) (cm_module c) \<and>
           stored_allows config (cm_section c) (cm_module c)"
  using assms by (simp add: isModuleEnabled_def parse_user_serialize user_allows_modules)

lemma allows_raw:
  assumes "findConfigMapping url = Some c" and "raw_ok raw"
  shows "isModuleEnabled url a (parseUserSidebarConfig raw) \<longleftrightarrow>
           admin_allows a (cm_section c) (cm_module c) \<and>
           stored_allows (parseSidebarModules raw) (cm_section c) (cm_module c)"
  using assms find_config_managed [OF assms(1)]
  by (simp add: isModuleEnabled_def user_allows_stored parsed_allows)

lemma update_section_wf:
  assumes "modules_wf config" "units_ok sec" "list_all (\<lambda>(k, b). units_ok k) patch"
  shows "modules_wf (updateSectionConfig (Some config) sec patch)"
proof -
  have p: "sec_wf (foldl (\<lambda>sec (key, value). obj_put key value sec) s patch)" if "sec_wf s" for s
    using that assms(3) by (induction patch arbitrary: s) (auto simp: sec_wf_put)
  have "obj_wf config" using assms(1) by (simp add: modules_wf_alt)
  moreover have "sec_wf (obj_spread [] s)" if "obj_get config sec = Some s" for s
    using modules_wf_get [OF assms(1) that] by (simp add: sec_wf_def obj_spread_Nil)
  ultimately show ?thesis
    using assms p by (auto simp: updateSectionConfig_def Let_def obj_spread_Nil intro!: modules_wf_put
        split: option.split)
qed

lemma update_section_get:
  assumes "modules_wf config"
  shows "obj_get (updateSectionConfig (Some config) sec [(m, b)]) k =
     (if k = sec then
        Some (obj_put m b (case obj_get config sec of None \<Rightarrow> [(js ''enabled'', True)] | Some s \<Rightarrow> s))
      else obj_get config k)"
proof -
  have "obj_wf config" using assms by (simp add: modules_wf_alt)
  moreover have "obj_spread [] s = s" if "obj_get config sec = Some s" for s
    using modules_wf_get [OF assms that] by (simp add: sec_wf_def obj_spread_Nil)
  ultimately show ?thesis
    by (auto simp: updateSectionConfig_def Let_def obj_spread_Nil obj_get_put split: option.split)
qed

lemma update_section_allows:
  assumes "modules_wf config" and "m \<noteq> js ''enabled''"
  shows "stored_allows (updateSectionConfig (Some config) sec [(m, b)]) s k \<longleftrightarrow>
     (if s = sec \<and> k = m then b \<and> not_false (obj_get config sec) (js ''enabled'')
      else stored_allows config s k)"
  using assms(2)
  by (auto simp: stored_allows_def update_section_get [OF assms(1)] not_false_def obj_get_put
      split: option.splits)


section \<open>Properties\<close>

text \<open>C35 [management_save_neutral]: saving the management access form without touching a switch never
  changes what the user sees: for every URL, the sidebar decides the same from the stored
  text and from the text the form writes back.\<close>

theorem management_save_neutral:
  assumes "raw_ok raw"
  shows "isModuleEnabled url a
           (parseUserSidebarConfig (Some (serializeSidebarModules (parseSidebarModules raw)))) =
         isModuleEnabled url a (parseUserSidebarConfig raw)"
proof (cases "findConfigMapping url")
  case None
  then show ?thesis by (simp add: isModuleEnabled_def)
next
  case (Some c)
  show ?thesis
    by (simp add: allows_serialized [OF Some sidebar_modules_wf [OF assms]] allows_raw [OF Some assms])
qed

theorem management_save_neutral_witness:
  "isModuleEnabled (js ''/users'') DEFAULT_SIDEBAR_MODULES
     (parseUserSidebarConfig (Some (serializeSidebarModules
        (parseSidebarModules (Some (js ''{\"business\":{\"users\":false},\"x\":[1]}'')))))) =
   isModuleEnabled (js ''/users'') DEFAULT_SIDEBAR_MODULES
     (parseUserSidebarConfig (Some (js ''{\"business\":{\"users\":false},\"x\":[1]}'')))"
  by (rule management_save_neutral) (simp add: raw_ok_def)

text \<open>C36 [management_switch_effect]: saving one module switch changes exactly that module: the URLs that
  map to it become visible when the switch is on and the section and the administrator's
  layer allow them, hidden when it is off, and every other URL keeps its visibility.\<close>

theorem management_switch_effect:
  assumes "raw_ok raw" and "units_ok sec" and "units_ok m" and "m \<noteq> js ''enabled''"
    and "findConfigMapping url = Some c"
  shows "isModuleEnabled url a
           (parseUserSidebarConfig (Some (serializeSidebarModules
              (updateSectionConfig (Some (parseSidebarModules raw)) sec [(m, b)])))) \<longleftrightarrow>
         (if cm_section c = sec \<and> cm_module c = m
          then b \<and> admin_allows a sec m \<and>
               not_false (obj_get (parseSidebarModules raw) sec) (js ''enabled'')
          else isModuleEnabled url a (parseUserSidebarConfig raw))"
proof -
  note wf = sidebar_modules_wf [OF assms(1)]
  have "modules_wf (updateSectionConfig (Some (parseSidebarModules raw)) sec [(m, b)])"
    using assms by (intro update_section_wf wf) simp_all
  then show ?thesis
    using allows_raw [OF assms(5,1)] update_section_allows [OF wf assms(4)]
    by (auto simp: allows_serialized [OF assms(5)])
qed

theorem management_switch_effect_witness:
  "\<not> isModuleEnabled (js ''/users'') DEFAULT_SIDEBAR_MODULES
      (parseUserSidebarConfig (Some (serializeSidebarModules
         (updateSectionConfig (Some (parseSidebarModules None)) (js ''business'') [(js ''users'', False)]))))"
proof -
  have c: "findConfigMapping (js ''/users'') =
      Some \<lparr>cm_section = js ''business'', cm_module = js ''users''\<rparr>" by code_simp
  have e: "js ''users'' \<noteq> js ''enabled''" by simp
  show ?thesis
    using management_switch_effect [where raw = None and a = DEFAULT_SIDEBAR_MODULES and b = False,
        OF _ units_ok_js [of "''business''"] units_ok_js e c]
    by (simp add: raw_ok_def)
qed

text \<open>The keys of the form are those of the sidebar: every module it offers
  governs some registered URL, and every URL of its workspaces is governed by a module it
  offers.\<close>

theorem management_keys_match:
  "set (concat (map (\<lambda>s. map (\<lambda>m. (as_key s, am_key m)) (as_modules s)) MANAGEMENT_ACCESS_SECTIONS)) =
   set (filter (\<lambda>(sec, m). sec \<in> set (map as_key MANAGEMENT_ACCESS_SECTIONS))
     (map (\<lambda>(url, c). (cm_section c, cm_module c)) URL_TO_CONFIG_MAP))"
  by code_simp

end
