(* ===== verification/AdminPermissions.thy ===== *)
theory AdminPermissions
  imports ManagementAccess
begin

text \<open>
  Fine-grained administrator permissions (\<open>web/src/lib/admin-permissions.ts\<close>): the check the
  pages make, and the full matrix the permission editor starts from. The catalog comes from
  the server; a user is the JSON object the store holds.
\<close>

type_synonym permission_matrix = "bool jobj jobj"

record permission_action =
  pa_action :: jstring
  pa_label_key :: jstring
  pa_description_key :: jstring

record permission_resource =
  pr_resource :: jstring
  pr_label_key :: jstring
  pr_actions :: "permission_action list"

record permission_role =
  prole_key :: jstring
  prole_name :: jstring
  prole_built_in :: bool
  prole_superuser :: bool
  prole_grants :: permission_matrix

record permission_catalog =
  pc_resources :: "permission_resource list"
  pc_roles :: "permission_role list"

definition ADMIN_ROLE_KEY :: jstring where
  "ADMIN_ROLE_KEY = js ''admin''"

definition EMPTY_PERMISSION_CATALOG :: permission_catalog where
  "EMPTY_PERMISSION_CATALOG = \<lparr>pc_resources = [], pc_roles = []\<rparr>"

definition hasPermission :: "json option \<Rightarrow> jstring \<Rightarrow> jstring \<Rightarrow> bool" where
  "hasPermission u resource action =
     (if \<not> truthy u then False
      else if jget u (js ''role'') = Some (JNum (of_int ROLE_SUPER_ADMIN)) then True
      else jget (jget (jget (jget u (js ''permissions'')) (js ''admin_permissions'')) resource) action =
             Some (JBool True))"

definition matrix_get :: "permission_matrix \<Rightarrow> jstring \<Rightarrow> jstring \<Rightarrow> bool option" where
  "matrix_get m r a = Option.bind (obj_get m r) (\<lambda>acts. obj_get acts a)"

definition roleGrants :: "permission_catalog \<Rightarrow> jstring \<Rightarrow> permission_matrix" where
  "roleGrants catalog roleKey =
     (case find (\<lambda>role. prole_key role = roleKey) (pc_roles catalog) of
        None \<Rightarrow> [] | Some role \<Rightarrow> prole_grants role)"

text \<open>\<open>value?.[r]?.[a] ?? baseline[r]?.[a] ?? false\<close>.\<close>

definition granted :: "permission_matrix option \<Rightarrow> permission_matrix \<Rightarrow> jstring \<Rightarrow> jstring \<Rightarrow> bool" where
  "granted value baseline r a =
     (case Option.bind value (\<lambda>m. matrix_get m r a) of
        Some b \<Rightarrow> b
      | None \<Rightarrow> (case matrix_get baseline r a of Some b \<Rightarrow> b | None \<Rightarrow> False))"

definition normalizeAdminPermissions ::
    "permission_matrix option \<Rightarrow> permission_catalog \<Rightarrow> permission_matrix" where
  "normalizeAdminPermissions value catalog =
     (let baseline = roleGrants catalog ADMIN_ROLE_KEY
      in foldl (\<lambda>normalized resource.
             obj_put (pr_resource resource)
               (foldl (\<lambda>actions action.
                    obj_put (pa_action action)
                      (granted value baseline (pr_resource resource) (pa_action action)) actions)
                  [] (pr_actions resource))
               normalized)
           [] (pc_resources catalog))"


section \<open>Lemmas\<close>

definition catalog_ok :: "permission_catalog \<Rightarrow> bool" where
  "catalog_ok catalog \<longleftrightarrow>
     distinct (map pr_resource (pc_resources catalog)) \<and>
     list_all (\<lambda>r. distinct (map pa_action (pr_actions r))) (pc_resources catalog)"

definition catalog_has :: "permission_catalog \<Rightarrow> jstring \<Rightarrow> jstring \<Rightarrow> bool" where
  "catalog_has catalog r a \<longleftrightarrow>
     (\<exists>res\<in>set (pc_resources catalog). pr_resource res = r \<and> a \<in> pa_action ` set (pr_actions res))"

lemma find_mem: "find (\<lambda>x. f x = k) xs = None \<longleftrightarrow> k \<notin> f ` set xs"
  by (auto simp: find_None_iff)

lemma normalize_get:
  assumes "catalog_ok catalog"
  shows "matrix_get (normalizeAdminPermissions value catalog) r a =
     (if catalog_has catalog r a
      then Some (granted value (roleGrants catalog ADMIN_ROLE_KEY) r a) else None)"
proof (cases "find (\<lambda>res. pr_resource res = r) (pc_resources catalog)")
  case None
  then have "r \<notin> pr_resource ` set (pc_resources catalog)" by (simp add: find_mem)
  then have "\<not> catalog_has catalog r a" by (auto simp: catalog_has_def)
  with None assms show ?thesis
    by (simp add: normalizeAdminPermissions_def Let_def matrix_get_def get_puts catalog_ok_def)
next
  case (Some res)
  then have res: "res \<in> set (pc_resources catalog)" "pr_resource res = r" by (auto dest: find_SomeD)
  then have d: "distinct (map pa_action (pr_actions res))"
    using assms by (auto simp: catalog_ok_def list_all_iff)
  have u: "res' = res" if "res' \<in> set (pc_resources catalog)" "pr_resource res' = r" for res'
    using that res assms by (auto simp: catalog_ok_def distinct_map dest: inj_onD)
  have "matrix_get (normalizeAdminPermissions value catalog) r a =
      (case find (\<lambda>act. pa_action act = a) (pr_actions res) of
         None \<Rightarrow> None | Some act \<Rightarrow> Some (granted value (roleGrants catalog ADMIN_ROLE_KEY) r (pa_action act)))"
    using Some res assms d
    by (simp add: normalizeAdminPermissions_def Let_def matrix_get_def get_puts catalog_ok_def
        split: option.split)
  moreover have "catalog_has catalog r a \<longleftrightarrow> a \<in> pa_action ` set (pr_actions res)"
  proof
    assume "catalog_has catalog r a"
    then obtain res' where r': "res' \<in> set (pc_resources catalog)" "pr_resource res' = r"
      "a \<in> pa_action ` set (pr_actions res')" unfolding catalog_has_def by blast
    from u [OF r'(1,2)] r'(3) show "a \<in> pa_action ` set (pr_actions res)" by simp
  next
    assume "a \<in> pa_action ` set (pr_actions res)"
    with res show "catalog_has catalog r a" unfolding catalog_has_def by (intro bexI) simp_all
  qed
  ultimately have eqs: "matrix_get (normalizeAdminPermissions value catalog) r a =
      (case find (\<lambda>act. pa_action act = a) (pr_actions res) of
         None \<Rightarrow> None | Some act \<Rightarrow> Some (granted value (roleGrants catalog ADMIN_ROLE_KEY) r (pa_action act)))"
    "catalog_has catalog r a \<longleftrightarrow> a \<in> pa_action ` set (pr_actions res)" .
  show ?thesis
  proof (cases "find (\<lambda>act. pa_action act = a) (pr_actions res)")
    case None
    then have "a \<notin> pa_action ` set (pr_actions res)" by (simp add: find_mem)
    with None show ?thesis by (simp add: eqs)
  next
    case (Some act)
    then have "act \<in> set (pr_actions res) \<and> pa_action act = a" by (rule find_SomeD)
    then show ?thesis using Some by (auto simp: eqs)
  qed
qed


section \<open>Properties\<close>

text \<open>C38 [permission_matrix_exact]: for a catalog that lists no resource twice and no action twice within a
  resource, the editor's matrix has an entry for exactly the actions of the catalog. An entry is
  the user's own setting where there is one, granted or denied; else what the grants of the first
  role named \<open>admin\<close> say; else false. Normalising the matrix again changes no entry.\<close>

theorem permission_matrix_exact:
  fixes r a :: jstring
  assumes "catalog_ok catalog"
  defines "entry \<equiv> \<lambda>v. matrix_get (normalizeAdminPermissions v catalog) r a"
  shows "(entry value = None \<longleftrightarrow> \<not> catalog_has catalog r a) \<and>
         (catalog_has catalog r a \<longrightarrow>
            (case Option.bind value (\<lambda>own. matrix_get own r a) of
               Some b \<Rightarrow> entry value = Some b
             | None \<Rightarrow>
                 (case find (\<lambda>role. prole_key role = js ''admin'') (pc_roles catalog) of
                    Some role \<Rightarrow> entry value = Some (matrix_get (prole_grants role) r a = Some True)
                  | None \<Rightarrow> entry value = Some False))) \<and>
         entry (Some (normalizeAdminPermissions value catalog)) = entry value"
proof -
  have e: "entry v = (if catalog_has catalog r a
      then Some (granted v (roleGrants catalog ADMIN_ROLE_KEY) r a) else None)" for v
    unfolding entry_def by (rule normalize_get [OF assms(1)])
  have i: "entry (Some (normalizeAdminPermissions value catalog)) = entry value"
    unfolding e by (simp add: granted_def normalize_get [OF assms(1)])
  have "matrix_get [] r a = None" by (simp add: matrix_get_def)
  with i show ?thesis
    by (auto simp: e granted_def roleGrants_def ADMIN_ROLE_KEY_def split: option.split)
qed

theorem permission_matrix_exact_witness:
  "let catalog = \<lparr>pc_resources = [\<lparr>pr_resource = js ''channel'', pr_label_key = [],
         pr_actions = [\<lparr>pa_action = js ''read'', pa_label_key = [], pa_description_key = []\<rparr>,
                       \<lparr>pa_action = js ''write'', pa_label_key = [], pa_description_key = []\<rparr>]\<rparr>],
       pc_roles = [\<lparr>prole_key = js ''admin'', prole_name = [], prole_built_in = True,
         prole_superuser = False, prole_grants = [(js ''channel'', [(js ''read'', True)])]\<rparr>]\<rparr>;
       own = Some [(js ''channel'', [(js ''write'', True)])]
   in matrix_get (normalizeAdminPermissions own catalog) (js ''channel'') (js ''read'') = Some True \<and>
      matrix_get (normalizeAdminPermissions own catalog) (js ''channel'') (js ''write'') = Some True \<and>
      matrix_get (normalizeAdminPermissions None catalog) (js ''channel'') (js ''write'') = Some False"
proof -
  define admin where "admin = \<lparr>prole_key = js ''admin'', prole_name = [], prole_built_in = True,
         prole_superuser = False, prole_grants = [(js ''channel'', [(js ''read'', True)])]\<rparr>"
  define catalog where "catalog = \<lparr>pc_resources = [\<lparr>pr_resource = js ''channel'', pr_label_key = [],
         pr_actions = [\<lparr>pa_action = js ''read'', pa_label_key = [], pa_description_key = []\<rparr>,
                       \<lparr>pa_action = js ''write'', pa_label_key = [], pa_description_key = []\<rparr>]\<rparr>],
       pc_roles = [admin]\<rparr>"
  define own where "own = Some [(js ''channel'', [(js ''write'', True)])]"
  have ok: "catalog_ok catalog" unfolding catalog_def by code_simp
  have has: "catalog_has catalog (js ''channel'') (js ''read'')" "catalog_has catalog (js ''channel'') (js ''write'')"
    unfolding catalog_def by code_simp+
  have f: "find (\<lambda>role. prole_key role = js ''admin'') (pc_roles catalog) = Some admin"
    unfolding catalog_def by (simp add: admin_def)
  have g: "matrix_get (prole_grants admin) (js ''channel'') (js ''read'') = Some True"
    "matrix_get (prole_grants admin) (js ''channel'') (js ''write'') = None" unfolding admin_def by code_simp+
  have o: "Option.bind own (\<lambda>m. matrix_get m (js ''channel'') (js ''read'')) = None"
    "Option.bind own (\<lambda>m. matrix_get m (js ''channel'') (js ''write'')) = Some True" unfolding own_def by code_simp+
  note e = permission_matrix_exact [OF ok]
  have "matrix_get (normalizeAdminPermissions own catalog) (js ''channel'') (js ''read'') = Some True"
    using e [of own "js ''channel''" "js ''read''"] has f g o by simp
  moreover have "matrix_get (normalizeAdminPermissions own catalog) (js ''channel'') (js ''write'') = Some True"
    using e [of own "js ''channel''" "js ''write''"] has f g o by simp
  moreover have "matrix_get (normalizeAdminPermissions None catalog) (js ''channel'') (js ''write'') = Some False"
    using e [of None "js ''channel''" "js ''write''"] has f g by simp
  ultimately show ?thesis unfolding catalog_def admin_def own_def Let_def by blast
qed

end
