(* ===== verification/AuthStore.thy ===== *)
theory AuthStore
  imports JsRoundTrip
begin

text \<open>
  The authentication store (\<open>web/src/stores/auth-store.ts\<close>) and the validators of what the
  server sends (the first part of \<open>web/src/lib/auth-session.ts\<close>). Users and sessions are kept
  as the JSON objects they arrive as; the validators say which of their fields are present
  and of which type. \<open>None\<close> is \<open>null\<close> in the store.
\<close>

datatype bootstrap_state = Idle | Checking | Complete

record auth_bundle =
  access_token :: jstring
  token_type :: jstring
  access_expires_at :: rat
  bundle_user :: json
  bundle_session :: json

record auth_state =
  auth_user :: "json option"
  accessToken :: "jstring option"
  accessExpiresAt :: "rat option"
  auth_session :: "json option"
  pending2FAFlowToken :: "jstring option"
  bootstrapState :: bootstrap_state

definition initial_auth :: auth_state where
  "initial_auth = \<lparr>auth_user = None, accessToken = None, accessExpiresAt = None, auth_session = None,
     pending2FAFlowToken = None, bootstrapState = Idle\<rparr>"

definition setBundle :: "auth_bundle \<Rightarrow> auth_state \<Rightarrow> auth_state" where
  "setBundle bundle st =
     st\<lparr>auth_user := Some (bundle_user bundle), accessToken := Some (access_token bundle),
        accessExpiresAt := Some (access_expires_at bundle), auth_session := Some (bundle_session bundle),
        pending2FAFlowToken := None, bootstrapState := Complete\<rparr>"

definition setUser :: "json option \<Rightarrow> auth_state \<Rightarrow> auth_state" where
  "setUser u st = st\<lparr>auth_user := u\<rparr>"

definition setPending2FAFlowToken :: "jstring option \<Rightarrow> auth_state \<Rightarrow> auth_state" where
  "setPending2FAFlowToken flowToken st = st\<lparr>pending2FAFlowToken := flowToken\<rparr>"

definition setBootstrapState :: "bootstrap_state \<Rightarrow> auth_state \<Rightarrow> auth_state" where
  "setBootstrapState b st = st\<lparr>bootstrapState := b\<rparr>"

definition reset_auth :: "bootstrap_state \<Rightarrow> auth_state \<Rightarrow> auth_state" where
  "reset_auth b st =
     st\<lparr>auth_user := None, accessToken := None, accessExpiresAt := None, auth_session := None,
        pending2FAFlowToken := None, bootstrapState := b\<rparr>"


section \<open>Validators\<close>

definition isRecord :: "json option \<Rightarrow> bool" where
  "isRecord value \<longleftrightarrow> truthy value \<and> is_object value"

definition isAuthUser :: "json option \<Rightarrow> bool" where
  "isAuthUser value =
     (if \<not> isRecord value then False
      else (case jget value (js ''id'') of Some (JNum q) \<Rightarrow> q = of_int \<lfloor>q\<rfloor> \<and> q > 0 | _ \<Rightarrow> False) \<and>
           is_string (jget value (js ''username'')) \<and> is_number (jget value (js ''role'')))"

definition nonempty_string :: "json option \<Rightarrow> bool" where
  "nonempty_string value \<longleftrightarrow> (case value of Some (JStr s) \<Rightarrow> length s > 0 | _ \<Rightarrow> False)"

definition isLoginSession :: "json option \<Rightarrow> bool" where
  "isLoginSession value =
     (if \<not> isRecord value then False
      else nonempty_string (jget value (js ''sid'')) \<and>
           is_boolean (jget value (js ''current'')) \<and>
           is_string (jget value (js ''login_method'')) \<and>
           is_string (jget value (js ''ip'')) \<and>
           is_string (jget value (js ''user_agent'')) \<and>
           is_number (jget value (js ''created_at'')) \<and>
           is_number (jget value (js ''last_active_at'')) \<and>
           is_number (jget value (js ''expires_at'')))"

text \<open>JSON numbers are finite.\<close>

definition hasValidTokenFields :: "json option \<Rightarrow> bool" where
  "hasValidTokenFields value \<longleftrightarrow>
     nonempty_string (jget value (js ''access_token'')) \<and>
     nonempty_string (jget value (js ''token_type'')) \<and>
     (case jget value (js ''access_expires_at'') of Some (JNum q) \<Rightarrow> q > 0 | _ \<Rightarrow> False)"

definition isAuthBundle :: "json option \<Rightarrow> bool" where
  "isAuthBundle value =
     (if \<not> isRecord value then False
      else hasValidTokenFields value \<and> isAuthUser (jget value (js ''user'')) \<and>
           isLoginSession (jget value (js ''session'')))"

definition isAuthTokenRotation :: "json option \<Rightarrow> bool" where
  "isAuthTokenRotation value \<longleftrightarrow>
     isRecord value \<and> hasValidTokenFields value \<and>
     jget value (js ''token_type'') = Some (JStr (js ''Bearer'')) \<and>
     isLoginSession (jget value (js ''session'')) \<and>
     truthy (jget (jget value (js ''session'')) (js ''current''))"

text \<open>The typed view of a validated value: its fields.\<close>

definition str_of :: "json option \<Rightarrow> jstring" where
  "str_of v = (case v of Some (JStr s) \<Rightarrow> s | _ \<Rightarrow> [])"

definition num_of :: "json option \<Rightarrow> rat" where
  "num_of v = (case v of Some (JNum q) \<Rightarrow> q | _ \<Rightarrow> 0)"

definition bundle_of :: "json \<Rightarrow> json \<Rightarrow> auth_bundle" where
  "bundle_of v u =
     \<lparr>access_token = str_of (jget (Some v) (js ''access_token'')),
      token_type = str_of (jget (Some v) (js ''token_type'')),
      access_expires_at = num_of (jget (Some v) (js ''access_expires_at'')),
      bundle_user = u,
      bundle_session = the (jget (Some v) (js ''session''))\<rparr>"

definition parse_bundle :: "json option \<Rightarrow> auth_bundle option" where
  "parse_bundle value =
     (if isAuthBundle value then Some (bundle_of (the value) (the (jget value (js ''user'')))) else None)"

text \<open>\<open>session?.sid\<close>.\<close>

definition sid_of :: "json option \<Rightarrow> jstring option" where
  "sid_of s = (case jget s (js ''sid'') of Some (JStr t) \<Rightarrow> Some t | _ \<Rightarrow> None)"

definition bundle_ok :: "auth_bundle \<Rightarrow> bool" where
  "bundle_ok b \<longleftrightarrow>
     access_token b \<noteq> [] \<and> token_type b \<noteq> [] \<and> access_expires_at b > 0 \<and>
     isAuthUser (Some (bundle_user b)) \<and> isLoginSession (Some (bundle_session b))"

text \<open>Token, expiry and session are set and cleared together, and a session is a valid one.\<close>

definition auth_ok :: "auth_state \<Rightarrow> bool" where
  "auth_ok st \<longleftrightarrow>
     (case auth_session st of
        None \<Rightarrow> accessToken st = None \<and> accessExpiresAt st = None
      | Some s \<Rightarrow> isLoginSession (Some s) \<and> accessToken st \<notin> {None, Some []} \<and>
          (\<exists>q>0. accessExpiresAt st = Some q))"

text \<open>The weaker fact that they are set and cleared together.\<close>

definition auth_together :: "auth_state \<Rightarrow> bool" where
  "auth_together st \<longleftrightarrow>
     (accessToken st = None \<longleftrightarrow> auth_session st = None) \<and>
     (accessExpiresAt st = None \<longleftrightarrow> auth_session st = None)"

lemma isRecord_Some: "isRecord v \<Longrightarrow> \<exists>w. v = Some w"
  by (cases v) (auto simp: isRecord_def)

lemma parse_bundle_ok: "parse_bundle v = Some b \<Longrightarrow> bundle_ok b"
proof -
  assume "parse_bundle v = Some b"
  then have a: "isAuthBundle v" "b = bundle_of (the v) (the (jget v (js ''user'')))"
    by (auto simp: parse_bundle_def split: if_splits)
  then obtain w where w: "v = Some w" by (auto simp: isAuthBundle_def split: if_splits dest: isRecord_Some)
  from a w have u: "isAuthUser (jget v (js ''user''))" "isLoginSession (jget v (js ''session''))"
    "hasValidTokenFields v" by (auto simp: isAuthBundle_def split: if_splits)
  then obtain x y where "jget v (js ''user'') = Some x" "jget v (js ''session'') = Some y"
    by (auto simp: isAuthUser_def isLoginSession_def split: if_splits dest!: isRecord_Some)
  with a u w show ?thesis
    by (auto simp: bundle_ok_def bundle_of_def hasValidTokenFields_def nonempty_string_def
        str_of_def num_of_def split: option.splits json.splits)
qed

lemma auth_ok_initial: "auth_ok initial_auth"
  by (simp add: auth_ok_def initial_auth_def)

definition tokens_ok :: "auth_bundle \<Rightarrow> bool" where
  "tokens_ok b \<longleftrightarrow>
     access_token b \<noteq> [] \<and> access_expires_at b > 0 \<and> isLoginSession (Some (bundle_session b))"

lemma bundle_tokens_ok: "bundle_ok b \<Longrightarrow> tokens_ok b"
  by (simp add: bundle_ok_def tokens_ok_def)

lemma rotation_tokens_ok: "isAuthTokenRotation v \<Longrightarrow> tokens_ok (bundle_of (the v) u)"
proof -
  assume a: "isAuthTokenRotation v"
  then obtain w where w: "v = Some w" by (auto simp: isAuthTokenRotation_def dest: isRecord_Some)
  from a obtain y where "jget v (js ''session'') = Some y"
    by (auto simp: isAuthTokenRotation_def isLoginSession_def split: if_splits dest!: isRecord_Some)
  with a w show ?thesis
    by (auto simp: tokens_ok_def bundle_of_def isAuthTokenRotation_def hasValidTokenFields_def
        nonempty_string_def str_of_def num_of_def split: option.splits json.splits)
qed

lemma auth_ok_setBundle: "tokens_ok b \<Longrightarrow> auth_ok (setBundle b st)"
  by (simp add: auth_ok_def setBundle_def tokens_ok_def)

lemma auth_ok_updates:
  "auth_ok st \<Longrightarrow> auth_ok (setUser u st)"
  "auth_ok st \<Longrightarrow> auth_ok (setPending2FAFlowToken f st)"
  "auth_ok st \<Longrightarrow> auth_ok (setBootstrapState b st)"
  "auth_ok (reset_auth b st)"
  by (simp_all add: auth_ok_def setUser_def setPending2FAFlowToken_def setBootstrapState_def
      reset_auth_def split: option.splits)

lemma auth_ok_together: "auth_ok st \<Longrightarrow> auth_together st"
  by (auto simp: auth_ok_def auth_together_def split: option.splits)

lemma auth_together_updates:
  "auth_together (setBundle b st)"
  "auth_together st \<Longrightarrow> auth_together (setUser u st)"
  "auth_together st \<Longrightarrow> auth_together (setPending2FAFlowToken f st)"
  "auth_together st \<Longrightarrow> auth_together (setBootstrapState c st)"
  "auth_together (reset_auth c st)"
  by (simp_all add: auth_together_def setBundle_def setUser_def setPending2FAFlowToken_def
      setBootstrapState_def reset_auth_def)

lemma session_sid: "isLoginSession s \<Longrightarrow> \<exists>t. sid_of s = Some t \<and> t \<noteq> []"
  by (auto simp: isLoginSession_def nonempty_string_def sid_of_def split: if_splits option.splits json.splits)

end
