(* ===== verification/AuthSession.thy ===== *)
theory AuthSession
  imports AuthStore
begin

text \<open>
  Login sessions (\<open>web/src/lib/auth-session.ts\<close>, and the cross-tab listener of
  \<open>web/src/routes/__root.tsx\<close>): applying a bundle or a rotation, clearing, and the refresh
  that runs asynchronously and may be overtaken by any of them. The module's variables are
  one record; an awaited promise is the phase the running refresh is in; every event the
  browser delivers is one step, and the calls a step makes are its outputs. \<open>Date.now()\<close> is
  the number an event carries. That \<open>refreshPromise\<close> is cleared in a \<open>finally\<close> callback right
  after the promise settles is modelled as one step.
\<close>

datatype refresh_error = SupersededError | ResponseError "json option"

datatype refresh_outcome =
    Authenticated auth_bundle
  | Anonymous
  | TransientError refresh_error
  | OutOfSync "jstring option"

text \<open>What \<open>authClient.post\<close> gives: a response, an error of the HTTP client with or without a
  response, or another exception.\<close>

datatype http_result =
    HttpOk nat "json option"
  | HttpAxiosError "(nat \<times> json option) option" "json option"
  | HttpOtherError "json option"

record refresh_response =
  rr_status :: nat
  rr_data :: "json option"
  rr_error :: "json option"

definition requestRefresh :: "http_result \<Rightarrow> refresh_response" where
  "requestRefresh r =
     (case r of
        HttpOk status d \<Rightarrow> \<lparr>rr_status = status, rr_data = d, rr_error = None\<rparr>
      | HttpAxiosError None e \<Rightarrow> \<lparr>rr_status = 0, rr_data = None, rr_error = e\<rparr>
      | HttpAxiosError (Some (status, d)) e \<Rightarrow> \<lparr>rr_status = status, rr_data = d, rr_error = e\<rparr>
      | HttpOtherError e \<Rightarrow> \<lparr>rr_status = 0, rr_data = None, rr_error = e\<rparr>)"

definition refreshRaceDelays :: "nat list" where
  "refreshRaceDelays = [80, 200, 500]"

text \<open>Where a running refresh waits: for the browser lock, for the response, or for the delay
  before another attempt. The numbers are the attempt in the race and whether one more
  session mismatch is forgiven.\<close>

datatype refresh_phase = AwaitLock | AwaitResponse nat bool | AwaitTimer nat bool

record refresh_task =
  rt_epoch :: nat
  rt_phase :: refresh_phase

record auth_world =
  w_auth :: auth_state
  w_epoch :: nat
  w_notified :: bool
  w_refresh :: "refresh_task option"

datatype sync_kind = SyncAuthenticated | SyncSignedOut

datatype auth_out =
    OutPublish sync_kind jstring
  | OutRefreshRequest "jstring option"
  | OutWait nat
  | OutSettled refresh_outcome
  | OutRejected
  | OutBootstrapped refresh_outcome
  | OutToastExpired
  | OutRotationError
  | OutClearQueries
  | OutReload
  | OutSignIn

type_synonym auth_result = "auth_world \<times> auth_out list"

definition initial_world :: auth_world where
  "initial_world = \<lparr>w_auth = initial_auth, w_epoch = 0, w_notified = False, w_refresh = None\<rparr>"

definition shouldNotifySessionExpired :: "auth_world \<Rightarrow> auth_world \<times> bool" where
  "shouldNotifySessionExpired w =
     (if w_notified w then (w, False) else (w\<lparr>w_notified := True\<rparr>, True))"

definition resetSessionExpiredNotification :: "auth_world \<Rightarrow> auth_world" where
  "resetSessionExpiredNotification w = w\<lparr>w_notified := False\<rparr>"

text \<open>\<open>publishAuthSessionEvent\<close> publishes nothing for an empty session id.\<close>

definition publish :: "sync_kind \<Rightarrow> jstring \<Rightarrow> auth_out list" where
  "publish kind sid = (if sid = [] then [] else [OutPublish kind sid])"

definition applyAuthBundle :: "auth_bundle \<Rightarrow> bool \<Rightarrow> auth_world \<Rightarrow> auth_result" where
  "applyAuthBundle bundle synchronizeTabs w =
     (let w1 = resetSessionExpiredNotification w;
          previousSID = sid_of (auth_session (w_auth w1));
          newSID = sid_of (Some (bundle_session bundle));
          w2 = w1\<lparr>w_epoch := w_epoch w1 + 1, w_auth := setBundle bundle (w_auth w1)\<rparr>
      in (w2, if synchronizeTabs \<and> previousSID \<noteq> newSID
              then publish SyncAuthenticated (case newSID of None \<Rightarrow> [] | Some s \<Rightarrow> s) else []))"

datatype rotation_error = InvalidRotation | NoActiveSession | RotationMismatch

definition applyAuthRotation :: "json option \<Rightarrow> auth_world \<Rightarrow> rotation_error + auth_result" where
  "applyAuthRotation value w =
     (if \<not> isAuthTokenRotation value then Inl InvalidRotation
      else let auth = w_auth w
           in if \<not> truthy (auth_user auth) \<or> \<not> truthy (auth_session auth) then Inl NoActiveSession
              else if sid_of (jget value (js ''session'')) \<noteq> sid_of (auth_session auth)
              then Inl RotationMismatch
              else Inr (applyAuthBundle (bundle_of (the value) (the (auth_user auth))) False w))"

definition clearAuthentication :: "bool \<Rightarrow> bootstrap_state \<Rightarrow> auth_world \<Rightarrow> auth_result" where
  "clearAuthentication synchronizeTabs b w =
     (let sid = sid_of (auth_session (w_auth w))
      in (w\<lparr>w_epoch := w_epoch w + 1, w_auth := reset_auth b (w_auth w)\<rparr>,
          if synchronizeTabs then (case sid of None \<Rightarrow> [] | Some s \<Rightarrow> publish SyncSignedOut s) else []))"

definition clearAuthenticatedClientState :: "bool \<Rightarrow> auth_world \<Rightarrow> auth_result" where
  "clearAuthenticatedClientState synchronizeTabs w =
     (let (w1, o1) = clearAuthentication synchronizeTabs Complete w in (w1, OutClearQueries # o1))"


section \<open>The refresh runner\<close>

text \<open>The runtime \<open>runRefresh\<close> passes to \<open>createRefreshRunner\<close>: its \<open>clear\<close>.\<close>

definition runtime_clear :: "bool \<Rightarrow> bootstrap_state option \<Rightarrow> auth_world \<Rightarrow> auth_result" where
  "runtime_clear synchronizeTabs b w =
     (if \<not> synchronizeTabs \<and> b = Some Idle then (w\<lparr>w_auth := reset_auth Idle (w_auth w)\<rparr>, [])
      else clearAuthentication synchronizeTabs (case b of None \<Rightarrow> Complete | Some b' \<Rightarrow> b') w)"

definition settle :: "refresh_outcome \<Rightarrow> auth_result \<Rightarrow> auth_result" where
  "settle outcome r = (let (w, outs) = r in (w\<lparr>w_refresh := None\<rparr>, outs @ [OutSettled outcome]))"

definition superseded :: refresh_outcome where
  "superseded = TransientError SupersededError"

text \<open>\<open>run(raceAttempt, allowMismatchRetry)\<close> up to its request.\<close>

definition run_begin :: "nat \<Rightarrow> nat \<Rightarrow> bool \<Rightarrow> auth_world \<Rightarrow> auth_result" where
  "run_begin refreshEpoch raceAttempt allowMismatchRetry w =
     (if w_epoch w \<noteq> refreshEpoch then settle superseded (w, [])
      else (w\<lparr>w_refresh := Some \<lparr>rt_epoch = refreshEpoch,
                                  rt_phase = AwaitResponse raceAttempt allowMismatchRetry\<rparr>\<rparr>,
            [OutRefreshRequest (case sid_of (auth_session (w_auth w)) of
                                  None \<Rightarrow> None | Some s \<Rightarrow> if s = [] then None else Some s)]))"

text \<open>And from its response on.\<close>

definition run_response ::
    "nat \<Rightarrow> nat \<Rightarrow> bool \<Rightarrow> refresh_response \<Rightarrow> auth_world \<Rightarrow> auth_result" where
  "run_response refreshEpoch raceAttempt allowMismatchRetry response w =
     (if w_epoch w \<noteq> refreshEpoch then settle superseded (w, [])
      else
        let responseData = (if isRecord (rr_data response) then rr_data response else None);
            code = (case jget responseData (js ''code'') of Some (JStr c) \<Rightarrow> Some c | _ \<Rightarrow> None);
            bundle = parse_bundle (jget responseData (js ''data''))
        in case (if jget responseData (js ''success'') = Some (JBool True) then bundle else None) of
             Some b \<Rightarrow> settle (Authenticated b) (applyAuthBundle b False w)
           | None \<Rightarrow>
               if rr_status response = 409 \<and> code = Some (js ''AUTH_REFRESH_RACE'') then
                 (if raceAttempt < length refreshRaceDelays then
                    (w\<lparr>w_refresh := Some \<lparr>rt_epoch = refreshEpoch,
                                          rt_phase = AwaitTimer raceAttempt allowMismatchRetry\<rparr>\<rparr>,
                     [OutWait (refreshRaceDelays ! raceAttempt)])
                  else settle (OutOfSync code) (runtime_clear False None w))
               else if rr_status response = 409 \<and> code = Some (js ''AUTH_SESSION_MISMATCH'') then
                 (if allowMismatchRetry then
                    (let (w1, o1) = runtime_clear False (Some Idle) w;
                         (w2, o2) = run_begin refreshEpoch 0 False w1
                     in (w2, o1 @ o2))
                  else settle (OutOfSync code) (runtime_clear False None w))
               else if rr_status response = 401 then settle Anonymous (runtime_clear True None w)
               else if rr_status response = 0 \<or> rr_status response \<ge> 500 \<or> rr_status response = 429 then
                 settle (TransientError (ResponseError
                     (case rr_error response of None \<Rightarrow> rr_data response
                      | Some JNull \<Rightarrow> rr_data response | Some e \<Rightarrow> Some e)))
                   (w\<lparr>w_auth := setBootstrapState Idle (w_auth w)\<rparr>, [])
               else settle (OutOfSync (case code of None \<Rightarrow> Some (js ''AUTH_INVALID_REFRESH_RESPONSE'')
                                         | Some c \<Rightarrow> Some c))
                      (runtime_clear False None w))"

text \<open>\<open>navigator.locks\<close> may be absent, may work, or may throw when called.\<close>

datatype lock_support = NoLocks | Locks | LocksThrow

text \<open>\<open>refreshAuthentication\<close> joins the refresh that is running or starts one.\<close>

definition refreshAuthentication :: "lock_support \<Rightarrow> auth_world \<Rightarrow> auth_result" where
  "refreshAuthentication locks w =
     (if w_refresh w \<noteq> None then (w, [])
      else case locks of
             NoLocks \<Rightarrow> run_begin (w_epoch w) 0 True w
           | Locks \<Rightarrow> (w\<lparr>w_refresh := Some \<lparr>rt_epoch = w_epoch w, rt_phase = AwaitLock\<rparr>\<rparr>, [])
           | LocksThrow \<Rightarrow> settle (TransientError (ResponseError None))
                             (w\<lparr>w_auth := setBootstrapState Idle (w_auth w)\<rparr>, []))"

definition currentValidAuthBundle :: "int \<Rightarrow> auth_world \<Rightarrow> auth_bundle option" where
  "currentValidAuthBundle now w =
     (let auth = w_auth w
      in case (auth_user auth, accessToken auth, accessExpiresAt auth, auth_session auth) of
           (Some u, Some tok, Some expiry, Some s) \<Rightarrow>
             if tok = [] \<or> expiry = 0 \<or> expiry \<le> of_int (now div 1000) then None
             else Some \<lparr>access_token = tok, token_type = js ''Bearer'', access_expires_at = expiry,
                        bundle_user = u, bundle_session = s\<rparr>
         | _ \<Rightarrow> None)"

definition bootstrapAuthentication :: "int \<Rightarrow> lock_support \<Rightarrow> auth_world \<Rightarrow> auth_result" where
  "bootstrapAuthentication now locks w =
     (case currentValidAuthBundle now w of
        Some bundle \<Rightarrow>
          (w\<lparr>w_auth := setBootstrapState Complete (w_auth w)\<rparr>, [OutBootstrapped (Authenticated bundle)])
      | None \<Rightarrow>
          let auth = w_auth w;
              hasStaleSession = (auth_user auth \<noteq> None \<and> auth_session auth \<noteq> None)
          in if bootstrapState auth = Complete \<and> \<not> hasStaleSession
             then (w, [OutBootstrapped Anonymous])
             else refreshAuthentication locks (w\<lparr>w_auth := setBootstrapState Checking auth\<rparr>))"

definition getCommonHeaders :: "auth_world \<Rightarrow> jstring jobj" where
  "getCommonHeaders w =
     (js ''Content-Type'', js ''application/json'') #
     (case accessToken (w_auth w) of
        None \<Rightarrow> []
      | Some tok \<Rightarrow> if tok = [] then [] else [(js ''Authorization'', js ''Bearer '' @ tok)])"

text \<open>\<open>getFreshAuthHeaders\<close> before its await (\<open>None\<close>: it refreshes) and after it.\<close>

definition token_valid_after :: "int \<Rightarrow> auth_world \<Rightarrow> bool" where
  "token_valid_after t w =
     (case (accessToken (w_auth w), accessExpiresAt (w_auth w)) of
        (Some tok, Some expiry) \<Rightarrow> tok \<noteq> [] \<and> expiry \<noteq> 0 \<and> expiry > of_int t
      | _ \<Rightarrow> False)"

definition fresh_headers_begin :: "int \<Rightarrow> auth_world \<Rightarrow> jstring jobj option" where
  "fresh_headers_begin now w =
     (if token_valid_after (now div 1000 + 60) w then Some (getCommonHeaders w) else None)"

datatype headers_error = HeadersRequestFailed refresh_error | HeadersSessionExpired

definition fresh_headers_end ::
    "refresh_outcome \<Rightarrow> int \<Rightarrow> auth_world \<Rightarrow> headers_error + jstring jobj" where
  "fresh_headers_end outcome now w =
     (case outcome of
        Authenticated b \<Rightarrow> Inr (getCommonHeaders w)
      | _ \<Rightarrow>
          if token_valid_after (now div 1000) w then Inr (getCommonHeaders w)
          else (case outcome of
                  TransientError e \<Rightarrow> Inl (HeadersRequestFailed e)
                | _ \<Rightarrow> Inl HeadersSessionExpired))"


section \<open>The machine\<close>

text \<open>What another tab reports (\<open>__root.tsx\<close>).\<close>

definition on_sync_event :: "sync_kind \<Rightarrow> jstring \<Rightarrow> auth_world \<Rightarrow> auth_result" where
  "on_sync_event kind sid w =
     (let currentSID = sid_of (auth_session (w_auth w))
      in case kind of
           SyncAuthenticated \<Rightarrow>
             if Some sid = currentSID then (w, [])
             else let (w1, o1) = (case currentSID of
                        None \<Rightarrow> (w, [])
                      | Some c \<Rightarrow> if c = [] then (w, []) else clearAuthentication False Complete w)
                  in (w1, o1 @ [OutReload])
         | SyncSignedOut \<Rightarrow>
             (case currentSID of
                None \<Rightarrow> (w, [])
              | Some c \<Rightarrow>
                  if c \<noteq> [] \<and> sid = c then
                    let (w1, o1) = clearAuthenticatedClientState False w in (w1, o1 @ [OutSignIn])
                  else (w, [])))"

datatype auth_event =
    EvLogin "json option" bool
  | EvLogin2FA "auth_bundle option"
  | EvRotation "json option"
  | EvClear bool bootstrap_state
  | EvSetUser "json option"
  | EvPending2FA "jstring option"
  | EvBootstrap int lock_support
  | EvRefresh lock_support
  | EvLock
  | EvLockRejected
  | EvResponse http_result
  | EvTimer
  | EvNotify
  | EvSync sync_kind jstring

text \<open>
  A login applies what the server sent only when it is a valid bundle, except the one with a
  second factor (\<open>otp-form.tsx\<close>), which hands the answer to \<open>handleLoginSuccess\<close> in its declared
  type, whatever its fields hold, when there is one at all. The lock, the response
  and the timer concern the running refresh; one it does not wait for changes nothing. A
  rejected lock request rejects the promise: the \<open>catch\<close> around it does not await it.
\<close>

fun auth_step :: "auth_world \<Rightarrow> auth_event \<Rightarrow> auth_result" where
  "auth_step w (EvLogin v sync) =
     (case parse_bundle v of None \<Rightarrow> (w, []) | Some b \<Rightarrow> applyAuthBundle b sync w)"
| "auth_step w (EvLogin2FA r) = (case r of None \<Rightarrow> (w, []) | Some b \<Rightarrow> applyAuthBundle b True w)"
| "auth_step w (EvRotation v) =
     (case applyAuthRotation v w of Inl _ \<Rightarrow> (w, [OutRotationError]) | Inr r \<Rightarrow> r)"
| "auth_step w (EvClear sync b) = clearAuthentication sync b w"
| "auth_step w (EvSetUser u) = (w\<lparr>w_auth := setUser u (w_auth w)\<rparr>, [])"
| "auth_step w (EvPending2FA f) = (w\<lparr>w_auth := setPending2FAFlowToken f (w_auth w)\<rparr>, [])"
| "auth_step w (EvBootstrap now locks) = bootstrapAuthentication now locks w"
| "auth_step w (EvRefresh locks) = refreshAuthentication locks w"
| "auth_step w EvLock =
     (case w_refresh w of
        Some t \<Rightarrow> (if rt_phase t = AwaitLock then run_begin (rt_epoch t) 0 True w else (w, []))
      | None \<Rightarrow> (w, []))"
| "auth_step w EvLockRejected =
     (case w_refresh w of
        Some t \<Rightarrow> (if rt_phase t = AwaitLock then (w\<lparr>w_refresh := None\<rparr>, [OutRejected]) else (w, []))
      | None \<Rightarrow> (w, []))"
| "auth_step w (EvResponse r) =
     (case w_refresh w of
        Some t \<Rightarrow>
          (case rt_phase t of
             AwaitResponse n allow \<Rightarrow> run_response (rt_epoch t) n allow (requestRefresh r) w
           | _ \<Rightarrow> (w, []))
      | None \<Rightarrow> (w, []))"
| "auth_step w EvTimer =
     (case w_refresh w of
        Some t \<Rightarrow>
          (case rt_phase t of
             AwaitTimer n allow \<Rightarrow> run_begin (rt_epoch t) (n + 1) allow w
           | _ \<Rightarrow> (w, []))
      | None \<Rightarrow> (w, []))"
| "auth_step w EvNotify =
     (let (w1, first) = shouldNotifySessionExpired w in (w1, if first then [OutToastExpired] else []))"
| "auth_step w (EvSync kind sid) = on_sync_event kind sid w"


section \<open>The invariant\<close>

fun phase_ok :: "refresh_phase \<Rightarrow> bool" where
  "phase_ok AwaitLock = True"
| "phase_ok (AwaitResponse n allow) = (n \<le> 3)"
| "phase_ok (AwaitTimer n allow) = (n < 3)"

definition auth_inv :: "auth_world \<Rightarrow> bool" where
  "auth_inv w \<longleftrightarrow>
     (case w_refresh w of None \<Rightarrow> True | Some t \<Rightarrow> rt_epoch t \<le> w_epoch w \<and> phase_ok (rt_phase t))"

lemma delays_length: "length refreshRaceDelays = 3"
  by (simp add: refreshRaceDelays_def)

text \<open>The ways \<open>run\<close> can continue after a response.\<close>

lemma run_response_cases:
  obtains (stale) "w_epoch w \<noteq> ep" "run_response ep n allow r w = settle superseded (w, [])"
    | (accept) b where "w_epoch w = ep" "bundle_ok b"
        "run_response ep n allow r w = settle (Authenticated b) (applyAuthBundle b False w)"
    | (race) "w_epoch w = ep" "n < 3" "run_response ep n allow r w =
          (w\<lparr>w_refresh := Some \<lparr>rt_epoch = ep, rt_phase = AwaitTimer n allow\<rparr>\<rparr>,
           [OutWait (refreshRaceDelays ! n)])"
    | (mismatch) "w_epoch w = ep" "allow" "run_response ep n allow r w =
          run_begin ep 0 False (w\<lparr>w_auth := reset_auth Idle (w_auth w)\<rparr>)"
    | (cleared) outcome sync where "w_epoch w = ep" "outcome = Anonymous \<and> sync \<or> (\<exists>c. outcome = OutOfSync c) \<and> \<not> sync"
        "run_response ep n allow r w = settle outcome (clearAuthentication sync Complete w)"
    | (transient) e where "w_epoch w = ep" "run_response ep n allow r w =
          settle (TransientError (ResponseError e)) (w\<lparr>w_auth := setBootstrapState Idle (w_auth w)\<rparr>, [])"
proof (cases "w_epoch w = ep")
  case False
  then show ?thesis using stale by (simp add: run_response_def)
next
  case True
  define d where "d = (if isRecord (rr_data r) then rr_data r else None)"
  define c where "c = (case jget d (js ''code'') of Some (JStr c) \<Rightarrow> Some c | _ \<Rightarrow> None)"
  define bo where "bo = (if jget d (js ''success'') = Some (JBool True)
      then parse_bundle (jget d (js ''data'')) else None)"
  note run = run_response_def [of ep n allow r w, folded d_def, unfolded Let_def, folded c_def bo_def]
  show ?thesis
  proof (cases bo)
    case (Some b)
    moreover have "bundle_ok b"
      using Some by (auto simp: bo_def intro: parse_bundle_ok split: if_splits)
    ultimately show ?thesis using accept True by (simp add: run)
  next
    case None
    consider "rr_status r = 409" "c = Some (js ''AUTH_REFRESH_RACE'')" "n < 3"
      | "rr_status r = 409" "c = Some (js ''AUTH_REFRESH_RACE'')" "\<not> n < 3"
      | "rr_status r = 409" "c = Some (js ''AUTH_SESSION_MISMATCH'')" "allow"
      | "rr_status r = 409" "c = Some (js ''AUTH_SESSION_MISMATCH'')" "\<not> allow"
      | "\<not> (rr_status r = 409 \<and> c = Some (js ''AUTH_REFRESH_RACE''))"
        "\<not> (rr_status r = 409 \<and> c = Some (js ''AUTH_SESSION_MISMATCH''))" by blast
    then show ?thesis
    proof cases
      case 5
      define e where "e = (case rr_error r of None \<Rightarrow> rr_data r
          | Some JNull \<Rightarrow> rr_data r | Some e \<Rightarrow> Some e)"
      define c' where "c' = (case c of None \<Rightarrow> Some (js ''AUTH_INVALID_REFRESH_RESPONSE'')
          | Some c \<Rightarrow> Some c)"
      note eqs = run [folded e_def c'_def] runtime_clear_def
      from 5 None True consider "run_response ep n allow r w = settle Anonymous (clearAuthentication True Complete w)"
        | "run_response ep n allow r w = settle (TransientError (ResponseError e))
            (w\<lparr>w_auth := setBootstrapState Idle (w_auth w)\<rparr>, [])"
        | "run_response ep n allow r w = settle (OutOfSync c') (clearAuthentication False Complete w)"
        by (cases "rr_status r = 401"; cases "rr_status r = 0 \<or> 500 \<le> rr_status r \<or> rr_status r = 429")
          (auto simp: eqs)
      then show ?thesis
        by cases (use True cleared transient in blast)+
    next
      case 3
      have "run_response ep n allow r w = run_begin ep 0 False (w\<lparr>w_auth := reset_auth Idle (w_auth w)\<rparr>)"
        unfolding run using 3 None True by (simp add: runtime_clear_def case_prod_beta)
      with mismatch 3 True show ?thesis by blast
    next
      case 4
      have "run_response ep n allow r w = settle (OutOfSync c) (clearAuthentication False Complete w)"
        unfolding run using 4 None True by (simp add: runtime_clear_def)
      with cleared True show ?thesis by blast
    qed (use None True race cleared [of "OutOfSync c" False] in
        \<open>simp_all add: run delays_length runtime_clear_def\<close>)
  qed
qed


lemma settle_simps [simp]:
  "fst (settle out r) = (fst r)\<lparr>w_refresh := None\<rparr>"
  "snd (settle out r) = snd r @ [OutSettled out]"
  by (simp_all add: settle_def case_prod_beta)

lemma apply_simps [simp]:
  "w_auth (fst (applyAuthBundle b sync w)) = setBundle b (w_auth w)"
  "w_epoch (fst (applyAuthBundle b sync w)) = w_epoch w + 1"
  "w_refresh (fst (applyAuthBundle b sync w)) = w_refresh w"
  "w_notified (fst (applyAuthBundle b sync w)) = False"
  by (simp_all add: applyAuthBundle_def Let_def resetSessionExpiredNotification_def)

lemma clear_simps [simp]:
  "w_auth (fst (clearAuthentication sync b w)) = reset_auth b (w_auth w)"
  "w_epoch (fst (clearAuthentication sync b w)) = w_epoch w + 1"
  "w_refresh (fst (clearAuthentication sync b w)) = w_refresh w"
  "w_notified (fst (clearAuthentication sync b w)) = w_notified w"
  by (simp_all add: clearAuthentication_def Let_def)

lemma inv_apply: "auth_inv w \<Longrightarrow> auth_inv (fst (applyAuthBundle b sync w))"
  by (auto simp: auth_inv_def split: option.splits)

lemma inv_clear: "auth_inv w \<Longrightarrow> auth_inv (fst (clearAuthentication sync b w))"
  by (auto simp: auth_inv_def split: option.splits)

lemma inv_begin: "auth_inv w \<Longrightarrow> n \<le> 3 \<Longrightarrow> auth_inv (fst (run_begin ep n allow w))"
  by (auto simp: run_begin_def auth_inv_def)

lemma inv_store [simp]: "auth_inv (w\<lparr>w_auth := st\<rparr>) = auth_inv w"
  by (simp add: auth_inv_def split: option.split)

lemma inv_response:
  assumes "auth_inv w" "n \<le> 3"
  shows "auth_inv (fst (run_response ep n allow r w))"
proof (cases rule: run_response_cases [of w ep n allow r])
  case mismatch
  with assms show ?thesis by (simp add: inv_begin)
qed (use assms in \<open>auto simp: auth_inv_def\<close>)

lemma inv_refresh: "auth_inv w \<Longrightarrow> auth_inv (fst (refreshAuthentication locks w))"
  by (cases locks) (auto simp: refreshAuthentication_def inv_begin, auto simp: auth_inv_def)

lemma inv_bootstrap: "auth_inv w \<Longrightarrow> auth_inv (fst (bootstrapAuthentication now locks w))"
  by (auto simp: bootstrapAuthentication_def Let_def intro!: inv_refresh split: option.split)

lemma inv_rotation: "auth_inv w \<Longrightarrow> applyAuthRotation v w = Inr r \<Longrightarrow> auth_inv (fst r)"
  by (auto simp: applyAuthRotation_def Let_def intro!: inv_apply split: if_splits)

lemma inv_sync: "auth_inv w \<Longrightarrow> auth_inv (fst (on_sync_event kind sid w))"
  by (auto simp: on_sync_event_def clearAuthenticatedClientState_def case_prod_beta Let_def inv_clear
      split: sync_kind.split option.split)

lemma auth_inv_step: "auth_inv w \<Longrightarrow> auth_inv (fst (auth_step w e))"
proof (cases e)
  case EvLock
  assume "auth_inv w"
  with EvLock show ?thesis by (auto intro!: inv_begin split: option.split)
next
  case EvTimer
  assume "auth_inv w"
  with EvTimer show ?thesis
    by (auto simp: auth_inv_def [of w] intro!: inv_begin split: option.split refresh_phase.split)
next
  case (EvResponse r)
  assume "auth_inv w"
  with EvResponse show ?thesis
    by (auto intro!: inv_response simp: auth_inv_def [of w] split: option.split refresh_phase.split)
next
  case (EvRotation v)
  assume "auth_inv w"
  with EvRotation show ?thesis by (auto dest: inv_rotation split: sum.split)
next
  case EvLockRejected
  assume "auth_inv w"
  with EvLockRejected show ?thesis by (auto simp: auth_inv_def split: option.split)
next
  case EvNotify
  assume "auth_inv w"
  with EvNotify show ?thesis
    by (auto simp: auth_inv_def shouldNotifySessionExpired_def split: option.splits)
qed (auto simp: inv_clear inv_apply inv_refresh inv_bootstrap inv_sync split: option.split)

interpretation auth: machine initial_world auth_step auth_inv
  by unfold_locales
    (simp_all add: auth_inv_step, simp add: auth_inv_def initial_world_def)


section \<open>What an event does to the store\<close>

text \<open>The answer to a second factor is the only bundle that is not checked.\<close>

definition login2fa_valid :: "auth_event \<Rightarrow> bool" where
  "login2fa_valid e \<longleftrightarrow> (case e of EvLogin2FA (Some b) \<Rightarrow> bundle_ok b | _ \<Rightarrow> True)"

text \<open>The stores a step can leave behind: a checked bundle, or the one of a second factor, is put
  in; everything is reset; or one field other than token, expiry and session changes.\<close>

definition store_effects :: "auth_world \<Rightarrow> auth_event \<Rightarrow> auth_state set" where
  "store_effects w e =
     {setBundle b (w_auth w) | b. tokens_ok b \<or> e = EvLogin2FA (Some b)} \<union>
     range (\<lambda>b. reset_auth b (w_auth w)) \<union> range (\<lambda>u. setUser u (w_auth w)) \<union>
     range (\<lambda>f. setPending2FAFlowToken f (w_auth w)) \<union> range (\<lambda>b. setBootstrapState b (w_auth w))"

lemma effects_bundle [intro]: "tokens_ok b \<Longrightarrow> setBundle b (w_auth w) \<in> store_effects w e"
  by (auto simp: store_effects_def)

lemma effects_2fa [intro]: "setBundle b (w_auth w) \<in> store_effects w (EvLogin2FA (Some b))"
  by (auto simp: store_effects_def)

lemma effects_reset [simp]: "reset_auth b (w_auth w) \<in> store_effects w e"
  and effects_user [simp]: "setUser u (w_auth w) \<in> store_effects w e"
  and effects_pending [simp]: "setPending2FAFlowToken f (w_auth w) \<in> store_effects w e"
  and effects_bootstrap [simp]: "setBootstrapState b (w_auth w) \<in> store_effects w e"
  by (auto simp: store_effects_def)

lemma effects_kept [simp]: "w_auth w \<in> store_effects w e"
proof -
  have "setUser (auth_user (w_auth w)) (w_auth w) = w_auth w" by (simp add: setUser_def)
  then show ?thesis by (metis effects_user)
qed

lemma begin_store [simp]: "w_auth (fst (run_begin ep n allow w)) = w_auth w"
  by (simp add: run_begin_def)

lemma effects_response: "w_auth (fst (run_response ep n allow r w)) \<in> store_effects w e"
  by (cases rule: run_response_cases [of w ep n allow r]) (auto dest: bundle_tokens_ok)

lemma effects_refresh:
  "w_auth (fst (refreshAuthentication locks w)) \<in> {w_auth w, setBootstrapState Idle (w_auth w)}"
  by (cases locks) (auto simp: refreshAuthentication_def)

lemma bootstrap_twice [simp]: "setBootstrapState a (setBootstrapState b st) = setBootstrapState a st"
  by (simp add: setBootstrapState_def)

lemma auth_step_store: "w_auth (fst (auth_step w e)) \<in> store_effects w e"
proof (cases e)
  case (EvLogin v sync)
  then show ?thesis by (auto dest: parse_bundle_ok bundle_tokens_ok split: option.split)
next
  case (EvRotation v)
  then show ?thesis
    by (auto simp: applyAuthRotation_def Let_def intro: rotation_tokens_ok split: sum.split if_splits)
next
  case (EvBootstrap now locks)
  then show ?thesis
    using effects_refresh [of locks "w\<lparr>w_auth := setBootstrapState Checking (w_auth w)\<rparr>"]
    by (auto simp: bootstrapAuthentication_def Let_def split: option.split)
next
  case (EvRefresh locks)
  then show ?thesis using effects_refresh [of locks w] by auto
qed (auto simp: effects_response on_sync_event_def clearAuthenticatedClientState_def case_prod_beta Let_def
    shouldNotifySessionExpired_def split: option.split refresh_phase.split sync_kind.split)

lemma store_step:
  shows "auth_together (w_auth w) \<Longrightarrow> auth_together (w_auth (fst (auth_step w e)))"
    and "auth_ok (w_auth w) \<Longrightarrow> login2fa_valid e \<Longrightarrow> auth_ok (w_auth (fst (auth_step w e)))"
  using auth_step_store [of w e]
  by (auto simp: store_effects_def login2fa_valid_def auth_ok_setBundle auth_ok_updates
      auth_together_updates bundle_tokens_ok)

lemma store_run:
  shows "auth_together (w_auth w) \<Longrightarrow> auth_together (w_auth (fst (run_events auth_step w es)))"
    and "auth_ok (w_auth w) \<Longrightarrow> list_all login2fa_valid es \<Longrightarrow>
           auth_ok (w_auth (fst (run_events auth_step w es)))"
  by (induction es arbitrary: w) (simp_all add: case_prod_beta store_step)


section \<open>How often a refresh asks, and how often the user is told\<close>

definition is_request :: "auth_out \<Rightarrow> bool" where
  "is_request x \<longleftrightarrow> (case x of OutRefreshRequest _ \<Rightarrow> True | _ \<Rightarrow> False)"

definition is_toast :: "auth_out \<Rightarrow> bool" where
  "is_toast x \<longleftrightarrow> x = OutToastExpired"

text \<open>The requests a running refresh may still send.\<close>

fun phase_budget :: "refresh_phase \<Rightarrow> nat" where
  "phase_budget AwaitLock = 8"
| "phase_budget (AwaitResponse n allow) = (3 - n) + (if allow then 4 else 0)"
| "phase_budget (AwaitTimer n allow) = (3 - n) + (if allow then 4 else 0)"

definition budget :: "auth_world \<Rightarrow> nat" where
  "budget w = (case w_refresh w of None \<Rightarrow> 0 | Some t \<Rightarrow> phase_budget (rt_phase t))"

definition start_cost :: "auth_event \<Rightarrow> nat" where
  "start_cost e = (case e of EvRefresh _ \<Rightarrow> 8 | EvBootstrap _ _ \<Rightarrow> 8 | _ \<Rightarrow> 0)"

definition toast_left :: "auth_world \<Rightarrow> nat" where
  "toast_left w = (if w_notified w then 0 else 1)"

text \<open>The events that can establish a session.\<close>

definition establish_cost :: "auth_event \<Rightarrow> nat" where
  "establish_cost e = (case e of EvLogin _ _ \<Rightarrow> 1 | EvLogin2FA _ \<Rightarrow> 1 | EvRotation _ \<Rightarrow> 1 | EvResponse _ \<Rightarrow> 1 | _ \<Rightarrow> 0)"

definition only_publish :: "auth_out list \<Rightarrow> bool" where
  "only_publish outs \<longleftrightarrow> list_all (\<lambda>x. \<exists>k s. x = OutPublish k s) outs"

lemma outs_apply: "only_publish (snd (applyAuthBundle b sync w))"
  by (auto simp: applyAuthBundle_def Let_def publish_def only_publish_def)

lemma outs_clear: "only_publish (snd (clearAuthentication sync b w))"
  by (auto simp: clearAuthentication_def Let_def publish_def only_publish_def split: option.split)

lemma none_counted:
  "only_publish outs \<Longrightarrow> filter is_request outs = []"
  "only_publish outs \<Longrightarrow> filter is_toast outs = []"
  by (auto simp: only_publish_def list_all_iff filter_empty_conv is_request_def is_toast_def)

lemmas counting [simp] =
  none_counted [OF outs_apply] none_counted [OF outs_clear]

lemma counted_simps [simp]:
  "is_request (OutRefreshRequest s)" "\<not> is_request (OutSettled r)" "\<not> is_request (OutWait n)"
  "\<not> is_request OutRejected" "\<not> is_request (OutBootstrapped r)" "\<not> is_request OutRotationError"
  "\<not> is_request OutToastExpired" "\<not> is_request OutReload" "\<not> is_request OutSignIn"
  "\<not> is_request OutClearQueries"
  "\<not> is_toast (OutRefreshRequest s)" "\<not> is_toast (OutSettled r)" "\<not> is_toast (OutWait n)"
  "\<not> is_toast OutRejected" "\<not> is_toast (OutBootstrapped r)" "\<not> is_toast OutRotationError"
  "is_toast OutToastExpired" "\<not> is_toast OutReload" "\<not> is_toast OutSignIn"
  "\<not> is_toast OutClearQueries"
  by (simp_all add: is_request_def is_toast_def)

lemma budget_begin:
  "length (filter is_request (snd (run_begin ep n allow w))) + budget (fst (run_begin ep n allow w)) \<le>
     1 + (3 - n) + (if allow then 4 else 0)"
  by (auto simp: run_begin_def budget_def)

lemma budget_response:
  "length (filter is_request (snd (run_response ep n allow r w))) +
     budget (fst (run_response ep n allow r w)) \<le> (3 - n) + (if allow then 4 else 0)"
proof (cases rule: run_response_cases [of w ep n allow r])
  case mismatch
  then show ?thesis using budget_begin [of ep 0 False "w\<lparr>w_auth := reset_auth Idle (w_auth w)\<rparr>"] by simp
qed (auto simp: budget_def)

lemma budget_refresh:
  "length (filter is_request (snd (refreshAuthentication locks w))) +
     budget (fst (refreshAuthentication locks w)) \<le> budget w + 8"
  using budget_begin [of "w_epoch w" 0 True w]
  by (cases locks) (auto simp: refreshAuthentication_def budget_def [of "w\<lparr>w_refresh := _\<rparr>"]
      budget_def [of "w\<lparr>w_auth := _, w_refresh := _\<rparr>"])

lemma budget_store [simp]: "budget (w\<lparr>w_auth := a\<rparr>) = budget w"
  by (simp add: budget_def)

lemma budget_step:
  assumes "auth_inv w"
  shows "length (filter is_request (snd (auth_step w e))) + budget (fst (auth_step w e)) \<le>
           budget w + start_cost e"
proof (cases e)
  case EvLock
  then show ?thesis using budget_begin [of _ 0 True w]
    by (auto simp: budget_def [of w] start_cost_def split: option.split)
next
  case EvTimer
  show ?thesis
  proof (cases "w_refresh w")
    case (Some t)
    show ?thesis
    proof (cases "rt_phase t")
      case (AwaitTimer n allow)
      then show ?thesis
        using EvTimer Some assms budget_begin [of "rt_epoch t" "n + 1" allow w]
        by (auto simp: budget_def [of w] auth_inv_def split: if_splits)
    qed (use EvTimer Some in auto)
  qed (use EvTimer in simp)
next
  case (EvResponse r)
  show ?thesis
  proof (cases "w_refresh w")
    case (Some t)
    show ?thesis
    proof (cases "rt_phase t")
      case (AwaitResponse n allow)
      then show ?thesis
        using EvResponse Some budget_response [of "rt_epoch t" n allow "requestRefresh r" w]
        by (simp add: budget_def [of w])
    qed (use EvResponse Some in auto)
  qed (use EvResponse in simp)
next
  case (EvBootstrap now locks)
  then show ?thesis
    using budget_refresh [of locks "w\<lparr>w_auth := setBootstrapState Checking (w_auth w)\<rparr>"]
    by (auto simp: bootstrapAuthentication_def Let_def start_cost_def split: option.split)
next
  case (EvRefresh locks)
  then show ?thesis using budget_refresh [of locks w] by (simp add: start_cost_def)
next
  case (EvRotation v)
  then show ?thesis
    by (auto simp: applyAuthRotation_def Let_def budget_def split: sum.split if_splits)
qed (auto simp: budget_def shouldNotifySessionExpired_def on_sync_event_def Let_def
    clearAuthenticatedClientState_def case_prod_beta split: option.split sync_kind.split)

interpretation refresh_meter: metered initial_world auth_step auth_inv is_request budget start_cost
  by unfold_locales (rule budget_step)


lemma toast_begin: "filter is_toast (snd (run_begin ep n allow w)) = []"
  "w_notified (fst (run_begin ep n allow w)) = w_notified w"
  by (simp_all add: run_begin_def)

lemma toast_refresh: "filter is_toast (snd (refreshAuthentication locks w)) = []"
  "w_notified (fst (refreshAuthentication locks w)) = w_notified w"
  by (cases locks; simp add: refreshAuthentication_def toast_begin)+

lemma toast_response: "filter is_toast (snd (run_response ep n allow r w)) = []"
  by (cases rule: run_response_cases [of w ep n allow r]) (simp_all add: toast_begin)

lemma toast_step:
  "length (filter is_toast (snd (auth_step w e))) + toast_left (fst (auth_step w e)) \<le>
     toast_left w + establish_cost e"
proof (cases e)
  case (EvBootstrap now locks)
  then show ?thesis
    by (auto simp: bootstrapAuthentication_def Let_def toast_refresh toast_left_def split: option.split)
next
  case (EvRotation v)
  then show ?thesis
    by (auto simp: applyAuthRotation_def Let_def toast_left_def establish_cost_def
        split: sum.split if_splits)
next
  case (EvResponse r)
  then show ?thesis
    by (auto simp: toast_response toast_left_def establish_cost_def
        split: option.split refresh_phase.split)
qed (auto simp: toast_left_def toast_begin toast_refresh establish_cost_def on_sync_event_def Let_def
    shouldNotifySessionExpired_def clearAuthenticatedClientState_def case_prod_beta
    split: option.split sync_kind.split refresh_phase.split)

interpretation toast_meter: metered initial_world auth_step auth_inv is_toast toast_left establish_cost
  by unfold_locales (rule toast_step)


section \<open>A refresh settles\<close>

text \<open>The event the running refresh waits for, with \<open>r\<close> as the next response.\<close>

definition awaited :: "auth_world \<Rightarrow> http_result \<Rightarrow> auth_event" where
  "awaited w r =
     (case w_refresh w of
        None \<Rightarrow> EvTimer
      | Some t \<Rightarrow>
          (case rt_phase t of
             AwaitLock \<Rightarrow> EvLock | AwaitResponse _ _ \<Rightarrow> EvResponse r | AwaitTimer _ _ \<Rightarrow> EvTimer))"

fun drive :: "auth_world \<Rightarrow> http_result list \<Rightarrow> auth_world" where
  "drive w [] = w"
| "drive w (r # rs) = drive (fst (auth_step w (awaited w r))) rs"

text \<open>Events until it settles, at most.\<close>

fun phase_steps :: "refresh_phase \<Rightarrow> nat" where
  "phase_steps AwaitLock = 15"
| "phase_steps (AwaitResponse n allow) = 2 * (3 - n) + 1 + (if allow then 7 else 0)"
| "phase_steps (AwaitTimer n allow) = 2 * (3 - n) + (if allow then 7 else 0)"

definition steps_left :: "auth_world \<Rightarrow> nat" where
  "steps_left w = (case w_refresh w of None \<Rightarrow> 0 | Some t \<Rightarrow> phase_steps (rt_phase t))"

lemma steps_begin:
  "steps_left (fst (run_begin ep n allow w)) \<le> 2 * (3 - n) + 1 + (if allow then 7 else 0)"
  by (simp add: run_begin_def steps_left_def)

lemma steps_response:
  "n \<le> 3 \<Longrightarrow> steps_left (fst (run_response ep n allow r w)) < 2 * (3 - n) + 1 + (if allow then 7 else 0)"
proof (cases rule: run_response_cases [of w ep n allow r])
  case mismatch
  then show ?thesis using steps_begin [of ep 0 False "w\<lparr>w_auth := reset_auth Idle (w_auth w)\<rparr>"] by simp
qed (auto simp: steps_left_def)

lemma steps_awaited:
  assumes "auth_inv w" "w_refresh w = Some t"
  shows "steps_left (fst (auth_step w (awaited w r))) < steps_left w"
proof (cases "rt_phase t")
  case AwaitLock
  then show ?thesis
    using assms steps_begin [of "rt_epoch t" 0 True w] by (simp add: awaited_def steps_left_def [of w])
next
  case (AwaitResponse n allow)
  then show ?thesis
    using assms steps_response [of n "rt_epoch t" allow "requestRefresh r" w]
    by (simp add: awaited_def steps_left_def [of w] auth_inv_def)
next
  case (AwaitTimer n allow)
  then show ?thesis
    using assms steps_begin [of "rt_epoch t" "n + 1" allow w]
    by (auto simp: awaited_def steps_left_def [of w] auth_inv_def split: if_splits)
qed

lemma drive_settles: "auth_inv w \<Longrightarrow> steps_left w \<le> length rs \<Longrightarrow> w_refresh (drive w rs) = None"
proof (induction rs arbitrary: w)
  case Nil
  then show ?case
    by (cases "w_refresh w") (auto simp: steps_left_def auth_inv_def elim: phase_steps.elims)
next
  case (Cons r rs)
  show ?case
  proof (cases "w_refresh w")
    case None
    then have "auth_step w (awaited w r) = (w, [])" by (simp add: awaited_def)
    with Cons None show ?thesis by (simp add: steps_left_def)
  next
    case (Some t)
    from steps_awaited [OF Cons.prems(1) Some, of r] Cons show ?thesis
      by (simp add: auth_inv_step)
  qed
qed

lemma steps_left_15: "auth_inv w \<Longrightarrow> steps_left w \<le> 15"
  by (cases "w_refresh w"; cases "rt_phase (the (w_refresh w))")
    (auto simp: steps_left_def auth_inv_def)


section \<open>A refresh that was overtaken\<close>

definition refresh_event :: "auth_event \<Rightarrow> bool" where
  "refresh_event e \<longleftrightarrow>
     (case e of EvLock \<Rightarrow> True | EvLockRejected \<Rightarrow> True | EvResponse _ \<Rightarrow> True | EvTimer \<Rightarrow> True | _ \<Rightarrow> False)"

text \<open>The events that change the session under a running refresh: a valid bundle, an accepted
  rotation, a sign-out, or a report from another tab that clears this one.\<close>

definition overtakes :: "auth_world \<Rightarrow> auth_event \<Rightarrow> bool" where
  "overtakes w e \<longleftrightarrow>
     (case e of
        EvLogin v _ \<Rightarrow> isAuthBundle v
      | EvLogin2FA r \<Rightarrow> r \<noteq> None
      | EvRotation v \<Rightarrow> \<not> isl (applyAuthRotation v w)
      | EvClear _ _ \<Rightarrow> True
      | EvSync kind sid \<Rightarrow>
          (case sid_of (auth_session (w_auth w)) of
             None \<Rightarrow> False
           | Some c \<Rightarrow> c \<noteq> [] \<and> (if kind = SyncSignedOut then sid = c else sid \<noteq> c))
      | _ \<Rightarrow> False)"

definition stale :: "auth_world \<Rightarrow> bool" where
  "stale w \<longleftrightarrow> (case w_refresh w of None \<Rightarrow> True | Some t \<Rightarrow> rt_epoch t \<noteq> w_epoch w)"

lemma stale_phase:
  "w_epoch w \<noteq> ep \<Longrightarrow> run_begin ep n allow w = settle superseded (w, [])"
  "w_epoch w \<noteq> ep \<Longrightarrow> run_response ep n allow r w = settle superseded (w, [])"
  by (simp_all add: run_begin_def run_response_def)

lemma stale_step_cases:
  assumes "stale w" "refresh_event e"
  shows "auth_step w e \<in> {(w, []), settle superseded (w, []), (w\<lparr>w_refresh := None\<rparr>, [OutRejected])}"
proof (cases "w_refresh w")
  case None
  with assms(2) show ?thesis by (cases e) (simp_all add: refresh_event_def)
next
  case (Some t)
  with assms(1) have "w_epoch w \<noteq> rt_epoch t" by (simp add: stale_def)
  note st = stale_phase [OF this]
  from assms(2) Some show ?thesis
    by (cases e; cases "rt_phase t") (simp_all add: refresh_event_def st)
qed

lemma stale_step:
  assumes "stale w" "refresh_event e"
  shows "w_auth (fst (auth_step w e)) = w_auth w" "stale (fst (auth_step w e))"
    "set (snd (auth_step w e)) \<subseteq> {OutSettled superseded, OutRejected}"
  using stale_step_cases [OF assms] assms(1) by (auto simp: stale_def split: option.splits)

lemma stale_run:
  "stale w \<Longrightarrow> list_all refresh_event es \<Longrightarrow>
     w_auth (fst (run_events auth_step w es)) = w_auth w \<and>
     set (snd (run_events auth_step w es)) \<subseteq> {OutSettled superseded, OutRejected}"
proof (induction es arbitrary: w)
  case (Cons e es)
  then have e: "refresh_event e" "list_all refresh_event es" by simp_all
  note st = stale_step [OF Cons.prems(1) e(1)]
  from Cons.IH [OF st(2) e(2)] st show ?case by (auto simp: case_prod_beta)
qed simp


text \<open>Such an event moves the epoch on, so the refresh that was running is stale.\<close>

lemma overtakes_epoch:
  "overtakes w e \<Longrightarrow>
     w_refresh (fst (auth_step w e)) = w_refresh w \<and> w_epoch (fst (auth_step w e)) = w_epoch w + 1"
  by (cases e) (auto simp: overtakes_def parse_bundle_def applyAuthRotation_def Let_def on_sync_event_def
      clearAuthenticatedClientState_def case_prod_beta split: option.splits if_splits sync_kind.splits)

lemma overtakes_stale:
  assumes "auth_inv w" "overtakes w e"
  shows "stale (fst (auth_step w e))"
  using overtakes_epoch [OF assms(2)] assms(1) by (auto simp: stale_def auth_inv_def split: option.splits)


section \<open>Properties\<close>

text \<open>A session and a bundle for the examples.\<close>

definition sample_session :: json where
  "sample_session = JObj [(js ''sid'', JStr (js ''s1'')), (js ''current'', JBool True),
     (js ''login_method'', JStr (js ''password'')), (js ''ip'', JStr []), (js ''user_agent'', JStr []),
     (js ''created_at'', JNum 1), (js ''last_active_at'', JNum 2), (js ''expires_at'', JNum 3)]"

definition sample_tokens :: "string \<Rightarrow> json jobj" where
  "sample_tokens tok = [(js ''access_token'', JStr (js tok)), (js ''token_type'', JStr (js ''Bearer'')),
     (js ''access_expires_at'', JNum 900), (js ''session'', sample_session)]"

definition sample_bundle :: json where
  "sample_bundle = JObj (sample_tokens ''t1'' @ [(js ''user'', JObj [(js ''id'', JNum 7),
     (js ''username'', JStr (js ''ann'')), (js ''role'', JNum 1)])])"

text \<open>C1 [auth_state_consistent]: after any sequence of logins, rotations, refreshes, clears and
  reports from other tabs, the access token, its expiry and the session are either all set or
  all cleared. The answer to a second factor is the one answer the code does not check; it is taken
  to have its declared type. When each such answer was a valid bundle, a session that is set is a
  valid one, with a non-empty token and a positive expiry.\<close>

theorem auth_state_consistent:
  "auth_together (w_auth (fst (run_events auth_step initial_world es))) \<and>
   (list_all login2fa_valid es \<longrightarrow> auth_ok (w_auth (fst (run_events auth_step initial_world es))))"
  using store_run [of initial_world es]
  by (simp add: initial_world_def auth_ok_initial auth_ok_together)

theorem auth_state_consistent_witness:
  "let w = fst (run_events auth_step initial_world
       [EvLogin2FA (parse_bundle (Some sample_bundle)), EvRefresh NoLocks, EvResponse (HttpOk 503 None)]) in
     auth_ok (w_auth w) \<and> auth_session (w_auth w) = Some sample_session"
proof -
  let ?es = "[EvLogin2FA (parse_bundle (Some sample_bundle)), EvRefresh NoLocks, EvResponse (HttpOk 503 None)]"
  have 1: "list_all login2fa_valid ?es" by code_simp
  have 2: "auth_session (w_auth (fst (run_events auth_step initial_world ?es))) = Some sample_session"
    by code_simp
  show ?thesis using auth_state_consistent [of ?es] 1 2 unfolding Let_def by blast
qed

text \<open>C5 [refresh_requests_bounded]: whatever the server answers and however the events interleave, every
  call that starts a refresh accounts for at most eight requests: four attempts in a race, and
  four more after one forgiven session mismatch.\<close>

theorem refresh_requests_bounded:
  "length (filter is_request (snd (run_events auth_step initial_world es))) \<le>
     8 * length (filter (\<lambda>e. start_cost e > 0) es)"
proof -
  have "sum_list (map start_cost es) = 8 * length (filter (\<lambda>e. start_cost e > 0) es)"
    by (induction es) (auto simp: start_cost_def split: auth_event.splits)
  then show ?thesis
    using refresh_meter.counted_run [of es] by (simp add: budget_def initial_world_def)
qed

text \<open>C14 [refresh_settles]: from every reachable state a refresh settles once the events it waits for
  have arrived, whatever the responses are, and fifteen of them are always enough.\<close>

theorem refresh_settles:
  assumes "15 \<le> length rs"
  shows "w_refresh (drive (fst (run_events auth_step initial_world es)) rs) = None"
  using assms steps_left_15 [OF auth.inv_run [of es]] by (intro drive_settles auth.inv_run) simp

theorem refresh_settles_witness:
  "w_refresh (drive (fst (run_events auth_step initial_world [EvRefresh Locks]))
     (replicate 15 (HttpOk 409 (Some (JObj [(js ''code'', JStr (js ''AUTH_REFRESH_RACE''))]))))) = None"
  by (rule refresh_settles) simp

text \<open>C3 [superseded_refresh_inert]: in every reachable state, once a login, an accepted rotation, a
  sign-out or a report from another tab has changed the session, nothing a refresh that was
  running before still receives (lock, response or timer) changes the store or is published to
  other tabs; all it can do is report that it was superseded.\<close>

theorem superseded_refresh_inert:
  assumes "w = fst (run_events auth_step initial_world history)" and "overtakes w e" and "list_all refresh_event es"
  shows "w_auth (fst (run_events auth_step w (e # es))) = w_auth (fst (auth_step w e)) \<and>
         set (snd (run_events auth_step (fst (auth_step w e)) es)) \<subseteq> {OutSettled superseded, OutRejected}"
proof -
  have "stale (fst (auth_step w e))"
    using auth.inv_run [of history] assms(2) unfolding assms(1) by (rule overtakes_stale)
  from stale_run [OF this assms(3)] show ?thesis by (simp add: case_prod_beta)
qed

theorem superseded_refresh_inert_witness:
  "let history = [EvLogin (Some sample_bundle) True, EvRefresh NoLocks];
       es = [EvClear True Complete, EvResponse (HttpOk 200 (Some (JObj [(js ''success'', JBool True),
              (js ''data'', sample_bundle)])))];
       w = fst (run_events auth_step initial_world history) in
     auth_session (w_auth w) = Some sample_session \<and>
     auth_session (w_auth (fst (run_events auth_step w es))) = None"
proof -
  let ?h = "[EvLogin (Some sample_bundle) True, EvRefresh NoLocks]"
  let ?w = "fst (run_events auth_step initial_world ?h)"
  let ?es = "[EvResponse (HttpOk 200 (Some (JObj [(js ''success'', JBool True), (js ''data'', sample_bundle)])))]"
  have 1: "overtakes ?w (EvClear True Complete)" by code_simp
  have 2: "list_all refresh_event ?es" by code_simp
  have 3: "auth_session (w_auth ?w) = Some sample_session" by code_simp
  have 4: "auth_session (w_auth (fst (auth_step ?w (EvClear True Complete)))) = None" by code_simp
  show ?thesis using superseded_refresh_inert [OF refl 1 2] 3 4 by (simp only: Let_def)
qed

text \<open>However many requests fail at once, the message that the session has
  expired is shown at most once until an event can establish a session again.\<close>

theorem expiry_notified_once:
  "length (filter is_toast (snd (run_events auth_step initial_world es))) \<le>
     1 + length (filter (\<lambda>e. establish_cost e > 0) es)"
proof -
  have "sum_list (map establish_cost es) = length (filter (\<lambda>e. establish_cost e > 0) es)"
    by (induction es) (auto simp: establish_cost_def split: auth_event.splits)
  then show ?thesis
    using toast_meter.counted_run [of es] by (simp add: toast_left_def initial_world_def)
qed

text \<open>C15 [rotation_keeps_session]: an accepted rotation replaces the token and keeps who is signed in and
  the session id, is not published to other tabs, and supersedes a running refresh.\<close>

theorem rotation_keeps_session:
  assumes "applyAuthRotation v w = Inr r"
  shows "auth_user (w_auth (fst r)) = auth_user (w_auth w) \<and>
         sid_of (auth_session (w_auth (fst r))) = sid_of (auth_session (w_auth w)) \<and>
         accessToken (w_auth (fst r)) = Some (str_of (jget v (js ''access_token''))) \<and>
         snd r = [] \<and> w_epoch (fst r) > w_epoch w"
proof -
  from assms have v: "isAuthTokenRotation v" "truthy (auth_user (w_auth w))"
    "sid_of (jget v (js ''session'')) = sid_of (auth_session (w_auth w))"
    "r = applyAuthBundle (bundle_of (the v) (the (auth_user (w_auth w)))) False w"
    by (auto simp: applyAuthRotation_def Let_def split: if_splits)
  then obtain x u s where "v = Some x" "auth_user (w_auth w) = Some u" "jget v (js ''session'') = Some s"
    by (cases "auth_user (w_auth w)")
      (auto simp: isAuthTokenRotation_def isLoginSession_def split: if_splits dest!: isRecord_Some)
  with v show ?thesis
    by (simp add: setBundle_def bundle_of_def) (simp add: applyAuthBundle_def Let_def)
qed

theorem rotation_keeps_session_witness:
  "let w = fst (auth_step initial_world (EvLogin (Some sample_bundle) True));
       w' = fst (auth_step w (EvRotation (Some (JObj (sample_tokens ''t2''))))) in
     accessToken (w_auth w') = Some (js ''t2'') \<and> auth_user (w_auth w') = auth_user (w_auth w)"
proof -
  define w where "w = fst (auth_step initial_world (EvLogin (Some sample_bundle) True))"
  define v where "v = JObj (sample_tokens ''t2'')"
  have "\<not> isl (applyAuthRotation (Some v) w)" unfolding w_def v_def by code_simp
  then obtain r where r: "applyAuthRotation (Some v) w = Inr r"
    by (cases "applyAuthRotation (Some v) w") simp_all
  have "str_of (jget (Some v) (js ''access_token'')) = js ''t2''" unfolding v_def by code_simp
  with rotation_keeps_session [OF r] r show ?thesis
    unfolding w_def [symmetric] v_def [symmetric] Let_def by simp
qed

text \<open>C16 [tab_sync_effect]: a report from another tab is never published again. A sign-out elsewhere clears
  this tab exactly when it names this tab's session; a login elsewhere with another session
  clears it and reloads.\<close>

theorem tab_sync_effect:
  assumes "sid_of (auth_session (w_auth w)) = Some c" and "c \<noteq> []"
  shows "(\<forall>k s. OutPublish k s \<notin> set (snd (on_sync_event kind sid w))) \<and>
         (auth_session (w_auth (fst (on_sync_event kind sid w))) = None \<longleftrightarrow>
            (kind = SyncSignedOut \<and> sid = c) \<or> (kind = SyncAuthenticated \<and> sid \<noteq> c)) \<and>
         (OutReload \<in> set (snd (on_sync_event kind sid w)) \<longleftrightarrow> kind = SyncAuthenticated \<and> sid \<noteq> c)"
proof -
  have "auth_session (w_auth w) \<noteq> None"
    using assms(1) by (cases "auth_session (w_auth w)") (auto simp: sid_of_def jget_def)
  moreover have "snd (clearAuthentication False b w) = []" for b
    by (simp add: clearAuthentication_def Let_def)
  ultimately show ?thesis
    using assms by (cases kind) (auto simp: on_sync_event_def Let_def clearAuthenticatedClientState_def
        case_prod_beta reset_auth_def)
qed

theorem tab_sync_effect_witness:
  "let w = fst (auth_step initial_world (EvLogin (Some sample_bundle) True)) in
     auth_session (w_auth (fst (on_sync_event SyncSignedOut (js ''s1'') w))) = None"
proof -
  have 1: "sid_of (auth_session (w_auth (fst (auth_step initial_world (EvLogin (Some sample_bundle) True))))) =
      Some (js ''s1'')" by code_simp
  have 2: "js ''s1'' \<noteq> []" by code_simp
  show ?thesis using tab_sync_effect [OF 1 2, of SyncSignedOut "js ''s1''"] by (simp only: Let_def) blast
qed

end
