(* ===== verification/AuthSync.thy ===== *)
theory AuthSync
  imports AuthSession
begin

text \<open>
  Cross-tab events (\<open>web/src/lib/auth-session-sync.ts\<close>). An event is posted on a broadcast
  channel, or, where there is none, written to local storage as JSON, which the browser
  reports to the other tabs. The random source and nonce, the clock and what local storage
  answers are arguments.
\<close>

record sync_event =
  se_kind :: sync_kind
  se_sid :: jstring
  se_source :: jstring
  se_nonce :: jstring
  se_timestamp :: rat

definition kind_str :: "sync_kind \<Rightarrow> jstring" where
  "kind_str k = (case k of SyncAuthenticated \<Rightarrow> js ''authenticated'' | SyncSignedOut \<Rightarrow> js ''signed_out'')"

definition event_json :: "sync_event \<Rightarrow> json" where
  "event_json e =
     JObj [(js ''kind'', JStr (kind_str (se_kind e))), (js ''sid'', JStr (se_sid e)),
           (js ''source'', JStr (se_source e)), (js ''nonce'', JStr (se_nonce e)),
           (js ''timestamp'', JNum (se_timestamp e))]"

definition AUTH_SYNC_STORAGE_KEY :: jstring where
  "AUTH_SYNC_STORAGE_KEY = js ''new-api:auth-session:event''"

definition isAuthSessionSyncEvent :: "json option \<Rightarrow> bool" where
  "isAuthSessionSyncEvent value =
     (if \<not> truthy value \<or> \<not> is_object value then False
      else (jget value (js ''kind'') = Some (JStr (js ''authenticated'')) \<or>
            jget value (js ''kind'') = Some (JStr (js ''signed_out''))) \<and>
           nonempty_string (jget value (js ''sid'')) \<and>
           is_string (jget value (js ''source'')) \<and>
           is_string (jget value (js ''nonce'')) \<and>
           is_number (jget value (js ''timestamp'')))"

text \<open>The typed view of a validated event.\<close>

definition event_of :: "json \<Rightarrow> sync_event" where
  "event_of v =
     \<lparr>se_kind = (if jget (Some v) (js ''kind'') = Some (JStr (js ''authenticated''))
                 then SyncAuthenticated else SyncSignedOut),
      se_sid = str_of (jget (Some v) (js ''sid'')),
      se_source = str_of (jget (Some v) (js ''source'')),
      se_nonce = str_of (jget (Some v) (js ''nonce'')),
      se_timestamp = num_of (jget (Some v) (js ''timestamp''))\<rparr>"

datatype sync_transport =
    PostMessage json
  | StorageSet jstring jstring
  | StorageRemove jstring

text \<open>Without a channel the two calls on local storage stand in a \<open>try\<close>: \<open>setItem\<close> may throw
  (no storage, quota) and then nothing is published, \<open>removeItem\<close> may throw and then only the
  removal is missing. \<open>canSet\<close> and \<open>canRemove\<close> say whether each call returns.\<close>

definition publishAuthSessionEvent ::
    "bool \<Rightarrow> bool \<Rightarrow> bool \<Rightarrow> jstring \<Rightarrow> jstring \<Rightarrow> int \<Rightarrow> sync_kind \<Rightarrow> jstring \<Rightarrow> sync_transport list" where
  "publishAuthSessionEvent hasChannel canSet canRemove source nonce now kind sid =
     (if sid = [] then []
      else let event = \<lparr>se_kind = kind, se_sid = sid, se_source = source, se_nonce = nonce,
                        se_timestamp = of_int now\<rparr>
           in if hasChannel then [PostMessage (event_json event)]
              else if \<not> canSet then []
              else StorageSet AUTH_SYNC_STORAGE_KEY (stringify (\<lambda>_. []) (event_json event)) #
                   (if canRemove then [StorageRemove AUTH_SYNC_STORAGE_KEY] else []))"

definition deliver :: "jstring \<Rightarrow> int \<Rightarrow> json option \<Rightarrow> sync_event option" where
  "deliver authSyncSource now value =
     (if isAuthSessionSyncEvent value \<and>
         str_of (jget value (js ''source'')) \<noteq> authSyncSource \<and>
         \<bar>of_int now - num_of (jget value (js ''timestamp''))\<bar> < 60000
      then Some (event_of (the value)) else None)"

text \<open>A storage event carries the key and the new value, \<open>None\<close> after a removal.\<close>

definition handleStorage :: "jstring \<Rightarrow> int \<Rightarrow> jstring \<Rightarrow> jstring option \<Rightarrow> sync_event option" where
  "handleStorage authSyncSource now key newValue =
     (if key \<noteq> AUTH_SYNC_STORAGE_KEY then None
      else case newValue of
             None \<Rightarrow> None
           | Some s \<Rightarrow>
               if s = [] then None
               else case json_parse s of
                      None \<Rightarrow> None
                    | Some v \<Rightarrow> deliver authSyncSource now (Some v))"

text \<open>What a subscribed tab makes of one published message, as the browser transports it.\<close>

definition received :: "jstring \<Rightarrow> int \<Rightarrow> sync_transport \<Rightarrow> sync_event option" where
  "received authSyncSource now m =
     (case m of
        PostMessage v \<Rightarrow> deliver authSyncSource now (Some v)
      | StorageSet k s \<Rightarrow> handleStorage authSyncSource now k (Some s)
      | StorageRemove k \<Rightarrow> handleStorage authSyncSource now k None)"


section \<open>Lemmas\<close>

lemma sync_event_valid: "se_sid e \<noteq> [] \<Longrightarrow> isAuthSessionSyncEvent (Some (event_json e))"
  by (cases "se_kind e")
    (simp_all add: isAuthSessionSyncEvent_def event_json_def jget_def kind_str_def nonempty_string_def)

lemma event_of_json: "event_of (event_json e) = e"
  by (cases e; cases "se_kind e")
    (simp_all add: event_of_def event_json_def jget_def kind_str_def str_of_def num_of_def)

lemma deliver_json:
  "se_sid e \<noteq> [] \<Longrightarrow>
     deliver src now (Some (event_json e)) =
       (if se_source e \<noteq> src \<and> \<bar>of_int now - se_timestamp e\<bar> < 60000 then Some e else None)"
  by (simp add: deliver_def sync_event_valid event_of_json)
    (simp add: event_json_def jget_def str_of_def num_of_def)

lemma event_json_ok:
  "units_ok (se_sid e) \<Longrightarrow> units_ok (se_source e) \<Longrightarrow> units_ok (se_nonce e) \<Longrightarrow>
     se_timestamp e = of_int t \<Longrightarrow> json_ok (event_json e)"
  by (simp add: event_json_def obj_wf_def obj_keys_def key_before_def arr_index_def all_digits_def
      is_digit_def js_lit kind_str_def split: sync_kind.split)


section \<open>Properties\<close>

text \<open>C17 [sync_event_delivered]: an event one tab publishes for a session reaches another tab exactly as
  it was published, and once, when there is a broadcast channel or local storage takes the
  write, the other tab is not the publishing one and less than a minute has passed on the
  clock; otherwise the tab receives nothing. Whether the removal from storage succeeds does
  not matter.\<close>

theorem sync_event_delivered:
  assumes "sid \<noteq> []" and "units_ok sid" and "units_ok source" and "units_ok nonce"
  shows "List.map_filter (received other now')
       (publishAuthSessionEvent hasChannel canSet canRemove source nonce now kind sid) =
     (if (hasChannel \<or> canSet) \<and> source \<noteq> other \<and> \<bar>now' - now\<bar> < 60000
      then [\<lparr>se_kind = kind, se_sid = sid, se_source = source, se_nonce = nonce,
             se_timestamp = of_int now\<rparr>] else [])"
proof -
  define e where "e = \<lparr>se_kind = kind, se_sid = sid, se_source = source, se_nonce = nonce,
      se_timestamp = of_int now\<rparr>"
  have pub: "publishAuthSessionEvent hasChannel canSet canRemove source nonce now kind sid =
      (if hasChannel then [PostMessage (event_json e)]
       else if \<not> canSet then []
       else StorageSet AUTH_SYNC_STORAGE_KEY (stringify (\<lambda>_. []) (event_json e)) #
            (if canRemove then [StorageRemove AUTH_SYNC_STORAGE_KEY] else []))"
    using assms(1) by (simp add: publishAuthSessionEvent_def e_def)
  have "\<bar>of_int now' - of_int now\<bar> < (60000 :: rat) \<longleftrightarrow> \<bar>now' - now\<bar> < 60000"
    by (metis of_int_abs of_int_diff of_int_less_iff of_int_numeral)
  then have d: "deliver other now' (Some (event_json e)) =
      (if source \<noteq> other \<and> \<bar>now' - now\<bar> < 60000 then Some e else None)"
    using assms(1) by (simp add: deliver_json e_def)
  have "json_ok (event_json e)" using assms by (intro event_json_ok) (simp_all add: e_def)
  then have "received other now' (StorageSet AUTH_SYNC_STORAGE_KEY (stringify (\<lambda>_. []) (event_json e))) =
      deliver other now' (Some (event_json e))"
    by (simp add: received_def handleStorage_def json_round_trip) (simp add: event_json_def)
  moreover have "received other now' (StorageRemove k) = None" for k
    by (simp add: received_def handleStorage_def)
  moreover have "received other now' (PostMessage v) = deliver other now' (Some v)" for v
    by (simp add: received_def)
  ultimately show ?thesis
    unfolding pub e_def [symmetric] by (simp add: d List.map_filter_def)
qed

theorem sync_event_delivered_witness:
  "List.map_filter (received (js ''b'') 2000)
     (publishAuthSessionEvent False True False (js ''a'') (js ''n'') 1000 SyncSignedOut (js ''s1'')) =
   [\<lparr>se_kind = SyncSignedOut, se_sid = js ''s1'', se_source = js ''a'', se_nonce = js ''n'',
     se_timestamp = 1000\<rparr>]"
proof -
  have "js ''s1'' \<noteq> []" "units_ok (js ''s1'')" "units_ok (js ''a'')" "units_ok (js ''n'')" by code_simp+
  from sync_event_delivered [OF this, of "js ''b''" 2000 False True False 1000 SyncSignedOut] show ?thesis by simp
qed

end
