(* ===== verification/HttpClient.thy ===== *)
theory HttpClient
  imports AuthSession
begin

text \<open>
  The HTTP client (\<open>web/src/lib/http-client.ts\<close>, \<open>web/src/lib/server-error-message.ts\<close>): GET
  requests that are already in flight are shared, a 401 refreshes the session and repeats the
  request once, and errors become messages. The transport below it and the translations are
  outside the model: the requests it sends and the messages it shows are outputs. The
  parameter \<open>ni\<close> prints non-integer numbers.
\<close>

record request_config =
  rc_url :: jstring
  rc_params :: "json option"
  rc_headers :: "jstring jobj"
  rc_skipBusinessError :: bool
  rc_skipErrorHandler :: bool
  rc_disableDuplicate :: bool
  rc_skipAuthRefresh :: bool
  rc_authRetry :: bool
  rc_acceptAuthRotation :: bool


section \<open>Messages\<close>

definition serverErrorMessageKeys :: "jstring jobj" where
  "serverErrorMessageKeys =
     [(js ''AUTH_SESSION_LIMIT'',
       js ''Too many active login sessions. On a device where you are already signed in, open Login sessions and use '' @
       [8220] @ js ''Sign out other sessions'' @ [8221] @
       js '' to revoke them. If you cannot access a signed-in device, reset your password to sign out all sessions.''),
      (js ''AUTH_SESSION_ISSUANCE_LIMIT'',
       js ''Too many login sessions were created recently. Please wait for the rolling window to pass, then try again.''),
      (js ''TELEGRAM_BIND_DISABLED'', js ''Telegram binding is disabled.''),
      (js ''TELEGRAM_BIND_INVALID_REQUEST'',
       js ''The Telegram authorization request is invalid or expired.''),
      (js ''TELEGRAM_BIND_FLOW_INVALID'',
       js ''This Telegram binding request has expired or has already been used.''),
      (js ''TELEGRAM_BIND_SESSION_INVALID'',
       js ''The login session that started this Telegram binding is no longer valid.''),
      (js ''TELEGRAM_BIND_ALREADY_BOUND'', js ''This Telegram account is already bound.''),
      (js ''TELEGRAM_BIND_USER_DELETED'', js ''This user account no longer exists.''),
      (js ''TELEGRAM_BIND_USER_DISABLED'', js ''This user account is disabled.''),
      (js ''TELEGRAM_BIND_INTERNAL_ERROR'', js ''Telegram binding failed. Please try again.'')]"

definition serverErrorPayload :: "json option \<Rightarrow> json option" where
  "serverErrorPayload value =
     (if \<not> isRecord value then None
      else let response = jget value (js ''response'')
           in if isRecord response \<and> isRecord (jget response (js ''data''))
              then jget response (js ''data'') else value)"

definition getServerErrorMessageKey :: "json option \<Rightarrow> jstring option" where
  "getServerErrorMessageKey value =
     (let payload = serverErrorPayload value
      in if \<not> truthy payload then None
         else case jget payload (js ''code'') of
                Some (JStr code) \<Rightarrow> obj_get serverErrorMessageKeys code
              | _ \<Rightarrow> None)"

text \<open>A message is a key to translate or a text the server sent, shown as it is.\<close>

datatype toast_message = Translated jstring | Verbatim json

definition first_truthy :: "json option list \<Rightarrow> toast_message" where
  "first_truthy vs =
     (case find truthy vs of Some (Some v) \<Rightarrow> Verbatim v | _ \<Rightarrow> Translated (js ''Request failed''))"


section \<open>Sharing of GET requests\<close>

text \<open>\<open>inFlightGet\<close>, and the requests whose \<open>finally\<close> callback is still to come, each with the
  key it will delete.\<close>

record get_state =
  inFlightGet :: "nat jobj"
  outstanding :: "(nat \<times> jstring) list"
  next_id :: nat

definition get_initial :: get_state where
  "get_initial = \<lparr>inFlightGet = [], outstanding = [], next_id = 0\<rparr>"

definition get_key :: "(rat \<Rightarrow> jstring) \<Rightarrow> jstring option \<Rightarrow> jstring \<Rightarrow> request_config \<Rightarrow> jstring" where
  "get_key ni sid url config =
     (let params = (if truthy (rc_params config) then stringify ni (the (rc_params config)) else js ''{}'');
          sessionSID = (case sid of None \<Rightarrow> js ''anonymous''
                        | Some s \<Rightarrow> if s = [] then js ''anonymous'' else s)
      in sessionSID @ [58] @ url @ [63] @ params)"

datatype get_out = Sent nat | Shared nat

definition api_get ::
    "(rat \<Rightarrow> jstring) \<Rightarrow> jstring option \<Rightarrow> jstring \<Rightarrow> request_config \<Rightarrow> get_state \<Rightarrow> get_state \<times> get_out list" where
  "api_get ni sid url config st =
     (if rc_disableDuplicate config
      then (st\<lparr>next_id := next_id st + 1\<rparr>, [Sent (next_id st)])
      else let key = get_key ni sid url config
           in case obj_get (inFlightGet st) key of
                Some r \<Rightarrow> (st, [Shared r])
              | None \<Rightarrow>
                  (\<lparr>inFlightGet = obj_put key (next_id st) (inFlightGet st),
                    outstanding = (next_id st, key) # outstanding st,
                    next_id = next_id st + 1\<rparr>, [Sent (next_id st)]))"

text \<open>The \<open>finally\<close> callback of the request \<open>r\<close>.\<close>

definition get_finally :: "nat \<Rightarrow> get_state \<Rightarrow> get_state" where
  "get_finally r st =
     (case map_of (outstanding st) r of
        None \<Rightarrow> st
      | Some key \<Rightarrow>
          st\<lparr>inFlightGet := obj_del key (inFlightGet st),
             outstanding := filter (\<lambda>(r', _). r' \<noteq> r) (outstanding st)\<rparr>)"

datatype get_event = GetCall "jstring option" jstring request_config | GetDone nat

fun get_step :: "(rat \<Rightarrow> jstring) \<Rightarrow> get_state \<Rightarrow> get_event \<Rightarrow> get_state \<times> get_out list" where
  "get_step ni st (GetCall sid url config) = api_get ni sid url config st"
| "get_step ni st (GetDone r) = (get_finally r st, [])"


section \<open>The interceptors\<close>

datatype http_out =
    HttpAuth auth_out
  | Toast toast_message
  | RedirectToSignIn

definition redirectToSignIn :: "jstring \<Rightarrow> http_out list" where
  "redirectToSignIn pathname = (if pathname \<noteq> js ''/sign-in'' then [RedirectToSignIn] else [])"

definition request_interceptor :: "auth_world \<Rightarrow> request_config \<Rightarrow> request_config" where
  "request_interceptor w config =
     (case accessToken (w_auth w) of
        None \<Rightarrow> config
      | Some tok \<Rightarrow>
          if tok = [] then config
          else config\<lparr>rc_headers := obj_put (js ''Authorization'') (js ''Bearer '' @ tok) (rc_headers config)\<rparr>)"

text \<open>A response with a 2xx status; a rotation that is refused throws.\<close>

definition on_response ::
    "request_config \<Rightarrow> json option \<Rightarrow> auth_world \<Rightarrow> rotation_error + (auth_world \<times> http_out list)" where
  "on_response config d w =
     (let rotated =
            (if rc_acceptAuthRotation config \<and> jget d (js ''success'') = Some (JBool True)
             then applyAuthRotation (jget d (js ''data'')) w else Inr (w, []))
      in case rotated of
           Inl e \<Rightarrow> Inl e
         | Inr (w1, o1) \<Rightarrow>
             Inr (w1, map HttpAuth o1 @
               (if \<not> rc_skipBusinessError config \<and> jget d (js ''success'') = Some (JBool False)
                then [Toast (case getServerErrorMessageKey d of
                               Some k \<Rightarrow> Translated k
                             | None \<Rightarrow> first_truthy [jget d (js ''message'')])]
                else [])))"

definition notify_expired :: "bool \<Rightarrow> auth_world \<Rightarrow> auth_world \<times> http_out list" where
  "notify_expired skipErrorHandler w =
     (if skipErrorHandler then (w, [])
      else let (w1, first) = shouldNotifySessionExpired w
           in (w1, if first then [Toast (Translated (js ''Session expired!''))] else []))"

text \<open>How an error goes on: the refresh is awaited with the marked configuration, or the error
  is thrown.\<close>

datatype error_next = AwaitRefresh request_config | ThrowError

definition on_error ::
    "lock_support \<Rightarrow> jstring \<Rightarrow> json option \<Rightarrow> request_config option \<Rightarrow> auth_world \<Rightarrow>
     auth_world \<times> http_out list \<times> error_next" where
  "on_error locks pathname error config w =
     (let skipErrorHandler = (case config of None \<Rightarrow> False | Some c \<Rightarrow> rc_skipErrorHandler c);
          status = jget (jget error (js ''response'')) (js ''status'')
      in if status = Some (JNum 401) then
           (if (case config of None \<Rightarrow> False | Some c \<Rightarrow> \<not> rc_skipAuthRefresh c \<and> \<not> rc_authRetry c) then
              let (w1, o1) = refreshAuthentication locks w
              in (w1, map HttpAuth o1, AwaitRefresh ((the config)\<lparr>rc_authRetry := True\<rparr>))
            else if (case config of None \<Rightarrow> False | Some c \<Rightarrow> rc_authRetry c) then
              let (w1, o1) = clearAuthentication False Complete w;
                  (w2, o2) = notify_expired skipErrorHandler w1
              in (w2, map HttpAuth o1 @ o2 @ redirectToSignIn pathname, ThrowError)
            else let (w1, o1) = notify_expired skipErrorHandler w in (w1, o1, ThrowError))
         else if \<not> skipErrorHandler then
           (w, [Toast (case getServerErrorMessageKey error of
                         Some k \<Rightarrow> Translated k
                       | None \<Rightarrow> first_truthy
                           [jget (jget (jget error (js ''response'')) (js ''data'')) (js ''message''),
                            jget error (js ''message'')])], ThrowError)
         else (w, [], ThrowError))"

datatype after_next = RetryRequest request_config | RethrowError

definition after_refresh ::
    "jstring \<Rightarrow> request_config \<Rightarrow> refresh_outcome \<Rightarrow> auth_world \<Rightarrow>
     auth_world \<times> http_out list \<times> after_next" where
  "after_refresh pathname config outcome w =
     (case outcome of
        Authenticated _ \<Rightarrow>
          (w, [], RetryRequest
             (case accessToken (w_auth w) of
                None \<Rightarrow> config
              | Some tok \<Rightarrow>
                  if tok = [] then config
                  else config\<lparr>rc_headers :=
                         obj_put (js ''Authorization'') (js ''Bearer '' @ tok) (rc_headers config)\<rparr>))
      | TransientError _ \<Rightarrow> (w, [], RethrowError)
      | _ \<Rightarrow>
          let (w1, o1) = notify_expired (rc_skipErrorHandler config) w
          in (w1, o1 @ redirectToSignIn pathname, RethrowError))"


section \<open>One request in flight for a key\<close>

definition get_inv :: "get_state \<Rightarrow> bool" where
  "get_inv st \<longleftrightarrow>
     distinct (map fst (outstanding st)) \<and>
     list_all (\<lambda>(r, k). r < next_id st) (outstanding st) \<and>
     (\<forall>k r. obj_get (inFlightGet st) k = Some r \<longleftrightarrow> (r, k) \<in> set (outstanding st))"

lemma get_inv_call: "get_inv st \<Longrightarrow> get_inv (fst (api_get ni sid url config st))"
proof -
  assume inv: "get_inv st"
  let ?key = "get_key ni sid url config"
  have new: "next_id st \<notin> fst ` set (outstanding st)"
    using inv by (auto simp: get_inv_def list_all_iff)
  show ?thesis
  proof (cases "rc_disableDuplicate config \<or> obj_get (inFlightGet st) ?key \<noteq> None")
    case True
    then have "fst (api_get ni sid url config st) \<in> {st, st\<lparr>next_id := next_id st + 1\<rparr>}"
      by (auto simp: api_get_def Let_def)
    moreover have "get_inv (st\<lparr>next_id := next_id st + 1\<rparr>)"
      using inv by (fastforce simp: get_inv_def list_all_iff)
    ultimately show ?thesis using inv by auto
  next
    case False
    then have eq: "fst (api_get ni sid url config st) =
        \<lparr>inFlightGet = obj_put ?key (next_id st) (inFlightGet st),
         outstanding = (next_id st, ?key) # outstanding st, next_id = next_id st + 1\<rparr>"
      by (auto simp: api_get_def Let_def)
    have "(if k = ?key then Some (next_id st) else obj_get (inFlightGet st) k) = Some r \<longleftrightarrow>
        (r, k) = (next_id st, ?key) \<or> (r, k) \<in> set (outstanding st)" for k r
    proof (cases "k = ?key")
      case True
      have "(r, ?key) \<notin> set (outstanding st)"
        using False inv unfolding get_inv_def by (metis option.distinct(1))
      with True show ?thesis by auto
    qed (use inv in \<open>simp add: get_inv_def\<close>)
    moreover have "list_all (\<lambda>(r, k). r < next_id st + 1) (outstanding st)"
      using inv by (fastforce simp: get_inv_def list_all_iff)
    ultimately show ?thesis
      unfolding eq get_inv_def using inv new by (simp add: obj_get_put get_inv_def)
  qed
qed

lemma get_inv_done: "get_inv st \<Longrightarrow> get_inv (get_finally r st)"
proof (cases "map_of (outstanding st) r")
  case (Some key)
  assume inv: "get_inv st"
  then have d: "distinct (map fst (outstanding st))"
    and lt: "list_all (\<lambda>(r, k). r < next_id st) (outstanding st)"
    and g: "obj_get (inFlightGet st) k = Some r' \<longleftrightarrow> (r', k) \<in> set (outstanding st)" for k r'
    by (simp_all add: get_inv_def)
  from Some have m: "(r, key) \<in> set (outstanding st)" by (rule map_of_SomeD)
  have k: "k = key" if "(r, k) \<in> set (outstanding st)" for k
    using eq_key_imp_eq_value [OF d that m] .
  have u: "r' = r" if "(r', key) \<in> set (outstanding st)" for r'
    using g [of key r'] g [of key r] that m by simp
  have "((obj_get (inFlightGet st))(key := None)) k = Some r' \<longleftrightarrow> (r', k) \<in> set (outstanding st) \<and> r' \<noteq> r"
    for k r'
  proof (cases "k = key")
    case True
    then show ?thesis using u by auto
  next
    case False
    then have "(r, k) \<notin> set (outstanding st)" using k by blast
    with False show ?thesis by (auto simp: g)
  qed
  moreover have "distinct (map fst (filter (\<lambda>(r', _). r' \<noteq> r) (outstanding st)))"
    using d by (simp add: distinct_map_filter)
  ultimately show ?thesis
    using Some lt by (simp add: get_inv_def get_finally_def obj_get_del list_all_iff)
qed (simp add: get_finally_def)

interpretation getting: machine get_initial "get_step ni" get_inv for ni
proof
  show "get_inv get_initial" by (simp add: get_inv_def get_initial_def)
next
  fix s e
  assume "get_inv s"
  then show "get_inv (fst (get_step ni s e))" by (cases e) (simp_all add: get_inv_call get_inv_done)
qed


section \<open>Properties\<close>

text \<open>C8 [one_get_in_flight]: two deduplicated GET requests that are both still in flight never have the
  same session, URL and parameters, and the table of shared requests holds exactly the
  requests in flight, so none is shared after it has finished.\<close>

theorem one_get_in_flight:
  "let st = fst (run_events (get_step ni) get_initial es) in
     distinct (map snd (outstanding st)) \<and>
     (\<forall>k r. obj_get (inFlightGet st) k = Some r \<longleftrightarrow> (r, k) \<in> set (outstanding st))"
proof -
  define st where "st = fst (run_events (get_step ni) get_initial es)"
  have inv: "get_inv st" unfolding st_def by (rule getting.inv_run)
  then have "distinct (map fst (outstanding st))"
    and g: "obj_get (inFlightGet st) k = Some r \<longleftrightarrow> (r, k) \<in> set (outstanding st)" for k r
    by (simp_all add: get_inv_def)
  moreover have "inj_on snd (set (outstanding st))"
  proof (rule inj_onI)
    fix x y
    assume a: "x \<in> set (outstanding st)" "y \<in> set (outstanding st)" "snd x = snd y"
    then have "(fst x, snd x) \<in> set (outstanding st)" "(fst y, snd x) \<in> set (outstanding st)"
      by (metis prod.collapse)+
    then have "fst x = fst y" unfolding g [symmetric] by simp
    with a(3) show "x = y" by (rule prod_eqI [rotated])
  qed
  ultimately show ?thesis unfolding st_def [symmetric] by (simp add: distinct_map g)
qed

text \<open>C10 [retry_at_most_once]: a request that failed with 401 is repeated at most once: the repeated
  request carries the mark that makes the handler clear the session and give up on a second
  401, and the current access token.\<close>

theorem retry_at_most_once:
  assumes "on_error locks path err (Some c) w = (w1, o1, AwaitRefresh c1)"
    and "after_refresh path' c1 outcome w2 = (w3, o2, RetryRequest c2)"
    and "on_error locks' path'' err' (Some c2) w4 = (w5, o3, next)"
    and "accessToken (w_auth w2) = Some tok" and "tok \<noteq> []"
  shows "next = ThrowError \<and> \<not> rc_authRetry c \<and>
         obj_get (rc_headers c2) (js ''Authorization'') = Some (js ''Bearer '' @ tok)"
proof -
  from assms(1) have c1: "c1 = c\<lparr>rc_authRetry := True\<rparr>" "\<not> rc_authRetry c"
    by (auto simp: on_error_def Let_def case_prod_beta split: if_splits)
  from assms(2,4,5) have c2: "c2 = c1\<lparr>rc_headers :=
      obj_put (js ''Authorization'') (js ''Bearer '' @ tok) (rc_headers c1)\<rparr>"
    by (auto simp: after_refresh_def Let_def case_prod_beta split: refresh_outcome.splits)
  then have "rc_authRetry c2" using c1 by simp
  with assms(3) have "next = ThrowError"
    by (auto simp: on_error_def Let_def case_prod_beta split: if_splits)
  with c1 c2 show ?thesis by (simp add: obj_get_put)
qed

definition sample_config :: request_config where
  "sample_config = \<lparr>rc_url = js ''/api/user/self'', rc_params = None, rc_headers = [],
     rc_skipBusinessError = False, rc_skipErrorHandler = False, rc_disableDuplicate = False,
     rc_skipAuthRefresh = False, rc_authRetry = False, rc_acceptAuthRotation = False\<rparr>"

definition sample_401 :: "json option" where
  "sample_401 = Some (JObj [(js ''response'', JObj [(js ''status'', JNum 401)])])"

theorem retry_at_most_once_witness:
  "let w = fst (auth_step initial_world (EvLogin (Some sample_bundle) True));
       (w1, o1, n1) = on_error NoLocks [] sample_401 (Some sample_config) w;
       (w3, o2, n2) = after_refresh [] (sample_config\<lparr>rc_authRetry := True\<rparr>)
          (Authenticated (the (parse_bundle (Some sample_bundle)))) w
   in n1 = AwaitRefresh (sample_config\<lparr>rc_authRetry := True\<rparr>) \<and>
      (case n2 of RetryRequest c2 \<Rightarrow> snd (snd (on_error NoLocks [] sample_401 (Some c2) w)) = ThrowError
       | RethrowError \<Rightarrow> False)"
proof -
  define w where "w = fst (auth_step initial_world (EvLogin (Some sample_bundle) True))"
  define c1 where "c1 = sample_config\<lparr>rc_authRetry := True\<rparr>"
  define b where "b = the (parse_bundle (Some sample_bundle))"
  define c2 where "c2 = c1\<lparr>rc_headers := [(js ''Authorization'', js ''Bearer t1'')]\<rparr>"
  have t: "accessToken (w_auth w) = Some (js ''t1'')" "js ''t1'' \<noteq> []" unfolding w_def by code_simp+
  have "snd (snd (on_error NoLocks [] sample_401 (Some sample_config) w)) = AwaitRefresh c1"
    unfolding w_def c1_def by code_simp
  then obtain w1 o1 where 1: "on_error NoLocks [] sample_401 (Some sample_config) w = (w1, o1, AwaitRefresh c1)"
    by (metis prod.collapse)
  have 2: "after_refresh [] c1 (Authenticated b) w = (w, [], RetryRequest c2)"
    using t by (simp add: after_refresh_def c2_def c1_def sample_config_def obj_put_def obj_keys_def js_lit)
  obtain w5 o3 n where 3: "on_error NoLocks [] sample_401 (Some c2) w = (w5, o3, n)" by (metis prod.collapse)
  from retry_at_most_once [OF 1 2 3 t] 1 2 3 show ?thesis
    unfolding w_def [symmetric] c1_def [symmetric] b_def [symmetric] by (simp add: Let_def)
qed

end
