(* ===== verification/RatioSync.thy ===== *)
theory RatioSync
  imports JsNumber
begin

text \<open>
  Resolving differences between local and upstream prices
  (\<open>web/src/features/system-settings/models/upstream-ratio-sync-helpers.ts\<close>). A resolution maps
  a model to the values chosen for its fields; a fixed price and ratios exclude each other,
  and an expression comes with its billing mode. Values are numbers or strings, with \<open>None\<close>
  for \<open>undefined\<close>.
\<close>

type_synonym ratio_type = jstring
type_synonym model_resolution = "json jobj"
type_synonym resolutions = "model_resolution jobj"

record ratio_difference =
  rd_current :: "json"
  rd_upstreams :: "json jobj"
  rd_confidence :: "bool jobj"

type_synonym model_differences = "ratio_difference jobj"

record resolution_selection =
  rs_model :: jstring
  rs_ratioType :: ratio_type
  rs_value :: json
  rs_sourceName :: jstring

record resolution_removal =
  rr_model :: jstring
  rr_ratioType :: ratio_type

definition RATIO_SYNC_FIELDS :: "ratio_type list" where
  "RATIO_SYNC_FIELDS = map js [''model_ratio'', ''completion_ratio'', ''cache_ratio'',
     ''create_cache_ratio'', ''image_ratio'', ''audio_ratio'', ''audio_completion_ratio'']"

definition SYNC_FIELD_ORDER :: "ratio_type list" where
  "SYNC_FIELD_ORDER = RATIO_SYNC_FIELDS @ map js [''model_price'', ''billing_mode'', ''billing_expr'']"

definition NUMERIC_SYNC_FIELDS :: "ratio_type list" where
  "NUMERIC_SYNC_FIELDS = js_set (RATIO_SYNC_FIELDS @ [js ''model_price''])"

definition RATIO_TYPE_OPTIONS :: "(jstring \<times> ratio_type) list" where
  "RATIO_TYPE_OPTIONS =
     [(js ''Model ratio'', js ''model_ratio''), (js ''Completion ratio'', js ''completion_ratio''),
      (js ''Cache ratio'', js ''cache_ratio''), (js ''Create cache ratio'', js ''create_cache_ratio''),
      (js ''Image ratio'', js ''image_ratio''), (js ''Audio ratio'', js ''audio_ratio''),
      (js ''Audio completion ratio'', js ''audio_completion_ratio''),
      (js ''Fixed price'', js ''model_price''), (js ''Expression billing'', js ''billing_expr'')]"

definition getSyncFieldLabel :: "jstring \<Rightarrow> (jstring \<Rightarrow> jstring) \<Rightarrow> jstring" where
  "getSyncFieldLabel ratioType t =
     (case find (\<lambda>opt. snd opt = ratioType) RATIO_TYPE_OPTIONS of
        Some opt \<Rightarrow> t (fst opt) | None \<Rightarrow> ratioType)"

definition getOrderedRatioTypes :: "model_differences \<Rightarrow> jstring option \<Rightarrow> ratio_type list" where
  "getOrderedRatioTypes ratioTypes flt =
     (let keys = obj_keys ratioTypes;
          ordered = filter (\<lambda>f. f \<in> set keys) SYNC_FIELD_ORDER @
                    filter (\<lambda>f. f \<notin> set SYNC_FIELD_ORDER) keys
      in case flt of
           None \<Rightarrow> ordered
         | Some f \<Rightarrow> if f = [] \<or> f = js ''__all__'' then ordered else filter (\<lambda>g. g = f) ordered)"

definition isSelectableUpstreamValue :: "json option \<Rightarrow> bool" where
  "isSelectableUpstreamValue value \<longleftrightarrow>
     value \<noteq> Some JNull \<and> value \<noteq> None \<and> value \<noteq> Some (JStr (js ''same''))"

text \<open>\<open>ratioTypes.field?.upstreams?.[sourceName]\<close>.\<close>

definition upstream_value :: "model_differences \<Rightarrow> ratio_type \<Rightarrow> jstring \<Rightarrow> json option" where
  "upstream_value ratioTypes field sourceName =
     Option.bind (obj_get ratioTypes field) (\<lambda>d. obj_get (rd_upstreams d) sourceName)"

definition getPreferredSyncField :: "model_differences \<Rightarrow> ratio_type \<Rightarrow> jstring \<Rightarrow> ratio_type" where
  "getPreferredSyncField ratioTypes ratioType sourceName =
     (let exprValue = upstream_value ratioTypes (js ''billing_expr'') sourceName
      in if ratioType \<noteq> js ''billing_expr'' \<and> isSelectableUpstreamValue exprValue
         then js ''billing_expr'' else ratioType)"

definition getVisibleRatioTypesForSource ::
    "model_differences \<Rightarrow> jstring \<Rightarrow> jstring option \<Rightarrow> ratio_type list" where
  "getVisibleRatioTypesForSource ratioTypes sourceName flt =
     filter (\<lambda>ratioType. getPreferredSyncField ratioTypes ratioType sourceName = ratioType)
       (getOrderedRatioTypes ratioTypes flt)"

definition getAlignedRatioTypes ::
    "model_differences \<Rightarrow> jstring list \<Rightarrow> jstring option \<Rightarrow> ratio_type list" where
  "getAlignedRatioTypes ratioTypes sourceNames flt =
     (let ordered = getOrderedRatioTypes ratioTypes flt
      in if sourceNames = [] then ordered
         else let visible = js_set (concat (map (\<lambda>sourceName.
                    getVisibleRatioTypesForSource ratioTypes sourceName flt) sourceNames))
              in filter (\<lambda>ratioType. ratioType \<in> set visible) ordered)"

datatype billing_category = CatPrice | CatRatio | CatTiered

definition getBillingCategory :: "jstring \<Rightarrow> billing_category" where
  "getBillingCategory ratioType =
     (if ratioType = js ''model_price'' then CatPrice
      else if ratioType = js ''billing_mode'' \<or> ratioType = js ''billing_expr'' then CatTiered
      else CatRatio)"

definition OFFICIAL_CHANNEL_NAME :: jstring where
  "OFFICIAL_CHANNEL_NAME = [23448, 26041, 20493, 29575, 39044, 35774]"

definition MODELS_DEV_PRESET_NAME :: jstring where
  "MODELS_DEV_PRESET_NAME = js ''models.dev '' @ [20215, 26684, 39044, 35774]"

definition getUpstreamDisplayName :: "jstring \<Rightarrow> jstring" where
  "getUpstreamDisplayName sourceName =
     (case find (\<lambda>(name, pid). sourceName = name @ [40] @ pid @ [41])
             [(OFFICIAL_CHANNEL_NAME, js ''-100''), (MODELS_DEV_PRESET_NAME, js ''-101'')] of
        Some (name, _) \<Rightarrow> name | None \<Rightarrow> sourceName)"

definition isSelectedResolutionValue ::
    "resolutions \<Rightarrow> jstring \<Rightarrow> ratio_type \<Rightarrow> json option \<Rightarrow> bool" where
  "isSelectedResolutionValue resolutions model ratioType upstreamValue =
     (if \<not> isSelectableUpstreamValue upstreamValue then False
      else case Option.bind (obj_get resolutions model) (\<lambda>r. obj_get r ratioType) of
             None \<Rightarrow> False
           | Some selectedValue \<Rightarrow>
               if ratioType \<in> set NUMERIC_SYNC_FIELDS then
                 (case (js_number selectedValue, js_number (the upstreamValue)) of
                    (Some a, Some b) \<Rightarrow> a = b | _ \<Rightarrow> False)
               else Some selectedValue = upstreamValue)"


section \<open>Selecting\<close>

definition resolveResolutionSelection ::
    "model_differences jobj \<Rightarrow> resolution_selection \<Rightarrow> resolution_selection" where
  "resolveResolutionSelection differences selection =
     (let modelDiffs = (case obj_get differences (rs_model selection) of None \<Rightarrow> [] | Some d \<Rightarrow> d);
          preferredType = getPreferredSyncField modelDiffs (rs_ratioType selection) (rs_sourceName selection);
          preferredValue =
            (if preferredType = rs_ratioType selection then rs_value selection
             else case upstream_value modelDiffs preferredType (rs_sourceName selection) of
                    None \<Rightarrow> rs_value selection
                  | Some JNull \<Rightarrow> rs_value selection
                  | Some v \<Rightarrow> v)
      in selection\<lparr>rs_ratioType := preferredType, rs_value := preferredValue\<rparr>)"

text \<open>The draft of one model after one selection: \<open>finalType\<close> and \<open>finalValue\<close> are those of the
  resolved selection.\<close>

definition drop_other_category :: "billing_category \<Rightarrow> model_resolution \<Rightarrow> model_resolution" where
  "drop_other_category category res =
     foldl (\<lambda>r rt. if category \<noteq> CatTiered \<and> getBillingCategory rt \<noteq> CatTiered \<and>
                      getBillingCategory rt \<noteq> category then obj_del rt r else r)
       res (obj_keys res)"

definition apply_to_draft ::
    "model_differences jobj \<Rightarrow> resolution_selection \<Rightarrow> model_resolution \<Rightarrow> model_resolution" where
  "apply_to_draft differences selection draft =
     (let resolved = resolveResolutionSelection differences selection;
          finalType = rs_ratioType resolved;
          category = getBillingCategory finalType;
          res1 = obj_put finalType (rs_value resolved) (drop_other_category category draft)
      in case obj_get differences (rs_model selection) of
           None \<Rightarrow> res1
         | Some modelDiffs \<Rightarrow>
             if category \<noteq> CatTiered then res1
             else let modeVal = upstream_value modelDiffs (js ''billing_mode'') (rs_sourceName selection);
                      exprVal = upstream_value modelDiffs (js ''billing_expr'') (rs_sourceName selection);
                      res2 = (if isSelectableUpstreamValue modeVal
                              then obj_put (js ''billing_mode'') (the modeVal) res1
                              else if finalType = js ''billing_expr''
                              then obj_put (js ''billing_mode'') (JStr (js ''tiered_expr'')) res1
                              else res1)
                  in if isSelectableUpstreamValue exprVal
                     then obj_put (js ''billing_expr'') (the exprVal) res2 else res2)"

definition getDraftModelResolution ::
    "model_resolution jobj \<Rightarrow> resolutions \<Rightarrow> jstring \<Rightarrow> model_resolution" where
  "getDraftModelResolution drafts resolutions model =
     (case obj_get drafts model of
        Some draft \<Rightarrow> draft
      | None \<Rightarrow> (case obj_get resolutions model of None \<Rightarrow> [] | Some r \<Rightarrow> obj_spread [] r))"

definition applyResolutionSelectionToDraft ::
    "resolutions \<Rightarrow> model_differences jobj \<Rightarrow> model_resolution jobj \<Rightarrow> resolution_selection \<Rightarrow>
     model_resolution jobj" where
  "applyResolutionSelectionToDraft resolutions differences drafts selection =
     map_put (rs_model selection)
       (apply_to_draft differences selection
          (getDraftModelResolution drafts resolutions (rs_model selection))) drafts"

definition keep_draft :: "resolutions \<Rightarrow> jstring \<times> model_resolution \<Rightarrow> resolutions" where
  "keep_draft nxt e =
     (if obj_keys (snd e) = [] then obj_del (fst e) nxt else obj_put (fst e) (snd e) nxt)"

definition applyResolutionSelections ::
    "resolutions \<Rightarrow> model_differences jobj \<Rightarrow> resolution_selection list \<Rightarrow> resolutions" where
  "applyResolutionSelections resolutions differences selections =
     (if selections = [] then resolutions
      else let drafts = foldl (applyResolutionSelectionToDraft resolutions differences) [] selections
           in foldl keep_draft (obj_spread [] resolutions) drafts)"

definition applyResolutionSelection ::
    "resolutions \<Rightarrow> model_differences jobj \<Rightarrow> resolution_selection \<Rightarrow> resolutions" where
  "applyResolutionSelection resolutions differences selection =
     applyResolutionSelections resolutions differences [selection]"

text \<open>The \<open>Map\<close> of effective selections, keyed by model, a zero unit and field.\<close>

definition selection_key :: "resolution_selection \<Rightarrow> jstring" where
  "selection_key s = rs_model s @ [0] @ rs_ratioType s"

definition effective_step ::
    "model_differences jobj \<Rightarrow> resolution_selection jobj \<Rightarrow> resolution_selection \<Rightarrow>
     resolution_selection jobj" where
  "effective_step differences effectiveByKey selection =
     (let resolved = resolveResolutionSelection differences selection;
          category = getBillingCategory (rs_ratioType resolved);
          kept = (if category \<noteq> CatTiered then
                    filter (\<lambda>(key, existing). \<not> (rs_model existing = rs_model resolved \<and>
                        getBillingCategory (rs_ratioType existing) \<noteq> CatTiered \<and>
                        getBillingCategory (rs_ratioType existing) \<noteq> category)) effectiveByKey
                  else effectiveByKey)
      in map_put (selection_key resolved) resolved kept)"

definition getEffectiveResolutionSelections ::
    "model_differences jobj \<Rightarrow> resolution_selection list \<Rightarrow> resolution_selection list" where
  "getEffectiveResolutionSelections differences selections =
     map snd (foldl (effective_step differences) [] selections)"


section \<open>Removing\<close>

definition add_removal :: "ratio_type list jobj \<Rightarrow> resolution_removal \<Rightarrow> ratio_type list jobj" where
  "add_removal plan removal =
     (case obj_get plan (rr_model removal) of
        Some ratioTypes \<Rightarrow> map_put (rr_model removal) (set_add ratioTypes (rr_ratioType removal)) plan
      | None \<Rightarrow> map_put (rr_model removal) [rr_ratioType removal] plan)"

definition remove_field :: "model_resolution \<Rightarrow> ratio_type \<Rightarrow> model_resolution" where
  "remove_field draft ratioType =
     (let d1 = obj_del ratioType draft;
          d2 = (if ratioType = js ''billing_expr'' then obj_del (js ''billing_mode'') d1 else d1)
      in if ratioType = js ''billing_mode'' then obj_del (js ''billing_expr'') d2 else d2)"

definition apply_plan_entry :: "resolutions \<Rightarrow> resolutions \<Rightarrow> jstring \<times> ratio_type list \<Rightarrow> resolutions" where
  "apply_plan_entry resolutions nxt e =
     (case obj_get resolutions (fst e) of
        None \<Rightarrow> nxt
      | Some current \<Rightarrow> keep_draft nxt (fst e, foldl remove_field (obj_spread [] current) (snd e)))"

definition applyResolutionRemovalPlan :: "resolutions \<Rightarrow> ratio_type list jobj \<Rightarrow> resolutions" where
  "applyResolutionRemovalPlan resolutions plan =
     (if plan = [] then resolutions
      else foldl (apply_plan_entry resolutions) (obj_spread [] resolutions) plan)"

definition applyResolutionRemovals :: "resolutions \<Rightarrow> resolution_removal list \<Rightarrow> resolutions" where
  "applyResolutionRemovals resolutions removals =
     (if removals = [] then resolutions
      else applyResolutionRemovalPlan resolutions (foldl add_removal [] removals))"

definition deleteResolutionField :: "resolutions \<Rightarrow> jstring \<Rightarrow> ratio_type \<Rightarrow> resolutions" where
  "deleteResolutionField resolutions model ratioType =
     applyResolutionRemovals resolutions [\<lparr>rr_model = model, rr_ratioType = ratioType\<rparr>]"



section \<open>Drafts\<close>

definition exclusive :: "model_resolution \<Rightarrow> bool" where
  "exclusive res \<longleftrightarrow>
     \<not> (CatPrice \<in> getBillingCategory ` set (obj_keys res) \<and> CatRatio \<in> getBillingCategory ` set (obj_keys res))"

definition paired :: "model_resolution \<Rightarrow> bool" where
  "paired res \<longleftrightarrow> (obj_get res (js ''billing_expr'') \<noteq> None \<longrightarrow> obj_get res (js ''billing_mode'') \<noteq> None)"

lemma mem_keys_iff: "k \<in> set (obj_keys ob) \<longleftrightarrow> obj_get ob k \<noteq> None"
  by (simp add: obj_get_None_iff)

lemma exclusive_alt:
  "exclusive res \<longleftrightarrow>
     (\<forall>f g. getBillingCategory f = CatPrice \<longrightarrow> getBillingCategory g = CatRatio \<longrightarrow>
        obj_get res f = None \<or> obj_get res g = None)"
  unfolding exclusive_def image_iff mem_keys_iff Bex_def by metis

lemma get_del_if:
  "obj_get (foldl (\<lambda>r k. if P k then obj_del k r else r) res ks) f =
     (if P f \<and> f \<in> set ks then None else obj_get res f)"
  by (induction ks arbitrary: res) (auto simp: obj_get_del)

lemma get_drop_other:
  "obj_get (drop_other_category c res) f =
     (if c \<noteq> CatTiered \<and> getBillingCategory f \<noteq> CatTiered \<and> getBillingCategory f \<noteq> c then None
      else obj_get res f)"
  unfolding drop_other_category_def get_del_if by (auto simp: mem_keys_iff)

lemma obj_wf_drop_other: "obj_wf res \<Longrightarrow> obj_wf (drop_other_category c res)"
  unfolding drop_other_category_def by (rule foldl_inv) (simp_all add: obj_wf_del)

lemma category_simps [simp]:
  "getBillingCategory (js ''billing_mode'') = CatTiered"
  "getBillingCategory (js ''billing_expr'') = CatTiered"
  "getBillingCategory (js ''model_price'') = CatPrice"
  by (simp_all add: getBillingCategory_def)

lemma tiered_cases:
  "getBillingCategory f = CatTiered \<Longrightarrow> f = js ''billing_mode'' \<or> f = js ''billing_expr''"
  by (auto simp: getBillingCategory_def split: if_splits)

text \<open>What a selection does to the fields that are not tiered.\<close>

lemma get_apply_plain:
  assumes "getBillingCategory f \<noteq> CatTiered"
  shows "obj_get (apply_to_draft D s draft) f =
     (let r = resolveResolutionSelection D s; c = getBillingCategory (rs_ratioType r) in
        if f = rs_ratioType r then Some (rs_value r)
        else if c \<noteq> CatTiered \<and> getBillingCategory f \<noteq> c then None else obj_get draft f)"
proof -
  have "f \<noteq> js ''billing_mode''" "f \<noteq> js ''billing_expr''" using assms by auto
  with assms show ?thesis
    by (auto simp: apply_to_draft_def Let_def obj_get_put get_drop_other split: option.split)
qed

lemma apply_wf: "obj_wf draft \<Longrightarrow> obj_wf (apply_to_draft D s draft)"
  by (auto simp: apply_to_draft_def Let_def obj_wf_put obj_wf_drop_other split: option.split)

lemma put_ne: "obj_put k v ob \<noteq> []"
  using set_keys_obj_put [of k v ob] by (auto simp: obj_keys_def)

lemma apply_ne: "apply_to_draft D s draft \<noteq> []"
  by (auto simp: apply_to_draft_def Let_def put_ne split: option.split)

lemma apply_exclusive: "exclusive draft \<Longrightarrow> exclusive (apply_to_draft D s draft)"
  unfolding exclusive_alt
  by (auto simp: get_apply_plain Let_def)

lemma apply_paired:
  assumes "obj_get D (rs_model s) = Some d" and "paired draft"
  shows "paired (apply_to_draft D s draft)"
proof -
  let ?r = "resolveResolutionSelection D s"
  have e: "isSelectableUpstreamValue (upstream_value d (js ''billing_expr'') (rs_sourceName s)) \<Longrightarrow>
      rs_ratioType ?r = js ''billing_expr''"
    using assms(1) by (auto simp: resolveResolutionSelection_def Let_def getPreferredSyncField_def)
  show ?thesis
  proof (cases "getBillingCategory (rs_ratioType ?r) = CatTiered")
    case True
    then show ?thesis
      using assms e by (auto simp: paired_def apply_to_draft_def Let_def obj_get_put get_drop_other)
  next
    case False
    then have "rs_ratioType ?r \<noteq> js ''billing_mode''" "rs_ratioType ?r \<noteq> js ''billing_expr''" by auto
    with False show ?thesis
      using assms by (simp add: paired_def apply_to_draft_def Let_def obj_get_put get_drop_other)
  qed
qed

text \<open>The draft of a model is made of the selections for that model.\<close>

definition for_model :: "jstring \<Rightarrow> resolution_selection list \<Rightarrow> resolution_selection list" where
  "for_model m sels = filter (\<lambda>s. rs_model s = m) sels"

definition draft_of ::
    "model_differences jobj \<Rightarrow> resolution_selection list \<Rightarrow> model_resolution \<Rightarrow> model_resolution" where
  "draft_of D sels res = foldl (\<lambda>d s. apply_to_draft D s d) res sels"

lemma draft_after_put: "getDraftModelResolution (map_put m x ds) r m = x"
  by (simp add: getDraftModelResolution_def map_get_put)

lemma get_drafts:
  "obj_get (foldl (applyResolutionSelectionToDraft r D) ds sels) m =
     (if for_model m sels = [] then obj_get ds m
      else Some (draft_of D (for_model m sels) (getDraftModelResolution ds r m)))"
proof (induction sels arbitrary: ds)
  case (Cons s sels)
  show ?case
  proof (cases "rs_model s = m")
    case True
    then have "getDraftModelResolution (applyResolutionSelectionToDraft r D ds s) r m =
        apply_to_draft D s (getDraftModelResolution ds r m)"
      by (simp add: applyResolutionSelectionToDraft_def draft_after_put)
    with True Cons show ?thesis
      by (auto simp: for_model_def draft_of_def applyResolutionSelectionToDraft_def map_get_put)
  next
    case False
    then have "obj_get (applyResolutionSelectionToDraft r D ds s) m = obj_get ds m"
      by (simp add: applyResolutionSelectionToDraft_def map_get_put)
    with False Cons show ?thesis by (simp add: for_model_def getDraftModelResolution_def)
  qed
qed (simp add: for_model_def)

lemma drafts_distinct:
  "distinct (obj_keys ds) \<Longrightarrow>
     distinct (obj_keys (foldl (applyResolutionSelectionToDraft r D) ds sels))"
  by (rule foldl_inv) (simp_all add: applyResolutionSelectionToDraft_def jmap.wf_put)

lemma get_keep_drafts:
  "distinct (obj_keys ds) \<Longrightarrow>
     obj_get (foldl keep_draft nxt ds) m =
       (case obj_get ds m of None \<Rightarrow> obj_get nxt m | Some d \<Rightarrow> if d = [] then None else Some d)"
proof (induction ds arbitrary: nxt)
  case (Cons e ds)
  have d: "obj_get ds (fst e) = None"
    using Cons.prems by (simp add: obj_get_None_iff) (simp add: obj_keys_def)
  have g: "obj_get (keep_draft nxt e) k =
      (if k = fst e then (if snd e = [] then None else Some (snd e)) else obj_get nxt k)" for k
    by (simp add: keep_draft_def obj_get_put obj_get_del obj_keys_def)
  from Cons have "obj_get (foldl keep_draft (keep_draft nxt e) ds) m =
      (case obj_get ds m of None \<Rightarrow> obj_get (keep_draft nxt e) m | Some d \<Rightarrow> if d = [] then None else Some d)"
    by (simp add: obj_keys_def)
  then show ?case using d by (simp add: g split: option.split)
qed simp

lemma draft_of_ne: "sels \<noteq> [] \<Longrightarrow> draft_of D sels res \<noteq> []"
  by (cases sels rule: rev_cases) (simp_all add: draft_of_def apply_ne)

lemma get_selections:
  assumes "obj_wf r" "\<And>x. obj_get r m = Some x \<Longrightarrow> obj_wf x"
  shows "obj_get (applyResolutionSelections r D sels) m =
     (if for_model m sels = [] then obj_get r m
      else Some (draft_of D (for_model m sels) (case obj_get r m of None \<Rightarrow> [] | Some x \<Rightarrow> x)))"
proof (cases "sels = []")
  case True
  then show ?thesis by (simp add: applyResolutionSelections_def for_model_def)
next
  case False
  have "getDraftModelResolution [] r m = (case obj_get r m of None \<Rightarrow> [] | Some x \<Rightarrow> x)"
    using assms(2) by (auto simp: getDraftModelResolution_def obj_spread_Nil split: option.split)
  with False show ?thesis
    by (auto simp: applyResolutionSelections_def Let_def get_keep_drafts [OF drafts_distinct] get_drafts
        obj_spread_Nil [OF assms(1)] draft_of_ne obj_keys_def)
qed


section \<open>Removals\<close>

definition linked :: "ratio_type \<Rightarrow> ratio_type \<Rightarrow> bool" where
  "linked t f \<longleftrightarrow>
     t = f \<or> (t = js ''billing_expr'' \<and> f = js ''billing_mode'') \<or>
     (t = js ''billing_mode'' \<and> f = js ''billing_expr'')"

lemma get_remove_field: "obj_get (remove_field d t) f = (if linked t f then None else obj_get d f)"
  by (auto simp: remove_field_def Let_def obj_get_del linked_def)

lemma get_remove_fields:
  "obj_get (foldl remove_field d ts) f = (if \<exists>t\<in>set ts. linked t f then None else obj_get d f)"
  by (induction ts arbitrary: d) (auto simp: get_remove_field)

lemma obj_wf_remove_fields: "obj_wf d \<Longrightarrow> obj_wf (foldl remove_field d ts)"
  by (rule foldl_inv) (simp_all add: remove_field_def Let_def obj_wf_del)

lemma get_plan:
  "set (case obj_get (foldl add_removal plan rs) m of None \<Rightarrow> [] | Some ts \<Rightarrow> ts) =
     set (case obj_get plan m of None \<Rightarrow> [] | Some ts \<Rightarrow> ts) \<union>
     {rr_ratioType x |x. x \<in> set rs \<and> rr_model x = m}"
proof (induction rs arbitrary: plan)
  case (Cons x rs)
  have "set (case obj_get (add_removal plan x) m of None \<Rightarrow> [] | Some ts \<Rightarrow> ts) =
      set (case obj_get plan m of None \<Rightarrow> [] | Some ts \<Rightarrow> ts) \<union> {rr_ratioType x |y. rr_model x = m}"
    by (auto simp: add_removal_def map_get_put set_add_def split: option.splits if_splits)
  with Cons show ?case by auto
qed simp

lemma plan_distinct: "distinct (obj_keys plan) \<Longrightarrow> distinct (obj_keys (foldl add_removal plan rs))"
  by (rule foldl_inv) (auto simp: add_removal_def jmap.wf_put split: option.split)

lemma get_apply_plan:
  "distinct (obj_keys plan) \<Longrightarrow>
     obj_get (foldl (apply_plan_entry r) nxt plan) m =
       (case (obj_get plan m, obj_get r m) of
          (Some ts, Some cur) \<Rightarrow>
            (let d = foldl remove_field (obj_spread [] cur) ts in if d = [] then None else Some d)
        | _ \<Rightarrow> obj_get nxt m)"
proof (induction plan arbitrary: nxt)
  case (Cons e plan)
  have d: "obj_get plan (fst e) = None"
    using Cons.prems by (simp add: obj_get_None_iff) (simp add: obj_keys_def)
  have g: "obj_get (apply_plan_entry r nxt e) k =
      (case obj_get r k of
         Some cur \<Rightarrow> if k = fst e then (let d = foldl remove_field (obj_spread [] cur) (snd e)
                       in if d = [] then None else Some d) else obj_get nxt k
       | None \<Rightarrow> obj_get nxt k)" for k
    by (auto simp: apply_plan_entry_def keep_draft_def obj_get_put obj_get_del obj_keys_def Let_def
        split: option.split)
  from Cons have "obj_get (foldl (apply_plan_entry r) (apply_plan_entry r nxt e) plan) m =
      (case (obj_get plan m, obj_get r m) of
          (Some ts, Some cur) \<Rightarrow>
            (let d = foldl remove_field (obj_spread [] cur) ts in if d = [] then None else Some d)
        | _ \<Rightarrow> obj_get (apply_plan_entry r nxt e) m)"
    by (simp add: obj_keys_def)
  then show ?case using d by (auto simp: g split: option.split)
qed simp

lemma get_removals:
  assumes "obj_wf r" "\<And>x. obj_get r m = Some x \<Longrightarrow> obj_wf x \<and> x \<noteq> []"
  shows "\<exists>ts. set ts = {rr_ratioType x |x. x \<in> set rs \<and> rr_model x = m} \<and>
     obj_get (applyResolutionRemovals r rs) m =
       (case obj_get r m of None \<Rightarrow> None
        | Some cur \<Rightarrow> let d = foldl remove_field cur ts in if d = [] then None else Some d)"
proof (cases "rs = []")
  case True
  with assms(2) show ?thesis
    by (intro exI [of _ "[]"]) (auto simp: applyResolutionRemovals_def Let_def split: option.split)
next
  case False
  let ?plan = "foldl add_removal [] rs"
  let ?ts = "case obj_get ?plan m of None \<Rightarrow> [] | Some ts \<Rightarrow> ts"
  have d: "distinct (obj_keys ?plan)" by (rule plan_distinct) (simp add: obj_keys_def)
  have "set ?ts = {rr_ratioType x |x. x \<in> set rs \<and> rr_model x = m}"
    using get_plan [of "[]" rs m] by simp
  moreover have "obj_get (applyResolutionRemovals r rs) m =
      (case obj_get r m of None \<Rightarrow> None
       | Some cur \<Rightarrow> let d = foldl remove_field cur ?ts in if d = [] then None else Some d)"
    using False assms
    by (auto simp: applyResolutionRemovals_def applyResolutionRemovalPlan_def get_apply_plan [OF d]
        obj_spread_Nil Let_def split: option.split)
  ultimately show ?thesis by blast
qed


section \<open>The resolution state\<close>

definition model_ok :: "model_differences jobj \<Rightarrow> jstring \<Rightarrow> model_resolution \<Rightarrow> bool" where
  "model_ok D m res \<longleftrightarrow>
     res \<noteq> [] \<and> obj_wf res \<and> exclusive res \<and> (obj_get D m \<noteq> None \<longrightarrow> paired res)"

definition sync_inv :: "model_differences jobj \<Rightarrow> resolutions \<Rightarrow> bool" where
  "sync_inv D r \<longleftrightarrow> obj_wf r \<and> (\<forall>m x. obj_get r m = Some x \<longrightarrow> model_ok D m x)"

datatype sync_event_kind = SelectValues "resolution_selection list" | RemoveValues "resolution_removal list"

fun sync_step :: "model_differences jobj \<Rightarrow> resolutions \<Rightarrow> sync_event_kind \<Rightarrow> resolutions \<times> unit list" where
  "sync_step D r (SelectValues sels) = (applyResolutionSelections r D sels, [])"
| "sync_step D r (RemoveValues rs) = (applyResolutionRemovals r rs, [])"

lemma ok_Nil: "exclusive []" "paired []"
  by (simp_all add: exclusive_def paired_def obj_keys_def)

lemma draft_of_inv:
  "obj_wf res \<Longrightarrow> exclusive res \<Longrightarrow> list_all (\<lambda>s. rs_model s = m) sels \<Longrightarrow>
     (obj_get D m \<noteq> None \<longrightarrow> paired res) \<Longrightarrow>
     obj_wf (draft_of D sels res) \<and> exclusive (draft_of D sels res) \<and>
     (obj_get D m \<noteq> None \<longrightarrow> paired (draft_of D sels res))"
proof (induction sels arbitrary: res)
  case (Cons s sels)
  from Cons.prems have "obj_wf (apply_to_draft D s res)" "exclusive (apply_to_draft D s res)"
    "obj_get D m \<noteq> None \<longrightarrow> paired (apply_to_draft D s res)"
    by (auto simp: apply_wf apply_exclusive intro: apply_paired)
  with Cons show ?case by (simp add: draft_of_def)
qed (simp add: draft_of_def)

lemma wf_keep_drafts: "obj_wf nxt \<Longrightarrow> obj_wf (foldl keep_draft nxt ds)"
  by (rule foldl_inv) (simp_all add: keep_draft_def obj_wf_put obj_wf_del)

lemma sync_inv_select: "sync_inv D r \<Longrightarrow> sync_inv D (applyResolutionSelections r D sels)"
proof -
  assume inv: "sync_inv D r"
  then have wf: "obj_wf r" "\<And>m x. obj_get r m = Some x \<Longrightarrow> obj_wf x"
    by (auto simp: sync_inv_def model_ok_def)
  have "obj_wf (applyResolutionSelections r D sels)"
    using wf by (simp add: applyResolutionSelections_def Let_def wf_keep_drafts obj_spread_Nil)
  moreover have "model_ok D m x" if "obj_get (applyResolutionSelections r D sels) m = Some x" for m x
  proof (cases "for_model m sels = []")
    case True
    with that inv show ?thesis by (simp add: get_selections wf sync_inv_def)
  next
    case False
    let ?res = "case obj_get r m of None \<Rightarrow> [] | Some x \<Rightarrow> x"
    have x: "x = draft_of D (for_model m sels) ?res"
      using that False by (simp add: get_selections wf)
    have "obj_wf ?res" "exclusive ?res" "obj_get D m \<noteq> None \<longrightarrow> paired ?res"
      using inv by (cases "obj_get r m"; simp add: sync_inv_def model_ok_def ok_Nil)+
    then have "obj_wf x \<and> exclusive x \<and> (obj_get D m \<noteq> None \<longrightarrow> paired x)"
      unfolding x by (intro draft_of_inv) (simp_all add: for_model_def list_all_iff)
    moreover have "x \<noteq> []" unfolding x using False by (rule draft_of_ne)
    ultimately show ?thesis by (simp add: model_ok_def)
  qed
  ultimately show ?thesis by (simp add: sync_inv_def)
qed

lemma wf_apply_plan: "obj_wf nxt \<Longrightarrow> obj_wf (foldl (apply_plan_entry r) nxt plan)"
  by (rule foldl_inv)
    (simp_all add: apply_plan_entry_def keep_draft_def obj_wf_put obj_wf_del split: option.split)

lemma sync_inv_remove: "sync_inv D r \<Longrightarrow> sync_inv D (applyResolutionRemovals r rs)"
proof -
  assume inv: "sync_inv D r"
  then have wf: "obj_wf r" "\<And>m x. obj_get r m = Some x \<Longrightarrow> obj_wf x \<and> x \<noteq> []"
    by (auto simp: sync_inv_def model_ok_def)
  have "obj_wf (applyResolutionRemovals r rs)"
    using wf(1)
    by (simp add: applyResolutionRemovals_def applyResolutionRemovalPlan_def obj_spread_Nil wf_apply_plan)
  moreover have "model_ok D m x" if x: "obj_get (applyResolutionRemovals r rs) m = Some x" for m x
  proof -
    from get_removals [OF wf(1) wf(2) [of m], of _ rs] obtain ts where
      "obj_get (applyResolutionRemovals r rs) m =
        (case obj_get r m of None \<Rightarrow> None
         | Some cur \<Rightarrow> let d = foldl remove_field cur ts in if d = [] then None else Some d)" by blast
    with x obtain cur where c: "obj_get r m = Some cur" "x = foldl remove_field cur ts" "x \<noteq> []"
      by (auto simp: Let_def split: option.splits if_splits)
    with inv have "model_ok D m cur" by (simp add: sync_inv_def)
    with c show ?thesis
      by (auto simp: model_ok_def obj_wf_remove_fields exclusive_alt paired_def get_remove_fields linked_def)
  qed
  ultimately show ?thesis by (simp add: sync_inv_def)
qed

interpretation ratio_sync: machine "[]" "sync_step D" "sync_inv D" for D
proof
  show "sync_inv D []" by (simp add: sync_inv_def)
next
  fix s e
  assume "sync_inv D s"
  then show "sync_inv D (fst (sync_step D s e))"
    by (cases e) (simp_all add: sync_inv_select sync_inv_remove)
qed


section \<open>Effective selections\<close>

definition fields_ok :: "resolution_selection list \<Rightarrow> bool" where
  "fields_ok sels \<longleftrightarrow> list_all (\<lambda>s. 0 \<notin> set (rs_ratioType s)) sels"

definition field_key :: "jstring \<Rightarrow> ratio_type \<Rightarrow> jstring" where
  "field_key m f = m @ [0] @ f"

lemma field_key_inj:
  "0 \<notin> set f \<Longrightarrow> 0 \<notin> set g \<Longrightarrow> field_key m f = field_key n g \<longleftrightarrow> m = n \<and> f = g"
proof
  assume a: "0 \<notin> set f" "0 \<notin> set g" "field_key m f = field_key n g"
  then have "rev f @ 0 # rev m = rev g @ 0 # rev n"
    unfolding field_key_def by (metis append_Cons append_Nil append_assoc rev_append rev_singleton_conv)
  moreover have "takeWhile (\<lambda>u. u \<noteq> 0) (rev f @ 0 # rev m) = rev f"
    "takeWhile (\<lambda>u. u \<noteq> 0) (rev g @ 0 # rev n) = rev g"
    using a(1,2) by (auto simp: takeWhile_append)
  ultimately have "rev f = rev g" by simp
  with a(3) show "m = n \<and> f = g" by (simp add: field_key_def)
qed (simp add: field_key_def)

lemma resolved_field_ok:
  "0 \<notin> set (rs_ratioType s) \<Longrightarrow> 0 \<notin> set (rs_ratioType (resolveResolutionSelection D s))"
  by (auto simp: resolveResolutionSelection_def Let_def getPreferredSyncField_def js_lit)

lemma resolved_model [simp]: "rs_model (resolveResolutionSelection D s) = rs_model s"
  by (simp add: resolveResolutionSelection_def Let_def)

definition effective_inv :: "resolution_selection jobj \<Rightarrow> bool" where
  "effective_inv E \<longleftrightarrow>
     distinct (obj_keys E) \<and>
     list_all (\<lambda>(k, e). k = field_key (rs_model e) (rs_ratioType e) \<and> 0 \<notin> set (rs_ratioType e)) E"

lemma get_filter_distinct:
  "distinct (obj_keys E) \<Longrightarrow>
     obj_get (filter (\<lambda>(k, e). P e) E) k = (case obj_get E k of Some e \<Rightarrow> if P e then Some e else None | None \<Rightarrow> None)"
proof (induction E)
  case (Cons x E)
  have "obj_get E (fst x) = None"
    using Cons.prems by (simp add: obj_get_None_iff) (simp add: obj_keys_def)
  with Cons show ?case by (auto simp: obj_keys_def case_prod_beta)
qed simp

lemma keys_filter_distinct: "distinct (obj_keys E) \<Longrightarrow> distinct (obj_keys (filter P E))"
  by (simp add: obj_keys_def distinct_map_filter)

lemma mem_map_put: "e \<in> set (map_put k v m) \<Longrightarrow> e = (k, v) \<or> e \<in> set m"
  by (auto simp: map_put_def split: if_splits)

lemma effective_inv_step:
  "effective_inv E \<Longrightarrow> 0 \<notin> set (rs_ratioType s) \<Longrightarrow> effective_inv (effective_step D E s)"
  unfolding effective_inv_def effective_step_def Let_def
  by (auto simp: jmap.wf_put keys_filter_distinct list_all_iff selection_key_def field_key_def
      resolved_field_ok dest!: mem_map_put)

text \<open>Both sides follow the same update of a field that is not tiered.\<close>

lemma effective_get:
  assumes "effective_inv E" "0 \<notin> set (rs_ratioType s)" "0 \<notin> set f" "getBillingCategory f \<noteq> CatTiered"
  shows "obj_get (effective_step D E s) (field_key m f) =
     (let r = resolveResolutionSelection D s; c = getBillingCategory (rs_ratioType r) in
        if m \<noteq> rs_model s then obj_get E (field_key m f)
        else if f = rs_ratioType r then Some r
        else if c \<noteq> CatTiered \<and> getBillingCategory f \<noteq> c then None else obj_get E (field_key m f))"
proof -
  let ?r = "resolveResolutionSelection D s"
  note r0 = resolved_field_ok [OF assms(2), of D]
  have d: "distinct (obj_keys E)" using assms(1) by (simp add: effective_inv_def)
  have k: "field_key m f = selection_key ?r \<longleftrightarrow> rs_model s = m \<and> rs_ratioType ?r = f"
    using field_key_inj [OF r0 assms(3), of "rs_model s" m]
    by (auto simp: selection_key_def field_key_def)
  have e: "rs_model e = m \<and> rs_ratioType e = f" if "obj_get E (field_key m f) = Some e" for e
    using obj_get_Some_mem [OF that] assms(1,3) field_key_inj [of "rs_ratioType e" f "rs_model e" m]
    by (auto simp: effective_inv_def list_all_iff)
  let ?c = "getBillingCategory (rs_ratioType ?r)"
  let ?P = "\<lambda>x. \<not> (rs_model x = rs_model ?r \<and> getBillingCategory (rs_ratioType x) \<noteq> CatTiered \<and>
      getBillingCategory (rs_ratioType x) \<noteq> ?c)"
  define F where "F = filter (\<lambda>(key, x). ?P x) E"
  have p: "obj_get F (field_key m f) =
      (if rs_model s = m \<and> getBillingCategory f \<noteq> ?c then None else obj_get E (field_key m f))"
    using e assms(4) by (cases "obj_get E (field_key m f)") (simp_all add: F_def get_filter_distinct [OF d])
  have st: "effective_step D E s = map_put (selection_key ?r) ?r
      (if ?c \<noteq> CatTiered then F else E)"
    by (simp add: effective_step_def F_def Let_def)
  have "obj_get (effective_step D E s) (field_key m f) =
      (if rs_model s = m \<and> rs_ratioType ?r = f then Some ?r
       else if ?c \<noteq> CatTiered \<and> rs_model s = m \<and> getBillingCategory f \<noteq> ?c then None
       else obj_get E (field_key m f))"
    by (simp add: st map_get_put k p)
  then show ?thesis by (simp add: Let_def)
qed

lemma draft_of_snoc: "draft_of D (sels @ [s]) res = apply_to_draft D s (draft_of D sels res)"
  by (simp add: draft_of_def)

text \<open>Whether a selection for the model makes its other kind of price, fixed or by ratios, obsolete.\<close>

definition overridden ::
    "model_differences jobj \<Rightarrow> resolution_selection list \<Rightarrow> jstring \<Rightarrow> ratio_type \<Rightarrow> bool" where
  "overridden D sels m f \<longleftrightarrow>
     list_ex (\<lambda>s. rs_model s = m \<and>
       getBillingCategory (rs_ratioType (resolveResolutionSelection D s)) \<notin> {CatTiered, getBillingCategory f}) sels"

lemma effective_simulates:
  assumes "fields_ok sels" "0 \<notin> set f" "getBillingCategory f \<noteq> CatTiered"
  shows "effective_inv (foldl (effective_step D) [] sels) \<and>
     obj_get (draft_of D (for_model m sels) res) f =
       (case obj_get (foldl (effective_step D) [] sels) (field_key m f) of
          Some e \<Rightarrow> Some (rs_value e)
        | None \<Rightarrow> if overridden D sels m f then None else obj_get res f)"
  using assms(1)
proof (induction sels rule: rev_induct)
  case Nil
  show ?case by (simp add: effective_inv_def draft_of_def for_model_def obj_keys_def overridden_def)
next
  case (snoc s sels)
  let ?E = "foldl (effective_step D) [] sels"
  from snoc have inv: "effective_inv ?E" and s: "0 \<notin> set (rs_ratioType s)"
    and ih: "obj_get (draft_of D (for_model m sels) res) f =
       (case obj_get ?E (field_key m f) of
          Some e \<Rightarrow> Some (rs_value e) | None \<Rightarrow> if overridden D sels m f then None else obj_get res f)"
    by (simp_all add: fields_ok_def)
  let ?r = "resolveResolutionSelection D s"
  let ?c = "getBillingCategory (rs_ratioType ?r)"
  have fm: "for_model m (sels @ [s]) = (if rs_model s = m then for_model m sels @ [s] else for_model m sels)"
    by (simp add: for_model_def)
  have ov: "overridden D (sels @ [s]) m f \<longleftrightarrow>
      overridden D sels m f \<or> (rs_model s = m \<and> ?c \<noteq> CatTiered \<and> ?c \<noteq> getBillingCategory f)"
    by (auto simp: overridden_def)
  note get = effective_get [OF inv s assms(2,3), of D m, unfolded Let_def]
    get_apply_plain [OF assms(3), of D s "draft_of D (for_model m sels) res", unfolded Let_def]
  consider "rs_model s \<noteq> m" | "rs_model s = m" "f = rs_ratioType ?r"
    | "rs_model s = m" "f \<noteq> rs_ratioType ?r" "?c \<noteq> CatTiered" "getBillingCategory f \<noteq> ?c"
    | "rs_model s = m" "f \<noteq> rs_ratioType ?r" "?c = CatTiered \<or> getBillingCategory f = ?c" by blast
  then have "obj_get (draft_of D (for_model m (sels @ [s])) res) f =
       (case obj_get (effective_step D ?E s) (field_key m f) of
          Some e \<Rightarrow> Some (rs_value e)
        | None \<Rightarrow> if overridden D (sels @ [s]) m f then None else obj_get res f)"
  proof cases
    case 1
    then have "for_model m (sels @ [s]) = for_model m sels" "overridden D (sels @ [s]) m f = overridden D sels m f"
      "obj_get (effective_step D ?E s) (field_key m f) = obj_get ?E (field_key m f)"
      using fm ov get(1) by simp_all
    then show ?thesis by (simp only: ih)
  next
    case 2
    then show ?thesis using get fm by (simp add: draft_of_snoc)
  next
    case 3
    then show ?thesis using get fm ov by (simp add: draft_of_snoc)
  next
    case 4
    then have "obj_get (draft_of D (for_model m (sels @ [s])) res) f = obj_get (draft_of D (for_model m sels) res) f"
      "overridden D (sels @ [s]) m f = overridden D sels m f"
      "obj_get (effective_step D ?E s) (field_key m f) = obj_get ?E (field_key m f)"
      using fm ov get by (auto simp: draft_of_snoc)
    then show ?thesis by (simp only: ih)
  qed
  with effective_inv_step [OF inv s, of D] show ?case by simp
qed

lemma find_effective:
  assumes "effective_inv E" "0 \<notin> set f"
  shows "find (\<lambda>e. rs_model e = m \<and> rs_ratioType e = f) (map snd E) = obj_get E (field_key m f)"
  using assms(1)
proof (induction E)
  case (Cons x E)
  obtain k e where x: "x = (k, e)" by (cases x)
  with Cons.prems have e: "k = field_key (rs_model e) (rs_ratioType e)" "0 \<notin> set (rs_ratioType e)"
    and inv: "effective_inv E"
    by (auto simp: effective_inv_def obj_keys_def)
  have "field_key m f = k \<longleftrightarrow> rs_model e = m \<and> rs_ratioType e = f"
    using field_key_inj [OF assms(2) e(2), of m "rs_model e"] by (auto simp: e(1))
  then show ?case using Cons.IH [OF inv] by (auto simp: x)
qed simp


section \<open>Properties\<close>

text \<open>C9 [ratio_sync_invariant]: whatever values are selected and removed, in any order, every model in
  the resolution keeps at least one field, never has a fixed price together with ratios, and,
  when the model is one of those compared, never has an expression without its billing
  mode.\<close>

theorem ratio_sync_invariant:
  "obj_get (fst (run_events (sync_step D) [] es)) m = Some res \<Longrightarrow>
     res \<noteq> [] \<and> exclusive res \<and> (obj_get D m \<noteq> None \<longrightarrow> paired res)"
  using ratio_sync.inv_run [of D es] by (auto simp: sync_inv_def model_ok_def)

definition sample_selections :: "resolution_selection list" where
  "sample_selections =
     [\<lparr>rs_model = js ''m'', rs_ratioType = js ''model_price'', rs_value = JNum 3, rs_sourceName = js ''u''\<rparr>,
      \<lparr>rs_model = js ''m'', rs_ratioType = js ''model_ratio'', rs_value = JNum 2, rs_sourceName = js ''u''\<rparr>]"

theorem ratio_sync_invariant_witness:
  "let r = fst (run_events (sync_step []) [] [SelectValues sample_selections]) in
     obj_get r (js ''m'') = Some [(js ''model_ratio'', JNum 2)] \<and> exclusive [(js ''model_ratio'', JNum 2)]"
proof -
  have "obj_get (fst (run_events (sync_step []) [] [SelectValues sample_selections])) (js ''m'') =
      Some [(js ''model_ratio'', JNum 2)]" by code_simp
  from this ratio_sync_invariant [OF this] show ?thesis unfolding Let_def by blast
qed

text \<open>C18 [effective_equals_applied]: the effective selections, which the bulk action counts and applies,
  describe what applying a list of selections does to any resolution reached so far. For every
  field that is not tiered: where there is an effective selection for the model and field, the
  resolution holds its value afterwards; where there is none, the field is gone if a selection
  chose the other kind of price for the model, and keeps its earlier value if none did.\<close>

theorem effective_equals_applied:
  assumes "r = fst (run_events (sync_step D) [] es)"
    and "fields_ok sels" and "0 \<notin> set f" and "getBillingCategory f \<noteq> CatTiered"
  shows "Option.bind (obj_get (applyResolutionSelections r D sels) m) (\<lambda>res. obj_get res f) =
     (case find (\<lambda>e. rs_model e = m \<and> rs_ratioType e = f) (getEffectiveResolutionSelections D sels) of
        Some e \<Rightarrow> Some (rs_value e)
      | None \<Rightarrow> if overridden D sels m f then None else Option.bind (obj_get r m) (\<lambda>res. obj_get res f))"
proof -
  have "sync_inv D r" unfolding assms(1) by (rule ratio_sync.inv_run)
  then have wf: "obj_wf r" "\<And>x. obj_get r m = Some x \<Longrightarrow> obj_wf x" by (auto simp: sync_inv_def model_ok_def)
  let ?res = "case obj_get r m of None \<Rightarrow> [] | Some x \<Rightarrow> x"
  note sim = effective_simulates [OF assms(2-4), of D m ?res]
  have "Option.bind (obj_get (applyResolutionSelections r D sels) m) (\<lambda>res. obj_get res f) =
      obj_get (draft_of D (for_model m sels) ?res) f"
    using get_selections [OF wf, of m D sels] by (auto simp: draft_of_def split: option.split)
  moreover have "obj_get ?res f = Option.bind (obj_get r m) (\<lambda>res. obj_get res f)"
    by (simp split: option.split)
  ultimately show ?thesis
    unfolding getEffectiveResolutionSelections_def find_effective [OF conjunct1 [OF sim] assms(3)]
    using sim by metis
qed

theorem effective_equals_applied_witness:
  "let r = fst (run_events (sync_step []) [] [SelectValues [\<lparr>rs_model = js ''m'', rs_ratioType = js ''cache_ratio'',
         rs_value = JNum 5, rs_sourceName = js ''u''\<rparr>]]);
       r' = applyResolutionSelections r [] sample_selections in
     Option.bind (obj_get r (js ''m'')) (\<lambda>res. obj_get res (js ''cache_ratio'')) = Some (JNum 5) \<and>
     Option.bind (obj_get r' (js ''m'')) (\<lambda>res. obj_get res (js ''model_ratio'')) = Some (JNum 2) \<and>
     Option.bind (obj_get r' (js ''m'')) (\<lambda>res. obj_get res (js ''cache_ratio'')) = None"
proof -
  let ?es = "[SelectValues [\<lparr>rs_model = js ''m'', rs_ratioType = js ''cache_ratio'', rs_value = JNum 5,
      rs_sourceName = js ''u''\<rparr>]]"
  let ?E = "getEffectiveResolutionSelections [] sample_selections"
  have s: "fields_ok sample_selections" by code_simp
  have f: "0 \<notin> set (js ''model_ratio'')" "getBillingCategory (js ''model_ratio'') \<noteq> CatTiered"
    "0 \<notin> set (js ''cache_ratio'')" "getBillingCategory (js ''cache_ratio'') \<noteq> CatTiered" by code_simp+
  have e: "map_option rs_value (find (\<lambda>e. rs_model e = js ''m'' \<and> rs_ratioType e = js ''model_ratio'') ?E) =
      Some (JNum 2)" "find (\<lambda>e. rs_model e = js ''m'' \<and> rs_ratioType e = js ''cache_ratio'') ?E = None"
    "overridden [] sample_selections (js ''m'') (js ''cache_ratio'')" by code_simp+
  have r: "Option.bind (obj_get (fst (run_events (sync_step []) [] ?es)) (js ''m''))
      (\<lambda>res. obj_get res (js ''cache_ratio'')) = Some (JNum 5)" by code_simp
  show ?thesis
    using effective_equals_applied [OF refl s f(1,2), of "[]" ?es "js ''m''"]
      effective_equals_applied [OF refl s f(3,4), of "[]" ?es "js ''m''"] e r
    by (auto simp: Let_def)
qed

text \<open>Removing fields removes exactly them, the expression and its mode together,
  and changes no other field of any model.\<close>

theorem removal_exact:
  assumes "sync_inv D r"
  shows "Option.bind (obj_get (applyResolutionRemovals r rs) m) (\<lambda>res. obj_get res f) =
     (if list_ex (\<lambda>x. rr_model x = m \<and> linked (rr_ratioType x) f) rs then None
      else Option.bind (obj_get r m) (\<lambda>res. obj_get res f))"
proof -
  have wf: "obj_wf r" "\<And>x. obj_get r m = Some x \<Longrightarrow> obj_wf x \<and> x \<noteq> []"
    using assms by (auto simp: sync_inv_def model_ok_def)
  from get_removals [OF wf, of m rs] obtain ts where
    ts: "set ts = {rr_ratioType x |x. x \<in> set rs \<and> rr_model x = m}" and
    g: "obj_get (applyResolutionRemovals r rs) m =
       (case obj_get r m of None \<Rightarrow> None
        | Some cur \<Rightarrow> let d = foldl remove_field cur ts in if d = [] then None else Some d)" by blast
  have "Option.bind (obj_get (applyResolutionRemovals r rs) m) (\<lambda>res. obj_get res f) =
      Option.bind (obj_get r m) (\<lambda>cur. obj_get (foldl remove_field cur ts) f)"
    unfolding g by (auto simp: Let_def split: option.split)
  moreover have "(\<exists>t\<in>set ts. linked t f) \<longleftrightarrow> list_ex (\<lambda>x. rr_model x = m \<and> linked (rr_ratioType x) f) rs"
    unfolding ts by (auto simp: list_ex_iff)
  ultimately show ?thesis by (cases "obj_get r m") (simp_all add: get_remove_fields)
qed

theorem removal_exact_witness:
  "let r = [(js ''m'', [(js ''billing_mode'', JStr (js ''tiered_expr'')), (js ''billing_expr'', JStr (js ''p''))])] in
     Option.bind (obj_get (applyResolutionRemovals r [\<lparr>rr_model = js ''m'', rr_ratioType = js ''billing_expr''\<rparr>])
       (js ''m'')) (\<lambda>res. obj_get res (js ''billing_mode'')) = None"
proof -
  let ?res = "[(js ''billing_mode'', JStr (js ''tiered_expr'')), (js ''billing_expr'', JStr (js ''p''))]"
  have "obj_wf ?res" "exclusive ?res" "obj_wf [(js ''m'', ?res)]" by code_simp+
  then have inv: "sync_inv [] [(js ''m'', ?res)]" by (auto simp: sync_inv_def model_ok_def)
  show ?thesis
    using removal_exact [OF inv, of "[\<lparr>rr_model = js ''m'', rr_ratioType = js ''billing_expr''\<rparr>]" "js ''m''"
        "js ''billing_mode''"]
    by (simp add: linked_def)
qed

end
