(* ===== verification/PlaygroundMessage.thy ===== *)
theory PlaygroundMessage
  imports JsString Complex_Main
begin

text \<open>
  The messages of the playground: \<open>features/playground/types.ts\<close>, \<open>constants.ts\<close> and the functions of
  \<open>lib/message/\<close>, which build a conversation, apply the chunks of a streamed answer to its last
  message, separate the reasoning between \<open><think>\<close> tags from the visible text, close messages that
  were interrupted, and decide what is rendered. Times are rational milliseconds. \<open>Date.now()\<close> is a
  function \<open>clk\<close> that gives the successive readings of one call, identifiers drawn by \<open>nanoid()\<close> are
  arguments, and \<open>tr\<close> is the translation function \<open>t\<close> of i18next.
\<close>

section \<open>Types and constants\<close>

datatype message_role = RoleUser | RoleAssistant | RoleSystem

datatype message_status = StLoading | StStreaming | StComplete | StError

record message_version =
  mv_id :: jstring
  mv_content :: jstring

record msg_reasoning =
  mr_content :: jstring
  mr_duration :: rat
  mr_startedAt :: "rat option"
  mr_completedAt :: "rat option"
  mr_durationMs :: "rat option"

record msg_source =
  ms_href :: jstring
  ms_title :: jstring

text \<open>The error code is undefined, null or a string.\<close>

record message =
  m_key :: jstring
  m_from :: message_role
  m_versions :: "message_version list"
  m_createdAt :: "rat option"
  m_startedAt :: "rat option"
  m_completedAt :: "rat option"
  m_durationMs :: "rat option"
  m_sources :: "msg_source list option"
  m_reasoning :: "msg_reasoning option"
  m_isReasoningStreaming :: "bool option"
  m_isReasoningComplete :: "bool option"
  m_isContentComplete :: "bool option"
  m_status :: "message_status option"
  m_errorCode :: "jstring option option"

datatype content_part = TextPart jstring | ImagePart jstring

datatype api_content = PlainContent jstring | PartsContent "content_part list"

record api_message =
  am_role :: message_role
  am_content :: api_content

record chat_choice_message =
  cm_content :: "jstring option"
  cm_reasoning_content :: "jstring option"

record chat_choice =
  cc_message :: "chat_choice_message option"

record chat_response =
  cr_choices :: "chat_choice list option"

text \<open>\<open>ERROR_MESSAGES\<close>.\<close>

definition API_REQUEST_ERROR :: jstring where
  "API_REQUEST_ERROR = js ''Request error occurred''"

definition NETWORK_ERROR :: jstring where
  "NETWORK_ERROR = js ''Network connection failed or server not responding''"

definition PARSE_ERROR :: jstring where
  "PARSE_ERROR = js ''Error parsing response data''"

definition STREAM_START_ERROR :: jstring where
  "STREAM_START_ERROR = js ''Error establishing connection''"

definition CONNECTION_CLOSED :: jstring where
  "CONNECTION_CLOSED = js ''Connection closed''"

definition INTERRUPTED :: jstring where
  "INTERRUPTED = js ''Generation was interrupted''"

text \<open>\<open>a || b\<close> on strings, and on strings that may be undefined.\<close>

definition or_str :: "jstring option \<Rightarrow> jstring \<Rightarrow> jstring" where
  "or_str a b = (case a of Some x \<Rightarrow> if x = [] then b else x | None \<Rightarrow> b)"

lemma or_str_simp [simp]: "or_str (Some x) [] = x" "or_str None y = y"
  by (simp_all add: or_str_def)

text \<open>\<open>a ?? b\<close> where \<open>b\<close> may be undefined too.\<close>

definition coalesce_opt :: "'a option \<Rightarrow> 'a option \<Rightarrow> 'a option" where
  "coalesce_opt a b = (case a of Some x \<Rightarrow> Some x | None \<Rightarrow> b)"


section \<open>\<open>message-utils.ts\<close>\<close>

definition createMessageVersion :: "jstring \<Rightarrow> jstring \<Rightarrow> message_version" where
  "createMessageVersion nid content = \<lparr>mv_id = nid, mv_content = content\<rparr>"

definition getCurrentVersion :: "message \<Rightarrow> message_version" where
  "getCurrentVersion m =
     (case m_versions m of v # _ \<Rightarrow> v | [] \<Rightarrow> \<lparr>mv_id = js ''default'', mv_content = []\<rparr>)"

definition getMessageContent :: "message \<Rightarrow> jstring" where
  "getMessageContent m = mv_content (getCurrentVersion m)"

definition hasMessageContent :: "message \<Rightarrow> bool" where
  "hasMessageContent m \<longleftrightarrow> trim (getMessageContent m) \<noteq> []"

definition updateCurrentVersionContent :: "message \<Rightarrow> jstring \<Rightarrow> message" where
  "updateCurrentVersionContent m content =
     m\<lparr>m_versions := [(getCurrentVersion m)\<lparr>mv_content := content\<rparr>]\<rparr>"

definition createUserMessage :: "jstring \<Rightarrow> jstring \<Rightarrow> jstring \<Rightarrow> rat \<Rightarrow> message" where
  "createUserMessage mkey vid content createdAt =
     \<lparr>m_key = mkey, m_from = RoleUser, m_versions = [createMessageVersion vid content],
      m_createdAt = Some createdAt, m_startedAt = None, m_completedAt = None, m_durationMs = None,
      m_sources = None, m_reasoning = None, m_isReasoningStreaming = None,
      m_isReasoningComplete = None, m_isContentComplete = None, m_status = None,
      m_errorCode = None\<rparr>"

definition createLoadingAssistantMessage :: "jstring \<Rightarrow> jstring \<Rightarrow> rat \<Rightarrow> message" where
  "createLoadingAssistantMessage mkey vid startedAt =
     \<lparr>m_key = mkey, m_from = RoleAssistant, m_versions = [createMessageVersion vid []],
      m_createdAt = Some startedAt, m_startedAt = Some startedAt, m_completedAt = None,
      m_durationMs = None, m_sources = None, m_reasoning = None,
      m_isReasoningStreaming = Some False, m_isReasoningComplete = Some False,
      m_isContentComplete = Some False, m_status = Some StLoading, m_errorCode = None\<rparr>"

definition buildMessageContent :: "jstring \<Rightarrow> jstring list \<Rightarrow> api_content" where
  "buildMessageContent txt imageUrls =
     (let validImages = filter (\<lambda>url. trim url \<noteq> []) imageUrls
      in if validImages = [] then PlainContent txt
         else PartsContent (TextPart txt # map (\<lambda>url. ImagePart (trim url)) validImages))"

fun is_text_part :: "content_part \<Rightarrow> bool" where
  "is_text_part (TextPart _) = True"
| "is_text_part (ImagePart _) = False"

fun getTextContent :: "api_content \<Rightarrow> jstring" where
  "getTextContent (PlainContent txt) = txt"
| "getTextContent (PartsContent parts) =
     (case find is_text_part parts of Some (TextPart txt) \<Rightarrow> txt | _ \<Rightarrow> [])"

definition formatMessageForAPI :: "message \<Rightarrow> api_message" where
  "formatMessageForAPI m =
     \<lparr>am_role = m_from m, am_content = PlainContent (mv_content (getCurrentVersion m))\<rparr>"

definition isValidMessage :: "message \<Rightarrow> bool" where
  "isValidMessage m \<longleftrightarrow>
     m_versions m \<noteq> [] \<and> \<not> (m_from m = RoleAssistant \<and> \<not> hasMessageContent m)"


section \<open>\<open>message-reasoning-utils.ts\<close>\<close>

definition think_open :: jstring where
  "think_open = js ''<think>''"

definition think_close :: jstring where
  "think_close = js ''</think>''"

text \<open>\<open>content.indexOf(p, pos)\<close>.\<close>

definition index_from :: "jstring \<Rightarrow> jstring \<Rightarrow> nat \<Rightarrow> nat option" where
  "index_from p s pos = map_option (\<lambda>i. pos + i) (indexOf p (drop pos s))"

record think_tags =
  tt_visibleContent :: jstring
  tt_reasoning :: jstring
  tt_hasUnclosedTag :: bool

text \<open>\<open>s.slice(a, b)\<close> for non-negative bounds.\<close>

definition slice :: "jstring \<Rightarrow> nat \<Rightarrow> nat \<Rightarrow> jstring" where
  "slice s a b = take (b - a) (drop a s)"

lemma index_from_bound: "index_from p s pos = Some i \<Longrightarrow> pos \<le> i"
  by (auto simp: index_from_def)

lemma index_from_length: "index_from p s pos = Some i \<Longrightarrow> pos \<le> length s \<Longrightarrow> i \<le> length s"
  using indexOf_Some_split [of p "drop pos s"] by (fastforce simp: index_from_def)

lemma index_from_drop: "index_from p s pos = Some i \<Longrightarrow> startsWith (drop i s) p"
  using indexOf_Some_split [of p "drop pos s"]
  by (auto simp: index_from_def add.commute)

lemma startsWith_length: "startsWith s p \<Longrightarrow> length p \<le> length s"
  by (metis startsWith_def length_take min.absorb_iff2 min.commute)

text \<open>The \<open>while (true)\<close> loop; every round moves past a closing tag, so it ends.\<close>

function think_loop ::
  "jstring \<Rightarrow> nat \<Rightarrow> jstring list \<Rightarrow> jstring list \<Rightarrow> jstring list \<times> jstring list \<times> bool" where
  "think_loop content currentPos visibleParts reasoningParts =
     (case index_from think_open content currentPos of
        None \<Rightarrow>
          (if currentPos < length content then visibleParts @ [drop currentPos content]
           else visibleParts, reasoningParts, False)
      | Some openPos \<Rightarrow>
          let visibleParts' = (if openPos > currentPos
                then visibleParts @ [slice content currentPos openPos] else visibleParts)
          in (case index_from think_close content (openPos + 7) of
                None \<Rightarrow> (visibleParts', reasoningParts @ [drop (openPos + 7) content], True)
              | Some closePos \<Rightarrow>
                  think_loop content (closePos + 8) visibleParts'
                    (reasoningParts @ [slice content (openPos + 7) closePos])))"
  by pat_completeness auto

termination
proof (relation "measure (\<lambda>(content, pos, _). length content + 1 - pos)", goal_cases)
  case (2 content currentPos visibleParts reasoningParts openPos visibleParts' closePos)
  from index_from_drop [OF 2(1)] have "length think_open \<le> length content - openPos"
    using startsWith_length by fastforce
  then have "openPos + 7 \<le> length content" by (simp add: think_open_def)
  with index_from_length [OF 2(3)] have "closePos \<le> length content" by simp
  moreover have "currentPos \<le> closePos"
    using index_from_bound [OF 2(1)] index_from_bound [OF 2(3)] by simp
  ultimately show ?case by simp
qed simp

declare think_loop.simps [simp del]

definition parseThinkTags :: "jstring \<Rightarrow> think_tags" where
  "parseThinkTags content =
     (if \<not> js_includes content think_open
      then \<lparr>tt_visibleContent = content, tt_reasoning = [], tt_hasUnclosedTag = False\<rparr>
      else (case think_loop content 0 [] [] of (visibleParts, reasoningParts, hasUnclosedTag) \<Rightarrow>
        \<lparr>tt_visibleContent = trim (concat visibleParts),
         tt_reasoning = trim (join [10, 10] reasoningParts),
         tt_hasUnclosedTag = hasUnclosedTag\<rparr>))"


section \<open>\<open>message-timing-utils.ts\<close>\<close>

definition completeAssistantTiming :: "message \<Rightarrow> rat \<Rightarrow> message" where
  "completeAssistantTiming m completedAt =
     (if m_from m \<noteq> RoleAssistant then m
      else let startedAt = coalesce (m_startedAt m) (coalesce (m_createdAt m) completedAt)
           in m\<lparr>m_startedAt := Some startedAt, m_completedAt := Some completedAt,
                m_durationMs := Some (max 0 (completedAt - startedAt))\<rparr>)"

definition startReasoningTiming :: "message \<Rightarrow> rat \<Rightarrow> msg_reasoning" where
  "startReasoningTiming m startedAt =
     \<lparr>mr_content = coalesce (map_option mr_content (m_reasoning m)) [],
      mr_duration = coalesce (map_option mr_duration (m_reasoning m)) 0,
      mr_startedAt = Some (coalesce (Option.bind (m_reasoning m) mr_startedAt) startedAt),
      mr_completedAt = Option.bind (m_reasoning m) mr_completedAt,
      mr_durationMs = Option.bind (m_reasoning m) mr_durationMs\<rparr>"

definition completeReasoningTiming :: "message \<Rightarrow> rat \<Rightarrow> message" where
  "completeReasoningTiming m completedAt =
     (case m_reasoning m of
        None \<Rightarrow> m
      | Some r \<Rightarrow>
          if mr_durationMs r \<noteq> None then m
          else let startedAt = coalesce (mr_startedAt r) (coalesce (m_startedAt m) completedAt);
                   durationMs = max 0 (completedAt - startedAt)
               in m\<lparr>m_reasoning := Some (r\<lparr>mr_startedAt := Some startedAt,
                      mr_completedAt := Some completedAt, mr_durationMs := Some durationMs,
                      mr_duration := of_int \<lceil>durationMs / 1000\<rceil>\<rparr>)\<rparr>)"


section \<open>\<open>message-streaming-utils.ts\<close>\<close>

definition processStreamingContent :: "message \<Rightarrow> jstring option \<Rightarrow> rat \<Rightarrow> message" where
  "processStreamingContent m contentChunk now =
     (let fullContent = getMessageContent m @ coalesce contentChunk []
      in if m_reasoning m = None \<and> \<not> js_includes fullContent think_open
         then (updateCurrentVersionContent m fullContent)\<lparr>m_isReasoningStreaming := Some False\<rparr>
         else let tags = parseThinkTags fullContent;
                  finalReasoning = (if tt_reasoning tags \<noteq> []
                    then Some ((startReasoningTiming m now)\<lparr>mr_content := tt_reasoning tags\<rparr>)
                    else m_reasoning m)
              in (updateCurrentVersionContent m fullContent)
                   \<lparr>m_reasoning := finalReasoning,
                    m_isReasoningStreaming := Some (tt_hasUnclosedTag tags)\<rparr>)"

datatype stream_chunk_type = ChunkReasoning | ChunkContent

definition getAppendableChunk :: "jstring \<Rightarrow> jstring \<Rightarrow> jstring" where
  "getAppendableChunk currentContent chunk =
     (if currentContent = [] \<or> \<not> startsWith chunk currentContent then chunk
      else drop (length currentContent) chunk)"

definition applyStreamingChunk ::
  "message \<Rightarrow> stream_chunk_type \<Rightarrow> jstring \<Rightarrow> (nat \<Rightarrow> rat) \<Rightarrow> message" where
  "applyStreamingChunk m ty chunk clk =
     (if m_status m = Some StError then m
      else if ty = ChunkReasoning then
        (let r = startReasoningTiming m (clk 0);
             appendableChunk = getAppendableChunk (mr_content r) chunk
         in m\<lparr>m_reasoning := Some (r\<lparr>mr_content := mr_content r @ appendableChunk\<rparr>),
              m_isReasoningStreaming := Some True, m_status := Some StStreaming\<rparr>)
      else
        (let appendableChunk = getAppendableChunk (getMessageContent m) chunk;
             contentMessage = processStreamingContent m (Some appendableChunk) (clk 0)
         in (if m_isReasoningStreaming contentMessage = Some True then contentMessage
             else completeReasoningTiming contentMessage (clk 1))\<lparr>m_status := Some StStreaming\<rparr>))"

definition finalizeMessage :: "message \<Rightarrow> jstring option \<Rightarrow> (nat \<Rightarrow> rat) \<Rightarrow> message" where
  "finalizeMessage m apiReasoningContent clk =
     (let content = getMessageContent m;
          parsedThinkTags = (if js_includes content think_open
            then Some (parseThinkTags content) else None);
          visibleContent = coalesce (map_option tt_visibleContent parsedThinkTags) content;
          finalReasoning = or_str apiReasoningContent
            (or_str (map_option mr_content (m_reasoning m))
              (or_str (map_option tt_reasoning parsedThinkTags) []));
          finalized = (updateCurrentVersionContent m visibleContent)
            \<lparr>m_reasoning := (if finalReasoning \<noteq> []
               then Some ((startReasoningTiming m (clk 0))\<lparr>mr_content := finalReasoning\<rparr>) else None),
             m_isReasoningStreaming := Some False\<rparr>
      in completeReasoningTiming finalized (clk 1))"

definition completeAssistantMessage :: "message \<Rightarrow> (nat \<Rightarrow> rat) \<Rightarrow> message" where
  "completeAssistantMessage m clk =
     completeAssistantTiming ((finalizeMessage m None clk)\<lparr>m_status := Some StComplete\<rparr>) (clk 2)"

definition isAssistantMessageFinal :: "message \<Rightarrow> bool" where
  "isAssistantMessageFinal m \<longleftrightarrow> m_status m = Some StComplete \<or> m_status m = Some StError"

definition isAssistantMessagePending :: "message \<Rightarrow> bool" where
  "isAssistantMessagePending m \<longleftrightarrow> m_status m = Some StLoading \<or> m_status m = Some StStreaming"

definition isPendingAssistantMessage :: "message option \<Rightarrow> bool" where
  "isPendingAssistantMessage mo \<longleftrightarrow>
     (case mo of Some m \<Rightarrow> m_from m = RoleAssistant \<and> isAssistantMessagePending m | None \<Rightarrow> False)"

text \<open>\<open>response.choices?.[0]\<close>.\<close>

definition first_choice :: "chat_response \<Rightarrow> chat_choice option" where
  "first_choice response = (case cr_choices response of Some (c # _) \<Rightarrow> Some c | _ \<Rightarrow> None)"

definition hasChatCompletionChoice :: "chat_response \<Rightarrow> bool" where
  "hasChatCompletionChoice response \<longleftrightarrow> first_choice response \<noteq> None"

definition applyChatCompletionChoice :: "message \<Rightarrow> chat_choice \<Rightarrow> (nat \<Rightarrow> rat) \<Rightarrow> message" where
  "applyChatCompletionChoice m choice clk =
     completeAssistantTiming
       ((finalizeMessage
           (updateCurrentVersionContent m
             (or_str (Option.bind (cc_message choice) cm_content) []))
           (Option.bind (cc_message choice) cm_reasoning_content) clk)
         \<lparr>m_status := Some StComplete\<rparr>) (clk 2)"

definition applyChatCompletionResponse ::
  "message \<Rightarrow> chat_response \<Rightarrow> (nat \<Rightarrow> rat) \<Rightarrow> message option" where
  "applyChatCompletionResponse m response clk =
     (case first_choice response of
        None \<Rightarrow> None
      | Some choice \<Rightarrow> Some (applyChatCompletionChoice m choice clk))"

text \<open>The backward loop of \<open>sanitizeMessagesOnLoad\<close>: the greatest index below \<open>n\<close> with \<open>P\<close>.\<close>

fun last_index :: "('a \<Rightarrow> bool) \<Rightarrow> 'a list \<Rightarrow> nat \<Rightarrow> nat option" where
  "last_index P xs 0 = None"
| "last_index P xs (Suc i) = (if P (xs ! i) then Some i else last_index P xs i)"

definition sanitizeMessagesOnLoad ::
  "(jstring \<Rightarrow> jstring) \<Rightarrow> message list \<Rightarrow> (nat \<Rightarrow> rat) \<Rightarrow> message list" where
  "sanitizeMessagesOnLoad tr messages clk =
     (case last_index (\<lambda>m. isPendingAssistantMessage (Some m)) messages (length messages) of
        None \<Rightarrow> messages
      | Some targetIndex \<Rightarrow>
          let finalized = finalizeMessage (messages ! targetIndex) None clk;
              hasReasoning = (case m_reasoning finalized of
                Some r \<Rightarrow> trim (mr_content r) \<noteq> [] | None \<Rightarrow> False);
              sanitized = (if hasMessageContent finalized \<or> hasReasoning
                then completeAssistantTiming
                  (finalized\<lparr>m_status := Some StComplete, m_isReasoningStreaming := Some False\<rparr>) (clk 2)
                else completeAssistantTiming
                  ((updateCurrentVersionContent finalized
                      (tr API_REQUEST_ERROR @ js '': '' @ tr INTERRUPTED))
                    \<lparr>m_status := Some StError, m_isReasoningStreaming := Some False\<rparr>) (clk 2))
          in messages[targetIndex := sanitized])"


section \<open>\<open>message-update-utils.ts\<close>\<close>

definition updateLastAssistantMessage ::
  "message list \<Rightarrow> (message \<Rightarrow> message) \<Rightarrow> message list" where
  "updateLastAssistantMessage messages updater =
     (if messages = [] then messages
      else let lst = last messages
           in if m_from lst \<noteq> RoleAssistant then messages
              else messages[length messages - 1 := updater lst])"

definition updateAssistantMessageWithError ::
  "message list \<Rightarrow> jstring \<Rightarrow> jstring option \<Rightarrow> jstring \<Rightarrow> rat \<Rightarrow> message list" where
  "updateAssistantMessageWithError messages errorMessage errorCode title now =
     updateLastAssistantMessage messages (\<lambda>m.
       let updatedMessage = updateCurrentVersionContent m (title @ js '': '' @ errorMessage)
       in completeAssistantTiming
            (updatedMessage\<lparr>m_status := Some StError, m_isReasoningStreaming := Some False,
               m_errorCode := Some (if or_str errorCode [] = [] then None else errorCode)\<rparr>) now)"


section \<open>\<open>conversation-message-utils.ts\<close>\<close>

text \<open>Keys and version identifiers of the created messages are arguments.\<close>

definition appendUserMessagePair ::
  "message list \<Rightarrow> jstring \<Rightarrow> (nat \<Rightarrow> jstring) \<Rightarrow> rat \<Rightarrow> message list" where
  "appendUserMessagePair messages content ids submittedAt =
     messages @ [createUserMessage (ids 0) (ids 1) content submittedAt,
                 createLoadingAssistantMessage (ids 2) (ids 3) submittedAt]"

fun findIndex :: "('a \<Rightarrow> bool) \<Rightarrow> 'a list \<Rightarrow> nat option" where
  "findIndex P [] = None"
| "findIndex P (x # xs) = (if P x then Some 0 else map_option Suc (findIndex P xs))"

definition createRegeneratedMessages ::
  "message list \<Rightarrow> jstring \<Rightarrow> (nat \<Rightarrow> jstring) \<Rightarrow> rat \<Rightarrow> message list option" where
  "createRegeneratedMessages messages messageKey ids now =
     (case findIndex (\<lambda>m. m_key m = messageKey) messages of
        None \<Rightarrow> None
      | Some messageIndex \<Rightarrow>
          if m_from (messages ! messageIndex) = RoleUser
          then Some (take (messageIndex + 1) messages @
                     [createLoadingAssistantMessage (ids 0) (ids 1) now])
          else Some (take messageIndex messages @
                     [createLoadingAssistantMessage (ids 0) (ids 1) now]))"

definition removeMessageByKey :: "message list \<Rightarrow> jstring \<Rightarrow> message list" where
  "removeMessageByKey messages messageKey = filter (\<lambda>m. m_key m \<noteq> messageKey) messages"

fun getPreviousUserMessage :: "message list \<Rightarrow> nat \<Rightarrow> message option" where
  "getPreviousUserMessage messages 0 = None"
| "getPreviousUserMessage messages (Suc i) =
     (if m_from (messages ! i) = RoleUser then Some (messages ! i)
      else getPreviousUserMessage messages i)"

definition edit_message :: "jstring \<Rightarrow> jstring \<Rightarrow> bool \<Rightarrow> rat \<Rightarrow> message \<Rightarrow> message" where
  "edit_message messageKey content shouldSubmit submittedAt m =
     (if m_key m = messageKey
      then (updateCurrentVersionContent m content)
             \<lparr>m_createdAt := (if shouldSubmit then Some submittedAt else m_createdAt m)\<rparr>
      else m)"

definition applyMessageEdit ::
  "message list \<Rightarrow> jstring \<Rightarrow> jstring \<Rightarrow> bool \<Rightarrow> (nat \<Rightarrow> jstring) \<Rightarrow> rat \<Rightarrow>
     (message list \<times> bool) option" where
  "applyMessageEdit messages messageKey content shouldSubmit ids submittedAt =
     (case findIndex (\<lambda>m. m_key m = messageKey) messages of
        None \<Rightarrow> None
      | Some messageIndex \<Rightarrow>
          let updatedMessages = map (edit_message messageKey content shouldSubmit submittedAt) messages
          in if \<not> shouldSubmit \<or> m_from (updatedMessages ! messageIndex) \<noteq> RoleUser
             then Some (updatedMessages, False)
             else Some (take (messageIndex + 1) updatedMessages @
                        [createLoadingAssistantMessage (ids 0) (ids 1) submittedAt], True))"

definition getEditingMessageContent :: "message list \<Rightarrow> jstring option \<Rightarrow> jstring" where
  "getEditingMessageContent messages editingKey =
     (if or_str editingKey [] = [] then []
      else (case find (\<lambda>m. Some (m_key m) = editingKey) messages of
              Some m \<Rightarrow> getMessageContent m | None \<Rightarrow> []))"

record chat_render_state =
  cs_alwaysShowActions :: bool
  cs_content :: jstring
  cs_isEditing :: bool

definition getChatMessageRenderState ::
  "message list \<Rightarrow> message \<Rightarrow> nat \<Rightarrow> jstring option \<Rightarrow> chat_render_state" where
  "getChatMessageRenderState messages m messageIndex editingKey =
     \<lparr>cs_alwaysShowActions = (messageIndex + 1 = length messages \<and> m_from m = RoleAssistant),
      cs_content = getMessageContent m,
      cs_isEditing = (editingKey = Some (m_key m))\<rparr>"


section \<open>What is rendered of a message\<close>

definition shouldShowMessageLoader :: "message \<Rightarrow> bool \<Rightarrow> jstring \<Rightarrow> bool" where
  "shouldShowMessageLoader m isAssistant versionContent \<longleftrightarrow>
     isAssistant \<and> m_isReasoningStreaming m \<noteq> Some True \<and>
     (m_status m = Some StLoading \<or> (m_status m = Some StStreaming \<and> versionContent = []))"

definition shouldShowMessageContent :: "message \<Rightarrow> jstring \<Rightarrow> bool" where
  "shouldShowMessageContent m versionContent \<longleftrightarrow>
     (m_from m = RoleUser \<or> m_isReasoningStreaming m \<noteq> Some True) \<and> length versionContent > 0"

definition getDisplayContent :: "message \<Rightarrow> jstring \<Rightarrow> jstring" where
  "getDisplayContent m versionContent =
     (if m_from m \<noteq> RoleAssistant then versionContent
      else if \<not> js_includes versionContent think_open then versionContent
      else tt_visibleContent (parseThinkTags versionContent))"

text \<open>\<open>hasReasoning\<close> is whether \<open>mcs_reasoningContent\<close> is defined.\<close>

record message_content_state =
  mcs_displayContent :: jstring
  mcs_isAssistant :: bool
  mcs_showLoader :: bool
  mcs_showMessageContent :: bool
  mcs_sources :: "msg_source list"
  mcs_reasoningContent :: "jstring option"

definition getMessageContentState :: "message \<Rightarrow> jstring \<Rightarrow> message_content_state" where
  "getMessageContentState m versionContent =
     (let isAssistant = (m_from m = RoleAssistant);
          reasoningContent = (if isAssistant then map_option mr_content (m_reasoning m) else None)
      in \<lparr>mcs_displayContent = getDisplayContent m versionContent,
          mcs_isAssistant = isAssistant,
          mcs_showLoader = shouldShowMessageLoader m isAssistant versionContent,
          mcs_showMessageContent = shouldShowMessageContent m versionContent,
          mcs_sources = coalesce (m_sources m) [],
          mcs_reasoningContent = (if or_str reasoningContent [] = [] then None else reasoningContent)\<rparr>)"

record message_action_state =
  mas_content :: jstring
  mas_hasContent :: bool
  mas_isAssistant :: bool
  mas_isLoading :: bool
  mas_isUser :: bool

definition getMessageActionState :: "message \<Rightarrow> message_action_state" where
  "getMessageActionState m =
     \<lparr>mas_content = getMessageContent m, mas_hasContent = hasMessageContent m,
      mas_isAssistant = (m_from m = RoleAssistant),
      mas_isLoading = (m_status m = Some StLoading \<or> m_status m = Some StStreaming),
      mas_isUser = (m_from m = RoleUser)\<rparr>"

definition MODEL_PRICE_ERROR_CODE :: jstring where
  "MODEL_PRICE_ERROR_CODE = js ''model_price_error''"

definition FALLBACK_ERROR_CONTENT :: jstring where
  "FALLBACK_ERROR_CONTENT = js ''An unknown error occurred''"

datatype error_kind = GenericError | ModelPriceError

record message_error_state =
  mes_content :: jstring
  mes_kind :: error_kind
  mes_showSettingsLink :: bool

definition isAdminRole :: "rat option \<Rightarrow> bool" where
  "isAdminRole role = (case role of None \<Rightarrow> False | Some r \<Rightarrow> r \<ge> 10)"

definition isErrorMessage :: "message \<Rightarrow> bool" where
  "isErrorMessage m \<longleftrightarrow> m_status m = Some StError"

definition getMessageErrorState :: "message \<Rightarrow> bool \<Rightarrow> message_error_state option" where
  "getMessageErrorState m isAdmin =
     (if \<not> isErrorMessage m then None
      else let isModelPriceError = (m_errorCode m = Some (Some MODEL_PRICE_ERROR_CODE))
           in Some \<lparr>mes_content = or_str (Some (getMessageContent m)) FALLBACK_ERROR_CONTENT,
                    mes_kind = (if isModelPriceError then ModelPriceError else GenericError),
                    mes_showSettingsLink = (isModelPriceError \<and> isAdmin)\<rparr>)"

record message_editor_state =
  eds_canSave :: bool
  eds_hasChanged :: bool
  eds_showSaveAndSubmit :: bool

definition getMessageEditorState :: "message \<Rightarrow> jstring \<Rightarrow> jstring \<Rightarrow> message_editor_state" where
  "getMessageEditorState m editText originalText =
     (let hasText = (length (trim editText) > 0); hasChanged = (editText \<noteq> originalText)
      in \<lparr>eds_canSave = (hasText \<and> hasChanged), eds_hasChanged = hasChanged,
          eds_showSaveAndSubmit = (m_from m = RoleUser)\<rparr>)"

datatype message_alignment = AlignLeft | AlignRight

datatype layout_mode = LayoutAlternating | LayoutLeft

definition getMessageAlignment :: "message \<Rightarrow> layout_mode \<Rightarrow> message_alignment" where
  "getMessageAlignment m layoutMode =
     (if layoutMode = LayoutLeft then AlignLeft
      else if m_from m = RoleUser then AlignRight else AlignLeft)"


section \<open>Searching for a tag\<close>

text \<open>A tag whose first unit does not occur again in it cannot overlap the text before it, so it
  is found right after a text that does not contain it.\<close>

lemma indexOf_append_tag:
  assumes "indexOf (c # q) v = None" and "c \<notin> set q"
  shows "indexOf (c # q) (v @ (c # q) @ r) = Some (length v)"
  using assms(1)
proof (induction v)
  case Nil
  show ?case by (cases r) (auto simp: startsWith_def)
next
  case (Cons u v)
  from Cons.prems have n: "\<not> startsWith (u # v) (c # q)" and t: "indexOf (c # q) v = None"
    by (auto split: if_splits)
  have "\<not> startsWith ((u # v) @ (c # q) @ r) (c # q)"
  proof
    assume s: "startsWith ((u # v) @ (c # q) @ r) (c # q)"
    show False
    proof (cases "length q \<le> length v")
      case True
      with s n show False by (simp add: startsWith_def)
    next
      case False
      then have l: "length v < length q" by simp
      from s have tk: "take (length q) (v @ (c # q) @ r) = q" by (simp add: startsWith_def)
      have "take (length q) (v @ (c # q) @ r) ! length v = (v @ (c # q) @ r) ! length v"
        by (rule nth_take [OF l])
      also have "\<dots> = c" by (simp add: nth_append)
      finally have "q ! length v = c" by (simp only: tk)
      with l assms(2) show False using nth_mem by blast
    qed
  qed
  with Cons.IH [OF t] show ?case by simp
qed

lemma indexOf_first: "indexOf p s = Some i \<Longrightarrow> p \<noteq> [] \<Longrightarrow> indexOf p (take i s) = None"
proof (induction s arbitrary: i)
  case (Cons u s)
  show ?case
  proof (cases "startsWith (u # s) p")
    case False
    with Cons.prems obtain j where j: "i = Suc j" "indexOf p s = Some j" by auto
    have "\<not> startsWith (u # take j s) p"
    proof
      assume "startsWith (u # take j s) p"
      then obtain t where "u # take j s = p @ t" by (auto simp: startsWith_iff)
      then have "u # s = p @ t @ drop j s" by (metis append.assoc append_Cons append_take_drop_id)
      with False show False by (auto simp: startsWith_iff)
    qed
    with j Cons.IH [OF j(2) Cons.prems(2)] show ?thesis by simp
  qed (use Cons.prems in auto)
qed simp

lemma js_includes_append: "js_includes s p \<Longrightarrow> js_includes (s @ t) p"
  by (auto simp: js_includes_iff) (metis append.assoc)

lemma indexOf_NoneD: "\<not> js_includes v p \<Longrightarrow> indexOf p v = None"
  by (simp add: js_includes_def)

lemma index_from_append: "index_from p (pre @ s) (length pre) = map_option ((+) (length pre)) (indexOf p s)"
  by (simp add: index_from_def)

lemma open_borderless: "think_open = 60 # tl think_open \<and> 60 \<notin> set (tl think_open)"
  by (simp add: think_open_def js_lit)

lemma close_borderless: "think_close = 60 # tl think_close \<and> 60 \<notin> set (tl think_close)"
  by (simp add: think_close_def js_lit)

lemma length_tags [simp]: "length think_open = 7" "length think_close = 8"
  by (simp_all add: think_open_def think_close_def)

lemma tags_ne [simp]: "think_open \<noteq> []" "think_close \<noteq> []"
  by (simp_all add: think_open_def think_close_def)

lemma find_open: "\<not> js_includes v think_open \<Longrightarrow> indexOf think_open (v @ think_open @ r) = Some (length v)"
  using indexOf_append_tag [of 60 "tl think_open" v r] open_borderless indexOf_NoneD by simp

lemma find_close: "\<not> js_includes v think_close \<Longrightarrow> indexOf think_close (v @ think_close @ r) = Some (length v)"
  using indexOf_append_tag [of 60 "tl think_close" v r] close_borderless indexOf_NoneD by simp


section \<open>Thinking and visible text\<close>

text \<open>A text with think tags is a visible part, then closed reasoning sections each followed by a
  visible part, then possibly a section that is never closed. The parts are clean when no
  visible part contains the opening tag and no reasoning part contains the closing one.\<close>

definition render_think :: "jstring \<Rightarrow> (jstring \<times> jstring) list \<Rightarrow> jstring option \<Rightarrow> jstring" where
  "render_think v0 segs unclosed =
     v0 @ concat (map (\<lambda>(r, v). think_open @ r @ think_close @ v) segs) @
     (case unclosed of None \<Rightarrow> [] | Some r \<Rightarrow> think_open @ r)"

definition clean_think :: "jstring \<Rightarrow> (jstring \<times> jstring) list \<Rightarrow> jstring option \<Rightarrow> bool" where
  "clean_think v0 segs unclosed \<longleftrightarrow>
     \<not> js_includes v0 think_open \<and>
     list_all (\<lambda>(r, v). \<not> js_includes r think_close \<and> \<not> js_includes v think_open) segs \<and>
     (case unclosed of None \<Rightarrow> True | Some r \<Rightarrow> \<not> js_includes r think_close)"

definition think_parts :: "(jstring \<times> jstring) list \<Rightarrow> jstring option \<Rightarrow> jstring list" where
  "think_parts segs unclosed = map fst segs @ (case unclosed of None \<Rightarrow> [] | Some r \<Rightarrow> [r])"

lemma think_loop_render:
  "clean_think v0 segs unclosed \<Longrightarrow>
   think_loop (pre @ render_think v0 segs unclosed) (length pre) vs rs =
     (vs @ filter (\<lambda>x. x \<noteq> []) (v0 # map snd segs), rs @ think_parts segs unclosed, unclosed \<noteq> None)"
proof (induction segs arbitrary: pre v0 vs rs)
  case Nil
  show ?case
  proof (cases unclosed)
    case None
    with Nil show ?thesis
      by (subst think_loop.simps)
        (auto simp: render_think_def clean_think_def think_parts_def index_from_append indexOf_NoneD)
  next
    case (Some r)
    with Nil have o: "index_from think_open (pre @ v0 @ think_open @ r) (length pre) =
        Some (length pre + length v0)"
      by (simp add: clean_think_def index_from_append find_open)
    from Some Nil have c: "index_from think_close (pre @ v0 @ think_open @ r)
        (length pre + length v0 + 7) = None"
      using index_from_append [of think_close "pre @ v0 @ think_open" r]
      by (simp add: clean_think_def indexOf_NoneD add.assoc)
    show ?thesis
      unfolding Some
      by (subst think_loop.simps)
        (simp add: render_think_def think_parts_def o c slice_def)
  qed
next
  case (Cons s segs)
  obtain r v where s: "s = (r, v)" by (cases s)
  define rest where "rest = render_think v segs unclosed"
  define pre' where "pre' = pre @ v0 @ think_open @ r @ think_close"
  have content: "pre @ render_think v0 (s # segs) unclosed =
      pre @ v0 @ think_open @ r @ think_close @ rest"
    by (simp add: s render_think_def rest_def)
  have content': "pre @ v0 @ think_open @ r @ think_close @ rest = pre' @ render_think v segs unclosed"
    by (simp add: pre'_def rest_def)
  from Cons.prems s have cl: "\<not> js_includes v0 think_open" "\<not> js_includes r think_close"
    "clean_think v segs unclosed"
    by (auto simp: clean_think_def)
  have o: "index_from think_open (pre @ v0 @ think_open @ r @ think_close @ rest) (length pre) =
      Some (length pre + length v0)"
    using cl by (simp add: index_from_append find_open)
  have c: "index_from think_close (pre @ v0 @ think_open @ r @ think_close @ rest)
      (length pre + length v0 + 7) = Some (length pre + length v0 + 7 + length r)"
    using index_from_append [of think_close "pre @ v0 @ think_open" "r @ think_close @ rest"] cl
    by (simp add: find_close add.assoc)
  have p: "length pre + length v0 + 7 + length r + 8 = length pre'"
    by (simp add: pre'_def)
  have "think_loop (pre @ render_think v0 (s # segs) unclosed) (length pre) vs rs =
      think_loop (pre' @ render_think v segs unclosed) (length pre')
        (vs @ filter (\<lambda>x. x \<noteq> []) [v0]) (rs @ [r])"
    unfolding content content' [symmetric] p [symmetric]
    by (subst think_loop.simps) (simp add: o c slice_def)
  also have "\<dots> = (vs @ filter (\<lambda>x. x \<noteq> []) (v0 # map snd (s # segs)),
      rs @ think_parts (s # segs) unclosed, unclosed \<noteq> None)"
    by (subst Cons.IH [OF cl(3)]) (simp add: s think_parts_def)
  finally show ?case .
qed

lemma concat_filter_ne: "concat (filter (\<lambda>x. x \<noteq> []) xs) = concat xs"
  by (induction xs) auto

lemma render_includes:
  "clean_think v0 segs unclosed \<Longrightarrow>
   js_includes (render_think v0 segs unclosed) think_open \<longleftrightarrow> \<not> (segs = [] \<and> unclosed = None)"
proof -
  assume c: "clean_think v0 segs unclosed"
  have "js_includes (render_think v0 segs unclosed) think_open" if "segs = s # segs'" for s segs'
    using that
    by (cases s) (auto simp: js_includes_iff render_think_def)
  moreover have "js_includes (render_think v0 [] (Some r)) think_open" for r
    by (auto simp: js_includes_iff render_think_def)
  ultimately show ?thesis
    using c by (cases segs; cases unclosed) (auto simp: render_think_def clean_think_def)
qed

lemma parseThinkTags_render:
  assumes "clean_think v0 segs unclosed" and "\<not> (segs = [] \<and> unclosed = None)"
  shows "parseThinkTags (render_think v0 segs unclosed) =
     \<lparr>tt_visibleContent = trim (concat (v0 # map snd segs)),
      tt_reasoning = trim (join [10, 10] (think_parts segs unclosed)),
      tt_hasUnclosedTag = (unclosed \<noteq> None)\<rparr>"
  using think_loop_render [OF assms(1), of "[]" "[]" "[]"] render_includes [OF assms(1)] assms(2)
  by (simp add: parseThinkTags_def concat_filter_ne del: concat.simps) (simp add: concat_filter_ne)

lemma think_decomposition: "\<exists>v0 segs unclosed. s = render_think v0 segs unclosed \<and> clean_think v0 segs unclosed"
proof (induction s rule: length_induct)
  case (1 s)
  show ?case
  proof (cases "indexOf think_open s")
    case None
    then have "s = render_think s [] None \<and> clean_think s [] None"
      by (simp add: render_think_def clean_think_def js_includes_def)
    then show ?thesis by blast
  next
    case (Some i)
    define a where "a = take i s"
    from Some have sw: "startsWith (drop i s) think_open" and v: "\<not> js_includes a think_open"
      by (auto simp: indexOf_Some_split js_includes_def indexOf_first a_def)
    from sw obtain w where w: "drop i s = think_open @ w" by (auto simp: startsWith_iff)
    have s: "s = a @ think_open @ w" unfolding a_def w [symmetric] by simp
    show ?thesis
    proof (cases "indexOf think_close w")
      case None
      then have "s = render_think a [] (Some w) \<and> clean_think a [] (Some w)"
        using s v by (simp add: render_think_def clean_think_def js_includes_def)
      then show ?thesis by blast
    next
      case (Some j)
      define b where "b = take j w"
      from Some have sw': "startsWith (drop j w) think_close" and r: "\<not> js_includes b think_close"
        by (auto simp: indexOf_Some_split js_includes_def indexOf_first b_def)
      from sw' obtain u where u: "drop j w = think_close @ u" by (auto simp: startsWith_iff)
      have w': "w = b @ think_close @ u" unfolding b_def u [symmetric] by simp
      have "length u < length s" by (simp add: s w')
      with 1 obtain v' segs unclosed
        where d: "u = render_think v' segs unclosed" "clean_think v' segs unclosed"
        by blast
      have "s = render_think a ((b, v') # segs) unclosed \<and> clean_think a ((b, v') # segs) unclosed"
        using v r d(2) unfolding s w' d(1) by (simp add: render_think_def clean_think_def)
      then show ?thesis by blast
    qed
  qed
qed


section \<open>Streaming an answer\<close>

lemma getMessageContent_simps [simp]:
  "getMessageContent (updateCurrentVersionContent m c) = c"
  "getMessageContent (m\<lparr>m_status := st\<rparr>) = getMessageContent m"
  "getMessageContent (m\<lparr>m_reasoning := r\<rparr>) = getMessageContent m"
  "getMessageContent (m\<lparr>m_isReasoningStreaming := b\<rparr>) = getMessageContent m"
  "getMessageContent (completeReasoningTiming m t) = getMessageContent m"
  "getMessageContent (completeAssistantTiming m t) = getMessageContent m"
  by (auto simp: getMessageContent_def updateCurrentVersionContent_def getCurrentVersion_def
      completeReasoningTiming_def completeAssistantTiming_def Let_def split: option.split)

text \<open>What completing the timings leaves alone.\<close>

lemma completeReasoningTiming_simps [simp]:
  "m_status (completeReasoningTiming m t) = m_status m"
  "m_from (completeReasoningTiming m t) = m_from m"
  "m_key (completeReasoningTiming m t) = m_key m"
  "m_versions (completeReasoningTiming m t) = m_versions m"
  "m_isReasoningStreaming (completeReasoningTiming m t) = m_isReasoningStreaming m"
  "map_option mr_content (m_reasoning (completeReasoningTiming m t)) = map_option mr_content (m_reasoning m)"
  by (auto simp: completeReasoningTiming_def Let_def split: option.split)

lemma completeAssistantTiming_simps [simp]:
  "m_status (completeAssistantTiming m t) = m_status m"
  "m_from (completeAssistantTiming m t) = m_from m"
  "m_key (completeAssistantTiming m t) = m_key m"
  "m_versions (completeAssistantTiming m t) = m_versions m"
  "m_reasoning (completeAssistantTiming m t) = m_reasoning m"
  "m_isReasoningStreaming (completeAssistantTiming m t) = m_isReasoningStreaming m"
  by (auto simp: completeAssistantTiming_def Let_def)

lemma updateCurrentVersionContent_simps [simp]:
  "m_status (updateCurrentVersionContent m c) = m_status m"
  "m_from (updateCurrentVersionContent m c) = m_from m"
  "m_key (updateCurrentVersionContent m c) = m_key m"
  "m_reasoning (updateCurrentVersionContent m c) = m_reasoning m"
  "m_isReasoningStreaming (updateCurrentVersionContent m c) = m_isReasoningStreaming m"
  by (auto simp: updateCurrentVersionContent_def)

text \<open>The text and reasoning a finished message shows for a raw text.\<close>

definition visible_text :: "jstring \<Rightarrow> jstring" where
  "visible_text raw = tt_visibleContent (parseThinkTags raw)"

definition thinking_text :: "jstring \<Rightarrow> jstring option" where
  "thinking_text raw = (let r = tt_reasoning (parseThinkTags raw) in if r = [] then None else Some r)"

lemma parse_no_tag [simp]: "\<not> js_includes s think_open \<Longrightarrow>
    parseThinkTags s = \<lparr>tt_visibleContent = s, tt_reasoning = [], tt_hasUnclosedTag = False\<rparr>"
  by (simp add: parseThinkTags_def)

lemma finalize_content [simp]:
  "getMessageContent (finalizeMessage m api clk) = visible_text (getMessageContent m)"
  by (simp add: finalizeMessage_def Let_def visible_text_def coalesce_def)

lemma finalize_reasoning:
  "map_option mr_content (m_reasoning (finalizeMessage m api clk)) =
     (let r = or_str api (or_str (map_option mr_content (m_reasoning m))
        (or_str (thinking_text (getMessageContent m)) []))
      in if r = [] then None else Some r)"
  by (auto simp: finalizeMessage_def Let_def thinking_text_def or_str_def split: option.split)

lemma finalize_simps [simp]:
  "m_status (finalizeMessage m api clk) = m_status m"
  "m_from (finalizeMessage m api clk) = m_from m"
  "m_key (finalizeMessage m api clk) = m_key m"
  "m_isReasoningStreaming (finalizeMessage m api clk) = Some False"
  by (simp_all add: finalizeMessage_def Let_def)

text \<open>A chunk is a fresh delta when it does not start with the whole text so far (such a chunk is
  taken for a snapshot of the text).\<close>

definition fresh_delta :: "jstring \<Rightarrow> jstring \<Rightarrow> bool" where
  "fresh_delta current chunk \<longleftrightarrow> current = [] \<or> \<not> startsWith chunk current"

fun fresh_deltas :: "jstring \<Rightarrow> jstring list \<Rightarrow> bool" where
  "fresh_deltas current [] \<longleftrightarrow> True"
| "fresh_deltas current (c # cs) \<longleftrightarrow> fresh_delta current c \<and> fresh_deltas (current @ c) cs"

definition stream_content :: "(nat \<Rightarrow> rat) \<Rightarrow> message \<Rightarrow> jstring list \<Rightarrow> message" where
  "stream_content clk m chunks = foldl (\<lambda>m c. applyStreamingChunk m ChunkContent c clk) m chunks"

text \<open>What holds of a message that has been streamed the raw text \<open>raw\<close> so far.\<close>

definition streamed :: "jstring \<Rightarrow> message \<Rightarrow> bool" where
  "streamed raw m \<longleftrightarrow>
     getMessageContent m = raw \<and> m_status m \<noteq> Some StError \<and>
     (if js_includes raw think_open
      then thinking_text raw \<noteq> None \<longrightarrow> map_option mr_content (m_reasoning m) = thinking_text raw
      else m_reasoning m = None)"

lemma process_content [simp]:
  "getMessageContent (processStreamingContent m (Some c) now) = getMessageContent m @ c"
  "m_from (processStreamingContent m ch now) = m_from m"
  "m_key (processStreamingContent m ch now) = m_key m"
  by (simp_all add: processStreamingContent_def Let_def coalesce_def)

lemma process_reasoning:
  "map_option mr_content (m_reasoning (processStreamingContent m (Some c) now)) =
     (if thinking_text (getMessageContent m @ c) \<noteq> None then thinking_text (getMessageContent m @ c)
      else map_option mr_content (m_reasoning m))"
  by (auto simp: processStreamingContent_def Let_def coalesce_def thinking_text_def)

lemma apply_content:
  assumes "m_status m \<noteq> Some StError" and "fresh_delta (getMessageContent m) c"
  shows "getMessageContent (applyStreamingChunk m ChunkContent c clk) = getMessageContent m @ c"
    and "m_status (applyStreamingChunk m ChunkContent c clk) = Some StStreaming"
    and "map_option mr_content (m_reasoning (applyStreamingChunk m ChunkContent c clk)) =
     (if thinking_text (getMessageContent m @ c) \<noteq> None then thinking_text (getMessageContent m @ c)
      else map_option mr_content (m_reasoning m))"
  using assms process_reasoning [of m c "clk 0"]
  by (auto simp: applyStreamingChunk_def getAppendableChunk_def fresh_delta_def Let_def)

text \<open>A chunk that begins with the text so far replaces it.\<close>

lemma apply_snapshot:
  "m_status m \<noteq> Some StError \<Longrightarrow> getMessageContent m = c \<Longrightarrow>
   getMessageContent (applyStreamingChunk m ChunkContent (c @ d) clk) = c @ d"
  by (auto simp: applyStreamingChunk_def getAppendableChunk_def Let_def)

lemma chunk_simps [simp]:
  "m_from (applyStreamingChunk m ty c clk) = m_from m"
  "m_key (applyStreamingChunk m ty c clk) = m_key m"
  by (auto simp: applyStreamingChunk_def Let_def)

lemma thinking_text_no_tag: "\<not> js_includes s think_open \<Longrightarrow> thinking_text s = None"
  by (simp add: thinking_text_def)

lemma streamed_step:
  assumes "streamed raw m" and "fresh_delta raw c"
  shows "streamed (raw @ c) (applyStreamingChunk m ChunkContent c clk)"
proof -
  from assms(1) have r: "getMessageContent m = raw" and e: "m_status m \<noteq> Some StError"
    by (auto simp: streamed_def)
  note a = apply_content [OF e, of c clk, unfolded r, OF assms(2)]
  show ?thesis
  proof (cases "js_includes (raw @ c) think_open")
    case True
    with a show ?thesis by (simp add: streamed_def)
  next
    case False
    then have "\<not> js_includes raw think_open" using js_includes_append by blast
    with assms(1) have "m_reasoning m = None" by (simp add: streamed_def)
    with False a thinking_text_no_tag [OF False] show ?thesis by (simp add: streamed_def)
  qed
qed

lemma streamed_run:
  "streamed raw m \<Longrightarrow> fresh_deltas raw chunks \<Longrightarrow>
   streamed (raw @ concat chunks) (stream_content clk m chunks)"
proof (induction chunks arbitrary: raw m)
  case (Cons c cs)
  then have "streamed (raw @ c) (applyStreamingChunk m ChunkContent c clk)"
    by (simp add: streamed_step)
  from Cons.IH [OF this] Cons.prems show ?case by (simp add: stream_content_def)
qed (simp add: stream_content_def)

lemma stream_content_simps [simp]:
  "m_from (stream_content clk m chunks) = m_from m"
  "m_key (stream_content clk m chunks) = m_key m"
  by (induction chunks arbitrary: m) (simp_all add: stream_content_def)

lemma streamed_loading: "streamed [] (createLoadingAssistantMessage k v t)"
  by (simp add: streamed_def createLoadingAssistantMessage_def getMessageContent_def
      getCurrentVersion_def createMessageVersion_def js_includes_def think_open_def js_lit)

text \<open>Completing a streamed message gives what the whole text shows.\<close>

lemma complete_streamed:
  assumes "streamed raw m"
  shows "getMessageContent (completeAssistantMessage m clk) = visible_text raw"
    and "m_status (completeAssistantMessage m clk) = Some StComplete"
    and "m_isReasoningStreaming (completeAssistantMessage m clk) = Some False"
    and "js_includes raw think_open \<longrightarrow> thinking_text raw \<noteq> None \<Longrightarrow>
      map_option mr_content (m_reasoning (completeAssistantMessage m clk)) = thinking_text raw"
proof -
  from assms have r: "getMessageContent m = raw" by (simp add: streamed_def)
  then show "getMessageContent (completeAssistantMessage m clk) = visible_text raw"
    by (simp add: completeAssistantMessage_def)
  show "m_status (completeAssistantMessage m clk) = Some StComplete"
    and "m_isReasoningStreaming (completeAssistantMessage m clk) = Some False"
    by (simp_all add: completeAssistantMessage_def)
  assume t: "js_includes raw think_open \<longrightarrow> thinking_text raw \<noteq> None"
  have ne: "thinking_text raw = Some x \<Longrightarrow> x \<noteq> []" for x
    by (auto simp: thinking_text_def Let_def split: if_splits)
  have "map_option mr_content (m_reasoning m) = thinking_text raw"
    using assms t thinking_text_no_tag by (auto simp: streamed_def split: if_splits)
  then show "map_option mr_content (m_reasoning (completeAssistantMessage m clk)) = thinking_text raw"
    using finalize_reasoning [of m None clk] ne
    by (cases "thinking_text raw") (auto simp: completeAssistantMessage_def or_str_def r Let_def)
qed


section \<open>Properties\<close>

text \<open>C20 [think_tags_exact]: every text is, in one way that \<open>parseThinkTags\<close> finds, visible parts
  and reasoning sections in turn: the loop ends, the visible content is the visible parts put
  together, the reasoning the sections separated by a blank line, both trimmed, and the tag
  counts as unclosed exactly when the last section is.\<close>

theorem think_tags_exact:
  "(\<exists>v0 segs unclosed. content = render_think v0 segs unclosed \<and> clean_think v0 segs unclosed) \<and>
   (\<forall>v0 segs unclosed. content = render_think v0 segs unclosed \<and> clean_think v0 segs unclosed \<longrightarrow>
      parseThinkTags content =
        (if segs = [] \<and> unclosed = None
         then \<lparr>tt_visibleContent = content, tt_reasoning = [], tt_hasUnclosedTag = False\<rparr>
         else \<lparr>tt_visibleContent = trim (concat (v0 # map snd segs)),
               tt_reasoning = trim (join [10, 10] (think_parts segs unclosed)),
               tt_hasUnclosedTag = (unclosed \<noteq> None)\<rparr>))"
  using think_decomposition [of content] parseThinkTags_render
  by (auto simp: render_think_def clean_think_def)

theorem think_tags_exact_witness:
  "parseThinkTags (js ''Hi <think>one</think>, <think>two</think>done'') =
     \<lparr>tt_visibleContent = js ''Hi , done'', tt_reasoning = js ''one'' @ [10, 10] @ js ''two'',
      tt_hasUnclosedTag = False\<rparr>"
proof -
  define segs where "segs = [(js ''one'', js '', ''), (js ''two'', js ''done'')]"
  have r: "js ''Hi <think>one</think>, <think>two</think>done'' = render_think (js ''Hi '') segs None"
    and c: "clean_think (js ''Hi '') segs None"
    and v: "trim (concat (js ''Hi '' # map snd segs)) = js ''Hi , done''"
    and t: "trim (join [10, 10] (think_parts segs None)) = js ''one'' @ [10, 10] @ js ''two''"
    unfolding segs_def by code_simp+
  show ?thesis
    using think_tags_exact [of "js ''Hi <think>one</think>, <think>two</think>done''",
        THEN conjunct2, rule_format, of "js ''Hi ''" segs None] r c v t
    by (simp add: segs_def)
qed

text \<open>C11 [streaming_matches_response]: streaming the text of an answer in content chunks, none of
  which begins with the whole text streamed before it, and completing the message gives the same
  key, visible text and status, and the same flag for streaming reasoning, as receiving the whole
  text in one response. The reasoning is the same too, unless the text has think tags with nothing
  but blanks in them.\<close>

theorem streaming_matches_response:
  fixes mkey vid :: jstring and t :: rat
  defines "m0 \<equiv> createLoadingAssistantMessage mkey vid t"
  assumes "fresh_deltas [] chunks"
  shows "let s = completeAssistantMessage (stream_content clk m0 chunks) clk';
             r = applyChatCompletionChoice m0 \<lparr>cc_message = Some
                   \<lparr>cm_content = Some (concat chunks), cm_reasoning_content = None\<rparr>\<rparr> clk''
         in getMessageContent s = getMessageContent r \<and> m_key s = m_key r \<and>
            m_status s = Some StComplete \<and> m_status r = Some StComplete \<and>
            m_isReasoningStreaming s = m_isReasoningStreaming r \<and>
            ((js_includes (concat chunks) think_open \<longrightarrow> thinking_text (concat chunks) \<noteq> None) \<longrightarrow>
             map_option mr_content (m_reasoning s) = map_option mr_content (m_reasoning r))"
proof -
  have st: "streamed (concat chunks) (stream_content clk m0 chunks)"
    using streamed_run [OF streamed_loading [of mkey vid t] assms(2), of clk] by (simp add: m0_def)
  note c = complete_streamed [OF st, of clk']
  have n: "m_reasoning m0 = None" by (simp add: m0_def createLoadingAssistantMessage_def)
  define r where "r = applyChatCompletionChoice m0 \<lparr>cc_message = Some
      \<lparr>cm_content = Some (concat chunks), cm_reasoning_content = None\<rparr>\<rparr> clk''"
  have "getMessageContent r = visible_text (concat chunks)" "m_status r = Some StComplete"
    "m_isReasoningStreaming r = Some False" "m_key r = m_key m0"
    by (simp_all add: r_def applyChatCompletionChoice_def)
  moreover have "map_option mr_content (m_reasoning r) = thinking_text (concat chunks)"
    by (simp add: r_def applyChatCompletionChoice_def finalize_reasoning n Let_def
        thinking_text_def)
  moreover have "m_key (completeAssistantMessage m clk') = m_key m" for m
    by (simp add: completeAssistantMessage_def)
  ultimately show ?thesis using c by (simp add: r_def [symmetric])
qed

theorem streaming_matches_response_witness:
  "let cs = [js ''<think>a'', js ''b</think>'', js ''Hello'', js '' there''];
       m0 = createLoadingAssistantMessage [] [] 0;
       s = completeAssistantMessage (stream_content (\<lambda>_. 5) m0 cs) (\<lambda>_. 9)
   in getMessageContent s = js ''Hello there'' \<and> m_status s = Some StComplete \<and>
      map_option mr_content (m_reasoning s) = Some (js ''ab'')"
proof -
  let ?cs = "[js ''<think>a'', js ''b</think>'', js ''Hello'', js '' there'']"
  have f: "fresh_deltas [] ?cs" by code_simp
  have n: "thinking_text (concat ?cs) \<noteq> None" by code_simp
  have r: "getMessageContent (applyChatCompletionChoice (createLoadingAssistantMessage [] [] 0)
       \<lparr>cc_message = Some \<lparr>cm_content = Some (concat ?cs), cm_reasoning_content = None\<rparr>\<rparr> (\<lambda>_. 9)) =
       js ''Hello there''"
    "map_option mr_content (m_reasoning (applyChatCompletionChoice
       (createLoadingAssistantMessage [] [] 0)
       \<lparr>cc_message = Some \<lparr>cm_content = Some (concat ?cs), cm_reasoning_content = None\<rparr>\<rparr> (\<lambda>_. 9))) =
       Some (js ''ab'')"
    by code_simp+
  show ?thesis
    using streaming_matches_response [OF f, of "\<lambda>_. 5" "[]" "[]" 0 "\<lambda>_. 9" "\<lambda>_. 9"] n r
    unfolding Let_def by argo
qed

text \<open>A second chunk equal to the text so far is taken for a snapshot
  and dropped: an answer that begins with a repeated chunk loses the repetition when it is
  streamed, and keeps it when it arrives in one response.\<close>

theorem repeated_chunk_lost:
  "getMessageContent (stream_content clk (createLoadingAssistantMessage mkey vid t) [c, c @ d]) = c @ d \<and>
   getMessageContent (applyChatCompletionChoice (createLoadingAssistantMessage mkey vid t)
     \<lparr>cc_message = Some \<lparr>cm_content = Some (js ''ha'' @ js ''ha''), cm_reasoning_content = None\<rparr>\<rparr> clk) =
     js ''haha''"
proof -
  define m where "m = createLoadingAssistantMessage mkey vid t"
  have "streamed c (applyStreamingChunk m ChunkContent c clk)"
    using streamed_step [OF streamed_loading, of c mkey vid t clk] by (simp add: m_def fresh_delta_def)
  then have "getMessageContent (stream_content clk m [c, c @ d]) = c @ d"
    by (simp add: stream_content_def apply_snapshot streamed_def)
  moreover have "visible_text (js ''haha'') = js ''haha''" by code_simp
  ultimately show ?thesis
    by (simp add: m_def applyChatCompletionChoice_def or_str_simp flip: js_append)
qed

text \<open>When the closing tag arrives in two chunks and nothing was thought, the first part of the
  tag stays behind as the reasoning of the message.\<close>

theorem split_close_tag_residue:
  "map_option mr_content (m_reasoning (completeAssistantMessage
     (stream_content (\<lambda>_. 0) (createLoadingAssistantMessage [] [] 0)
        [js ''<think>'', js ''</thi'', js ''nk>'', js ''Yes'']) (\<lambda>_. 0))) = Some (js ''</thi'') \<and>
   thinking_text (js ''<think></think>Yes'') = None"
  by code_simp

end
