(* ===== verification/PlaygroundStream.thy ===== *)
theory PlaygroundStream
  imports PlaygroundMessage JsJson
begin

text \<open>
  Streaming requests of the playground: the readers of server-sent events
  (\<open>lib/streaming/stream-utils.ts\<close>, \<open>request-error-utils.ts\<close>) and the controller
  \<open>createStreamRequestController\<close> of \<open>hooks/use-stream-request.ts\<close> as an event-driven machine. Event
  sources (\<open>sse.js\<close>) are numbered in the order of their creation; what they do is the events.
  A request is identified by its \<open>requestGeneration\<close>, which is also how its callbacks are named
  in the outputs. The callbacks are taken to return.
\<close>

section \<open>Reading server-sent events\<close>

definition STREAM_DONE_MESSAGE :: jstring where
  "STREAM_DONE_MESSAGE = js ''[DONE]''"

definition STREAM_CLOSED_READY_STATE :: rat where
  "STREAM_CLOSED_READY_STATE = 2"

text \<open>Code and message are what the JSON holds there: the declared type says strings.\<close>

record error_details =
  ed_errorCode :: "json option"
  ed_errorMessage :: json

definition or_json :: "json option \<Rightarrow> json \<Rightarrow> json" where
  "or_json a b = (case a of Some x \<Rightarrow> if truthy a then x else b | None \<Rightarrow> b)"

definition parseStreamErrorDetails :: "jstring option \<Rightarrow> error_details" where
  "parseStreamErrorDetails data =
     (let fallbackMessage = JStr (or_str data API_REQUEST_ERROR)
      in case data of
           None \<Rightarrow> \<lparr>ed_errorCode = None, ed_errorMessage = fallbackMessage\<rparr>
         | Some text \<Rightarrow>
             if text = [] then \<lparr>ed_errorCode = None, ed_errorMessage = fallbackMessage\<rparr>
             else (case json_parse text of
                None \<Rightarrow> \<lparr>ed_errorCode = None, ed_errorMessage = fallbackMessage\<rparr>
              | Some parsed \<Rightarrow>
                  let err = jget (Some parsed) (js ''error'')
                  in if \<not> truthy err then \<lparr>ed_errorCode = None, ed_errorMessage = fallbackMessage\<rparr>
                     else \<lparr>ed_errorCode = (let code = jget err (js ''code'')
                             in if truthy code then code else None),
                           ed_errorMessage = or_json (jget err (js ''message'')) fallbackMessage\<rparr>))"

text \<open>\<open>None\<close> is an exception: the text is not JSON, or is \<open>null\<close>.\<close>

definition parseStreamMessageUpdates :: "jstring \<Rightarrow> (stream_chunk_type \<times> json) list option" where
  "parseStreamMessageUpdates data =
     (case json_parse data of
        None \<Rightarrow> None
      | Some JNull \<Rightarrow> None
      | Some chunk \<Rightarrow>
          let delta = jget (jget (jget (Some chunk) (js ''choices'')) (js ''0'')) (js ''delta'')
          in if \<not> truthy delta then Some []
             else Some ((case jget delta (js ''reasoning_content'') of
                           Some r \<Rightarrow> if truthy (Some r) then [(ChunkReasoning, r)] else []
                         | None \<Rightarrow> []) @
                        (case jget delta (js ''content'') of
                           Some c \<Rightarrow> if truthy (Some c) then [(ChunkContent, c)] else []
                         | None \<Rightarrow> [])))"

definition isStreamDoneMessage :: "jstring \<Rightarrow> bool" where
  "isStreamDoneMessage data \<longleftrightarrow> data = STREAM_DONE_MESSAGE"

definition isStreamClosedReadyState :: "rat option \<Rightarrow> bool" where
  "isStreamClosedReadyState readyState \<longleftrightarrow> readyState = Some STREAM_CLOSED_READY_STATE"

definition getStreamReadyStateError ::
  "(rat \<Rightarrow> jstring) \<Rightarrow> rat option \<Rightarrow> rat option \<Rightarrow> jstring option" where
  "getStreamReadyStateError ni eventReadyState status =
     (case (eventReadyState, status) of
        (Some r, Some st) \<Rightarrow>
          if r \<ge> STREAM_CLOSED_READY_STATE \<and> st \<noteq> 200
          then Some (js ''HTTP '' @ num_str ni st @ js '': '' @ CONNECTION_CLOSED) else None
      | _ \<Rightarrow> None)"

text \<open>\<open>parseRequestErrorDetails\<close>, on the properties of the error that was thrown.\<close>

definition parseRequestErrorDetails :: "json option \<Rightarrow> error_details" where
  "parseRequestErrorDetails requestError =
     (let data = jget (jget requestError (js ''response'')) (js ''data'');
          code = jget (jget data (js ''error'')) (js ''code'')
      in \<lparr>ed_errorCode = (if truthy code then code else None),
          ed_errorMessage = or_json (jget data (js ''message''))
            (or_json (jget requestError (js ''message'')) (JStr API_REQUEST_ERROR))\<rparr>)"


section \<open>The controller\<close>

text \<open>An event source: the generation of its request, the \<open>completed\<close> flag its listeners share, and
  whether \<open>close()\<close> was called on it.\<close>

record connection =
  cn_generation :: nat
  cn_completed :: bool
  cn_closed :: bool

text \<open>\<open>sc_waiting\<close>: the requests that wait for their headers, with their payload.\<close>

record 'p stream_ctl =
  sc_source :: "nat option"
  sc_generation :: nat
  sc_conns :: "connection list"
  sc_waiting :: "(nat \<times> 'p) list"
  sc_streaming :: bool

datatype 'p stream_event =
    Send 'p
  | HeadersFailed nat "jstring option"
  | HeadersReady nat "jstring jobj" bool
  | SourceMessage nat "jstring option"
  | SourceError nat "rat option" "jstring option"
  | SourceReadyState nat "rat option" "rat option"
  | StopStream
  | DisposeStream

datatype 'p stream_output =
    CreateSource nat 'p "jstring jobj"
  | CloseSource nat
  | StartSource nat
  | SetStreaming bool
  | OnUpdate nat stream_chunk_type json
  | OnComplete nat
  | OnError nat json "json option"

definition initial_ctl :: "'p stream_ctl" where
  "initial_ctl = \<lparr>sc_source = None, sc_generation = 0, sc_conns = [], sc_waiting = [],
     sc_streaming = False\<rparr>"

definition setStreaming :: "bool \<Rightarrow> 'p stream_ctl \<Rightarrow> 'p stream_ctl \<times> 'p stream_output list" where
  "setStreaming b s = (s\<lparr>sc_streaming := b\<rparr>, [SetStreaming b])"

definition close_conn :: "nat \<Rightarrow> 'p stream_ctl \<Rightarrow> 'p stream_ctl" where
  "close_conn i s = s\<lparr>sc_conns := (sc_conns s)[i := (sc_conns s ! i)\<lparr>cn_closed := True\<rparr>]\<rparr>"

definition complete_conn :: "nat \<Rightarrow> 'p stream_ctl \<Rightarrow> 'p stream_ctl" where
  "complete_conn i s = s\<lparr>sc_conns := (sc_conns s)[i := (sc_conns s ! i)\<lparr>cn_completed := True\<rparr>]\<rparr>"

definition closeActiveSource :: "nat \<Rightarrow> 'p stream_ctl \<Rightarrow> 'p stream_ctl \<times> 'p stream_output list" where
  "closeActiveSource i s =
     (let s1 = close_conn i s
      in if sc_source s1 = Some i
         then (case setStreaming False (s1\<lparr>sc_source := None\<rparr>) of (s2, o2) \<Rightarrow> (s2, CloseSource i # o2))
         else (s1, [CloseSource i]))"

text \<open>Closing the previous source, as \<open>send\<close> and \<open>cancel\<close> do.\<close>

definition close_previous :: "'p stream_ctl \<Rightarrow> 'p stream_ctl \<times> 'p stream_output list" where
  "close_previous s =
     (case sc_source s of
        None \<Rightarrow> (s, [])
      | Some i \<Rightarrow> (close_conn i (s\<lparr>sc_source := None\<rparr>), [CloseSource i]))"

text \<open>\<open>send\<close> up to the headers.\<close>

definition send_begin :: "'p \<Rightarrow> 'p stream_ctl \<Rightarrow> 'p stream_ctl \<times> 'p stream_output list" where
  "send_begin payload s =
     (let requestGeneration = sc_generation s + 1;
          (s1, o1) = close_previous (s\<lparr>sc_generation := requestGeneration\<rparr>);
          (s2, o2) = setStreaming False s1
      in (s2\<lparr>sc_waiting := sc_waiting s2 @ [(requestGeneration, payload)]\<rparr>, o1 @ o2))"

definition drop_waiting :: "nat \<Rightarrow> 'p stream_ctl \<Rightarrow> 'p stream_ctl" where
  "drop_waiting g s = s\<lparr>sc_waiting := filter (\<lambda>w. fst w \<noteq> g) (sc_waiting s)\<rparr>"

text \<open>The headers could not be had: the message of an \<open>Error\<close>, \<open>None\<close> for anything else thrown.\<close>

definition send_headers_failed ::
  "nat \<Rightarrow> jstring option \<Rightarrow> 'p stream_ctl \<Rightarrow> 'p stream_ctl \<times> 'p stream_output list" where
  "send_headers_failed requestGeneration err s =
     (if requestGeneration \<notin> fst ` set (sc_waiting s) then (s, [])
      else let s1 = drop_waiting requestGeneration s
           in if sc_generation s1 \<noteq> requestGeneration then (s1, [])
              else (s1, [OnError requestGeneration (JStr (coalesce err STREAM_START_ERROR)) None]))"

definition isCurrent :: "nat \<Rightarrow> 'p stream_ctl \<Rightarrow> bool" where
  "isCurrent i s \<longleftrightarrow> sc_generation s = cn_generation (sc_conns s ! i) \<and> sc_source s = Some i"

definition handleError ::
  "nat \<Rightarrow> json \<Rightarrow> json option \<Rightarrow> 'p stream_ctl \<Rightarrow> 'p stream_ctl \<times> 'p stream_output list" where
  "handleError i errorMessage errorCode s =
     (if \<not> isCurrent i s \<or> cn_completed (sc_conns s ! i) then (s, [])
      else case closeActiveSource i (complete_conn i s) of (s2, o2) \<Rightarrow>
        (s2, OnError (cn_generation (sc_conns s ! i)) errorMessage errorCode # o2))"

text \<open>\<open>send\<close> after the headers; \<open>startFails\<close>: whether \<open>nextSource.stream()\<close> throws.\<close>

definition send_headers ::
  "nat \<Rightarrow> jstring jobj \<Rightarrow> bool \<Rightarrow> 'p stream_ctl \<Rightarrow> 'p stream_ctl \<times> 'p stream_output list" where
  "send_headers requestGeneration headers startFails s =
     (case map_of (sc_waiting s) requestGeneration of
        None \<Rightarrow> (s, [])
      | Some payload \<Rightarrow>
          let s1 = drop_waiting requestGeneration s
          in if sc_generation s1 \<noteq> requestGeneration then (s1, [])
             else
               let nextSource = length (sc_conns s1);
                   s2 = s1\<lparr>sc_conns := sc_conns s1 @
                     [\<lparr>cn_generation = requestGeneration, cn_completed = False, cn_closed = False\<rparr>],
                     sc_source := Some nextSource\<rparr>;
                   (s3, o3) = setStreaming True s2;
                   (s4, o4) = (if startFails then handleError nextSource (JStr STREAM_START_ERROR) None s3
                               else (s3, [StartSource nextSource]))
               in (s4, CreateSource nextSource payload headers # o3 @ o4))"

text \<open>The three listeners.\<close>

definition on_source_message ::
  "nat \<Rightarrow> jstring option \<Rightarrow> 'p stream_ctl \<Rightarrow> 'p stream_ctl \<times> 'p stream_output list" where
  "on_source_message i eventData s =
     (if \<not> isCurrent i s \<or> cn_completed (sc_conns s ! i) then (s, [])
      else let data = coalesce eventData []; g = cn_generation (sc_conns s ! i)
           in if isStreamDoneMessage data
              then (case closeActiveSource i (complete_conn i s) of (s2, o2) \<Rightarrow> (s2, o2 @ [OnComplete g]))
              else (case parseStreamMessageUpdates data of
                      Some updates \<Rightarrow> (s, map (\<lambda>(ty, chunk). OnUpdate g ty chunk) updates)
                    | None \<Rightarrow> handleError i (JStr PARSE_ERROR) None s))"

definition on_source_error ::
  "nat \<Rightarrow> rat option \<Rightarrow> jstring option \<Rightarrow> 'p stream_ctl \<Rightarrow> 'p stream_ctl \<times> 'p stream_output list" where
  "on_source_error i readyState eventData s =
     (if \<not> isCurrent i s \<or> cn_completed (sc_conns s ! i) then (s, [])
      else if isStreamClosedReadyState readyState then (s, [])
      else let details = parseStreamErrorDetails eventData
           in handleError i (ed_errorMessage details) (ed_errorCode details) s)"

definition on_source_readystate ::
  "(rat \<Rightarrow> jstring) \<Rightarrow> nat \<Rightarrow> rat option \<Rightarrow> rat option \<Rightarrow> 'p stream_ctl \<Rightarrow>
     'p stream_ctl \<times> 'p stream_output list" where
  "on_source_readystate ni i readyState status s =
     (if \<not> isCurrent i s \<or> cn_completed (sc_conns s ! i) then (s, [])
      else case getStreamReadyStateError ni readyState status of
             Some errorMessage \<Rightarrow> handleError i (JStr errorMessage) None s
           | None \<Rightarrow> (s, []))"

definition cancel :: "bool \<Rightarrow> 'p stream_ctl \<Rightarrow> 'p stream_ctl \<times> 'p stream_output list" where
  "cancel notify s =
     (let (s1, o1) = close_previous (s\<lparr>sc_generation := sc_generation s + 1\<rparr>)
      in if notify then (case setStreaming False s1 of (s2, o2) \<Rightarrow> (s2, o1 @ o2)) else (s1, o1))"

text \<open>The events; one that names a source or request that does not exist has no effect.\<close>

fun stream_step ::
  "(rat \<Rightarrow> jstring) \<Rightarrow> 'p stream_ctl \<Rightarrow> 'p stream_event \<Rightarrow> 'p stream_ctl \<times> 'p stream_output list" where
  "stream_step ni s (Send payload) = send_begin payload s"
| "stream_step ni s (HeadersFailed g err) = send_headers_failed g err s"
| "stream_step ni s (HeadersReady g headers startFails) = send_headers g headers startFails s"
| "stream_step ni s (SourceMessage i data) = on_source_message i data s"
| "stream_step ni s (SourceError i readyState data) = on_source_error i readyState data s"
| "stream_step ni s (SourceReadyState i readyState status) = on_source_readystate ni i readyState status s"
| "stream_step ni s StopStream = cancel True s"
| "stream_step ni s DisposeStream = cancel False s"


section \<open>The invariant\<close>

definition ctl_inv :: "'p stream_ctl \<Rightarrow> bool" where
  "ctl_inv s \<longleftrightarrow>
     (case sc_source s of
        None \<Rightarrow> True
      | Some i \<Rightarrow> i < length (sc_conns s) \<and> cn_generation (sc_conns s ! i) = sc_generation s \<and>
          \<not> cn_completed (sc_conns s ! i) \<and> \<not> cn_closed (sc_conns s ! i) \<and> sc_streaming s) \<and>
     (\<forall>j < length (sc_conns s). sc_source s \<noteq> Some j \<longrightarrow> cn_closed (sc_conns s ! j)) \<and>
     (\<forall>w \<in> set (sc_waiting s). fst w \<le> sc_generation s \<and>
        (fst w = sc_generation s \<longrightarrow> sc_source s = None))"

text \<open>The source is closed for good: by a terminal callback, or because it is replaced.\<close>

definition finished :: "nat \<Rightarrow> 'p stream_ctl \<Rightarrow> 'p stream_ctl" where
  "finished i s = s\<lparr>sc_conns := (sc_conns s)[i := (sc_conns s ! i)\<lparr>cn_completed := True, cn_closed := True\<rparr>],
     sc_source := None, sc_streaming := False\<rparr>"

lemma close_current:
  "ctl_inv s \<Longrightarrow> sc_source s = Some i \<Longrightarrow>
   closeActiveSource i (complete_conn i s) = (finished i s, [CloseSource i, SetStreaming False])"
  by (auto simp: ctl_inv_def closeActiveSource_def complete_conn_def close_conn_def setStreaming_def
      finished_def)

lemma ctl_inv_finished: "ctl_inv s \<Longrightarrow> sc_source s = Some i \<Longrightarrow> ctl_inv (finished i s)"
  by (auto simp: ctl_inv_def finished_def nth_list_update)

lemma close_previous_inv:
  assumes "ctl_inv s" and "close_previous (s\<lparr>sc_generation := sc_generation s + 1\<rparr>) = (s', out)"
  shows "ctl_inv s'" and "sc_source s' = None" and "sc_generation s' = sc_generation s + 1"
    and "sc_waiting s' = sc_waiting s"
    and "set out \<subseteq> range CloseSource"
    and "out = (case sc_source s of None \<Rightarrow> [] | Some i \<Rightarrow> [CloseSource i])"
  using assms
  by (auto simp: ctl_inv_def close_previous_def close_conn_def nth_list_update le_SucI
      split: option.splits dest: bspec)

lemma ctl_inv_setStreaming:
  "ctl_inv s \<Longrightarrow> sc_source s = None \<Longrightarrow> ctl_inv (fst (setStreaming b s))"
  by (simp add: ctl_inv_def setStreaming_def)

lemma handleError_cases:
  assumes "ctl_inv s"
  shows "handleError i msg code s =
     (if sc_source s = Some i
      then (finished i s, [OnError (sc_generation s) msg code, CloseSource i, SetStreaming False])
      else (s, []))"
  using assms by (auto simp: handleError_def isCurrent_def close_current ctl_inv_def)

lemma on_source_message_cases:
  assumes "ctl_inv s"
  shows "on_source_message i eventData s =
     (if sc_source s \<noteq> Some i then (s, [])
      else if isStreamDoneMessage (coalesce eventData [])
      then (finished i s, [CloseSource i, SetStreaming False, OnComplete (sc_generation s)])
      else case parseStreamMessageUpdates (coalesce eventData []) of
             Some updates \<Rightarrow> (s, map (\<lambda>(ty, chunk). OnUpdate (sc_generation s) ty chunk) updates)
           | None \<Rightarrow> (finished i s, [OnError (sc_generation s) (JStr PARSE_ERROR) None, CloseSource i,
                        SetStreaming False]))"
proof (cases "sc_source s = Some i")
  case True
  with assms have "isCurrent i s" "\<not> cn_completed (sc_conns s ! i)"
    "cn_generation (sc_conns s ! i) = sc_generation s"
    by (auto simp: isCurrent_def ctl_inv_def)
  with True show ?thesis
    by (simp add: on_source_message_def close_current [OF assms] handleError_cases [OF assms]
        split: option.split)
qed (simp add: on_source_message_def isCurrent_def)

text \<open>The other two listeners do nothing or report an error.\<close>

lemma on_source_error_cases:
  assumes "ctl_inv s"
  shows "on_source_error i r d s = (s, []) \<or>
    (\<exists>msg code. on_source_error i r d s = handleError i msg code s)"
  by (auto simp: on_source_error_def Let_def)

lemma on_source_readystate_cases:
  "on_source_readystate ni i r st s = (s, []) \<or>
    (\<exists>msg code. on_source_readystate ni i r st s = handleError i msg code s)"
  by (auto simp: on_source_readystate_def split: option.split)

text \<open>The request with the current headers, and what becomes of the others.\<close>

lemma send_headers_cases:
  fixes s :: "'p stream_ctl"
  assumes "ctl_inv s"
  shows "send_headers g headers startFails s = (drop_waiting g s, []) \<and>
      \<not> (g = sc_generation s \<and> g \<in> fst ` set (sc_waiting s)) \<or>
    (\<exists>payload s3. g = sc_generation s \<and> (g, payload) \<in> set (sc_waiting s) \<and> sc_source s = None \<and>
       s3 = (drop_waiting g s)\<lparr>sc_conns := sc_conns s @
         [\<lparr>cn_generation = g, cn_completed = False, cn_closed = False\<rparr>],
         sc_source := Some (length (sc_conns s)), sc_streaming := True\<rparr> \<and> ctl_inv s3 \<and>
       send_headers g headers startFails s =
         (if startFails
          then (finished (length (sc_conns s)) s3,
                [CreateSource (length (sc_conns s)) payload headers, SetStreaming True,
                 OnError g (JStr STREAM_START_ERROR) None, CloseSource (length (sc_conns s)),
                 SetStreaming False])
          else (s3, [CreateSource (length (sc_conns s)) payload headers, SetStreaming True,
                     StartSource (length (sc_conns s))])))"
proof (cases "map_of (sc_waiting s) g")
  case None
  then have "g \<notin> fst ` set (sc_waiting s)" by (simp add: map_of_eq_None_iff)
  moreover from this have "drop_waiting g s = s"
    by (cases s) (auto simp: drop_waiting_def filter_id_conv)
  ultimately show ?thesis using None by (simp add: send_headers_def)
next
  case (Some payload)
  then have w: "(g, payload) \<in> set (sc_waiting s)" by (rule map_of_SomeD)
  show ?thesis
  proof (cases "g = sc_generation s")
    case True
    with w assms have src: "sc_source s = None" by (auto simp: ctl_inv_def)
    define s3 where "s3 = (drop_waiting g s)\<lparr>sc_conns := sc_conns s @
       [\<lparr>cn_generation = g, cn_completed = False, cn_closed = False\<rparr>],
       sc_source := Some (length (sc_conns s)), sc_streaming := True\<rparr>"
    have i3: "ctl_inv s3"
      using assms src True
      by (auto simp: s3_def ctl_inv_def drop_waiting_def nth_append less_Suc_eq)
    have "send_headers g headers startFails s =
         (if startFails
          then (finished (length (sc_conns s)) s3,
                [CreateSource (length (sc_conns s)) payload headers, SetStreaming True,
                 OnError g (JStr STREAM_START_ERROR) None, CloseSource (length (sc_conns s)),
                 SetStreaming False])
          else (s3, [CreateSource (length (sc_conns s)) payload headers, SetStreaming True,
                     StartSource (length (sc_conns s))]))"
      using Some True i3 handleError_cases [OF i3, of "length (sc_conns s)"]
      by (simp add: send_headers_def Let_def setStreaming_def drop_waiting_def s3_def)
    with w src True i3 show ?thesis unfolding s3_def by blast
  next
    case False
    with Some show ?thesis by (auto simp: send_headers_def Let_def drop_waiting_def)
  qed
qed

lemma ctl_inv_drop_waiting: "ctl_inv s \<Longrightarrow> ctl_inv (drop_waiting g s)"
  by (auto simp: ctl_inv_def drop_waiting_def split: option.splits)


section \<open>Callbacks of a request\<close>

fun call_of :: "'p stream_output \<Rightarrow> nat option" where
  "call_of (OnUpdate g _ _) = Some g"
| "call_of (OnComplete g) = Some g"
| "call_of (OnError g _ _) = Some g"
| "call_of _ = None"

fun terminal :: "'p stream_output \<Rightarrow> bool" where
  "terminal (OnComplete _) = True"
| "terminal (OnError _ _ _) = True"
| "terminal _ = False"

definition calls :: "nat \<Rightarrow> 'p stream_output list \<Rightarrow> 'p stream_output list" where
  "calls g out = filter (\<lambda>x. call_of x = Some g) out"

text \<open>A request that may still call back: it waits for its headers or its source is open.\<close>

definition alive :: "'p stream_ctl \<Rightarrow> bool" where
  "alive s \<longleftrightarrow> sc_source s \<noteq> None \<or> sc_generation s \<in> fst ` set (sc_waiting s)"

text \<open>What every step guarantees: only the current request calls back, and only while it is alive;
  a terminal call is the last one of the step and ends it.\<close>

definition step_ok :: "'p stream_ctl \<Rightarrow> 'p stream_ctl \<times> 'p stream_output list \<Rightarrow> bool" where
  "step_ok s r \<longleftrightarrow>
     ctl_inv (fst r) \<and> sc_generation s \<le> sc_generation (fst r) \<and>
     (\<forall>x \<in> set (snd r). call_of x \<noteq> None \<longrightarrow> call_of x = Some (sc_generation s) \<and> alive s) \<and>
     list_all (\<lambda>x. \<not> terminal x) (butlast (calls (sc_generation s) (snd r))) \<and>
     ((\<exists>x \<in> set (snd r). terminal x) \<longrightarrow> sc_generation (fst r) = sc_generation s \<and> \<not> alive (fst r)) \<and>
     (alive (fst r) \<and> sc_generation (fst r) = sc_generation s \<longrightarrow> alive s)"

lemma step_ok_id: "ctl_inv s \<Longrightarrow> step_ok s (s, [])"
  by (simp add: step_ok_def calls_def)

lemma not_alive_finished: "ctl_inv s \<Longrightarrow> sc_source s = Some i \<Longrightarrow> \<not> alive (finished i s)"
  by (auto simp: alive_def finished_def ctl_inv_def)

lemma finished_simps [simp]: "sc_generation (finished i s) = sc_generation s" "sc_source (finished i s) = None"
  by (simp_all add: finished_def)

lemma step_ok_finish:
  assumes "ctl_inv s" and "sc_source s = Some i"
  shows "step_ok s (finished i s, [OnError (sc_generation s) msg code, CloseSource i, SetStreaming False])"
    and "step_ok s (finished i s, [CloseSource i, SetStreaming False, OnComplete (sc_generation s)])"
  using assms ctl_inv_finished [OF assms] not_alive_finished [OF assms]
  by (auto simp: step_ok_def calls_def alive_def)

lemma step_ok_handleError: "ctl_inv s \<Longrightarrow> step_ok s (handleError i msg code s)"
  by (simp add: handleError_cases step_ok_finish step_ok_id)

lemma step_ok_message:
  assumes "ctl_inv s"
  shows "step_ok s (on_source_message i d s)"
proof -
  have u: "step_ok s (s, map (\<lambda>(ty, chunk). OnUpdate (sc_generation s) ty chunk) us)"
    if "sc_source s \<noteq> None" for us
  proof -
    have "list_all (\<lambda>x. \<not> terminal x)
       (butlast (calls (sc_generation s) (map (\<lambda>(ty, chunk). OnUpdate (sc_generation s) ty chunk) us)))"
      by (auto simp: list_all_iff calls_def dest!: in_set_butlastD)
    then show ?thesis using assms that by (auto simp: step_ok_def alive_def)
  qed
  show ?thesis
    using step_ok_id [OF assms] step_ok_finish [OF assms] u
    by (auto simp: on_source_message_cases [OF assms] split: option.split)
qed

lemma step_ok_headers:
  assumes "ctl_inv s"
  shows "step_ok s (send_headers g headers startFails s)"
proof -
  consider "send_headers g headers startFails s = (drop_waiting g s, [])"
    | payload s3 where "g = sc_generation s" "(g, payload) \<in> set (sc_waiting s)" "sc_source s = None"
      "s3 = (drop_waiting g s)\<lparr>sc_conns := sc_conns s @
         [\<lparr>cn_generation = g, cn_completed = False, cn_closed = False\<rparr>],
         sc_source := Some (length (sc_conns s)), sc_streaming := True\<rparr>" "ctl_inv s3"
      "send_headers g headers startFails s =
         (if startFails
          then (finished (length (sc_conns s)) s3,
                [CreateSource (length (sc_conns s)) payload headers, SetStreaming True,
                 OnError g (JStr STREAM_START_ERROR) None, CloseSource (length (sc_conns s)),
                 SetStreaming False])
          else (s3, [CreateSource (length (sc_conns s)) payload headers, SetStreaming True,
                     StartSource (length (sc_conns s))]))"
    using send_headers_cases [OF assms, of g headers startFails] by blast
  then show ?thesis
  proof cases
    case 1
    have "alive (drop_waiting g s) \<Longrightarrow> alive s" by (auto simp: alive_def drop_waiting_def)
    then show ?thesis
      unfolding 1 using ctl_inv_drop_waiting [OF assms, of g]
      by (simp add: step_ok_def calls_def) (simp add: drop_waiting_def)
  next
    case 2
    from 2(1,2) have a: "alive s" by (force simp: alive_def)
    from 2(4) have g3: "sc_generation s3 = sc_generation s" "sc_source s3 = Some (length (sc_conns s))"
      by (simp_all add: drop_waiting_def)
    show ?thesis
      unfolding 2(6)
      using ctl_inv_finished [OF 2(5) g3(2)] not_alive_finished [OF 2(5) g3(2)] 2(1,5) a g3(1)
      by (auto simp: step_ok_def calls_def)
  qed
qed

lemma step_ok_headers_failed:
  assumes "ctl_inv s"
  shows "step_ok s (send_headers_failed g err s)"
proof (cases "g \<in> fst ` set (sc_waiting s)")
  case True
  have w: "g \<notin> fst ` set (sc_waiting (drop_waiting g s))" by (auto simp: drop_waiting_def)
  have "alive (drop_waiting g s) \<Longrightarrow> alive s" by (auto simp: alive_def drop_waiting_def)
  moreover have "sc_source s = None" if "g = sc_generation s" using True that assms by (auto simp: ctl_inv_def)
  ultimately show ?thesis
    using ctl_inv_drop_waiting [OF assms, of g] True w
    by (auto simp: send_headers_failed_def Let_def step_ok_def calls_def alive_def)
      (auto simp: drop_waiting_def intro: rev_image_eqI)
qed (simp add: send_headers_failed_def step_ok_id [OF assms])

lemma step_ok_begin:
  assumes "ctl_inv s"
  shows "step_ok s (send_begin payload s)"
proof -
  obtain s1 o1 where c: "close_previous (s\<lparr>sc_generation := sc_generation s + 1\<rparr>) = (s1, o1)"
    by (cases "close_previous (s\<lparr>sc_generation := sc_generation s + 1\<rparr>)")
  note p = close_previous_inv [OF assms c]
  have b: "send_begin payload s = (s1\<lparr>sc_streaming := False,
      sc_waiting := sc_waiting s @ [(sc_generation s + 1, payload)]\<rparr>, o1 @ [SetStreaming False])"
    using c p(4) by (simp add: send_begin_def setStreaming_def)
  have "ctl_inv (s1\<lparr>sc_streaming := False,
      sc_waiting := sc_waiting s @ [(sc_generation s + 1, payload)]\<rparr>)"
    using p assms by (auto simp: ctl_inv_def)
  moreover have "call_of x = None \<and> \<not> terminal x" if "x \<in> set o1" for x using p(5) that by auto
  ultimately show ?thesis
    unfolding b using p(3) by (auto simp: step_ok_def calls_def)
qed

lemma step_ok_cancel:
  assumes "ctl_inv s"
  shows "step_ok s (cancel notify s)"
proof -
  obtain s1 o1 where c: "close_previous (s\<lparr>sc_generation := sc_generation s + 1\<rparr>) = (s1, o1)"
    by (cases "close_previous (s\<lparr>sc_generation := sc_generation s + 1\<rparr>)")
  note p = close_previous_inv [OF assms c]
  have "call_of x = None \<and> \<not> terminal x" if "x \<in> set o1" for x using p(5) that by auto
  moreover have "ctl_inv (s1\<lparr>sc_streaming := False\<rparr>)" using p(1,2) by (simp add: ctl_inv_def)
  ultimately show ?thesis
    using c p(1,3) by (auto simp: cancel_def setStreaming_def step_ok_def calls_def)
qed

lemma stream_step_ok: "ctl_inv s \<Longrightarrow> step_ok s (stream_step ni s e)"
proof (cases e)
  case (SourceError i r d)
  assume "ctl_inv s"
  with SourceError on_source_error_cases [of s i r d] step_ok_id step_ok_handleError show ?thesis
    by (metis stream_step.simps(5))
next
  case (SourceReadyState i r st)
  assume "ctl_inv s"
  with SourceReadyState on_source_readystate_cases [of ni i r st s] step_ok_id step_ok_handleError
  show ?thesis by (metis stream_step.simps(6))
qed (simp_all add: step_ok_begin step_ok_headers_failed step_ok_headers step_ok_message step_ok_cancel)

interpretation stream: machine initial_ctl "stream_step ni" ctl_inv
proof
  show "ctl_inv initial_ctl" by (simp add: ctl_inv_def initial_ctl_def)
qed (use stream_step_ok in \<open>auto simp: step_ok_def\<close>)

text \<open>A request that is no longer alive never calls back.\<close>

lemma dead_silent:
  "ctl_inv s \<Longrightarrow> g < sc_generation s \<or> (g = sc_generation s \<and> \<not> alive s) \<Longrightarrow>
   calls g (snd (run_events (stream_step ni) s es)) = []"
proof (induction es arbitrary: s)
  case (Cons e es)
  obtain s1 o1 where st: "stream_step ni s e = (s1, o1)" by (cases "stream_step ni s e")
  have ok: "step_ok s (s1, o1)" using stream_step_ok [OF Cons.prems(1), of ni e] st by simp
  then have i1: "ctl_inv s1" by (simp add: step_ok_def)
  from ok Cons.prems(2) have "calls g o1 = []"
    by (auto simp: step_ok_def calls_def filter_empty_conv)
  moreover from ok Cons.prems(2) have "g < sc_generation s1 \<or> (g = sc_generation s1 \<and> \<not> alive s1)"
    by (auto simp: step_ok_def)
  ultimately show ?case using Cons.IH [OF i1] st by (simp add: calls_def case_prod_beta)
qed (simp add: calls_def)

lemma calls_append: "calls g (a @ b) = calls g a @ calls g b"
  by (simp add: calls_def)

lemma calls_end:
  "ctl_inv s \<Longrightarrow>
   list_all (\<lambda>x. \<not> terminal x) (butlast (calls g (snd (run_events (stream_step ni) s es))))"
proof (induction es arbitrary: s)
  case (Cons e es)
  obtain s1 o1 where st: "stream_step ni s e = (s1, o1)" by (cases "stream_step ni s e")
  have ok: "step_ok s (s1, o1)" using stream_step_ok [OF Cons.prems, of ni e] st by simp
  then have i1: "ctl_inv s1" by (simp add: step_ok_def)
  define o2 where "o2 = calls g (snd (run_events (stream_step ni) s1 es))"
  have o2: "list_all (\<lambda>x. \<not> terminal x) (butlast o2)" unfolding o2_def by (rule Cons.IH [OF i1])
  have run: "calls g (snd (run_events (stream_step ni) s (e # es))) = calls g o1 @ o2"
    using st by (simp add: calls_append o2_def case_prod_beta)
  show ?case
  proof (cases "calls g o1 = []")
    case True
    with run o2 show ?thesis by simp
  next
    case False
    then obtain x where "x \<in> set o1" "call_of x = Some g" by (auto simp: calls_def filter_empty_conv)
    with ok have g: "g = sc_generation s" by (auto simp: step_ok_def)
    have b: "list_all (\<lambda>x. \<not> terminal x) (butlast (calls g o1))" using ok g by (simp add: step_ok_def)
    show ?thesis
    proof (cases "\<exists>x \<in> set (calls g o1). terminal x")
      case True
      then have "\<exists>x \<in> set o1. terminal x" by (auto simp: calls_def)
      with ok have "sc_generation s1 = sc_generation s \<and> \<not> alive s1" by (simp add: step_ok_def)
      then have "o2 = []" unfolding o2_def using dead_silent [OF i1] g by metis
      with run b show ?thesis by simp
    next
      case False
      then have "list_all (\<lambda>x. \<not> terminal x) (calls g o1)" by (auto simp: list_all_iff)
      then show ?thesis unfolding run using b o2 by (simp add: butlast_append)
    qed
  qed
qed (simp add: calls_def)


text \<open>The events that end the request before them, and the requests a sequence of events sends,
  named by the generation each is given.\<close>

fun interrupts :: "'p stream_event \<Rightarrow> bool" where
  "interrupts (Send _) = True"
| "interrupts StopStream = True"
| "interrupts DisposeStream = True"
| "interrupts _ = False"

fun requests_sent :: "(rat \<Rightarrow> jstring) \<Rightarrow> 'p stream_ctl \<Rightarrow> 'p stream_event list \<Rightarrow> nat list" where
  "requests_sent ni s [] = []"
| "requests_sent ni s (e # es) =
     (let s1 = fst (stream_step ni s e)
      in (case e of Send _ \<Rightarrow> [sc_generation s1] | _ \<Rightarrow> []) @ requests_sent ni s1 es)"

lemma generation_run:
  "ctl_inv s \<Longrightarrow> sc_generation s \<le> sc_generation (fst (run_events (stream_step ni) s es))"
proof (induction es arbitrary: s)
  case (Cons e es)
  have "step_ok s (stream_step ni s e)" by (rule stream_step_ok [OF Cons.prems])
  then show ?case
    using Cons.IH [of "fst (stream_step ni s e)"] by (simp add: step_ok_def case_prod_beta)
qed simp

lemma sent_generation:
  "ctl_inv s \<Longrightarrow> g \<in> set (requests_sent ni s es) \<Longrightarrow>
     g \<le> sc_generation (fst (run_events (stream_step ni) s es))"
proof (induction es arbitrary: s)
  case (Cons e es)
  have i1: "ctl_inv (fst (stream_step ni s e))"
    using stream_step_ok [OF Cons.prems(1), of ni e] by (simp add: step_ok_def)
  from Cons.prems(2) consider "g = sc_generation (fst (stream_step ni s e))"
    | "g \<in> set (requests_sent ni (fst (stream_step ni s e)) es)"
    by (auto simp: Let_def split: stream_event.splits)
  then show ?case
    using Cons.IH [OF i1] generation_run [OF i1, of ni es] by cases (simp_all add: case_prod_beta)
qed simp

lemma interrupt_step:
  assumes "ctl_inv s" and "interrupts e"
  shows "sc_generation (fst (stream_step ni s e)) = sc_generation s + 1"
    and "calls g (snd (stream_step ni s e)) = []"
proof -
  obtain s1 o1 where c: "close_previous (s\<lparr>sc_generation := sc_generation s + 1\<rparr>) = (s1, o1)"
    by (cases "close_previous (s\<lparr>sc_generation := sc_generation s + 1\<rparr>)")
  note p = close_previous_inv [OF assms(1) c]
  have "calls g o1 = []" using p(5) by (auto simp: calls_def filter_empty_conv)
  with c p(3) assms(2) show "sc_generation (fst (stream_step ni s e)) = sc_generation s + 1"
    "calls g (snd (stream_step ni s e)) = []"
    by (cases e; simp add: send_begin_def cancel_def setStreaming_def calls_def)+
qed

lemma interrupted_silent:
  assumes "ctl_inv s" and "g \<le> sc_generation s" and "interrupts e"
  shows "calls g (snd (run_events (stream_step ni) s (e # es))) = []"
proof -
  have "ctl_inv (fst (stream_step ni s e))"
    using stream_step_ok [OF assms(1), of ni e] by (simp add: step_ok_def)
  from dead_silent [OF this, of g ni es] interrupt_step [OF assms(1,3)] assms(2) show ?thesis
    by (simp add: case_prod_beta calls_append)
qed


section \<open>Properties\<close>

text \<open>C19 [one_stream_open]: after any sequence of events at most one event source is open, the one
  of the latest request; every other source that was created has been closed.\<close>

theorem one_stream_open:
  "let s = fst (run_events (stream_step ni) initial_ctl es)
   in filter (\<lambda>i. \<not> cn_closed (sc_conns s ! i)) [0..<length (sc_conns s)] =
        (case sc_source s of None \<Rightarrow> [] | Some i \<Rightarrow> [i]) \<and>
      (case sc_source s of None \<Rightarrow> True
       | Some i \<Rightarrow> cn_generation (sc_conns s ! i) = sc_generation s \<and> sc_streaming s)"
proof -
  define s where "s = fst (run_events (stream_step ni) initial_ctl es)"
  have i: "ctl_inv s" unfolding s_def by (rule stream.inv_run)
  have one: "filter (\<lambda>j. j = i) [0..<n] = [i]" if "i < n" for i n
    using that by (induction n) (auto simp: less_Suc_eq)
  have "filter (\<lambda>j. \<not> cn_closed (sc_conns s ! j)) [0..<length (sc_conns s)] =
        (case sc_source s of None \<Rightarrow> [] | Some i \<Rightarrow> [i])"
  proof (cases "sc_source s")
    case None
    with i show ?thesis by (auto simp: ctl_inv_def filter_empty_conv)
  next
    case (Some k)
    have "filter (\<lambda>j. \<not> cn_closed (sc_conns s ! j)) [0..<length (sc_conns s)] =
        filter (\<lambda>j. j = k) [0..<length (sc_conns s)]"
      using i Some by (intro filter_cong) (auto simp: ctl_inv_def)
    with i Some one show ?thesis by (simp add: ctl_inv_def)
  qed
  moreover have "case sc_source s of None \<Rightarrow> True
       | Some i \<Rightarrow> cn_generation (sc_conns s ! i) = sc_generation s \<and> sc_streaming s"
    using i by (auto simp: ctl_inv_def split: option.split)
  ultimately show ?thesis by (simp add: s_def [symmetric] Let_def)
qed

text \<open>C4 [stream_callbacks_end]: whatever the order of events, a request calls back with any number
  of updates and then at most once with completion or an error, after which it is silent; and
  a request that was sent before the stream is stopped or disposed of, or before another one
  is sent, never calls back from that event on, not even when it was still waiting for its
  headers.\<close>

theorem stream_callbacks_end:
  "list_all (\<lambda>x. \<not> terminal x) (butlast (calls g (snd (run_events (stream_step ni) initial_ctl es)))) \<and>
   (g \<in> set (requests_sent ni initial_ctl es) \<and> interrupts e \<longrightarrow>
      calls g (snd (run_events (stream_step ni) (fst (run_events (stream_step ni) initial_ctl es)) (e # fs))) = [])"
  using calls_end [OF stream.inv_init, of g ni es] interrupted_silent [OF stream.inv_run]
    sent_generation [OF stream.inv_init, of g ni es] by blast

definition sample_stream_events :: "jstring stream_event list" where
  "sample_stream_events =
     [Send (js ''first''), HeadersReady 1 [] False,
      SourceMessage 0 (Some (js ''{''@ [34] @ js ''choices'' @ [34] @ js '':[{'' @ [34] @ js ''delta'' @ [34] @
        js '':{'' @ [34] @ js ''content'' @ [34] @ js '':'' @ [34] @ js ''Hi'' @ [34] @ js ''}}]}'')),
      Send (js ''second''), SourceMessage 0 (Some (js ''[DONE]'')), HeadersReady 2 [] False,
      SourceMessage 1 (Some (js ''[DONE]'')), SourceMessage 1 (Some (js ''[DONE]''))]"

theorem stream_callbacks_end_witness:
  "calls 1 (snd (run_events (stream_step (\<lambda>_. [])) initial_ctl sample_stream_events)) =
     [OnUpdate 1 ChunkContent (JStr (js ''Hi''))] \<and>
   calls 1 (snd (run_events (stream_step (\<lambda>_. []))
     (fst (run_events (stream_step (\<lambda>_. [])) initial_ctl [Send (js ''first'')]))
     [StopStream, HeadersFailed 1 None])) = []"
proof -
  have "calls 1 (snd (run_events (stream_step (\<lambda>_. [])) initial_ctl sample_stream_events)) =
     [OnUpdate 1 ChunkContent (JStr (js ''Hi''))]" by code_simp
  moreover have "1 \<in> set (requests_sent (\<lambda>_. []) initial_ctl [Send (js ''first'')])" by code_simp
  moreover have "interrupts (StopStream :: jstring stream_event)" by code_simp
  ultimately show ?thesis
    using stream_callbacks_end [of 1 "\<lambda>_. []" "[Send (js ''first'')]" StopStream "[HeadersFailed 1 None]"]
    by blast
qed

end
