(* ===== verification/PlaygroundChat.thy ===== *)
theory PlaygroundChat
  imports PlaygroundStream
begin

text \<open>
  The chat of the playground: the request that is built from a conversation
  (\<open>lib/streaming/payload-builder.ts\<close>), the hook \<open>useChatHandler\<close> (\<open>hooks/use-chat-handler.ts\<close>) that
  sends it, batches the chunks of a streamed answer and writes them into the conversation, and
  the hook \<open>usePlaygroundConversation\<close> that the buttons call. Together with the stream controller
  of \<open>PlaygroundStream\<close> they are one event-driven machine.

  A state updater handed to React (\<open>onMessageUpdate((prev) => ...)\<close>) is a value of the type
  \<open>updater\<close>. It runs later, in order, when React renders, and reads \<open>requestGenerationRef\<close> when it
  runs; React may also run it at once if none is waiting. Which of these happens is decided by the
  environment of an event, as are the readings of the clock. A chunk or an error message that is
  not a string, which the declared types exclude, is read as its string form.
\<close>

section \<open>Configuration and requests\<close>

record playground_config =
  pc_model :: jstring
  pc_group :: jstring
  pc_temperature :: rat
  pc_top_p :: rat
  pc_max_tokens :: rat
  pc_frequency_penalty :: rat
  pc_presence_penalty :: rat
  pc_seed :: "rat option"
  pc_stream :: bool

record parameter_enabled =
  pe_temperature :: bool
  pe_top_p :: bool
  pe_max_tokens :: bool
  pe_frequency_penalty :: bool
  pe_presence_penalty :: bool
  pe_seed :: bool

definition DEFAULT_CONFIG :: playground_config where
  "DEFAULT_CONFIG = \<lparr>pc_model = js ''gpt-4o'', pc_group = js ''default'', pc_temperature = 7 / 10,
     pc_top_p = 1, pc_max_tokens = 4096, pc_frequency_penalty = 0, pc_presence_penalty = 0,
     pc_seed = None, pc_stream = True\<rparr>"

definition DEFAULT_PARAMETER_ENABLED :: parameter_enabled where
  "DEFAULT_PARAMETER_ENABLED = \<lparr>pe_temperature = True, pe_top_p = True, pe_max_tokens = False,
     pe_frequency_penalty = True, pe_presence_penalty = True, pe_seed = False\<rparr>"

record chat_request =
  cq_model :: jstring
  cq_group :: jstring
  cq_messages :: "api_message list"
  cq_stream :: bool
  cq_temperature :: "rat option"
  cq_top_p :: "rat option"
  cq_max_tokens :: "rat option"
  cq_frequency_penalty :: "rat option"
  cq_presence_penalty :: "rat option"
  cq_seed :: "rat option"

definition buildChatCompletionPayload ::
  "message list \<Rightarrow> playground_config \<Rightarrow> parameter_enabled \<Rightarrow> chat_request" where
  "buildChatCompletionPayload messages config enabled =
     \<lparr>cq_model = pc_model config, cq_group = pc_group config,
      cq_messages = map formatMessageForAPI (filter isValidMessage messages),
      cq_stream = pc_stream config,
      cq_temperature = (if pe_temperature enabled then Some (pc_temperature config) else None),
      cq_top_p = (if pe_top_p enabled then Some (pc_top_p config) else None),
      cq_max_tokens = (if pe_max_tokens enabled then Some (pc_max_tokens config) else None),
      cq_frequency_penalty =
        (if pe_frequency_penalty enabled then Some (pc_frequency_penalty config) else None),
      cq_presence_penalty =
        (if pe_presence_penalty enabled then Some (pc_presence_penalty config) else None),
      cq_seed = (if pe_seed enabled then pc_seed config else None)\<rparr>"


section \<open>State updaters\<close>

datatype updater =
    ApplyChunks nat jstring jstring
  | CompleteLast nat
  | ErrorLast nat jstring "jstring option" jstring
  | ResponseLast nat chat_response
  | StopLast nat
  | SetMessages "message list"
  | RemoveMessage jstring

text \<open>The updater of \<open>flushStreamUpdates\<close> on the last message.\<close>

definition apply_chunks :: "jstring \<Rightarrow> jstring \<Rightarrow> (nat \<Rightarrow> rat) \<Rightarrow> message \<Rightarrow> message" where
  "apply_chunks reasoning content clk m =
     (let m1 = (if reasoning \<noteq> [] then applyStreamingChunk m ChunkReasoning reasoning clk else m)
      in if content \<noteq> [] then applyStreamingChunk m1 ChunkContent content (\<lambda>i. clk (i + 1)) else m1)"

text \<open>The updaters of \<open>handleStreamComplete\<close>, \<open>handleStreamError\<close>, \<open>sendNonStreamingChat\<close> and
  \<open>stopGeneration\<close>.\<close>

definition complete_last :: "(nat \<Rightarrow> rat) \<Rightarrow> message list \<Rightarrow> message list" where
  "complete_last clk prev = updateLastAssistantMessage prev (\<lambda>m.
     if isAssistantMessageFinal m then m else completeAssistantMessage m clk)"

definition error_last ::
  "jstring \<Rightarrow> jstring option \<Rightarrow> jstring \<Rightarrow> (nat \<Rightarrow> rat) \<Rightarrow> message list \<Rightarrow> message list" where
  "error_last displayError errorCode errorTitle clk prev =
     updateAssistantMessageWithError prev displayError errorCode errorTitle (clk 0)"

definition response_last :: "chat_response \<Rightarrow> (nat \<Rightarrow> rat) \<Rightarrow> message list \<Rightarrow> message list" where
  "response_last response clk prev = updateLastAssistantMessage prev (\<lambda>m.
     coalesce (applyChatCompletionResponse m response clk) m)"

definition stop_last_message :: "(nat \<Rightarrow> rat) \<Rightarrow> message list \<Rightarrow> message list" where
  "stop_last_message clk prev = updateLastAssistantMessage prev (\<lambda>m.
     if isAssistantMessagePending m then completeAssistantMessage m clk else m)"

text \<open>Every updater of a request first compares its generation with the current one.\<close>

fun run_updater :: "nat \<Rightarrow> (nat \<Rightarrow> rat) \<Rightarrow> updater \<Rightarrow> message list \<Rightarrow> message list" where
  "run_updater current clk (ApplyChunks g reasoning content) prev =
     (if g \<noteq> current then prev
      else updateLastAssistantMessage prev (apply_chunks reasoning content clk))"
| "run_updater current clk (CompleteLast g) prev =
     (if g \<noteq> current then prev else complete_last clk prev)"
| "run_updater current clk (ErrorLast g displayError errorCode errorTitle) prev =
     (if g \<noteq> current then prev else error_last displayError errorCode errorTitle clk prev)"
| "run_updater current clk (ResponseLast g response) prev =
     (if g \<noteq> current then prev else response_last response clk prev)"
| "run_updater current clk (StopLast g) prev =
     (if g \<noteq> current then prev else stop_last_message clk prev)"
| "run_updater current clk (SetMessages ms) prev = ms"
| "run_updater current clk (RemoveMessage k) prev = removeMessageByKey prev k"

declare complete_last_def [simp] error_last_def [simp] response_last_def [simp] stop_last_message_def [simp]


section \<open>The chat handler\<close>

record pending_chunks =
  pk_generation :: nat
  pk_content :: jstring
  pk_reasoning :: jstring

text \<open>\<open>ch_timer\<close> is \<open>streamFlushTimerRef\<close> with the generation its callback was given, \<open>ch_armed\<close> whether
  that timer can still fire; \<open>ch_abort\<close> is \<open>abortControllerRef\<close>, a controller being named by the
  generation of its request; \<open>ch_inflight\<close> are the requests that wait for a response; \<open>ch_owner\<close>
  says which chat generation the callbacks of a stream request were made for.\<close>

record chat_state =
  ch_generation :: nat
  ch_pending :: pending_chunks
  ch_timer :: "nat option"
  ch_armed :: bool
  ch_isRequesting :: bool
  ch_abort :: "nat option"
  ch_aborted :: "nat list"
  ch_inflight :: "nat list"
  ch_ctl :: "chat_request stream_ctl"
  ch_owner :: "(nat \<times> nat) list"
  ch_messages :: "message list"
  ch_updates :: "updater list"
  ch_editing :: "jstring option"

datatype chat_output =
    ToastError jstring
  | PostChat nat chat_request
  | AbortRequest nat
  | FromStream "chat_request stream_output"

record env =
  ev_eager :: "nat \<Rightarrow> bool"
  ev_clk :: "nat \<Rightarrow> rat"

definition initial_chat :: chat_state where
  "initial_chat = \<lparr>ch_generation = 0,
     ch_pending = \<lparr>pk_generation = 0, pk_content = [], pk_reasoning = []\<rparr>,
     ch_timer = None, ch_armed = False, ch_isRequesting = False, ch_abort = None, ch_aborted = [],
     ch_inflight = [], ch_ctl = initial_ctl, ch_owner = [], ch_messages = [], ch_updates = [],
     ch_editing = None\<rparr>"

definition isGenerating :: "chat_state \<Rightarrow> bool" where
  "isGenerating st \<longleftrightarrow> sc_streaming (ch_ctl st) \<or> ch_isRequesting st"

text \<open>\<open>onMessageUpdate\<close>: the \<open>i\<close>-th of the handler that runs.\<close>

definition dispatch :: "env \<Rightarrow> nat \<Rightarrow> updater \<Rightarrow> chat_state \<Rightarrow> chat_state" where
  "dispatch ev i u st =
     (if ev_eager ev i \<and> ch_updates st = []
      then st\<lparr>ch_messages := run_updater (ch_generation st) (ev_clk ev) u (ch_messages st)\<rparr>
      else st\<lparr>ch_updates := ch_updates st @ [u]\<rparr>)"

definition mergePendingStreamChunk :: "jstring \<Rightarrow> jstring \<Rightarrow> jstring" where
  "mergePendingStreamChunk currentChunk nextChunk =
     (if currentChunk = [] \<or> \<not> startsWith nextChunk currentChunk then currentChunk @ nextChunk
      else nextChunk)"

definition clear_flush_timer :: "chat_state \<Rightarrow> chat_state" where
  "clear_flush_timer st =
     (if ch_timer st \<noteq> None then st\<lparr>ch_timer := None, ch_armed := False\<rparr> else st)"

definition discardPendingStreamUpdates :: "nat \<Rightarrow> chat_state \<Rightarrow> chat_state" where
  "discardPendingStreamUpdates g st =
     (clear_flush_timer st)\<lparr>ch_pending := \<lparr>pk_generation = g, pk_content = [], pk_reasoning = []\<rparr>\<rparr>"

definition flushStreamUpdates :: "env \<Rightarrow> nat \<Rightarrow> nat \<Rightarrow> chat_state \<Rightarrow> chat_state" where
  "flushStreamUpdates ev i g st =
     (if g \<noteq> ch_generation st then st
      else let st1 = clear_flush_timer st; p = ch_pending st1
           in if pk_generation p \<noteq> g then st1
              else if pk_reasoning p = [] \<and> pk_content p = [] then st1
              else dispatch ev i (ApplyChunks g (pk_reasoning p) (pk_content p))
                     (st1\<lparr>ch_pending := \<lparr>pk_generation = g, pk_content = [], pk_reasoning = []\<rparr>\<rparr>))"

definition scheduleStreamFlush :: "nat \<Rightarrow> chat_state \<Rightarrow> chat_state" where
  "scheduleStreamFlush g st =
     (if g \<noteq> ch_generation st then st
      else if ch_timer st \<noteq> None then st
      else st\<lparr>ch_timer := Some g, ch_armed := True\<rparr>)"

text \<open>The callback of the timer.\<close>

definition flush_timer_fires :: "env \<Rightarrow> chat_state \<Rightarrow> chat_state" where
  "flush_timer_fires ev st =
     (case ch_timer st of
        Some g \<Rightarrow> if ch_armed st then flushStreamUpdates ev 0 g (st\<lparr>ch_armed := False\<rparr>) else st
      | None \<Rightarrow> st)"

definition KNOWN_ERROR_MESSAGES :: "jstring list" where
  "KNOWN_ERROR_MESSAGES =
     [API_REQUEST_ERROR, NETWORK_ERROR, PARSE_ERROR, STREAM_START_ERROR, CONNECTION_CLOSED, INTERRUPTED]"

definition getDisplayError :: "(jstring \<Rightarrow> jstring) \<Rightarrow> jstring \<Rightarrow> jstring" where
  "getDisplayError tr err =
     (if err \<in> set KNOWN_ERROR_MESSAGES then tr err
      else if endsWith err (js '': '' @ CONNECTION_CLOSED)
      then take (length err - length CONNECTION_CLOSED) err @ tr CONNECTION_CLOSED
      else err)"

definition handleStreamUpdate ::
  "nat \<Rightarrow> stream_chunk_type \<Rightarrow> jstring \<Rightarrow> chat_state \<Rightarrow> chat_state" where
  "handleStreamUpdate g ty chunk st =
     (if g \<noteq> ch_generation st then st
      else if pk_generation (ch_pending st) \<noteq> g then st
      else let p = ch_pending st;
               p' = (case ty of
                 ChunkReasoning \<Rightarrow> p\<lparr>pk_reasoning := mergePendingStreamChunk (pk_reasoning p) chunk\<rparr>
               | ChunkContent \<Rightarrow> p\<lparr>pk_content := mergePendingStreamChunk (pk_content p) chunk\<rparr>)
           in scheduleStreamFlush g (st\<lparr>ch_pending := p'\<rparr>))"

definition handleStreamComplete :: "env \<Rightarrow> nat \<Rightarrow> chat_state \<Rightarrow> chat_state" where
  "handleStreamComplete ev g st =
     (if g \<noteq> ch_generation st then st
      else dispatch ev 1 (CompleteLast g)
             ((flushStreamUpdates ev 0 g st)\<lparr>ch_isRequesting := False\<rparr>))"

definition handleStreamError ::
  "(jstring \<Rightarrow> jstring) \<Rightarrow> env \<Rightarrow> nat \<Rightarrow> jstring \<Rightarrow> jstring option \<Rightarrow> chat_state \<Rightarrow>
     chat_state \<times> chat_output list" where
  "handleStreamError tr ev g err errorCode st =
     (if g \<noteq> ch_generation st then (st, [])
      else let displayError = getDisplayError tr err
           in (dispatch ev 1 (ErrorLast g displayError errorCode (tr API_REQUEST_ERROR))
                 ((flushStreamUpdates ev 0 g st)\<lparr>ch_isRequesting := False\<rparr>),
               [ToastError displayError]))"

definition abort_current :: "chat_state \<Rightarrow> chat_state \<times> chat_output list" where
  "abort_current st =
     (case ch_abort st of
        None \<Rightarrow> (st, [])
      | Some g \<Rightarrow> (st\<lparr>ch_abort := None, ch_aborted := g # ch_aborted st\<rparr>, [AbortRequest g]))"

text \<open>A call of the stream controller, and the callbacks it makes.\<close>

definition json_text :: "(rat \<Rightarrow> jstring) \<Rightarrow> json \<Rightarrow> jstring" where
  "json_text ni v = js_to_string ni v"

definition stream_callback ::
  "(rat \<Rightarrow> jstring) \<Rightarrow> (jstring \<Rightarrow> jstring) \<Rightarrow> env \<Rightarrow> chat_request stream_output \<Rightarrow> chat_state \<Rightarrow>
     chat_state \<times> chat_output list" where
  "stream_callback ni tr ev x st =
     (case call_of x of
        None \<Rightarrow> (st, [])
      | Some sg \<Rightarrow>
          (case map_of (ch_owner st) sg of
             None \<Rightarrow> (st, [])
           | Some g \<Rightarrow>
               (case x of
                  OnUpdate _ ty chunk \<Rightarrow> (handleStreamUpdate g ty (json_text ni chunk) st, [])
                | OnComplete _ \<Rightarrow> (handleStreamComplete ev g st, [])
                | OnError _ err code \<Rightarrow>
                    handleStreamError tr ev g (json_text ni err) (map_option (json_text ni) code) st
                | _ \<Rightarrow> (st, []))))"

fun stream_callbacks ::
  "(rat \<Rightarrow> jstring) \<Rightarrow> (jstring \<Rightarrow> jstring) \<Rightarrow> env \<Rightarrow> chat_request stream_output list \<Rightarrow> chat_state \<Rightarrow>
     chat_state \<times> chat_output list" where
  "stream_callbacks ni tr ev [] st = (st, [])"
| "stream_callbacks ni tr ev (x # xs) st =
     (let (st1, o1) = stream_callback ni tr ev x st;
          (st2, o2) = stream_callbacks ni tr ev xs st1
      in (st2, FromStream x # o1 @ o2))"

definition on_stream ::
  "(rat \<Rightarrow> jstring) \<Rightarrow> (jstring \<Rightarrow> jstring) \<Rightarrow> env \<Rightarrow> chat_request stream_event \<Rightarrow> chat_state \<Rightarrow>
     chat_state \<times> chat_output list" where
  "on_stream ni tr ev e st =
     (let (ctl, outs) = stream_step ni (ch_ctl st) e
      in stream_callbacks ni tr ev outs (st\<lparr>ch_ctl := ctl\<rparr>))"

definition sendStreamingChat ::
  "(rat \<Rightarrow> jstring) \<Rightarrow> (jstring \<Rightarrow> jstring) \<Rightarrow> env \<Rightarrow> playground_config \<Rightarrow> parameter_enabled \<Rightarrow>
     message list \<Rightarrow> chat_state \<Rightarrow> chat_state \<times> chat_output list" where
  "sendStreamingChat ni tr ev config enabled messages st =
     (let g = ch_generation st + 1;
          (st1, o1) = abort_current (st\<lparr>ch_generation := g\<rparr>);
          st2 = (discardPendingStreamUpdates g st1)\<lparr>ch_isRequesting := True\<rparr>;
          payload = buildChatCompletionPayload messages config enabled;
          st3 = st2\<lparr>ch_owner := (sc_generation (ch_ctl st2) + 1, g) # ch_owner st2\<rparr>;
          (st4, o4) = on_stream ni tr ev (Send payload) st3
      in (st4, o1 @ o4))"

text \<open>\<open>sendNonStreamingChat\<close> up to the response.\<close>

definition sendNonStreamingChat ::
  "(rat \<Rightarrow> jstring) \<Rightarrow> (jstring \<Rightarrow> jstring) \<Rightarrow> env \<Rightarrow> playground_config \<Rightarrow> parameter_enabled \<Rightarrow>
     message list \<Rightarrow> chat_state \<Rightarrow> chat_state \<times> chat_output list" where
  "sendNonStreamingChat ni tr ev config enabled messages st =
     (let payload = buildChatCompletionPayload messages config enabled;
          g = ch_generation st + 1;
          (st1, o1) = on_stream ni tr ev StopStream (st\<lparr>ch_generation := g\<rparr>);
          (st2, o2) = abort_current (discardPendingStreamUpdates g st1)
      in (st2\<lparr>ch_abort := Some g, ch_isRequesting := True, ch_inflight := g # ch_inflight st2\<rparr>,
          o1 @ o2 @ [PostChat g payload]))"

text \<open>The \<open>finally\<close> block.\<close>

definition non_streaming_finally :: "nat \<Rightarrow> chat_state \<Rightarrow> chat_state" where
  "non_streaming_finally g st =
     (if ch_generation st = g then st\<lparr>ch_abort := None, ch_isRequesting := False\<rparr> else st)"

definition non_streaming_response ::
  "(jstring \<Rightarrow> jstring) \<Rightarrow> env \<Rightarrow> nat \<Rightarrow> chat_response \<Rightarrow> chat_state \<Rightarrow> chat_state \<times> chat_output list" where
  "non_streaming_response tr ev g response st =
     (if g \<notin> set (ch_inflight st) then (st, [])
      else let st0 = st\<lparr>ch_inflight := remove1 g (ch_inflight st)\<rparr>;
               (st1, o1) =
                 (if g \<in> set (ch_aborted st0) \<or> ch_generation st0 \<noteq> g then (st0, [])
                  else if \<not> hasChatCompletionChoice response
                  then handleStreamError tr ev g API_REQUEST_ERROR None st0
                  else (dispatch ev 0 (ResponseLast g response) st0, []))
           in (non_streaming_finally g st1, o1))"

definition non_streaming_failed ::
  "(rat \<Rightarrow> jstring) \<Rightarrow> (jstring \<Rightarrow> jstring) \<Rightarrow> env \<Rightarrow> nat \<Rightarrow> json option \<Rightarrow> chat_state \<Rightarrow>
     chat_state \<times> chat_output list" where
  "non_streaming_failed ni tr ev g err st =
     (if g \<notin> set (ch_inflight st) then (st, [])
      else let st0 = st\<lparr>ch_inflight := remove1 g (ch_inflight st)\<rparr>;
               (st1, o1) =
                 (if g \<in> set (ch_aborted st0) \<or> ch_generation st0 \<noteq> g then (st0, [])
                  else let details = parseRequestErrorDetails err
                       in handleStreamError tr ev g (json_text ni (ed_errorMessage details))
                            (map_option (json_text ni) (ed_errorCode details)) st0)
           in (non_streaming_finally g st1, o1))"

definition sendChat ::
  "(rat \<Rightarrow> jstring) \<Rightarrow> (jstring \<Rightarrow> jstring) \<Rightarrow> env \<Rightarrow> playground_config \<Rightarrow> parameter_enabled \<Rightarrow>
     message list \<Rightarrow> chat_state \<Rightarrow> chat_state \<times> chat_output list" where
  "sendChat ni tr ev config enabled messages st =
     (if pc_stream config then sendStreamingChat ni tr ev config enabled messages st
      else sendNonStreamingChat ni tr ev config enabled messages st)"

definition stopGeneration ::
  "(rat \<Rightarrow> jstring) \<Rightarrow> (jstring \<Rightarrow> jstring) \<Rightarrow> env \<Rightarrow> chat_state \<Rightarrow> chat_state \<times> chat_output list" where
  "stopGeneration ni tr ev st =
     (let stoppedGeneration = ch_generation st;
          st1 = flushStreamUpdates ev 0 stoppedGeneration st;
          idleGeneration = stoppedGeneration + 1;
          st2 = discardPendingStreamUpdates idleGeneration (st1\<lparr>ch_generation := idleGeneration\<rparr>);
          (st3, o3) = on_stream ni tr ev StopStream st2;
          (st4, o4) = abort_current st3
      in (dispatch ev 1 (StopLast idleGeneration) (st4\<lparr>ch_isRequesting := False\<rparr>), o3 @ o4))"

text \<open>The cleanup of the effects of both hooks.\<close>

definition unmount ::
  "(rat \<Rightarrow> jstring) \<Rightarrow> (jstring \<Rightarrow> jstring) \<Rightarrow> env \<Rightarrow> chat_state \<Rightarrow> chat_state \<times> chat_output list" where
  "unmount ni tr ev st =
     (let (st1, o1) = on_stream ni tr ev DisposeStream st;
          (st2, o2) = abort_current (st1\<lparr>ch_generation := ch_generation st1 + 1, ch_armed := False\<rparr>)
      in (st2, o1 @ o2))"

text \<open>React runs the first updater that waits.\<close>

definition render_update :: "env \<Rightarrow> chat_state \<Rightarrow> chat_state" where
  "render_update ev st =
     (case ch_updates st of
        [] \<Rightarrow> st
      | u # us \<Rightarrow> st\<lparr>ch_updates := us,
          ch_messages := run_updater (ch_generation st) (ev_clk ev) u (ch_messages st)\<rparr>)"


section \<open>The conversation\<close>

text \<open>The handlers of \<open>usePlaygroundConversation\<close>; \<open>messages\<close> is the list of the render that made the
  handler, \<open>ids\<close> and \<open>now\<close> what \<open>nanoid()\<close> and the clock give.\<close>

record chat_input =
  ci_config :: playground_config
  ci_enabled :: parameter_enabled
  ci_messages :: "message list"
  ci_ids :: "nat \<Rightarrow> jstring"
  ci_now :: rat

definition update_and_send ::
  "(rat \<Rightarrow> jstring) \<Rightarrow> (jstring \<Rightarrow> jstring) \<Rightarrow> env \<Rightarrow> chat_input \<Rightarrow> message list \<Rightarrow> chat_state \<Rightarrow>
     chat_state \<times> chat_output list" where
  "update_and_send ni tr ev inp nextMessages st =
     sendChat ni tr ev (ci_config inp) (ci_enabled inp) nextMessages
       (dispatch ev 0 (SetMessages nextMessages) st)"

definition handleSendMessage ::
  "(rat \<Rightarrow> jstring) \<Rightarrow> (jstring \<Rightarrow> jstring) \<Rightarrow> env \<Rightarrow> chat_input \<Rightarrow> jstring \<Rightarrow> chat_state \<Rightarrow>
     chat_state \<times> chat_output list" where
  "handleSendMessage ni tr ev inp txt st =
     update_and_send ni tr ev inp
       (appendUserMessagePair (ci_messages inp) txt (ci_ids inp) (ci_now inp)) st"

definition handleRegenerateMessage ::
  "(rat \<Rightarrow> jstring) \<Rightarrow> (jstring \<Rightarrow> jstring) \<Rightarrow> env \<Rightarrow> chat_input \<Rightarrow> jstring \<Rightarrow> chat_state \<Rightarrow>
     chat_state \<times> chat_output list" where
  "handleRegenerateMessage ni tr ev inp mkey st =
     (case createRegeneratedMessages (ci_messages inp) mkey (ci_ids inp) (ci_now inp) of
        None \<Rightarrow> (st, [])
      | Some nextMessages \<Rightarrow> update_and_send ni tr ev inp nextMessages st)"

definition handleEditMessage :: "jstring \<Rightarrow> chat_state \<Rightarrow> chat_state" where
  "handleEditMessage mkey st = st\<lparr>ch_editing := Some mkey\<rparr>"

definition handleEditOpenChange :: "bool \<Rightarrow> chat_state \<Rightarrow> chat_state" where
  "handleEditOpenChange is_open st = (if is_open then st else st\<lparr>ch_editing := None\<rparr>)"

definition applyEdit ::
  "(rat \<Rightarrow> jstring) \<Rightarrow> (jstring \<Rightarrow> jstring) \<Rightarrow> env \<Rightarrow> chat_input \<Rightarrow> jstring \<Rightarrow> bool \<Rightarrow> chat_state \<Rightarrow>
     chat_state \<times> chat_output list" where
  "applyEdit ni tr ev inp newContent shouldSubmit st =
     (if or_str (ch_editing st) [] = [] then (st, [])
      else case applyMessageEdit (ci_messages inp) (the (ch_editing st)) newContent shouldSubmit
                  (ci_ids inp) (ci_now inp) of
             None \<Rightarrow> (st, [])
           | Some (messages, shouldSend) \<Rightarrow>
               let st1 = dispatch ev 0 (SetMessages messages) (st\<lparr>ch_editing := None\<rparr>)
               in if shouldSend
                  then sendChat ni tr ev (ci_config inp) (ci_enabled inp) messages st1
                  else (st1, []))"

definition handleDeleteMessage :: "env \<Rightarrow> jstring \<Rightarrow> chat_state \<Rightarrow> chat_state" where
  "handleDeleteMessage ev mkey st = dispatch ev 0 (RemoveMessage mkey) st"

datatype chat_event =
    SendMessage chat_input jstring
  | RegenerateMessage chat_input jstring
  | EditMessage jstring
  | EditOpenChange bool
  | ApplyEdit chat_input jstring bool
  | DeleteMessage jstring
  | StopGeneration
  | FlushTimer
  | StreamEvent "chat_request stream_event"
  | ChatResponse nat chat_response
  | ChatFailed nat "json option"
  | RenderUpdate
  | Unmount

text \<open>The controller is only called by the handlers: of its events, \<open>StreamEvent\<close> stands for those
  that the network causes.\<close>

fun network_event :: "'p stream_event \<Rightarrow> bool" where
  "network_event (Send _) = False"
| "network_event StopStream = False"
| "network_event DisposeStream = False"
| "network_event _ = True"

fun chat_step ::
  "(rat \<Rightarrow> jstring) \<Rightarrow> (jstring \<Rightarrow> jstring) \<Rightarrow> chat_state \<Rightarrow> chat_event \<times> env \<Rightarrow>
     chat_state \<times> chat_output list" where
  "chat_step ni tr st (SendMessage inp txt, ev) = handleSendMessage ni tr ev inp txt st"
| "chat_step ni tr st (RegenerateMessage inp mkey, ev) = handleRegenerateMessage ni tr ev inp mkey st"
| "chat_step ni tr st (EditMessage mkey, ev) = (handleEditMessage mkey st, [])"
| "chat_step ni tr st (EditOpenChange b, ev) = (handleEditOpenChange b st, [])"
| "chat_step ni tr st (ApplyEdit inp txt b, ev) = applyEdit ni tr ev inp txt b st"
| "chat_step ni tr st (DeleteMessage mkey, ev) = (handleDeleteMessage ev mkey st, [])"
| "chat_step ni tr st (StopGeneration, ev) = stopGeneration ni tr ev st"
| "chat_step ni tr st (FlushTimer, ev) = (flush_timer_fires ev st, [])"
| "chat_step ni tr st (StreamEvent e, ev) =
     (if network_event e then on_stream ni tr ev e st else (st, []))"
| "chat_step ni tr st (ChatResponse g r, ev) = non_streaming_response tr ev g r st"
| "chat_step ni tr st (ChatFailed g err, ev) = non_streaming_failed ni tr ev g err st"
| "chat_step ni tr st (RenderUpdate, ev) = (render_update ev st, [])"
| "chat_step ni tr st (Unmount, ev) = unmount ni tr ev st"


section \<open>What the handlers leave alone\<close>

named_theorems chat_frame

lemma dispatch_frame [simp, chat_frame]:
  "ch_generation (dispatch ev i u st) = ch_generation st"
  "ch_pending (dispatch ev i u st) = ch_pending st"
  "ch_timer (dispatch ev i u st) = ch_timer st"
  "ch_armed (dispatch ev i u st) = ch_armed st"
  "ch_isRequesting (dispatch ev i u st) = ch_isRequesting st"
  "ch_abort (dispatch ev i u st) = ch_abort st"
  "ch_aborted (dispatch ev i u st) = ch_aborted st"
  "ch_inflight (dispatch ev i u st) = ch_inflight st"
  "ch_ctl (dispatch ev i u st) = ch_ctl st"
  "ch_owner (dispatch ev i u st) = ch_owner st"
  by (simp_all add: dispatch_def)

lemma clear_flush_timer_frame [simp, chat_frame]:
  "ch_timer (clear_flush_timer st) = None"
  "ch_generation (clear_flush_timer st) = ch_generation st"
  "ch_pending (clear_flush_timer st) = ch_pending st"
  "ch_isRequesting (clear_flush_timer st) = ch_isRequesting st"
  "ch_abort (clear_flush_timer st) = ch_abort st"
  "ch_aborted (clear_flush_timer st) = ch_aborted st"
  "ch_inflight (clear_flush_timer st) = ch_inflight st"
  "ch_ctl (clear_flush_timer st) = ch_ctl st"
  "ch_owner (clear_flush_timer st) = ch_owner st"
  "ch_messages (clear_flush_timer st) = ch_messages st"
  "ch_updates (clear_flush_timer st) = ch_updates st"
  by (simp_all add: clear_flush_timer_def)

lemma flush_frame [simp, chat_frame]:
  "ch_generation (flushStreamUpdates ev i g st) = ch_generation st"
  "ch_isRequesting (flushStreamUpdates ev i g st) = ch_isRequesting st"
  "ch_abort (flushStreamUpdates ev i g st) = ch_abort st"
  "ch_aborted (flushStreamUpdates ev i g st) = ch_aborted st"
  "ch_inflight (flushStreamUpdates ev i g st) = ch_inflight st"
  "ch_ctl (flushStreamUpdates ev i g st) = ch_ctl st"
  "ch_owner (flushStreamUpdates ev i g st) = ch_owner st"
  "pk_generation (ch_pending (flushStreamUpdates ev i g st)) = pk_generation (ch_pending st)"
  by (auto simp: flushStreamUpdates_def Let_def)

lemma handler_frame [simp, chat_frame]:
  "ch_generation (handleStreamUpdate g ty c st) = ch_generation st"
  "ch_inflight (handleStreamUpdate g ty c st) = ch_inflight st"
  "ch_ctl (handleStreamUpdate g ty c st) = ch_ctl st"
  "ch_owner (handleStreamUpdate g ty c st) = ch_owner st"
  "ch_generation (handleStreamComplete ev g st) = ch_generation st"
  "ch_inflight (handleStreamComplete ev g st) = ch_inflight st"
  "ch_ctl (handleStreamComplete ev g st) = ch_ctl st"
  "ch_owner (handleStreamComplete ev g st) = ch_owner st"
  "ch_generation (fst (handleStreamError tr ev g e c' st)) = ch_generation st"
  "ch_inflight (fst (handleStreamError tr ev g e c' st)) = ch_inflight st"
  "ch_ctl (fst (handleStreamError tr ev g e c' st)) = ch_ctl st"
  "ch_owner (fst (handleStreamError tr ev g e c' st)) = ch_owner st"
  by (auto simp: handleStreamUpdate_def handleStreamComplete_def handleStreamError_def
      scheduleStreamFlush_def Let_def split: stream_chunk_type.split)

lemma callback_frame [simp, chat_frame]:
  "ch_generation (fst (stream_callback ni tr ev x st)) = ch_generation st"
  "ch_inflight (fst (stream_callback ni tr ev x st)) = ch_inflight st"
  "ch_ctl (fst (stream_callback ni tr ev x st)) = ch_ctl st"
  "ch_owner (fst (stream_callback ni tr ev x st)) = ch_owner st"
  by (auto simp: stream_callback_def split: option.split stream_output.split)

lemma callbacks_frame [simp, chat_frame]:
  "ch_generation (fst (stream_callbacks ni tr ev xs st)) = ch_generation st"
  "ch_inflight (fst (stream_callbacks ni tr ev xs st)) = ch_inflight st"
  "ch_ctl (fst (stream_callbacks ni tr ev xs st)) = ch_ctl st"
  "ch_owner (fst (stream_callbacks ni tr ev xs st)) = ch_owner st"
  by (induction xs arbitrary: st) (auto simp: Let_def case_prod_beta)

lemma on_stream_frame [simp, chat_frame]:
  "ch_generation (fst (on_stream ni tr ev e st)) = ch_generation st"
  "ch_inflight (fst (on_stream ni tr ev e st)) = ch_inflight st"
  "ch_ctl (fst (on_stream ni tr ev e st)) = fst (stream_step ni (ch_ctl st) e)"
  "ch_owner (fst (on_stream ni tr ev e st)) = ch_owner st"
  by (simp_all add: on_stream_def case_prod_beta)

lemma abort_frame [simp, chat_frame]:
  "ch_generation (fst (abort_current st)) = ch_generation st"
  "ch_pending (fst (abort_current st)) = ch_pending st"
  "ch_timer (fst (abort_current st)) = ch_timer st"
  "ch_armed (fst (abort_current st)) = ch_armed st"
  "ch_isRequesting (fst (abort_current st)) = ch_isRequesting st"
  "ch_inflight (fst (abort_current st)) = ch_inflight st"
  "ch_ctl (fst (abort_current st)) = ch_ctl st"
  "ch_owner (fst (abort_current st)) = ch_owner st"
  "ch_messages (fst (abort_current st)) = ch_messages st"
  "ch_updates (fst (abort_current st)) = ch_updates st"
  by (auto simp: abort_current_def split: option.split)

lemma discard_frame [simp, chat_frame]:
  "ch_generation (discardPendingStreamUpdates g st) = ch_generation st"
  "ch_pending (discardPendingStreamUpdates g st) = \<lparr>pk_generation = g, pk_content = [], pk_reasoning = []\<rparr>"
  "ch_timer (discardPendingStreamUpdates g st) = None"
  "ch_isRequesting (discardPendingStreamUpdates g st) = ch_isRequesting st"
  "ch_inflight (discardPendingStreamUpdates g st) = ch_inflight st"
  "ch_ctl (discardPendingStreamUpdates g st) = ch_ctl st"
  "ch_owner (discardPendingStreamUpdates g st) = ch_owner st"
  "ch_messages (discardPendingStreamUpdates g st) = ch_messages st"
  "ch_updates (discardPendingStreamUpdates g st) = ch_updates st"
  by (simp_all add: discardPendingStreamUpdates_def)

text \<open>Outputs that are no callbacks, those of \<open>send\<close> and \<open>cancel\<close> among them, change nothing.\<close>

lemma callback_none: "call_of x = None \<Longrightarrow> stream_callback ni tr ev x st = (st, [])"
  by (simp add: stream_callback_def)

lemma callbacks_none: "list_all (\<lambda>x. call_of x = None) xs \<Longrightarrow> fst (stream_callbacks ni tr ev xs st) = st"
  by (induction xs) (auto simp: callback_none case_prod_beta)

lemma close_previous_calls: "list_all (\<lambda>x. call_of x = None) (snd (close_previous s))"
  by (auto simp: close_previous_def split: option.split)

lemma silent_step:
  "list_all (\<lambda>x. call_of x = None) (snd (stream_step ni s (Send p)))"
  "list_all (\<lambda>x. call_of x = None) (snd (stream_step ni s StopStream))"
  "list_all (\<lambda>x. call_of x = None) (snd (stream_step ni s DisposeStream))"
  using close_previous_calls
  by (auto simp: send_begin_def cancel_def setStreaming_def Let_def case_prod_beta)

lemma on_stream_silent:
  "list_all (\<lambda>x. call_of x = None) (snd (stream_step ni (ch_ctl st) e)) \<Longrightarrow>
   fst (on_stream ni tr ev e st) = st\<lparr>ch_ctl := fst (stream_step ni (ch_ctl st) e)\<rparr>"
  by (simp add: on_stream_def case_prod_beta callbacks_none)

lemma generation_step:
  "sc_generation (fst (stream_step ni s (Send p))) = sc_generation s + 1"
  "sc_generation (fst (stream_step ni s StopStream)) = sc_generation s + 1"
  "sc_generation (fst (stream_step ni s DisposeStream)) = sc_generation s + 1"
  by (auto simp: send_begin_def cancel_def setStreaming_def close_previous_def close_conn_def Let_def
      case_prod_beta split: option.split)


section \<open>The invariant\<close>

text \<open>Requests are owned by chat generations that exist, every one of its own; a flush of pending
  chunks is scheduled; the requests in flight are not those of a stream.\<close>

definition owner_inv :: "chat_state \<Rightarrow> bool" where
  "owner_inv st \<longleftrightarrow>
     (\<forall>w \<in> set (ch_owner st). fst w \<le> sc_generation (ch_ctl st) \<and> snd w \<le> ch_generation st \<and>
        snd w \<notin> set (ch_inflight st)) \<and>
     distinct (map fst (ch_owner st)) \<and> distinct (map snd (ch_owner st)) \<and>
     (\<forall>g \<in> set (ch_inflight st). g \<le> ch_generation st)"

definition flush_inv :: "chat_state \<Rightarrow> bool" where
  "flush_inv st \<longleftrightarrow>
     pk_generation (ch_pending st) \<le> ch_generation st \<and>
     (pk_generation (ch_pending st) = ch_generation st \<longrightarrow>
        (ch_timer st = None \<and> pk_content (ch_pending st) = [] \<and> pk_reasoning (ch_pending st) = []) \<or>
        (ch_timer st = Some (ch_generation st) \<and> ch_armed st))"

definition chat_inv :: "chat_state \<Rightarrow> bool" where
  "chat_inv st \<longleftrightarrow> ctl_inv (ch_ctl st) \<and> owner_inv st \<and> flush_inv st"

lemma owner_inv_cong:
  assumes "owner_inv st" and "ch_owner st' = ch_owner st" and "ch_inflight st' = ch_inflight st"
    and "ch_generation st \<le> ch_generation st'"
    and "sc_generation (ch_ctl st) \<le> sc_generation (ch_ctl st')"
  shows "owner_inv st'"
  using assms(1,4,5) unfolding owner_inv_def assms(2,3) by (auto intro: le_trans)

lemma flush_inv_flush: "flush_inv st \<Longrightarrow> flush_inv (flushStreamUpdates ev i g st)"
  by (auto simp: flush_inv_def flushStreamUpdates_def Let_def)

lemma flush_inv_dispatch [simp]: "flush_inv (dispatch ev i u st) = flush_inv st"
  by (simp add: flush_inv_def)

lemma flush_inv_requesting [simp]: "flush_inv (st\<lparr>ch_isRequesting := b\<rparr>) = flush_inv st"
  by (simp add: flush_inv_def)

lemma flush_inv_update: "flush_inv st \<Longrightarrow> flush_inv (handleStreamUpdate g ty c st)"
  by (cases ty) (auto simp: handleStreamUpdate_def scheduleStreamFlush_def Let_def flush_inv_def)

lemma flush_inv_handlers:
  assumes "flush_inv st"
  shows "flush_inv (handleStreamUpdate g ty c st)"
    and "flush_inv (handleStreamComplete ev g st)"
    and "flush_inv (fst (handleStreamError tr ev g e c' st))"
  using assms
  by (simp_all add: flush_inv_update flush_inv_flush handleStreamComplete_def handleStreamError_def Let_def)

lemma flush_inv_callback: "flush_inv st \<Longrightarrow> flush_inv (fst (stream_callback ni tr ev x st))"
  by (auto simp: stream_callback_def flush_inv_handlers split: option.split stream_output.split)

lemma flush_inv_callbacks: "flush_inv st \<Longrightarrow> flush_inv (fst (stream_callbacks ni tr ev xs st))"
  by (induction xs arbitrary: st) (auto simp: Let_def case_prod_beta flush_inv_callback)

lemma flush_inv_on_stream: "flush_inv st \<Longrightarrow> flush_inv (fst (on_stream ni tr ev e st))"
proof -
  assume "flush_inv st"
  then have "flush_inv (st\<lparr>ch_ctl := c\<rparr>)" for c by (simp add: flush_inv_def)
  then show ?thesis by (simp add: on_stream_def case_prod_beta flush_inv_callbacks)
qed

lemma stream_generation_mono:
  "ctl_inv s \<Longrightarrow> sc_generation s \<le> sc_generation (fst (stream_step ni s e))"
  using stream_step_ok [of s ni e] by (simp add: step_ok_def)

lemma ctl_inv_step: "ctl_inv s \<Longrightarrow> ctl_inv (fst (stream_step ni s e))"
  using stream_step_ok [of s ni e] by (simp add: step_ok_def)

lemma chat_inv_on_stream: "chat_inv st \<Longrightarrow> chat_inv (fst (on_stream ni tr ev e st))"
  using owner_inv_cong [of st "fst (on_stream ni tr ev e st)"]
  by (auto simp: chat_inv_def flush_inv_on_stream ctl_inv_step stream_generation_mono)

lemma chat_inv_dispatch [simp]: "chat_inv (dispatch ev i u st) = chat_inv st"
  by (simp add: chat_inv_def owner_inv_def)

lemma chat_inv_editing [simp]: "chat_inv (st\<lparr>ch_editing := k\<rparr>) = chat_inv st"
  by (simp add: chat_inv_def owner_inv_def flush_inv_def)

lemma chat_inv_requesting [simp]: "chat_inv (st\<lparr>ch_isRequesting := b\<rparr>) = chat_inv st"
  by (simp add: chat_inv_def owner_inv_def flush_inv_def)

lemma chat_inv_abort [simp]: "chat_inv (fst (abort_current st)) = chat_inv st"
  by (simp add: chat_inv_def owner_inv_def flush_inv_def)

text \<open>The state right after a streaming request was sent.\<close>

lemma sendStreamingChat_state:
  "fst (sendStreamingChat ni tr ev config enabled ms st) =
     (let g = ch_generation st + 1; st1 = fst (abort_current (st\<lparr>ch_generation := g\<rparr>))
      in (discardPendingStreamUpdates g st1)
        \<lparr>ch_isRequesting := True, ch_owner := (sc_generation (ch_ctl st) + 1, g) # ch_owner st,
         ch_ctl := fst (stream_step ni (ch_ctl st)
           (Send (buildChatCompletionPayload ms config enabled)))\<rparr>)"
proof -
  have "fst (on_stream ni tr ev (Send p) st') = st'\<lparr>ch_ctl := fst (stream_step ni (ch_ctl st') (Send p))\<rparr>"
    for p st'
    by (rule on_stream_silent) (rule silent_step)
  then show ?thesis
    by (simp add: sendStreamingChat_def Let_def case_prod_beta del: stream_step.simps)
qed

lemma owner_inv_send:
  assumes "owner_inv st" and "ch_generation st' = ch_generation st + 1"
    and "ch_owner st' = (sc_generation (ch_ctl st) + 1, ch_generation st + 1) # ch_owner st"
    and "sc_generation (ch_ctl st') = sc_generation (ch_ctl st) + 1" and "ch_inflight st' = ch_inflight st"
  shows "owner_inv st'"
  using assms unfolding owner_inv_def by (auto simp: image_iff)

lemma owner_inv_post:
  assumes "owner_inv st" and "ch_generation st' = ch_generation st + 1" and "ch_owner st' = ch_owner st"
    and "sc_generation (ch_ctl st') = sc_generation (ch_ctl st) + 1"
    and "ch_inflight st' = (ch_generation st + 1) # ch_inflight st"
  shows "owner_inv st'"
  using assms unfolding owner_inv_def by (auto simp: image_iff)

lemma chat_inv_send_stream:
  assumes "chat_inv st"
  shows "chat_inv (fst (sendStreamingChat ni tr ev config enabled ms st))"
proof -
  define p where "p = buildChatCompletionPayload ms config enabled"
  define st' where "st' = fst (sendStreamingChat ni tr ev config enabled ms st)"
  have f: "ch_generation st' = ch_generation st + 1" "ch_inflight st' = ch_inflight st"
    "ch_owner st' = (sc_generation (ch_ctl st) + 1, ch_generation st + 1) # ch_owner st"
    "ch_ctl st' = fst (stream_step ni (ch_ctl st) (Send p))" "ch_timer st' = None"
    "ch_pending st' = \<lparr>pk_generation = ch_generation st + 1, pk_content = [], pk_reasoning = []\<rparr>"
    by (simp_all add: st'_def sendStreamingChat_state Let_def p_def del: stream_step.simps)
  have "ctl_inv (ch_ctl st')" unfolding f(4) by (rule ctl_inv_step) (use assms in \<open>simp add: chat_inv_def\<close>)
  moreover have "owner_inv st'"
    using assms owner_inv_send [of st st'] f(1-4) generation_step(1) [of ni "ch_ctl st" p] by (auto simp: chat_inv_def)
  moreover have "flush_inv st'" using f by (simp add: flush_inv_def)
  ultimately show ?thesis by (simp add: chat_inv_def st'_def)
qed

lemma chat_inv_send_plain:
  assumes "chat_inv st"
  shows "chat_inv (fst (sendNonStreamingChat ni tr ev config enabled ms st))"
proof -
  define st' where "st' = fst (sendNonStreamingChat ni tr ev config enabled ms st)"
  have f: "ch_generation st' = ch_generation st + 1" "ch_inflight st' = (ch_generation st + 1) # ch_inflight st"
    "ch_owner st' = ch_owner st"
    "ch_ctl st' = fst (stream_step ni (ch_ctl st) StopStream)" "ch_timer st' = None"
    "ch_pending st' = \<lparr>pk_generation = ch_generation st + 1, pk_content = [], pk_reasoning = []\<rparr>"
    by (simp_all add: st'_def sendNonStreamingChat_def Let_def case_prod_beta del: stream_step.simps)
  have "ctl_inv (ch_ctl st')" unfolding f(4) by (rule ctl_inv_step) (use assms in \<open>simp add: chat_inv_def\<close>)
  moreover have "owner_inv st'"
    using assms owner_inv_post [of st st'] f(1-4) generation_step(2) [of ni "ch_ctl st"] by (auto simp: chat_inv_def)
  moreover have "flush_inv st'" using f by (simp add: flush_inv_def)
  ultimately show ?thesis by (simp add: chat_inv_def st'_def)
qed

lemma chat_inv_sendChat: "chat_inv st \<Longrightarrow> chat_inv (fst (sendChat ni tr ev config enabled ms st))"
  by (simp add: sendChat_def chat_inv_send_stream chat_inv_send_plain)

lemma chat_inv_finally: "chat_inv st \<Longrightarrow> chat_inv (non_streaming_finally g st)"
  by (auto simp: non_streaming_finally_def chat_inv_def owner_inv_def flush_inv_def)

lemma chat_inv_remove_inflight: "chat_inv st \<Longrightarrow> chat_inv (st\<lparr>ch_inflight := remove1 g (ch_inflight st)\<rparr>)"
  using set_remove1_subset [of g "ch_inflight st"]
  by (auto simp: chat_inv_def owner_inv_def flush_inv_def)

lemma chat_inv_error: "chat_inv st \<Longrightarrow> chat_inv (fst (handleStreamError tr ev g e c st))"
  using owner_inv_cong [of st "fst (handleStreamError tr ev g e c st)"]
  by (auto simp: chat_inv_def flush_inv_handlers)

lemma chat_inv_flush: "chat_inv st \<Longrightarrow> chat_inv (flushStreamUpdates ev i g st)"
  using owner_inv_cong [of st "flushStreamUpdates ev i g st"]
  by (auto simp: chat_inv_def flush_inv_flush)

lemma chat_inv_new_generation:
  assumes "chat_inv st" and "g = ch_generation st + 1"
  shows "chat_inv (discardPendingStreamUpdates g (st\<lparr>ch_generation := g\<rparr>))"
proof -
  have "owner_inv (discardPendingStreamUpdates g (st\<lparr>ch_generation := g\<rparr>))"
    by (rule owner_inv_cong [of st]) (use assms in \<open>auto simp: chat_inv_def\<close>)
  then show ?thesis using assms by (simp add: chat_inv_def flush_inv_def)
qed

lemma chat_inv_stop: "chat_inv st \<Longrightarrow> chat_inv (fst (stopGeneration ni tr ev st))"
  by (simp add: stopGeneration_def Let_def case_prod_beta chat_inv_on_stream chat_inv_new_generation
      chat_inv_flush)

lemma chat_inv_unmount:
  assumes "chat_inv st"
  shows "chat_inv (fst (unmount ni tr ev st))"
proof -
  define st1 where "st1 = fst (on_stream ni tr ev DisposeStream st)"
  have i1: "chat_inv st1" unfolding st1_def by (rule chat_inv_on_stream [OF assms])
  have "owner_inv (st1\<lparr>ch_generation := ch_generation st1 + 1, ch_armed := False\<rparr>)"
    by (rule owner_inv_cong [of st1]) (use i1 in \<open>auto simp: chat_inv_def\<close>)
  then have "chat_inv (st1\<lparr>ch_generation := ch_generation st1 + 1, ch_armed := False\<rparr>)"
    using i1 by (simp add: chat_inv_def flush_inv_def)
  then show ?thesis by (simp add: unmount_def case_prod_beta st1_def [symmetric])
qed

lemma chat_inv_timer:
  assumes "chat_inv st"
  shows "chat_inv (flush_timer_fires ev st)"
proof (cases "ch_timer st")
  case (Some g)
  show ?thesis
  proof (cases "ch_armed st")
    case True
    define st1 where "st1 = flushStreamUpdates ev 0 g (st\<lparr>ch_armed := False\<rparr>)"
    have "owner_inv st1"
      by (rule owner_inv_cong [of st]) (use assms in \<open>auto simp: chat_inv_def st1_def\<close>)
    moreover have "flush_inv st1"
      using assms Some by (auto simp: st1_def flushStreamUpdates_def Let_def flush_inv_def chat_inv_def)
    ultimately show ?thesis
      using assms Some True by (simp add: flush_timer_fires_def chat_inv_def st1_def)
  qed (use assms Some in \<open>simp add: flush_timer_fires_def\<close>)
qed (use assms in \<open>simp add: flush_timer_fires_def\<close>)

lemma chat_inv_render: "chat_inv st \<Longrightarrow> chat_inv (render_update ev st)"
  by (auto simp: render_update_def chat_inv_def owner_inv_def flush_inv_def split: list.split)

lemma chat_inv_plain_answer:
  assumes "chat_inv st"
  shows "chat_inv (fst (non_streaming_response tr ev g r st))"
    and "chat_inv (fst (non_streaming_failed ni tr ev g err st))"
  using chat_inv_remove_inflight [OF assms, of g] assms
  by (auto simp: non_streaming_response_def non_streaming_failed_def Let_def case_prod_beta
      chat_inv_finally chat_inv_error)

lemma chat_inv_step: "chat_inv st \<Longrightarrow> chat_inv (fst (chat_step ni tr st e))"
proof (cases e)
  case (Pair a ev)
  assume "chat_inv st"
  with Pair show ?thesis
    by (cases a)
      (auto simp: handleSendMessage_def handleRegenerateMessage_def update_and_send_def
        handleEditMessage_def handleEditOpenChange_def applyEdit_def handleDeleteMessage_def Let_def
        chat_inv_sendChat chat_inv_stop chat_inv_timer chat_inv_on_stream chat_inv_plain_answer
        chat_inv_render chat_inv_unmount split: option.split)
qed

lemma chat_inv_initial: "chat_inv initial_chat"
  by (simp add: chat_inv_def initial_chat_def owner_inv_def flush_inv_def stream.inv_init)

interpretation chat: machine initial_chat "chat_step ni tr" chat_inv
  by unfold_locales (rule chat_inv_initial, rule chat_inv_step)


section \<open>Following one streamed answer\<close>

declare concat_eq_Nil_conv [simp del] Nil_eq_concat_conv [simp del]

text \<open>No run of chunks begins with the run right before it: then no chunk and no batch of chunks is
  taken for a snapshot of what it follows, however they are batched.\<close>

definition part :: "nat \<Rightarrow> nat \<Rightarrow> 'a list \<Rightarrow> 'a list" where
  "part i j xs = take (j - i) (drop i xs)"

definition no_repeat :: "jstring list \<Rightarrow> bool" where
  "no_repeat cs \<longleftrightarrow>
     list_all (\<lambda>i. list_all (\<lambda>j. list_all (\<lambda>k. fresh_delta (concat (part i j cs)) (concat (part j k cs)))
       [0..<Suc (length cs)]) [0..<Suc (length cs)]) [0..<Suc (length cs)]"

lemma no_repeatD:
  assumes "no_repeat (a @ b @ c @ d)"
  shows "fresh_delta (concat b) (concat c)"
proof -
  define i j k where "i = length a" and "j = length a + length b" and "k = length a + length b + length c"
  have "part i j (a @ b @ c @ d) = b" "part j k (a @ b @ c @ d) = c"
    by (simp_all add: part_def i_def j_def k_def)
  moreover define cs where "cs = a @ b @ c @ d"
  then have "i \<in> set [0..<Suc (length cs)]" "j \<in> set [0..<Suc (length cs)]" "k \<in> set [0..<Suc (length cs)]"
    by (auto simp: i_def j_def k_def)
  then have "fresh_delta (concat (part i j cs)) (concat (part j k cs))"
    using assms [folded cs_def, unfolded no_repeat_def list_all_iff] by blast
  ultimately show ?thesis by (simp add: cs_def)
qed

text \<open>The last message while the answer streams, and the conversation: \<open>a\<close> are the chunks it shows,
  \<open>bs\<close> the batches that wait; the list that starts with it may itself still wait.\<close>

definition stream_message :: "message \<Rightarrow> jstring \<Rightarrow> message \<Rightarrow> bool" where
  "stream_message m0 raw m \<longleftrightarrow>
     streamed raw m \<and> m_from m = RoleAssistant \<and> m_key m = m_key m0 \<and> isAssistantMessagePending m"

definition batches :: "nat \<Rightarrow> jstring list list \<Rightarrow> updater list" where
  "batches g bs = map (\<lambda>b. ApplyChunks g [] (concat b)) bs"

definition conversation ::
  "nat \<Rightarrow> message list \<Rightarrow> message \<Rightarrow> jstring list \<Rightarrow> jstring list list \<Rightarrow> updater list \<Rightarrow>
     message list \<Rightarrow> updater list \<Rightarrow> bool" where
  "conversation g base m0 a bs ends ms us \<longleftrightarrow>
     (us = batches g bs @ ends \<and> (\<exists>m. ms = base @ [m] \<and> stream_message m0 (concat a) m)) \<or>
     (a = [] \<and> (\<exists>pre. us = pre @ [SetMessages (base @ [m0])] @ batches g bs @ ends))"

text \<open>The state while the request \<open>sg\<close> of the chat generation \<open>g\<close> has delivered the chunks \<open>cs\<close>, and,
  with \<open>fin\<close>, ended with that updater.\<close>

definition ends_stream :: "nat \<Rightarrow> updater \<Rightarrow> bool" where
  "ends_stream g u \<longleftrightarrow> u = CompleteLast g \<or> (\<exists>e c t. u = ErrorLast g e c t)"

definition tracking ::
  "nat \<Rightarrow> nat \<Rightarrow> message list \<Rightarrow> message \<Rightarrow> updater option \<Rightarrow> jstring list \<Rightarrow> chat_state \<Rightarrow> bool" where
  "tracking g sg base m0 fin cs st \<longleftrightarrow>
     chat_inv st \<and> ch_generation st = g \<and> map_of (ch_owner st) sg = Some g \<and>
     pk_generation (ch_pending st) = g \<and> pk_reasoning (ch_pending st) = [] \<and>
     (fin \<noteq> None \<longrightarrow> pk_content (ch_pending st) = [] \<and> \<not> ch_isRequesting st \<and> ends_stream g (the fin)) \<and>
     ((\<exists>a bs c. cs = a @ concat bs @ c \<and> pk_content (ch_pending st) = concat c \<and>
         conversation g base m0 a bs (case fin of None \<Rightarrow> [] | Some u \<Rightarrow> [u])
           (ch_messages st) (ch_updates st)) \<or>
      (\<exists>u m clk. fin = Some u \<and> ch_updates st = [] \<and> stream_message m0 (concat cs) m \<and>
         ch_messages st = run_updater g clk u (base @ [m])))"

lemma updateLast_snoc:
  "m_from m = RoleAssistant \<Longrightarrow> updateLastAssistantMessage (ms @ [m]) f = ms @ [f m]"
  by (simp add: updateLastAssistantMessage_def)

lemma run_batch:
  assumes "stream_message m0 raw m" and "fresh_delta raw c"
  shows "\<exists>m'. run_updater g clk (ApplyChunks g [] c) (base @ [m]) = base @ [m'] \<and>
    stream_message m0 (raw @ c) m'"
proof (cases "c = []")
  case True
  with assms show ?thesis
    by (intro exI [of _ m]) (simp add: updateLast_snoc stream_message_def apply_chunks_def)
next
  case False
  define m' where "m' = applyStreamingChunk m ChunkContent c (\<lambda>i. clk (i + 1))"
  from assms have "streamed (raw @ c) m'" unfolding m'_def
    by (auto simp: stream_message_def intro: streamed_step)
  moreover have "isAssistantMessagePending m'"
    using assms apply_content(2) [of m c]
    by (auto simp: m'_def stream_message_def streamed_def isAssistantMessagePending_def)
  ultimately show ?thesis
    using False assms(1)
    by (intro exI [of _ m'])
      (auto simp: stream_message_def updateLast_snoc apply_chunks_def m'_def)
qed

text \<open>Running the first updater that waits.\<close>

lemma conversation_run:
  assumes c: "conversation g base m0 a bs ends ms (u # us)"
    and m0: "stream_message m0 [] m0" and f: "no_repeat (a @ concat bs @ d)"
  shows "(\<exists>a' bs'. a @ concat bs = a' @ concat bs' \<and>
      conversation g base m0 a' bs' ends (run_updater g clk u ms) us) \<or>
    (bs = [] \<and> ends = u # us \<and> (\<exists>m. ms = base @ [m] \<and> stream_message m0 (concat a) m))"
  using c [unfolded conversation_def]
proof (elim disjE conjE exE)
  fix m
  assume us: "u # us = batches g bs @ ends" and m: "ms = base @ [m]" "stream_message m0 (concat a) m"
  show ?thesis
  proof (cases bs)
    case Nil
    with us m show ?thesis by (auto simp: batches_def)
  next
    case (Cons b bs')
    with us have u: "u = ApplyChunks g [] (concat b)" "us = batches g bs' @ ends"
      by (auto simp: batches_def)
    have "fresh_delta (concat a) (concat b)"
      using no_repeatD [of "[]" a b "concat bs' @ d"] f Cons by simp
    from run_batch [OF m(2) this] obtain m' where
      "run_updater g clk u ms = base @ [m']" "stream_message m0 (concat a @ concat b) m'"
      unfolding u(1) m(1) by blast
    then have "conversation g base m0 (a @ b) bs' ends (run_updater g clk u ms) us"
      using u(2) by (simp add: conversation_def)
    then show ?thesis using Cons by (intro disjI1 exI [of _ "a @ b"] exI [of _ bs']) simp
  qed
next
  fix pre
  assume a: "a = []" and us: "u # us = pre @ [SetMessages (base @ [m0])] @ batches g bs @ ends"
  show ?thesis
  proof (cases pre)
    case Nil
    with us m0 have "conversation g base m0 [] bs ends (run_updater g clk u ms) us"
      by (auto simp: conversation_def)
    with a show ?thesis by (intro disjI1 exI [of _ "[]"] exI [of _ bs]) simp
  next
    case (Cons v pre')
    with us have "conversation g base m0 [] bs ends (run_updater g clk u ms) us"
      by (auto simp: conversation_def)
    with a show ?thesis by (intro disjI1 exI [of _ "[]"] exI [of _ bs]) simp
  qed
qed

text \<open>Handing over one more batch or the end.\<close>

lemma conversation_snoc:
  "conversation g base m0 a bs [] ms us \<Longrightarrow> conversation g base m0 a (bs @ [b]) [] ms (us @ [ApplyChunks g [] (concat b)])"
  "conversation g base m0 a bs [] ms us \<Longrightarrow> conversation g base m0 a bs [u] ms (us @ [u])"
  by (auto simp: conversation_def batches_def)

lemma conversation_Nil:
  "conversation g base m0 a bs [] ms [] \<Longrightarrow>
   bs = [] \<and> (\<exists>m. ms = base @ [m] \<and> stream_message m0 (concat a) m)"
  by (auto simp: conversation_def batches_def)

text \<open>Three ways to establish \<open>tracking\<close>: nothing changed but what it does not mention, the
  conversation moved on, or the end has been written.\<close>

lemma tracking_same:
  assumes "tracking g sg base m0 fin cs st" and "chat_inv st'"
    and "ch_generation st' = ch_generation st" "ch_owner st' = ch_owner st" "ch_pending st' = ch_pending st"
      "ch_isRequesting st' = ch_isRequesting st" "ch_messages st' = ch_messages st"
      "ch_updates st' = ch_updates st"
  shows "tracking g sg base m0 fin cs st'"
  using assms unfolding tracking_def by metis

lemma tracking_moved:
  assumes "tracking g sg base m0 fin cs st" and "chat_inv st'"
    and "ch_generation st' = ch_generation st" "ch_owner st' = ch_owner st"
      "ch_isRequesting st' = ch_isRequesting st"
    and "pk_generation (ch_pending st') = g" "pk_reasoning (ch_pending st') = []"
      "pk_content (ch_pending st') = concat c" "fin \<noteq> None \<Longrightarrow> concat c = []"
    and "cs = a @ concat bs @ c"
    and "conversation g base m0 a bs (case fin of None \<Rightarrow> [] | Some u \<Rightarrow> [u]) (ch_messages st') (ch_updates st')"
  shows "tracking g sg base m0 fin cs st'"
  using assms unfolding tracking_def by metis

lemma render_frame [simp, chat_frame]:
  "ch_generation (render_update ev st) = ch_generation st"
  "ch_owner (render_update ev st) = ch_owner st"
  "ch_pending (render_update ev st) = ch_pending st"
  "ch_isRequesting (render_update ev st) = ch_isRequesting st"
  "ch_ctl (render_update ev st) = ch_ctl st"
  by (auto simp: render_update_def split: list.split)

lemma track_render:
  assumes t: "tracking g sg base m0 fin cs st" and m0: "stream_message m0 [] m0"
    and f: "no_repeat (cs @ rest)"
  shows "tracking g sg base m0 fin cs (render_update ev st)"
proof (cases "ch_updates st")
  case Nil
  then show ?thesis using t by (simp add: render_update_def)
next
  case (Cons u us)
  let ?ends = "case fin of None \<Rightarrow> [] | Some u \<Rightarrow> [u]"
  have i: "chat_inv (render_update ev st)" using t chat_inv_render by (auto simp: tracking_def)
  have g: "ch_generation st = g" using t by (simp add: tracking_def)
  have r: "ch_updates (render_update ev st) = us"
    "ch_messages (render_update ev st) = run_updater g (ev_clk ev) u (ch_messages st)"
    using Cons g by (simp_all add: render_update_def)
  from t Cons obtain a bs c where c: "cs = a @ concat bs @ c" "pk_content (ch_pending st) = concat c"
    "conversation g base m0 a bs ?ends (ch_messages st) (u # us)"
    by (auto simp: tracking_def)
  have cf: "fin \<noteq> None \<Longrightarrow> concat c = []" using t c(2) unfolding tracking_def by metis
  have p: "pk_generation (ch_pending st) = g" "pk_reasoning (ch_pending st) = []"
    using t by (auto simp: tracking_def)
  have "no_repeat (a @ concat bs @ c @ rest)" using f c(1) by simp
  from conversation_run [OF c(3) m0 this, of "ev_clk ev"] show ?thesis
  proof (elim disjE exE conjE)
    fix a' bs'
    assume "a @ concat bs = a' @ concat bs'"
      "conversation g base m0 a' bs' ?ends (run_updater g (ev_clk ev) u (ch_messages st)) us"
    then show ?thesis
      using i r c(1,2) cf p by (intro tracking_moved [OF t, of _ c a' bs']) auto
  next
    fix m
    assume e: "bs = []" "?ends = u # us" "ch_messages st = base @ [m]" "stream_message m0 (concat a) m"
    then have fin: "fin = Some u" "us = []" by (auto split: option.splits)
    then have "concat cs = concat a" using cf c(1) e(1) by simp
    then show ?thesis
      using t i r e fin unfolding tracking_def by auto
  qed
qed

lemma track_flush:
  assumes t: "tracking g sg base m0 fin cs st" and f: "no_repeat (cs @ rest)"
  shows "tracking g sg base m0 fin cs (flushStreamUpdates ev i g' st)"
proof -
  have inv: "chat_inv (flushStreamUpdates ev i g' st)" using t chat_inv_flush by (auto simp: tracking_def)
  have g: "ch_generation st = g" "pk_generation (ch_pending st) = g" "pk_reasoning (ch_pending st) = []"
    using t by (auto simp: tracking_def)
  show ?thesis
  proof (cases "g' = g \<and> pk_content (ch_pending st) \<noteq> []")
    case False
    then have "flushStreamUpdates ev i g' st = (if g' = g then clear_flush_timer st else st)"
      using g by (auto simp: flushStreamUpdates_def Let_def)
    then show ?thesis using t inv by (intro tracking_same [OF t]) auto
  next
    case True
    with t have fin: "fin = None" by (auto simp: tracking_def)
    with t obtain a bs c where c: "cs = a @ concat bs @ c" "pk_content (ch_pending st) = concat c"
      "conversation g base m0 a bs [] (ch_messages st) (ch_updates st)"
      by (auto simp: tracking_def)
    define st1 where "st1 = (clear_flush_timer st)\<lparr>ch_pending := \<lparr>pk_generation = g, pk_content = [], pk_reasoning = []\<rparr>\<rparr>"
    have fl: "flushStreamUpdates ev i g' st = dispatch ev i (ApplyChunks g [] (concat c)) st1"
      using True g c(2) by (simp add: flushStreamUpdates_def Let_def st1_def)
    have s1: "ch_updates st1 = ch_updates st" "ch_messages st1 = ch_messages st" "ch_generation st1 = g"
      "ch_pending st1 = \<lparr>pk_generation = g, pk_content = [], pk_reasoning = []\<rparr>"
      "ch_owner st1 = ch_owner st" "ch_isRequesting st1 = ch_isRequesting st"
      using g by (simp_all add: st1_def)
    show ?thesis
    proof (cases "ev_eager ev i \<and> ch_updates st = []")
      case True
      with c(3) conversation_Nil obtain m where m: "bs = []" "ch_messages st = base @ [m]"
        "stream_message m0 (concat a) m" by metis
      have "fresh_delta (concat a) (concat c)" using no_repeatD [of "[]" a c rest] f c(1) m(1) by simp
      from run_batch [OF m(3) this, of g "ev_clk ev" base] obtain m' where
        m': "run_updater g (ev_clk ev) (ApplyChunks g [] (concat c)) (base @ [m]) = base @ [m']"
        "stream_message m0 (concat a @ concat c) m'" by blast
      from True have d: "flushStreamUpdates ev i g' st = st1\<lparr>ch_messages := base @ [m']\<rparr>"
        using fl s1 m(2) m'(1) by (simp add: dispatch_def del: run_updater.simps)
      show ?thesis
        using inv d s1 c(1) m(1) m'(2) True fin g
        by (intro tracking_moved [OF t, of _ "[]" "a @ c" "[]"])
          (auto simp: conversation_def batches_def)
    next
      case False
      then have d: "flushStreamUpdates ev i g' st = st1\<lparr>ch_updates := ch_updates st @ [ApplyChunks g [] (concat c)]\<rparr>"
        using fl s1 by (auto simp: dispatch_def)
      show ?thesis
        using inv d s1 c(1) conversation_snoc(1) [OF c(3), of c] fin g
        by (intro tracking_moved [OF t, of _ "[]" a "bs @ [c]"]) auto
    qed
  qed
qed

lemma track_update:
  assumes t: "tracking g sg base m0 None cs st" and f: "no_repeat (cs @ [x] @ rest)"
    and i: "chat_inv (handleStreamUpdate g ChunkContent x st)"
  shows "tracking g sg base m0 None (cs @ [x]) (handleStreamUpdate g ChunkContent x st)"
proof -
  from t obtain a bs c where c: "cs = a @ concat bs @ c" "pk_content (ch_pending st) = concat c"
    "conversation g base m0 a bs [] (ch_messages st) (ch_updates st)"
    by (auto simp: tracking_def)
  have "fresh_delta (concat c) x" using no_repeatD [of "a @ concat bs" c "[x]" rest] f c(1) by simp
  then have merged: "mergePendingStreamChunk (concat c) x = concat (c @ [x])"
    by (auto simp: mergePendingStreamChunk_def fresh_delta_def)
  define st' where "st' = handleStreamUpdate g ChunkContent x st"
  have st': "ch_generation st' = g" "map_of (ch_owner st') sg = Some g" "pk_generation (ch_pending st') = g"
    "pk_reasoning (ch_pending st') = []" "pk_content (ch_pending st') = concat (c @ [x])"
    "ch_messages st' = ch_messages st" "ch_updates st' = ch_updates st"
    using t merged c(2)
    by (auto simp: st'_def tracking_def handleStreamUpdate_def scheduleStreamFlush_def Let_def)
  have "cs @ [x] = a @ concat bs @ (c @ [x])" using c(1) by simp
  with st'(5-7) c(3) have "\<exists>a bs c. cs @ [x] = a @ concat bs @ c \<and> pk_content (ch_pending st') = concat c \<and>
      conversation g base m0 a bs (case None of None \<Rightarrow> [] | Some u \<Rightarrow> [u]) (ch_messages st') (ch_updates st')"
    by (metis option.simps(4))
  then show ?thesis
    using st'(1-4) i unfolding tracking_def st'_def [symmetric] by simp
qed

text \<open>The end of the stream: both terminal handlers flush, take the request off and hand over their
  updater.\<close>

lemma flush_empties:
  "pk_generation (ch_pending st) = ch_generation st \<Longrightarrow>
   pk_content (ch_pending (flushStreamUpdates ev i (ch_generation st) st)) = []"
  by (auto simp: flushStreamUpdates_def Let_def)

lemma track_end:
  assumes t: "tracking g sg base m0 None cs st" and f: "no_repeat cs" and u: "ends_stream g u"
  shows "tracking g sg base m0 (Some u) cs
    (dispatch ev 1 u ((flushStreamUpdates ev 0 g st)\<lparr>ch_isRequesting := False\<rparr>))"
proof -
  define st1 where "st1 = flushStreamUpdates ev 0 g st"
  have t1: "tracking g sg base m0 None cs st1"
    unfolding st1_def by (rule track_flush [OF t, of "[]"]) (use f in simp)
  have e: "pk_content (ch_pending st1) = []"
    using t flush_empties [of st] by (auto simp: st1_def tracking_def)
  define st2 where "st2 = st1\<lparr>ch_isRequesting := False\<rparr>"
  from t1 e obtain a bs c where c: "cs = a @ concat bs @ c" "concat c = []"
    "conversation g base m0 a bs [] (ch_messages st1) (ch_updates st1)"
    by (auto simp: tracking_def)
  have i: "chat_inv (dispatch ev 1 u st2)" using t1 by (simp add: tracking_def st2_def)
  have st2: "ch_generation st2 = g" "map_of (ch_owner st2) sg = Some g"
    "pk_generation (ch_pending st2) = g" "pk_reasoning (ch_pending st2) = []"
    "pk_content (ch_pending st2) = []" "\<not> ch_isRequesting st2"
    "ch_messages st2 = ch_messages st1" "ch_updates st2 = ch_updates st1"
    using t1 e by (auto simp: tracking_def st2_def)
  have "tracking g sg base m0 (Some u) cs (dispatch ev 1 u st2)"
  proof (cases "ev_eager ev 1 \<and> ch_updates st1 = []")
    case True
    with c(3) conversation_Nil obtain m where m: "bs = []" "ch_messages st1 = base @ [m]"
      "stream_message m0 (concat a) m" by metis
    have d: "dispatch ev 1 u st2 = st2\<lparr>ch_messages := run_updater g (ev_clk ev) u (base @ [m])\<rparr>"
      using True st2 m(2) by (simp add: dispatch_def)
    have "concat cs = concat a" using c(1,2) m(1) by simp
    then show ?thesis
      using i st2 m u True unfolding tracking_def d by auto
  next
    case False
    then have d: "dispatch ev 1 u st2 = st2\<lparr>ch_updates := ch_updates st1 @ [u]\<rparr>"
      using st2 by (auto simp: dispatch_def)
    have "\<exists>a bs c. cs = a @ concat bs @ c \<and> [] = concat c \<and>
        conversation g base m0 a bs [u] (ch_messages st1) (ch_updates st1 @ [u])"
      using c(1,2) conversation_snoc(2) [OF c(3), of u] by metis
    then show ?thesis
      using i st2 u unfolding tracking_def d by simp
  qed
  then show ?thesis by (simp add: st2_def st1_def)
qed

text \<open>Callbacks of other requests are stale and change nothing.\<close>

lemma stale_callback:
  assumes "\<And>sg'. call_of x = Some sg' \<Longrightarrow> map_of (ch_owner st) sg' \<noteq> Some (ch_generation st)"
  shows "stream_callback ni tr ev x st = (st, [])"
proof (cases "Option.bind (call_of x) (map_of (ch_owner st))")
  case None
  then show ?thesis by (auto simp: stream_callback_def split: option.split)
next
  case (Some g')
  then obtain sg' where sg': "call_of x = Some sg'" "map_of (ch_owner st) sg' = Some g'"
    by (auto simp: bind_eq_Some_conv)
  with assms have "g' \<noteq> ch_generation st" by auto
  with sg' show ?thesis
    by (auto simp: stream_callback_def handleStreamUpdate_def handleStreamComplete_def
        handleStreamError_def split: stream_output.split)
qed

lemma owner_unique:
  assumes "chat_inv st" and "map_of (ch_owner st) sg = Some g" and "map_of (ch_owner st) sg' = Some g"
  shows "sg' = sg"
proof -
  from assms(2,3) have "(sg', g) \<in> set (ch_owner st)" "(sg, g) \<in> set (ch_owner st)"
    by (auto dest: map_of_SomeD)
  moreover have "distinct (map snd (ch_owner st))" using assms(1) by (simp add: chat_inv_def owner_inv_def)
  ultimately show ?thesis by (metis distinct_map inj_onD prod.sel(1) prod.sel(2))
qed

lemma stale_callbacks:
  assumes "\<And>x sg'. x \<in> set xs \<Longrightarrow> call_of x = Some sg' \<Longrightarrow> map_of (ch_owner st) sg' \<noteq> Some (ch_generation st)"
  shows "stream_callbacks ni tr ev xs st = (st, map FromStream xs)"
  using assms
proof (induction xs)
  case (Cons x xs)
  have "stream_callback ni tr ev x st = (st, [])" by (rule stale_callback) (use Cons.prems in auto)
  moreover have "stream_callbacks ni tr ev xs st = (st, map FromStream xs)"
    by (rule Cons.IH) (use Cons.prems in auto)
  ultimately show ?case by simp
qed simp

lemma other_callbacks:
  assumes "chat_inv st" and "map_of (ch_owner st) sg = Some (ch_generation st)" and "calls sg xs = []"
  shows "stream_callbacks ni tr ev xs st = (st, map FromStream xs)"
proof (rule stale_callbacks)
  fix x sg'
  assume x: "x \<in> set xs" "call_of x = Some sg'"
  with assms(3) have "sg' \<noteq> sg" by (auto simp: calls_def filter_empty_conv)
  with owner_unique [OF assms(1,2)] show "map_of (ch_owner st) sg' \<noteq> Some (ch_generation st)" by blast
qed

lemma chat_inv_callback: "chat_inv st \<Longrightarrow> chat_inv (fst (stream_callback ni tr ev x st))"
  using owner_inv_cong [of st "fst (stream_callback ni tr ev x st)"]
  by (auto simp: chat_inv_def flush_inv_callback)

text \<open>The updater a terminal callback hands over.\<close>

fun end_updater ::
  "(rat \<Rightarrow> jstring) \<Rightarrow> (jstring \<Rightarrow> jstring) \<Rightarrow> nat \<Rightarrow> chat_request stream_output \<Rightarrow> updater" where
  "end_updater ni tr g (OnError _ err code) =
     ErrorLast g (getDisplayError tr (json_text ni err)) (map_option (json_text ni) code) (tr API_REQUEST_ERROR)"
| "end_updater ni tr g _ = CompleteLast g"

definition update_calls :: "nat \<Rightarrow> jstring list \<Rightarrow> chat_request stream_output list" where
  "update_calls sg cs = map (\<lambda>c. OnUpdate sg ChunkContent (JStr c)) cs"

lemma update_calls_open: "list_all (\<lambda>x. \<not> terminal x) (update_calls sg cs)"
  by (simp add: update_calls_def list_all_iff)

lemma ends_end_updater: "ends_stream g (end_updater ni tr g x)"
  by (cases x) (auto simp: ends_stream_def)

lemma track_callbacks:
  assumes "tracking g sg base m0 None cs st" and "calls sg xs = update_calls sg us @ ts"
    and "ts = [] \<or> (rest = [] \<and> (\<exists>t. ts = [t] \<and> terminal t))" and "no_repeat (cs @ us @ rest)"
  shows "tracking g sg base m0 (case ts of [] \<Rightarrow> None | t # _ \<Rightarrow> Some (end_updater ni tr g t)) (cs @ us)
    (fst (stream_callbacks ni tr ev xs st))"
  using assms
proof (induction xs arbitrary: cs us st)
  case Nil
  then show ?case by (simp add: calls_def update_calls_def)
next
  case (Cons x xs)
  have inv: "chat_inv st" and own: "map_of (ch_owner st) sg = Some (ch_generation st)"
    and g: "ch_generation st = g"
    using Cons.prems(1) by (auto simp: tracking_def)
  have run: "fst (stream_callbacks ni tr ev (x # xs) st) =
      fst (stream_callbacks ni tr ev xs (fst (stream_callback ni tr ev x st)))"
    by (simp add: case_prod_beta)
  show ?case
  proof (cases "call_of x = Some sg")
    case False
    then have "calls sg xs = update_calls sg us @ ts" using Cons.prems(2) by (simp add: calls_def)
    from Cons.IH [OF Cons.prems(1) this Cons.prems(3,4)] show ?thesis
      unfolding run using stale_callback [of x st ni tr ev] owner_unique [OF inv own] False by fastforce
  next
    case True
    then have x: "x # calls sg xs = update_calls sg us @ ts" using Cons.prems(2) by (simp add: calls_def)
    show ?thesis
    proof (cases us)
      case (Cons u us')
      with x have x': "x = OnUpdate sg ChunkContent (JStr u)" "calls sg xs = update_calls sg us' @ ts"
        by (auto simp: update_calls_def)
      have cb: "fst (stream_callback ni tr ev x st) = handleStreamUpdate g ChunkContent u st"
        using own g by (simp add: x'(1) stream_callback_def json_text_def)
      have "tracking g sg base m0 None (cs @ [u]) (handleStreamUpdate g ChunkContent u st)"
        by (rule track_update [OF Cons.prems(1), of _ "us' @ rest"])
          (use Cons.prems(4) Cons chat_inv_callback [OF inv, of ni tr ev x] cb in auto)
      from Cons.IH [OF this x'(2) Cons.prems(3)] Cons.prems(4) Cons show ?thesis
        unfolding run cb by simp
    next
      case Nil
      with x have ts: "ts = x # calls sg xs" by (simp add: update_calls_def)
      with Cons.prems(3) have e: "terminal x" "calls sg xs = []" "rest = []" by auto
      have cb: "fst (stream_callback ni tr ev x st) =
          dispatch ev 1 (end_updater ni tr g x) ((flushStreamUpdates ev 0 g st)\<lparr>ch_isRequesting := False\<rparr>)"
        using True own g e(1)
        by (cases x) (auto simp: stream_callback_def handleStreamComplete_def handleStreamError_def Let_def)
      have t: "tracking g sg base m0 (Some (end_updater ni tr g x)) cs (fst (stream_callback ni tr ev x st))"
        unfolding cb by (rule track_end [OF Cons.prems(1)])
          (use Cons.prems(4) Nil e(3) ends_end_updater in auto)
      then have "fst (stream_callbacks ni tr ev xs (fst (stream_callback ni tr ev x st))) =
          fst (stream_callback ni tr ev x st)"
        using other_callbacks [of "fst (stream_callback ni tr ev x st)" sg xs] e(2) by (auto simp: tracking_def)
      with t ts Nil show ?thesis unfolding run by simp
    qed
  qed
qed

text \<open>The events that neither send nor stop nor edit the conversation.\<close>

fun quiet :: "chat_event \<Rightarrow> bool" where
  "quiet FlushTimer = True"
| "quiet RenderUpdate = True"
| "quiet (StreamEvent e) = True"
| "quiet (ChatResponse g r) = True"
| "quiet (ChatFailed g err) = True"
| "quiet (EditMessage k) = True"
| "quiet (EditOpenChange b) = True"
| "quiet _ = False"

fun stream_outs :: "chat_output list \<Rightarrow> chat_request stream_output list" where
  "stream_outs [] = []"
| "stream_outs (FromStream x # out) = x # stream_outs out"
| "stream_outs (_ # out) = stream_outs out"

lemma stream_outs_append [simp]: "stream_outs (a @ b) = stream_outs a @ stream_outs b"
  by (induction a rule: stream_outs.induct) auto

lemma stream_outs_error [simp]: "stream_outs (snd (handleStreamError tr ev g e c st)) = []"
  by (simp add: handleStreamError_def Let_def)

lemma stream_outs_callback [simp]: "stream_outs (snd (stream_callback ni tr ev x st)) = []"
  by (auto simp: stream_callback_def split: option.split stream_output.split)

lemma stream_outs_callbacks [simp]: "stream_outs (snd (stream_callbacks ni tr ev xs st)) = xs"
  by (induction xs arbitrary: st) (auto simp: case_prod_beta)

lemma stream_outs_on_stream [simp]:
  "stream_outs (snd (on_stream ni tr ev e st)) = snd (stream_step ni (ch_ctl st) e)"
  by (simp add: on_stream_def case_prod_beta)

lemma chat_inv_ctl:
  "chat_inv st \<Longrightarrow> chat_inv (st\<lparr>ch_ctl := fst (stream_step ni (ch_ctl st) e)\<rparr>)"
  using owner_inv_cong [of st "st\<lparr>ch_ctl := fst (stream_step ni (ch_ctl st) e)\<rparr>"]
  by (auto simp: chat_inv_def flush_inv_def ctl_inv_step stream_generation_mono)

text \<open>A response to a request of another generation changes only the list of those in flight.\<close>

lemma stale_answer:
  assumes "g' \<in> set (ch_inflight st) \<Longrightarrow> g' \<noteq> ch_generation st"
  shows "non_streaming_response tr ev g' r st = (st\<lparr>ch_inflight := remove1 g' (ch_inflight st)\<rparr>, [])"
    and "non_streaming_failed ni tr ev g' err st = (st\<lparr>ch_inflight := remove1 g' (ch_inflight st)\<rparr>, [])"
  using assms
  by (auto simp: non_streaming_response_def non_streaming_failed_def non_streaming_finally_def Let_def
      remove1_idem)

lemma timer_flush:
  "chat_inv st \<Longrightarrow> pk_generation (ch_pending st) = ch_generation st \<Longrightarrow>
   flush_timer_fires ev st = (case ch_timer st of None \<Rightarrow> st | Some g \<Rightarrow> flushStreamUpdates ev 0 g st)"
  by (auto simp: chat_inv_def flush_inv_def flush_timer_fires_def flushStreamUpdates_def
      clear_flush_timer_def Let_def)

lemma track_quiet:
  assumes t: "tracking g sg base m0 fin cs st" and m0: "stream_message m0 [] m0"
    and f: "no_repeat (cs @ rest)" and q: "quiet e" "\<And>x. e \<noteq> StreamEvent x"
  shows "tracking g sg base m0 fin cs (fst (chat_step ni tr st (e, ev))) \<and>
    stream_outs (snd (chat_step ni tr st (e, ev))) = []"
proof -
  have inv: "chat_inv st" "map_of (ch_owner st) sg = Some g" "ch_generation st = g"
    "pk_generation (ch_pending st) = g" using t by (auto simp: tracking_def)
  from inv(1,2) have "g \<notin> set (ch_inflight st)"
    by (auto simp: chat_inv_def owner_inv_def dest!: map_of_SomeD)
  then have stale: "g' \<in> set (ch_inflight st) \<Longrightarrow> g' \<noteq> ch_generation st" for g' using inv(3) by auto
  have same: "tracking g sg base m0 fin cs (st\<lparr>ch_inflight := remove1 g' (ch_inflight st)\<rparr>)" for g'
    by (rule tracking_same [OF t chat_inv_remove_inflight [OF inv(1)]]) simp_all
  have edit: "tracking g sg base m0 fin cs (st\<lparr>ch_editing := k\<rparr>)" for k
    by (rule tracking_same [OF t]) (use inv(1) in simp_all)
  from q show ?thesis
    using same edit t track_render [OF t m0 f] track_flush [OF t f] stale_answer [OF stale]
      timer_flush [OF inv(1)] inv(3,4)
    by (cases e) (auto simp: handleEditMessage_def handleEditOpenChange_def split: option.split)
qed

lemma track_stream:
  assumes t: "tracking g sg base m0 None cs st" and n: "network_event e"
    and c: "calls sg (snd (stream_step ni (ch_ctl st) e)) = update_calls sg us @ ts"
    and ts: "ts = [] \<or> (rest = [] \<and> (\<exists>t. ts = [t] \<and> terminal t))" and f: "no_repeat (cs @ us @ rest)"
  shows "tracking g sg base m0 (case ts of [] \<Rightarrow> None | t # _ \<Rightarrow> Some (end_updater ni tr g t)) (cs @ us)
    (fst (on_stream ni tr ev e st))"
proof -
  have "tracking g sg base m0 None cs (st\<lparr>ch_ctl := fst (stream_step ni (ch_ctl st) e)\<rparr>)"
    by (rule tracking_same [OF t]) (use t chat_inv_ctl in \<open>auto simp: tracking_def\<close>)
  from track_callbacks [OF this c ts f] show ?thesis by (simp add: on_stream_def case_prod_beta)
qed

lemma track_stream_done:
  assumes t: "tracking g sg base m0 fin cs st" and c: "calls sg (snd (stream_step ni (ch_ctl st) e)) = []"
  shows "tracking g sg base m0 fin cs (fst (on_stream ni tr ev e st))"
proof -
  define st1 where "st1 = st\<lparr>ch_ctl := fst (stream_step ni (ch_ctl st) e)\<rparr>"
  have "tracking g sg base m0 fin cs st1" unfolding st1_def
    by (rule tracking_same [OF t]) (use t chat_inv_ctl in \<open>auto simp: tracking_def\<close>)
  then show ?thesis
    using other_callbacks [of st1 sg "snd (stream_step ni (ch_ctl st) e)" ni tr ev] c
    by (auto simp: on_stream_def case_prod_beta st1_def [symmetric] tracking_def)
qed

lemma track_run_done:
  assumes "tracking g sg base m0 fin cs st" and "stream_message m0 [] m0" and "no_repeat cs"
    and "list_all (\<lambda>e. quiet (fst e)) es"
    and "calls sg (stream_outs (snd (run_events (chat_step ni tr) st es))) = []"
  shows "tracking g sg base m0 fin cs (fst (run_events (chat_step ni tr) st es))"
  using assms(1,4,5)
proof (induction es arbitrary: st)
  case (Cons e es)
  obtain a ev where e: "e = (a, ev)" by (cases e)
  from Cons.prems(3) have c: "calls sg (stream_outs (snd (chat_step ni tr st e))) = []"
    "calls sg (stream_outs (snd (run_events (chat_step ni tr) (fst (chat_step ni tr st e)) es))) = []"
    by (simp_all add: case_prod_beta calls_append)
  have "tracking g sg base m0 fin cs (fst (chat_step ni tr st e))"
  proof (cases "\<exists>x. a = StreamEvent x")
    case True
    then obtain x where "a = StreamEvent x" by blast
    with e c(1) Cons.prems(1) track_stream_done show ?thesis by (auto split: if_splits)
  next
    case False
    with e Cons.prems(1,2) show ?thesis
      using track_quiet [OF Cons.prems(1) assms(2), of "[]" a ni tr ev] assms(3) by auto
  qed
  from Cons.IH [OF this _ c(2)] Cons.prems(2) show ?case by (simp add: case_prod_beta)
qed simp

lemma append_map_split:
  assumes "xs @ ys = map f us @ ts"
  shows "(\<exists>us1 us2. us = us1 @ us2 \<and> xs = map f us1 \<and> ys = map f us2 @ ts) \<or>
    (\<exists>ts1. ts1 \<noteq> [] \<and> ts = ts1 @ ys \<and> xs = map f us @ ts1)"
proof (cases "length xs \<le> length us")
  case True
  with assms have "xs = map f (take (length xs) us)" "ys = map f (drop (length xs) us) @ ts"
    by (auto simp: append_eq_append_conv_if take_map drop_map)
  then show ?thesis by (metis append_take_drop_id)
next
  case False
  then have x: "take (length us) xs = map f us" "ts = drop (length us) xs @ ys" "drop (length us) xs \<noteq> []"
    using assms by (auto simp: append_eq_append_conv_if)
  then have "xs = map f us @ drop (length us) xs" by (metis append_take_drop_id)
  with x(2,3) show ?thesis by blast
qed

lemma update_split:
  assumes "xs @ ys = update_calls sg us @ [t]"
  obtains us1 us2 where "us = us1 @ us2" "xs = update_calls sg us1" "ys = update_calls sg us2 @ [t]"
    | "xs = update_calls sg us @ [t]" "ys = []"
proof -
  from append_map_split [OF assms [unfolded update_calls_def]]
  consider us1 us2 where "us = us1 @ us2" "xs = update_calls sg us1" "ys = update_calls sg us2 @ [t]"
    | ts1 where "ts1 \<noteq> []" "[t] = ts1 @ ys" "xs = update_calls sg us @ ts1"
    unfolding update_calls_def by blast
  then show thesis
  proof cases
    case (2 ts1)
    then have "ts1 = [t]" "ys = []" by (auto simp: Cons_eq_append_conv)
    with 2(3) that(2) show thesis by simp
  qed (rule that(1))
qed

lemma track_run:
  assumes "tracking g sg base m0 None cs st" and m0: "stream_message m0 [] m0"
    and "no_repeat (cs @ us)" and "list_all (\<lambda>e. quiet (fst e)) es"
    and "calls sg (stream_outs (snd (run_events (chat_step ni tr) st es))) = update_calls sg us @ [t]"
    and t: "terminal t"
  shows "tracking g sg base m0 (Some (end_updater ni tr g t)) (cs @ us) (fst (run_events (chat_step ni tr) st es))"
  using assms(1,3,4,5)
proof (induction es arbitrary: cs us st)
  case Nil
  then show ?case by (simp add: calls_def update_calls_def)
next
  case (Cons e es)
  obtain a ev where e: "e = (a, ev)" by (cases e)
  define st1 where "st1 = fst (chat_step ni tr st e)"
  define c1 where "c1 = calls sg (stream_outs (snd (chat_step ni tr st e)))"
  define c2 where "c2 = calls sg (stream_outs (snd (run_events (chat_step ni tr) st1 es)))"
  have q: "quiet a" "list_all (\<lambda>e. quiet (fst e)) es" using Cons.prems(3) e by auto
  have c12: "c1 @ c2 = update_calls sg us @ [t]"
    using Cons.prems(4) by (simp add: case_prod_beta calls_append c1_def c2_def st1_def)
  from c12 show ?case
  proof (cases rule: update_split)
    case (1 us1 us2)
    have "tracking g sg base m0 None (cs @ us1) st1"
    proof (cases "\<exists>x. a = StreamEvent x")
      case True
      then obtain x where x: "a = StreamEvent x" by blast
      show ?thesis
      proof (cases "network_event x")
        case True
        have "tracking g sg base m0 None (cs @ us1) (fst (on_stream ni tr ev x st))"
          using track_stream [OF Cons.prems(1) True, of ni us1 "[]" us2 tr ev] Cons.prems(2) 1(1,2) True
          by (auto simp: c1_def e x)
        with True show ?thesis by (simp add: st1_def e x)
      next
        case False
        then have "us1 = []" using 1(2) by (simp add: c1_def e x calls_def update_calls_def)
        with False Cons.prems(1) show ?thesis by (simp add: st1_def e x)
      qed
    next
      case False
      then have "tracking g sg base m0 None cs st1 \<and> stream_outs (snd (chat_step ni tr st e)) = []"
        unfolding e st1_def using track_quiet [OF Cons.prems(1) m0 _ q(1)] Cons.prems(2) by auto
      moreover from this have "us1 = []" using 1(2) by (simp add: c1_def calls_def update_calls_def)
      ultimately show ?thesis by simp
    qed
    from Cons.IH [OF this _ q(2)] 1 Cons.prems(2) show ?thesis
      by (simp add: case_prod_beta st1_def [symmetric] c2_def)
  next
    case 2
    then have "c1 \<noteq> []" by simp
    then have "stream_outs (snd (chat_step ni tr st e)) \<noteq> []" by (auto simp: c1_def calls_def)
    then obtain x where x: "a = StreamEvent x"
      using track_quiet [OF Cons.prems(1) m0 Cons.prems(2) q(1), of ni tr ev] e by blast
    with \<open>stream_outs (snd (chat_step ni tr st e)) \<noteq> []\<close> e have n: "network_event x"
      by (auto split: if_splits)
    have t1: "tracking g sg base m0 (Some (end_updater ni tr g t)) (cs @ us) st1"
      using track_stream [OF Cons.prems(1) n, of ni us "[t]" "[]" tr ev] 2(1) Cons.prems(2) t
      by (simp add: c1_def e x n st1_def)
    have "no_repeat (cs @ us)" by (rule Cons.prems(2))
    from track_run_done [OF t1 m0 this q(2), of ni tr] 2(2) show ?thesis
      by (simp add: case_prod_beta st1_def [symmetric] c2_def)
  qed
qed

text \<open>Sending starts the tracking.\<close>

lemma track_send:
  assumes "chat_inv st" and "pc_stream (ci_config inp)" and "stream_message m0 [] m0"
  shows "tracking (ch_generation st + 1) (sc_generation (ch_ctl st) + 1) base m0 None []
    (fst (update_and_send ni tr ev inp (base @ [m0]) st))"
proof -
  define st1 where "st1 = dispatch ev 0 (SetMessages (base @ [m0])) st"
  define st2 where "st2 = fst (sendStreamingChat ni tr ev (ci_config inp) (ci_enabled inp) (base @ [m0]) st1)"
  have i2: "chat_inv st2" unfolding st2_def by (rule chat_inv_send_stream) (use assms(1) st1_def in simp)
  have s2: "ch_generation st2 = ch_generation st + 1" "ch_messages st2 = ch_messages st1"
    "ch_updates st2 = ch_updates st1"
    "ch_owner st2 = (sc_generation (ch_ctl st) + 1, ch_generation st + 1) # ch_owner st"
    "ch_pending st2 = \<lparr>pk_generation = ch_generation st + 1, pk_content = [], pk_reasoning = []\<rparr>"
    by (simp_all add: st2_def sendStreamingChat_state Let_def st1_def)
  have "conversation (ch_generation st + 1) base m0 [] [] [] (ch_messages st2) (ch_updates st2)"
    using assms(3) s2(2,3) by (auto simp: st1_def dispatch_def conversation_def batches_def)
  then have "\<exists>a bs c. [] = a @ concat bs @ c \<and> [] = concat c \<and>
      conversation (ch_generation st + 1) base m0 a bs [] (ch_messages st2) (ch_updates st2)"
    by force
  then show ?thesis
    using i2 s2 assms(2) by (simp add: tracking_def update_and_send_def sendChat_def st2_def st1_def)
qed

lemma tracking_final:
  assumes "tracking g sg base m0 (Some u) cs st" and "ch_updates st = []"
  shows "\<exists>m clk. stream_message m0 (concat cs) m \<and> ch_messages st = run_updater g clk u (base @ [m])"
  using assms by (auto simp: tracking_def conversation_def)


section \<open>The stream controller behind the chat\<close>

definition idle_ok :: "'p stream_ctl \<Rightarrow> bool" where
  "idle_ok s \<longleftrightarrow> (sc_source s = None \<longrightarrow> \<not> sc_streaming s)"

lemma network_step:
  assumes "ctl_inv s" and "network_event e" and "idle_ok s"
  shows "sc_generation (fst (stream_step ni s e)) = sc_generation s \<and> idle_ok (fst (stream_step ni s e))"
proof -
  have h: "sc_generation (fst (handleError i m c s)) = sc_generation s \<and> idle_ok (fst (handleError i m c s))"
    for i m c
    using assms(3) by (auto simp: handleError_cases [OF assms(1)] idle_ok_def finished_def)
  show ?thesis
  proof (cases e)
    case (HeadersFailed g err)
    with assms(3) show ?thesis
      by (auto simp: send_headers_failed_def Let_def drop_waiting_def idle_ok_def)
  next
    case (HeadersReady g hs b)
    from send_headers_cases [OF assms(1), of g hs b] show ?thesis
    proof (elim disjE conjE exE)
      assume "send_headers g hs b s = (drop_waiting g s, [])"
      with HeadersReady assms(3) show ?thesis by (simp add: drop_waiting_def idle_ok_def)
    next
      fix payload s3
      assume s3: "s3 = (drop_waiting g s)\<lparr>sc_conns := sc_conns s @
          [\<lparr>cn_generation = g, cn_completed = False, cn_closed = False\<rparr>],
          sc_source := Some (length (sc_conns s)), sc_streaming := True\<rparr>"
        and r: "send_headers g hs b s =
         (if b
          then (finished (length (sc_conns s)) s3,
                [CreateSource (length (sc_conns s)) payload hs, SetStreaming True,
                 OnError g (JStr STREAM_START_ERROR) None, CloseSource (length (sc_conns s)),
                 SetStreaming False])
          else (s3, [CreateSource (length (sc_conns s)) payload hs, SetStreaming True,
                     StartSource (length (sc_conns s))]))"
      have "sc_generation s3 = sc_generation s" "sc_source s3 \<noteq> None"
        by (simp_all add: s3 drop_waiting_def)
      with HeadersReady show ?thesis
        by (auto simp: r idle_ok_def finished_def)
    qed
  next
    case (SourceMessage i d)
    with assms(3) show ?thesis
      by (auto simp: on_source_message_cases [OF assms(1)] idle_ok_def finished_def split: option.split)
  next
    case (SourceError i r d)
    with assms(1,3) on_source_error_cases [of s i r d] h show ?thesis by auto
  next
    case (SourceReadyState i r q)
    with assms(1,3) on_source_readystate_cases [of ni i r q s] h show ?thesis by auto
  qed (use assms(2) in auto)
qed

lemma finally_frame: "ch_ctl (non_streaming_finally g st) = ch_ctl st"
  by (simp add: non_streaming_finally_def)

lemma answer_frame:
  "ch_ctl (fst (non_streaming_response tr ev g r st)) = ch_ctl st"
  "stream_outs (snd (non_streaming_response tr ev g r st)) = []"
  "ch_ctl (fst (non_streaming_failed ni tr ev g err st)) = ch_ctl st"
  "stream_outs (snd (non_streaming_failed ni tr ev g err st)) = []"
  by (simp_all add: non_streaming_response_def non_streaming_failed_def Let_def case_prod_beta finally_frame)

lemma timer_frame: "ch_ctl (flush_timer_fires ev st) = ch_ctl st"
  by (simp add: flush_timer_fires_def split: option.split)

lemma quiet_ctl:
  assumes "quiet (fst e)" and "chat_inv st" and "idle_ok (ch_ctl st)"
  shows "let st' = fst (chat_step ni tr st e) in
    sc_generation (ch_ctl st') = sc_generation (ch_ctl st) \<and> idle_ok (ch_ctl st') \<and>
    (alive (ch_ctl st') \<longrightarrow> alive (ch_ctl st)) \<and>
    ((\<exists>x \<in> set (stream_outs (snd (chat_step ni tr st e))). terminal x) \<longrightarrow> \<not> alive (ch_ctl st'))"
proof (cases "\<exists>x ev. e = (StreamEvent x, ev) \<and> network_event x")
  case True
  then obtain x ev where x: "e = (StreamEvent x, ev)" "network_event x" by blast
  have c: "ctl_inv (ch_ctl st)" using assms(2) by (simp add: chat_inv_def)
  from network_step [OF c x(2) assms(3), of ni] stream_step_ok [OF c, of ni x] x show ?thesis
    by (auto simp: Let_def step_ok_def)
next
  case False
  obtain a ev where e: "e = (a, ev)" by (cases e)
  with False assms(1) have "ch_ctl (fst (chat_step ni tr st e)) = ch_ctl st \<and>
      stream_outs (snd (chat_step ni tr st e)) = []"
    by (cases a) (simp_all add: answer_frame timer_frame handleEditMessage_def handleEditOpenChange_def)
  with assms(3) show ?thesis by simp
qed

lemma quiet_run_ctl:
  assumes "list_all (\<lambda>e. quiet (fst e)) es" and "chat_inv st" and "idle_ok (ch_ctl st)"
  shows "let r = run_events (chat_step ni tr) st es in
    idle_ok (ch_ctl (fst r)) \<and> (alive (ch_ctl (fst r)) \<longrightarrow> alive (ch_ctl st)) \<and>
    ((\<exists>x \<in> set (stream_outs (snd r)). terminal x) \<longrightarrow> \<not> alive (ch_ctl (fst r)))"
  using assms
proof (induction es arbitrary: st)
  case (Cons e es)
  have "chat_inv (fst (chat_step ni tr st e))" by (rule chat_inv_step [OF Cons.prems(2)])
  with Cons.IH [of "fst (chat_step ni tr st e)"] Cons.prems quiet_ctl [of e st ni tr] show ?case
    by (auto simp: Let_def case_prod_beta)
qed (simp add: Let_def)

lemma not_generating:
  "idle_ok (ch_ctl st) \<Longrightarrow> \<not> alive (ch_ctl st) \<Longrightarrow> \<not> ch_isRequesting st \<Longrightarrow> \<not> isGenerating st"
  by (simp add: isGenerating_def idle_ok_def alive_def)

lemma idle_after_send:
  "idle_ok (fst (stream_step ni s (Send p)))" "idle_ok (fst (stream_step ni s StopStream))"
  "ctl_inv s \<Longrightarrow> \<not> alive (fst (stream_step ni s StopStream))"
  by (auto simp: idle_ok_def send_begin_def cancel_def setStreaming_def close_previous_def close_conn_def
      case_prod_beta Let_def alive_def ctl_inv_def split: option.splits)

text \<open>All together, for the messages a send starts from.\<close>

lemma streamed_answer:
  fixes st :: chat_state and base :: "message list" and m0 :: message and inp :: chat_input and ev :: env
    and ni :: "rat \<Rightarrow> jstring" and tr :: "jstring \<Rightarrow> jstring" and es :: "(chat_event \<times> env) list"
  defines "st1 \<equiv> fst (update_and_send ni tr ev inp (base @ [m0]) st)"
  defines "sg \<equiv> sc_generation (ch_ctl st1)"
  defines "st2 \<equiv> fst (run_events (chat_step ni tr) st1 es)"
  assumes "chat_inv st" and "pc_stream (ci_config inp)" and "stream_message m0 [] m0"
    and "list_all (\<lambda>e. quiet (fst e)) es" and "no_repeat cs" and "terminal t"
    and "calls sg (stream_outs (snd (run_events (chat_step ni tr) st1 es))) = update_calls sg cs @ [t]"
    and "ch_updates st2 = []"
  shows "\<not> isGenerating st2"
    and "\<exists>m clk. stream_message m0 (concat cs) m \<and>
      ch_messages st2 = run_updater (ch_generation st + 1) clk (end_updater ni tr (ch_generation st + 1) t) (base @ [m])"
proof -
  define g where "g = ch_generation st + 1"
  have c1: "ch_ctl st1 = fst (stream_step ni (ch_ctl st) (Send (buildChatCompletionPayload (base @ [m0]) (ci_config inp) (ci_enabled inp))))"
    using assms(5) by (simp add: st1_def update_and_send_def sendChat_def sendStreamingChat_state Let_def)
  then have sg: "sg = sc_generation (ch_ctl st) + 1"
    using generation_step(1) [of ni "ch_ctl st"] by (simp add: sg_def)
  have t1: "tracking g sg base m0 None [] st1"
    unfolding st1_def sg g_def by (rule track_send [OF assms(4-6)])
  have t2: "tracking g sg base m0 (Some (end_updater ni tr g t)) cs st2"
    using track_run [OF t1 assms(6) _ assms(7) assms(10) assms(9)] assms(8) by (simp add: st2_def)
  from tracking_final [OF t2 assms(11)]
  show "\<exists>m clk. stream_message m0 (concat cs) m \<and>
      ch_messages st2 = run_updater (ch_generation st + 1) clk (end_updater ni tr (ch_generation st + 1) t) (base @ [m])"
    unfolding g_def .
  have "chat_inv st1" using t1 by (simp add: tracking_def)
  moreover have "idle_ok (ch_ctl st1)" unfolding c1 by (rule idle_after_send)
  ultimately have r: "idle_ok (ch_ctl st2)"
    "(\<exists>x \<in> set (stream_outs (snd (run_events (chat_step ni tr) st1 es))). terminal x) \<longrightarrow> \<not> alive (ch_ctl st2)"
    using quiet_run_ctl [OF assms(7), of st1 ni tr] by (auto simp: st2_def Let_def)
  have "t \<in> set (calls sg (stream_outs (snd (run_events (chat_step ni tr) st1 es))))" using assms(10) by simp
  then have "\<not> alive (ch_ctl st2)" using r(2) assms(9) by (auto simp: calls_def)
  moreover have "\<not> ch_isRequesting st2" using t2 by (simp add: tracking_def)
  ultimately show "\<not> isGenerating st2" using r(1) not_generating by blast
qed

lemma stream_message_loading: "stream_message (createLoadingAssistantMessage k v t) [] (createLoadingAssistantMessage k v t)"
  using streamed_loading by (simp add: stream_message_def createLoadingAssistantMessage_def
      isAssistantMessagePending_def)


section \<open>Following a request, whatever it delivers\<close>

text \<open>Of the answer only its place, its key and its role are followed; the chunks, of either kind,
  are whatever the server sends.\<close>

definition answering :: "jstring \<Rightarrow> message \<Rightarrow> bool" where
  "answering k m \<longleftrightarrow> m_from m = RoleAssistant \<and> m_key m = k"

definition is_chunks :: "nat \<Rightarrow> updater \<Rightarrow> bool" where
  "is_chunks g u \<longleftrightarrow> (\<exists>r c. u = ApplyChunks g r c)"

definition awaits ::
  "nat \<Rightarrow> message list \<Rightarrow> jstring \<Rightarrow> updater list \<Rightarrow> message list \<Rightarrow> updater list \<Rightarrow> bool" where
  "awaits g base k ends ms us \<longleftrightarrow>
     (\<exists>bs. list_all (is_chunks g) bs \<and>
        (us = bs @ ends \<and> (\<exists>m. ms = base @ [m] \<and> answering k m) \<or>
         (\<exists>pre m. us = pre @ [SetMessages (base @ [m])] @ bs @ ends \<and> answering k m)))"

definition following ::
  "nat \<Rightarrow> nat \<Rightarrow> message list \<Rightarrow> jstring \<Rightarrow> updater option \<Rightarrow> chat_state \<Rightarrow> bool" where
  "following g sg base k fin st \<longleftrightarrow>
     chat_inv st \<and> ch_generation st = g \<and> map_of (ch_owner st) sg = Some g \<and>
     pk_generation (ch_pending st) = g \<and>
     (fin \<noteq> None \<longrightarrow> pk_content (ch_pending st) = [] \<and> pk_reasoning (ch_pending st) = [] \<and> \<not> ch_isRequesting st) \<and>
     (awaits g base k (case fin of None \<Rightarrow> [] | Some u \<Rightarrow> [u]) (ch_messages st) (ch_updates st) \<or>
      (\<exists>u m clk. fin = Some u \<and> ch_updates st = [] \<and> answering k m \<and>
         ch_messages st = run_updater g clk u (base @ [m])))"

lemma run_chunks:
  assumes "is_chunks g u" and "answering k m"
  shows "\<exists>m'. run_updater g clk u (base @ [m]) = base @ [m'] \<and> answering k m'"
  using assms
  by (auto simp: is_chunks_def answering_def updateLast_snoc apply_chunks_def)

lemma awaits_run:
  assumes "awaits g base k ends ms (u # us)"
  shows "awaits g base k ends (run_updater g clk u ms) us \<or>
    (ends = u # us \<and> (\<exists>m. ms = base @ [m] \<and> answering k m))"
proof -
  from assms obtain bs where bs: "list_all (is_chunks g) bs"
    and c: "u # us = bs @ ends \<and> (\<exists>m. ms = base @ [m] \<and> answering k m) \<or>
         (\<exists>pre m. u # us = pre @ [SetMessages (base @ [m])] @ bs @ ends \<and> answering k m)"
    unfolding awaits_def by blast
  from c show ?thesis
  proof (elim disjE conjE exE)
    fix m
    assume us: "u # us = bs @ ends" and m: "ms = base @ [m]" "answering k m"
    show ?thesis
    proof (cases bs)
      case (Cons b bs')
      with us bs have u: "is_chunks g u" "us = bs' @ ends" "list_all (is_chunks g) bs'" by auto
      with run_chunks [OF u(1) m(2), of clk base] m(1) show ?thesis unfolding awaits_def by blast
    qed (use us m in auto)
  next
    fix pre m
    assume us: "u # us = pre @ [SetMessages (base @ [m])] @ bs @ ends" and m: "answering k m"
    show ?thesis
    proof (cases pre)
      case Nil
      with us have "run_updater g clk u ms = base @ [m]" "us = bs @ ends" by auto
      with bs m show ?thesis unfolding awaits_def by blast
    next
      case (Cons v pre')
      with us have "us = pre' @ [SetMessages (base @ [m])] @ bs @ ends" by simp
      with bs m show ?thesis unfolding awaits_def by blast
    qed
  qed
qed

lemma awaits_snoc:
  assumes "awaits g base k [] ms us"
  shows "is_chunks g u \<Longrightarrow> awaits g base k [] ms (us @ [u])" and "awaits g base k [v] ms (us @ [v])"
proof -
  from assms obtain bs where bs: "list_all (is_chunks g) bs"
    and c: "us = bs \<and> (\<exists>m. ms = base @ [m] \<and> answering k m) \<or>
         (\<exists>pre m. us = pre @ [SetMessages (base @ [m])] @ bs \<and> answering k m)"
    unfolding awaits_def append_Nil2 by blast
  show "awaits g base k [] ms (us @ [u])" if "is_chunks g u"
    unfolding awaits_def using bs c that by (intro exI [of _ "bs @ [u]"]) auto
  show "awaits g base k [v] ms (us @ [v])"
    unfolding awaits_def using bs c by (intro exI [of _ bs]) auto
qed

lemma awaits_Nil: "awaits g base k [] ms [] \<Longrightarrow> \<exists>m. ms = base @ [m] \<and> answering k m"
  by (auto simp: awaits_def)

lemma follow_same:
  assumes "following g sg base k fin st" and "chat_inv st'"
    and "ch_generation st' = ch_generation st" "ch_owner st' = ch_owner st" "ch_pending st' = ch_pending st"
      "ch_isRequesting st' = ch_isRequesting st" "ch_messages st' = ch_messages st"
      "ch_updates st' = ch_updates st"
  shows "following g sg base k fin st'"
  using assms unfolding following_def by metis

lemma follow_render:
  assumes t: "following g sg base k fin st"
  shows "following g sg base k fin (render_update ev st)"
proof (cases "ch_updates st")
  case Nil
  then show ?thesis using t by (simp add: render_update_def)
next
  case (Cons u us)
  have i: "chat_inv (render_update ev st)" using t chat_inv_render by (auto simp: following_def)
  have r: "ch_updates (render_update ev st) = us"
    "ch_messages (render_update ev st) = run_updater g (ev_clk ev) u (ch_messages st)"
    using Cons t by (simp_all add: render_update_def following_def)
  from t Cons have "awaits g base k (case fin of None \<Rightarrow> [] | Some u \<Rightarrow> [u]) (ch_messages st) (u # us)"
    by (auto simp: following_def)
  from awaits_run [OF this, of "ev_clk ev"] show ?thesis
  proof
    assume "awaits g base k (case fin of None \<Rightarrow> [] | Some u \<Rightarrow> [u])
        (run_updater g (ev_clk ev) u (ch_messages st)) us"
    with t i r show ?thesis by (simp add: following_def)
  next
    assume "(case fin of None \<Rightarrow> [] | Some u \<Rightarrow> [u]) = u # us \<and> (\<exists>m. ch_messages st = base @ [m] \<and> answering k m)"
    then obtain m where f: "fin = Some u" "us = []" "ch_messages st = base @ [m]" "answering k m"
      by (auto split: option.splits)
    then have "\<exists>m clk. answering k m \<and> ch_messages (render_update ev st) = run_updater g clk u (base @ [m])"
      using r(2) by metis
    with t i r(1) f(1,2) show ?thesis by (simp add: following_def)
  qed
qed

lemma follow_dispatch_chunks:
  assumes "awaits g base k [] (ch_messages st) (ch_updates st)" and "is_chunks g u" and "ch_generation st = g"
  shows "awaits g base k [] (ch_messages (dispatch ev i u st)) (ch_updates (dispatch ev i u st))"
proof (cases "ev_eager ev i \<and> ch_updates st = []")
  case True
  with assms(1) awaits_Nil obtain m where m: "ch_messages st = base @ [m]" "answering k m" by metis
  from run_chunks [OF assms(2) m(2), of "ev_clk ev" base] obtain m' where
    "run_updater g (ev_clk ev) u (base @ [m]) = base @ [m']" "answering k m'" by blast
  with True m(1) assms(3) show ?thesis by (simp add: dispatch_def awaits_def)
next
  case False
  then have "dispatch ev i u st = st\<lparr>ch_updates := ch_updates st @ [u]\<rparr>" by (auto simp: dispatch_def)
  with awaits_snoc(1) [OF assms(1,2)] show ?thesis by simp
qed

lemma follow_flush:
  assumes t: "following g sg base k fin st"
  shows "following g sg base k fin (flushStreamUpdates ev i g' st)"
proof -
  have inv: "chat_inv (flushStreamUpdates ev i g' st)" using t chat_inv_flush by (auto simp: following_def)
  have g: "ch_generation st = g" "pk_generation (ch_pending st) = g" using t by (auto simp: following_def)
  show ?thesis
  proof (cases "g' = g \<and> \<not> (pk_reasoning (ch_pending st) = [] \<and> pk_content (ch_pending st) = [])")
    case False
    then have "flushStreamUpdates ev i g' st = (if g' = g then clear_flush_timer st else st)"
      using g by (auto simp: flushStreamUpdates_def Let_def)
    then show ?thesis using t inv by (intro follow_same [OF t]) auto
  next
    case True
    with t have fin: "fin = None" by (auto simp: following_def)
    define u where "u = ApplyChunks g (pk_reasoning (ch_pending st)) (pk_content (ch_pending st))"
    define st1 where "st1 = (clear_flush_timer st)\<lparr>ch_pending := \<lparr>pk_generation = g, pk_content = [], pk_reasoning = []\<rparr>\<rparr>"
    have fl: "flushStreamUpdates ev i g' st = dispatch ev i u st1"
      using True g by (auto simp: flushStreamUpdates_def Let_def st1_def u_def)
    have "awaits g base k [] (ch_messages st1) (ch_updates st1)" "ch_generation st1 = g" "is_chunks g u"
      using t fin g by (auto simp: following_def st1_def u_def is_chunks_def)
    from follow_dispatch_chunks [OF this(1,3,2), of ev i] show ?thesis
      using inv t fin by (simp add: following_def fl) (simp add: st1_def)
  qed
qed

lemma follow_update:
  assumes t: "following g sg base k None st" and i: "chat_inv (handleStreamUpdate g ty c st)"
  shows "following g sg base k None (handleStreamUpdate g ty c st)"
  using t i by (cases ty) (auto simp: following_def handleStreamUpdate_def scheduleStreamFlush_def Let_def)

lemma flush_drains:
  "pk_generation (ch_pending st) = ch_generation st \<Longrightarrow>
   pk_content (ch_pending (flushStreamUpdates ev i (ch_generation st) st)) = [] \<and>
   pk_reasoning (ch_pending (flushStreamUpdates ev i (ch_generation st) st)) = []"
  by (auto simp: flushStreamUpdates_def Let_def)

lemma follow_end:
  assumes t: "following g sg base k None st"
  shows "following g sg base k (Some u)
    (dispatch ev 1 u ((flushStreamUpdates ev 0 g st)\<lparr>ch_isRequesting := False\<rparr>))"
proof -
  define st2 where "st2 = (flushStreamUpdates ev 0 g st)\<lparr>ch_isRequesting := False\<rparr>"
  have t1: "following g sg base k None (flushStreamUpdates ev 0 g st)" by (rule follow_flush [OF t])
  have e: "pk_content (ch_pending st2) = []" "pk_reasoning (ch_pending st2) = []"
    using t flush_drains [of st] by (auto simp: st2_def following_def)
  have aw: "awaits g base k [] (ch_messages st2) (ch_updates st2)" and g: "ch_generation st2 = g"
    using t1 by (auto simp: following_def st2_def)
  have s2: "chat_inv st2" "map_of (ch_owner st2) sg = Some g" "pk_generation (ch_pending st2) = g"
    "\<not> ch_isRequesting st2" using t1 by (auto simp: following_def st2_def)
  have "following g sg base k (Some u) (dispatch ev 1 u st2)"
  proof (cases "ev_eager ev 1 \<and> ch_updates st2 = []")
    case True
    with aw awaits_Nil obtain m where m: "ch_messages st2 = base @ [m]" "answering k m" by metis
    have "ch_updates (dispatch ev 1 u st2) = []"
      "ch_messages (dispatch ev 1 u st2) = run_updater g (ev_clk ev) u (base @ [m])"
      using True g m(1) by (simp_all add: dispatch_def)
    with m(2) g s2 e show ?thesis unfolding following_def by (simp del: run_updater.simps) blast
  next
    case False
    then have d: "ch_messages (dispatch ev 1 u st2) = ch_messages st2"
      "ch_updates (dispatch ev 1 u st2) = ch_updates st2 @ [u]" by (auto simp: dispatch_def)
    with awaits_snoc(2) [OF aw, of u] g s2 e show ?thesis by (simp add: following_def)
  qed
  then show ?thesis by (simp add: st2_def)
qed

text \<open>What the calls of the request make of the end.\<close>

fun ending ::
  "(rat \<Rightarrow> jstring) \<Rightarrow> (jstring \<Rightarrow> jstring) \<Rightarrow> nat \<Rightarrow> chat_request stream_output list \<Rightarrow> updater option" where
  "ending ni tr g [] = None"
| "ending ni tr g (x # xs) = (if terminal x then Some (end_updater ni tr g x) else ending ni tr g xs)"

lemma ending_append:
  "ending ni tr g (xs @ ys) = (case ending ni tr g xs of None \<Rightarrow> ending ni tr g ys | Some u \<Rightarrow> Some u)"
  by (induction xs) auto

text \<open>Nothing after a terminal call.\<close>

definition ends_once :: "chat_request stream_output list \<Rightarrow> bool" where
  "ends_once xs \<longleftrightarrow> list_all (\<lambda>x. \<not> terminal x) (butlast xs)"

lemma ends_once_Cons: "ends_once (x # xs) \<Longrightarrow> (terminal x \<longrightarrow> xs = []) \<and> ends_once xs"
  by (cases xs) (auto simp: ends_once_def)

lemma ends_once_append: "ends_once (xs @ ys) \<Longrightarrow> ends_once xs \<and> ends_once ys \<and> (ending ni tr g xs \<noteq> None \<longrightarrow> ys = [])"
proof (induction xs)
  case (Cons x xs)
  from ends_once_Cons [of x "xs @ ys"] Cons.prems have "terminal x \<longrightarrow> xs = [] \<and> ys = []" "ends_once (xs @ ys)"
    by auto
  with Cons.IH show ?case by (auto simp: ends_once_def)
qed (simp add: ends_once_def)

lemma follow_callback:
  assumes t: "following g sg base k None st"
  shows "following g sg base k (ending ni tr g (calls sg [x])) (fst (stream_callback ni tr ev x st))"
proof -
  have inv: "chat_inv st" and own: "map_of (ch_owner st) sg = Some (ch_generation st)"
    and g: "ch_generation st = g" using t by (auto simp: following_def)
  show ?thesis
  proof (cases "call_of x = Some sg")
    case False
    then have "stream_callback ni tr ev x st = (st, [])"
      by (intro stale_callback) (use owner_unique [OF inv own] in blast)
    with False t show ?thesis by (simp add: calls_def)
  next
    case True
    have i: "chat_inv (fst (stream_callback ni tr ev x st))" by (rule chat_inv_callback [OF inv])
    show ?thesis
    proof (cases "terminal x")
      case True
      have "fst (stream_callback ni tr ev x st) =
          dispatch ev 1 (end_updater ni tr g x) ((flushStreamUpdates ev 0 g st)\<lparr>ch_isRequesting := False\<rparr>)"
        using \<open>call_of x = Some sg\<close> True own g
        by (cases x) (auto simp: stream_callback_def handleStreamComplete_def handleStreamError_def Let_def)
      with follow_end [OF t] True \<open>call_of x = Some sg\<close> show ?thesis by (simp add: calls_def)
    next
      case False
      then obtain ty c where "x = OnUpdate sg ty c" using True by (cases x) auto
      with own g follow_update [OF t] i show ?thesis by (auto simp: stream_callback_def calls_def)
    qed
  qed
qed

lemma follow_callbacks:
  "following g sg base k None st \<Longrightarrow> ends_once (calls sg xs) \<Longrightarrow>
   following g sg base k (ending ni tr g (calls sg xs)) (fst (stream_callbacks ni tr ev xs st))"
proof (induction xs arbitrary: st)
  case (Cons x xs)
  define st1 where "st1 = fst (stream_callback ni tr ev x st)"
  have t1: "following g sg base k (ending ni tr g (calls sg [x])) st1"
    unfolding st1_def by (rule follow_callback [OF Cons.prems(1)])
  have run: "fst (stream_callbacks ni tr ev (x # xs) st) = fst (stream_callbacks ni tr ev xs st1)"
    by (simp add: case_prod_beta st1_def)
  have c: "calls sg (x # xs) = calls sg [x] @ calls sg xs" by (simp add: calls_def)
  note o = ends_once_append [OF Cons.prems(2) [unfolded c], of ni tr g]
  show ?case
  proof (cases "ending ni tr g (calls sg [x])")
    case None
    with Cons.IH [OF _ conjunct1 [OF conjunct2 [OF o]]] t1 show ?thesis
      unfolding run c ending_append by simp
  next
    case (Some u)
    with o have "calls sg xs = []" by simp
    then have "fst (stream_callbacks ni tr ev xs st1) = st1"
      using other_callbacks [of st1 sg xs ni tr ev] t1 by (simp add: following_def)
    with t1 Some show ?thesis unfolding run c ending_append by simp
  qed
qed (simp add: calls_def)

lemma follow_ctl:
  "following g sg base k fin st \<Longrightarrow> following g sg base k fin (st\<lparr>ch_ctl := fst (stream_step ni (ch_ctl st) e)\<rparr>)"
  by (rule follow_same) (auto simp: following_def chat_inv_ctl)

lemma follow_step:
  assumes t: "following g sg base k fin st" and q: "quiet a"
    and o: "ends_once (calls sg (stream_outs (snd (chat_step ni tr st (a, ev)))))"
    and d: "fin \<noteq> None \<Longrightarrow> calls sg (stream_outs (snd (chat_step ni tr st (a, ev)))) = []"
  shows "following g sg base k
     (case fin of None \<Rightarrow> ending ni tr g (calls sg (stream_outs (snd (chat_step ni tr st (a, ev))))) | Some u \<Rightarrow> Some u)
     (fst (chat_step ni tr st (a, ev)))"
proof (cases "\<exists>x. a = StreamEvent x \<and> network_event x")
  case True
  then obtain x where x: "a = StreamEvent x" "network_event x" by blast
  define st1 where "st1 = st\<lparr>ch_ctl := fst (stream_step ni (ch_ctl st) x)\<rparr>"
  define xs where "xs = snd (stream_step ni (ch_ctl st) x)"
  have t1: "following g sg base k fin st1" unfolding st1_def by (rule follow_ctl [OF t])
  have f: "fst (chat_step ni tr st (a, ev)) = fst (stream_callbacks ni tr ev xs st1)"
    "stream_outs (snd (chat_step ni tr st (a, ev))) = xs"
    using x by (simp_all add: on_stream_def case_prod_beta st1_def xs_def)
  show ?thesis
  proof (cases fin)
    case None
    with follow_callbacks [of g sg base k st1 xs ni tr ev] t1 o f show ?thesis by simp
  next
    case (Some u)
    then have "fst (stream_callbacks ni tr ev xs st1) = st1"
      using other_callbacks [of st1 sg xs ni tr ev] t1 d f by (simp add: following_def)
    with t1 Some f show ?thesis by simp
  qed
next
  case False
  have inv: "chat_inv st" "map_of (ch_owner st) sg = Some g" "ch_generation st = g"
    "pk_generation (ch_pending st) = g" using t by (auto simp: following_def)
  from inv(1,2) have "g \<notin> set (ch_inflight st)"
    by (auto simp: chat_inv_def owner_inv_def dest!: map_of_SomeD)
  then have stale: "g' \<in> set (ch_inflight st) \<Longrightarrow> g' \<noteq> ch_generation st" for g' using inv(3) by auto
  have same: "following g sg base k fin (st\<lparr>ch_inflight := remove1 g' (ch_inflight st)\<rparr>)" for g'
    by (rule follow_same [OF t chat_inv_remove_inflight [OF inv(1)]]) simp_all
  have edit: "following g sg base k fin (st\<lparr>ch_editing := e\<rparr>)" for e
    by (rule follow_same [OF t]) (use inv(1) in simp_all)
  have "following g sg base k fin (fst (chat_step ni tr st (a, ev))) \<and>
      stream_outs (snd (chat_step ni tr st (a, ev))) = []"
    using q False same edit t follow_render [OF t] follow_flush [OF t] stale_answer [OF stale]
      timer_flush [OF inv(1)] inv(3,4)
    by (cases a) (auto simp: handleEditMessage_def handleEditOpenChange_def split: option.split)
  then show ?thesis by (cases fin) (simp_all add: calls_def)
qed

lemma follow_run:
  assumes "following g sg base k fin st" and "list_all (\<lambda>e. quiet (fst e)) es"
    and "ends_once (calls sg (stream_outs (snd (run_events (chat_step ni tr) st es))))"
    and "fin \<noteq> None \<Longrightarrow> calls sg (stream_outs (snd (run_events (chat_step ni tr) st es))) = []"
  shows "following g sg base k
     (case fin of None \<Rightarrow> ending ni tr g (calls sg (stream_outs (snd (run_events (chat_step ni tr) st es))))
      | Some u \<Rightarrow> Some u) (fst (run_events (chat_step ni tr) st es))"
  using assms
proof (induction es arbitrary: st fin)
  case Nil
  then show ?case by (cases fin) (simp_all add: calls_def)
next
  case (Cons e es)
  obtain a ev where e: "e = (a, ev)" by (cases e)
  define st1 where "st1 = fst (chat_step ni tr st e)"
  define c1 where "c1 = calls sg (stream_outs (snd (chat_step ni tr st e)))"
  define c2 where "c2 = calls sg (stream_outs (snd (run_events (chat_step ni tr) st1 es)))"
  define fin1 where "fin1 = (case fin of None \<Rightarrow> ending ni tr g c1 | Some u \<Rightarrow> Some u)"
  have c: "calls sg (stream_outs (snd (run_events (chat_step ni tr) st (e # es)))) = c1 @ c2"
    by (simp add: case_prod_beta calls_append c1_def c2_def st1_def)
  note o = ends_once_append [OF Cons.prems(3) [unfolded c], of ni tr g]
  have d: "fin \<noteq> None \<Longrightarrow> c1 = [] \<and> c2 = []" using Cons.prems(4) c by simp
  have "following g sg base k fin1 st1"
    unfolding fin1_def c1_def st1_def e
    by (rule follow_step [OF Cons.prems(1)]) (use Cons.prems(2) o d in \<open>simp_all add: e c1_def\<close>)
  moreover have "fin1 \<noteq> None \<Longrightarrow> c2 = []" using o d by (cases fin) (simp_all add: fin1_def)
  ultimately have "following g sg base k (case fin1 of None \<Rightarrow> ending ni tr g c2 | Some u \<Rightarrow> Some u)
      (fst (run_events (chat_step ni tr) st1 es))"
    using Cons.IH [of fin1 st1, folded c2_def] Cons.prems(2) o by simp
  moreover have "fst (run_events (chat_step ni tr) st (e # es)) = fst (run_events (chat_step ni tr) st1 es)"
    by (simp add: case_prod_beta st1_def)
  moreover have "(case fin1 of None \<Rightarrow> ending ni tr g c2 | Some u \<Rightarrow> Some u) =
      (case fin of None \<Rightarrow> ending ni tr g (c1 @ c2) | Some u \<Rightarrow> Some u)"
    by (simp add: fin1_def ending_append split: option.split)
  ultimately show ?case unfolding c by simp
qed

lemma follow_send:
  assumes "chat_inv st" and "pc_stream (ci_config inp)" and "answering k m0"
  shows "following (ch_generation st + 1) (sc_generation (ch_ctl st) + 1) base k None
    (fst (update_and_send ni tr ev inp (base @ [m0]) st))"
proof -
  define st1 where "st1 = dispatch ev 0 (SetMessages (base @ [m0])) st"
  define st2 where "st2 = fst (sendStreamingChat ni tr ev (ci_config inp) (ci_enabled inp) (base @ [m0]) st1)"
  have i2: "chat_inv st2" unfolding st2_def by (rule chat_inv_send_stream) (use assms(1) st1_def in simp)
  have s2: "ch_generation st2 = ch_generation st + 1" "ch_messages st2 = ch_messages st1"
    "ch_updates st2 = ch_updates st1"
    "ch_owner st2 = (sc_generation (ch_ctl st) + 1, ch_generation st + 1) # ch_owner st"
    "ch_pending st2 = \<lparr>pk_generation = ch_generation st + 1, pk_content = [], pk_reasoning = []\<rparr>"
    by (simp_all add: st2_def sendStreamingChat_state Let_def st1_def)
  have "awaits (ch_generation st + 1) base k [] (ch_messages st2) (ch_updates st2)"
  proof (cases "ev_eager ev 0 \<and> ch_updates st = []")
    case True
    then have "ch_messages st2 = base @ [m0]" "ch_updates st2 = []" using s2(2,3) by (simp_all add: st1_def dispatch_def)
    with assms(3) show ?thesis by (simp add: awaits_def)
  next
    case False
    then have "ch_updates st2 = ch_updates st @ [SetMessages (base @ [m0])] @ [] @ []"
      using s2(3) by (auto simp: st1_def dispatch_def)
    with assms(3) show ?thesis unfolding awaits_def by (intro exI [of _ "[]"]) auto
  qed
  then show ?thesis
    using i2 s2 assms(2) by (simp add: following_def update_and_send_def sendChat_def st2_def st1_def)
qed

text \<open>All together, for any way a stream ends.\<close>

lemma ended_answer:
  fixes st :: chat_state and base :: "message list" and m0 :: message and inp :: chat_input and ev :: env
    and ni :: "rat \<Rightarrow> jstring" and tr :: "jstring \<Rightarrow> jstring" and es :: "(chat_event \<times> env) list"
  defines "st1 \<equiv> fst (update_and_send ni tr ev inp (base @ [m0]) st)"
  defines "sg \<equiv> sc_generation (ch_ctl st1)"
  defines "st2 \<equiv> fst (run_events (chat_step ni tr) st1 es)"
  assumes "chat_inv st" and "pc_stream (ci_config inp)" and "answering k m0"
    and "list_all (\<lambda>e. quiet (fst e)) es" and "list_all (\<lambda>x. \<not> terminal x) us" and "terminal t"
    and "calls sg (stream_outs (snd (run_events (chat_step ni tr) st1 es))) = us @ [t]"
    and "ch_updates st2 = []"
  shows "\<not> isGenerating st2"
    and "\<exists>m clk. answering k m \<and>
      ch_messages st2 = run_updater (ch_generation st + 1) clk (end_updater ni tr (ch_generation st + 1) t) (base @ [m])"
proof -
  define g where "g = ch_generation st + 1"
  have c1: "ch_ctl st1 = fst (stream_step ni (ch_ctl st) (Send (buildChatCompletionPayload (base @ [m0]) (ci_config inp) (ci_enabled inp))))"
    using assms(5) by (simp add: st1_def update_and_send_def sendChat_def sendStreamingChat_state Let_def)
  then have sg: "sg = sc_generation (ch_ctl st) + 1"
    using generation_step(1) [of ni "ch_ctl st"] by (simp add: sg_def)
  have t1: "following g sg base k None st1"
    unfolding st1_def sg g_def by (rule follow_send [OF assms(4-6)])
  have e: "ending ni tr g (us @ [t]) = Some (end_updater ni tr g t)"
    using assms(8,9) by (induction us) auto
  have t2: "following g sg base k (Some (end_updater ni tr g t)) st2"
    using follow_run [OF t1 assms(7), of ni tr] assms(8,10) e by (simp add: st2_def ends_once_def)
  with assms(11) show "\<exists>m clk. answering k m \<and>
      ch_messages st2 = run_updater (ch_generation st + 1) clk (end_updater ni tr (ch_generation st + 1) t) (base @ [m])"
    unfolding g_def following_def by (auto simp: awaits_def)
  have "chat_inv st1" using t1 by (simp add: following_def)
  moreover have "idle_ok (ch_ctl st1)" unfolding c1 by (rule idle_after_send)
  ultimately have r: "idle_ok (ch_ctl st2)"
    "(\<exists>x \<in> set (stream_outs (snd (run_events (chat_step ni tr) st1 es))). terminal x) \<longrightarrow> \<not> alive (ch_ctl st2)"
    using quiet_run_ctl [OF assms(7), of st1 ni tr] by (auto simp: st2_def Let_def)
  have "t \<in> set (calls sg (stream_outs (snd (run_events (chat_step ni tr) st1 es))))" using assms(10) by simp
  then have "\<not> alive (ch_ctl st2)" using r(2) assms(9) by (auto simp: calls_def)
  moreover have "\<not> ch_isRequesting st2" using t2 by (simp add: following_def)
  ultimately show "\<not> isGenerating st2" using r(1) not_generating by blast
qed


section \<open>After stopping\<close>

definition last_message :: "message list \<Rightarrow> message option" where
  "last_message ms = (if ms = [] then None else Some (last ms))"

definition stopped :: "nat \<Rightarrow> chat_state \<Rightarrow> bool" where
  "stopped g st \<longleftrightarrow>
     chat_inv st \<and> ch_generation st = g \<and> g \<notin> snd ` set (ch_owner st) \<and> g \<notin> set (ch_inflight st) \<and>
     \<not> ch_isRequesting st \<and> ch_pending st = \<lparr>pk_generation = g, pk_content = [], pk_reasoning = []\<rparr> \<and>
     idle_ok (ch_ctl st) \<and> \<not> alive (ch_ctl st) \<and>
     ((\<exists>pre. ch_updates st = pre @ [StopLast g]) \<or>
      (ch_updates st = [] \<and> \<not> isPendingAssistantMessage (last_message (ch_messages st))))"

lemma stop_last: "\<not> isPendingAssistantMessage (last_message (run_updater g clk (StopLast g) ms))"
proof (cases ms rule: rev_cases)
  case (snoc ys m)
  then show ?thesis
    by (auto simp: last_message_def updateLastAssistantMessage_def isPendingAssistantMessage_def
        isAssistantMessagePending_def completeAssistantMessage_def)
qed (simp add: last_message_def updateLastAssistantMessage_def isPendingAssistantMessage_def)

lemma stopped_stop:
  assumes "chat_inv st"
  shows "stopped (ch_generation st + 1) (fst (stopGeneration ni tr ev st))"
proof -
  define g where "g = ch_generation st + 1"
  define st2 where "st2 = discardPendingStreamUpdates g ((flushStreamUpdates ev 0 (ch_generation st) st)\<lparr>ch_generation := g\<rparr>)"
  define st3 where "st3 = fst (abort_current (st2\<lparr>ch_ctl := fst (stream_step ni (ch_ctl st) StopStream)\<rparr>))"
  have "fst (on_stream ni tr ev StopStream st2) = st2\<lparr>ch_ctl := fst (stream_step ni (ch_ctl st2) StopStream)\<rparr>"
    by (rule on_stream_silent) (rule silent_step)
  then have f: "fst (stopGeneration ni tr ev st) = dispatch ev 1 (StopLast g) (st3\<lparr>ch_isRequesting := False\<rparr>)"
    by (simp add: stopGeneration_def Let_def case_prod_beta g_def st2_def st3_def del: stream_step.simps)
  have i: "chat_inv (fst (stopGeneration ni tr ev st))" by (rule chat_inv_stop [OF assms])
  have s3: "ch_generation st3 = g" "ch_owner st3 = ch_owner st" "ch_inflight st3 = ch_inflight st"
    "ch_pending st3 = \<lparr>pk_generation = g, pk_content = [], pk_reasoning = []\<rparr>"
    "ch_ctl st3 = fst (stream_step ni (ch_ctl st) StopStream)"
    by (simp_all add: st3_def st2_def del: stream_step.simps)
  have o: "g \<notin> snd ` set (ch_owner st)" "g \<notin> set (ch_inflight st)"
    using assms by (fastforce simp: chat_inv_def owner_inv_def g_def)+
  have c: "ctl_inv (ch_ctl st)" using assms by (simp add: chat_inv_def)
  have "(\<exists>pre. ch_updates (dispatch ev 1 (StopLast g) st') = pre @ [StopLast g]) \<or>
      (ch_updates (dispatch ev 1 (StopLast g) st') = [] \<and>
       \<not> isPendingAssistantMessage (last_message (ch_messages (dispatch ev 1 (StopLast g) st'))))"
    if "ch_generation st' = g" for st'
    using that stop_last [of g "ev_clk ev" "ch_messages st'"] by (auto simp: dispatch_def simp del: run_updater.simps)
  then show ?thesis
    using i s3 o idle_after_send(2) [of ni "ch_ctl st"] idle_after_send(3) [OF c, of ni]
    unfolding f stopped_def g_def [symmetric] by (simp del: stream_step.simps)
qed

lemma stopped_same:
  assumes "stopped g st" and "chat_inv st'" and "ch_generation st' = ch_generation st"
    "ch_owner st' = ch_owner st" "set (ch_inflight st') \<subseteq> set (ch_inflight st)"
    "ch_isRequesting st' = ch_isRequesting st" "ch_pending st' = ch_pending st"
    "idle_ok (ch_ctl st')" "\<not> alive (ch_ctl st')" "ch_updates st' = ch_updates st"
    "ch_messages st' = ch_messages st"
  shows "stopped g st'"
  using assms unfolding stopped_def by auto

lemma stopped_render:
  assumes "stopped g st"
  shows "stopped g (render_update ev st)"
proof (cases "ch_updates st")
  case (Cons u us)
  with assms obtain pre where pre: "u # us = pre @ [StopLast g]" by (auto simp: stopped_def)
  have i: "chat_inv (render_update ev st)" using assms chat_inv_render by (simp add: stopped_def)
  have r: "render_update ev st = st\<lparr>ch_updates := us,
      ch_messages := run_updater g (ev_clk ev) u (ch_messages st)\<rparr>"
    using Cons assms by (simp add: render_update_def stopped_def)
  from pre have "(\<exists>pre. us = pre @ [StopLast g]) \<or> (u = StopLast g \<and> us = [])"
    by (cases pre) auto
  then show ?thesis
    using assms i stop_last unfolding r stopped_def by auto
qed (use assms in \<open>simp add: render_update_def\<close>)

lemma stopped_step:
  assumes s: "stopped g st" and q: "quiet (fst e)"
  shows "stopped g (fst (chat_step ni tr st e))"
proof -
  obtain a ev where e: "e = (a, ev)" by (cases e)
  have st: "chat_inv st" "idle_ok (ch_ctl st)" "\<not> alive (ch_ctl st)" "ch_generation st = g"
    "g \<notin> snd ` set (ch_owner st)" "g \<notin> set (ch_inflight st)"
    "ch_pending st = \<lparr>pk_generation = g, pk_content = [], pk_reasoning = []\<rparr>"
    using s by (auto simp: stopped_def)
  have i: "chat_inv (fst (chat_step ni tr st e))" by (rule chat_inv_step [OF st(1)])
  have c: "idle_ok (ch_ctl (fst (chat_step ni tr st e)))" "\<not> alive (ch_ctl (fst (chat_step ni tr st e)))"
    using quiet_ctl [OF q st(1,2), of ni tr] st(3) by (auto simp: Let_def)
  have stale: "g' \<in> set (ch_inflight st) \<Longrightarrow> g' \<noteq> ch_generation st" for g' using st(4,6) by auto
  show ?thesis
  proof (cases a)
    case FlushTimer
    have "flush_timer_fires ev st = st \<or> flush_timer_fires ev st = clear_flush_timer st"
      using timer_flush [OF st(1), of ev] st(1,4,7)
      by (auto simp: flushStreamUpdates_def chat_inv_def flush_inv_def Let_def split: option.split)
    with s i c show ?thesis
      unfolding e FlushTimer by (elim disjE) (auto intro: stopped_same [OF s])
  next
    case RenderUpdate
    with s e stopped_render show ?thesis by simp
  next
    case (StreamEvent x)
    have "map_of (ch_owner st) sg' \<noteq> Some (ch_generation st)" for sg'
    proof
      assume "map_of (ch_owner st) sg' = Some (ch_generation st)"
      then have "(sg', ch_generation st) \<in> set (ch_owner st)" by (rule map_of_SomeD)
      then have "ch_generation st \<in> snd ` set (ch_owner st)" by force
      with st(4,5) show False by simp
    qed
    then have "fst (on_stream ni tr ev x st) = st\<lparr>ch_ctl := fst (stream_step ni (ch_ctl st) x)\<rparr>"
      by (simp add: on_stream_def case_prod_beta stale_callbacks)
    with s i c show ?thesis
      unfolding e StreamEvent by (auto intro: stopped_same [OF s] split: if_splits)
  next
    case (ChatResponse g' r)
    with s i c stale_answer(1) [OF stale] show ?thesis
      unfolding e by (auto intro!: stopped_same [OF s] dest: set_remove1_subset [THEN subsetD])
  next
    case (ChatFailed g' err)
    with s i c stale_answer(2) [OF stale] show ?thesis
      unfolding e by (auto intro!: stopped_same [OF s] dest: set_remove1_subset [THEN subsetD])
  next
    case (EditMessage k)
    with s i c show ?thesis
      unfolding e by (auto simp: handleEditMessage_def intro: stopped_same [OF s])
  next
    case (EditOpenChange b)
    with s i c show ?thesis
      unfolding e by (auto simp: handleEditOpenChange_def intro: stopped_same [OF s])
  qed (use q e in auto)
qed

lemma stopped_run:
  "stopped g st \<Longrightarrow> list_all (\<lambda>e. quiet (fst e)) es \<Longrightarrow> stopped g (fst (run_events (chat_step ni tr) st es))"
  by (induction es arbitrary: st) (auto simp: case_prod_beta stopped_step)


section \<open>Properties\<close>

lemma fst_run_Cons:
  "fst (run_events step s (e # es)) = fst (run_events step (fst (run_events step s ([] @ [e]))) es)"
  by (simp add: case_prod_beta)

definition calm :: env where
  "calm = \<lparr>ev_eager = \<lambda>_. False, ev_clk = \<lambda>_. 7\<rparr>"

definition sample_input :: chat_input where
  "sample_input = \<lparr>ci_config = DEFAULT_CONFIG, ci_enabled = DEFAULT_PARAMETER_ENABLED, ci_messages = [],
     ci_ids = (\<lambda>i. show_nat i), ci_now = 3\<rparr>"

text \<open>The data of a server-sent event with one content delta.\<close>

definition delta_data :: "jstring \<Rightarrow> jstring" where
  "delta_data c = js ''{'' @ [34] @ js ''choices'' @ [34] @ js '':[{'' @ [34] @ js ''delta'' @ [34] @
     js '':{'' @ [34] @ js ''content'' @ [34] @ js '':'' @ [34] @ c @ [34] @ js ''}}]}''"

definition sample_answer :: "(chat_event \<times> env) list" where
  "sample_answer = map (\<lambda>e. (e, calm))
     [StreamEvent (HeadersReady 1 [] False), RenderUpdate,
      StreamEvent (SourceMessage 0 (Some (delta_data (js ''Hel'')))), FlushTimer,
      StreamEvent (SourceMessage 0 (Some (delta_data (js ''lo'')))), RenderUpdate,
      StreamEvent (SourceMessage 0 (Some (js ''[DONE]''))), RenderUpdate, RenderUpdate]"

text \<open>C2 [chat_stream_exact]: sending a message with streaming on appends the message and an answer.
  Let the stream deliver content chunks of which no run begins with the run right before it (which
  the code would take for a repeated snapshot) and no chunk of the separate reasoning field, and let
  the user neither send, edit, delete, stop nor leave in the meantime. However chunks, flush timers, renders
  and late events of earlier requests interleave, once the stream has completed and the updates are
  rendered, the answer is complete and shows the visible text of all chunks put together, nothing
  else in the conversation has changed, and the playground is no longer generating. Its reasoning is
  the text within think tags, unless there are such tags with nothing but blanks in them.\<close>

theorem chat_stream_exact:
  fixes ni :: "rat \<Rightarrow> jstring" and tr :: "jstring \<Rightarrow> jstring" and es0 es :: "(chat_event \<times> env) list"
    and inp :: chat_input and userText :: jstring and ev :: env
  defines "st1 \<equiv> fst (run_events (chat_step ni tr) initial_chat (es0 @ [(SendMessage inp userText, ev)]))"
  defines "sg \<equiv> sc_generation (ch_ctl st1)"
  defines "r \<equiv> run_events (chat_step ni tr) st1 es"
  assumes "pc_stream (ci_config inp)" and "list_all (\<lambda>e. quiet (fst e)) es" and "no_repeat cs"
    and "calls sg (stream_outs (snd r)) = update_calls sg cs @ [OnComplete sg]"
    and "ch_updates (fst r) = []"
  shows "\<not> isGenerating (fst r) \<and>
    (\<exists>m. ch_messages (fst r) = ci_messages inp @
        [createUserMessage (ci_ids inp 0) (ci_ids inp 1) userText (ci_now inp), m] \<and>
      m_key m = ci_ids inp 2 \<and> m_status m = Some StComplete \<and>
      getMessageContent m = visible_text (concat cs) \<and>
      ((js_includes (concat cs) think_open \<longrightarrow> thinking_text (concat cs) \<noteq> None) \<longrightarrow>
       map_option mr_content (m_reasoning m) = thinking_text (concat cs)))"
proof -
  define st where "st = fst (run_events (chat_step ni tr) initial_chat es0)"
  define m0 where "m0 = createLoadingAssistantMessage (ci_ids inp 2) (ci_ids inp 3) (ci_now inp)"
  define base where "base = ci_messages inp @ [createUserMessage (ci_ids inp 0) (ci_ids inp 1) userText (ci_now inp)]"
  have i: "chat_inv st" unfolding st_def by (rule chat.inv_run)
  have st1: "st1 = fst (update_and_send ni tr ev inp (base @ [m0]) st)"
    by (simp add: st1_def run_events_append case_prod_beta st_def handleSendMessage_def
        appendUserMessagePair_def base_def m0_def)
  note a = streamed_answer [OF i assms(4) _ assms(5,6), of m0 "OnComplete sg" ni tr ev base, folded st1,
      folded sg_def, folded r_def]
  have ms: "stream_message m0 [] m0" unfolding m0_def by (rule stream_message_loading)
  obtain m clk where m: "stream_message m0 (concat cs) m"
    "ch_messages (fst r) = run_updater (ch_generation st + 1) clk (CompleteLast (ch_generation st + 1)) (base @ [m])"
    using a(2) [OF ms] assms(7,8) by (auto simp del: run_updater.simps)
  from m(1) have s: "streamed (concat cs) m" "m_from m = RoleAssistant" "m_key m = m_key m0" "\<not> isAssistantMessageFinal m"
    by (auto simp: stream_message_def isAssistantMessagePending_def isAssistantMessageFinal_def)
  have "ch_messages (fst r) = base @ [completeAssistantMessage m clk]"
    using m(2) s(2,4) by (simp add: updateLast_snoc)
  moreover have "m_key (completeAssistantMessage m clk) = ci_ids inp 2"
    using s(3) by (simp add: completeAssistantMessage_def m0_def createLoadingAssistantMessage_def)
  ultimately show ?thesis
    using complete_streamed [OF s(1), of clk] a(1) [OF ms] assms(7,8) by (simp add: base_def)
qed

theorem chat_stream_exact_witness:
  "\<exists>m. ch_messages (fst (run_events (chat_step (\<lambda>_. []) id) initial_chat
      ((SendMessage sample_input (js ''Hi''), calm) # sample_answer))) =
    [createUserMessage (show_nat 0) (show_nat 1) (js ''Hi'') 3, m] \<and>
    m_status m = Some StComplete \<and> getMessageContent m = js ''Hello''"
proof -
  let ?st1 = "fst (run_events (chat_step (\<lambda>_. []) id) initial_chat ([] @ [(SendMessage sample_input (js ''Hi''), calm)]))"
  have s: "pc_stream (ci_config sample_input)" by code_simp
  have q: "list_all (\<lambda>e. quiet (fst e)) sample_answer" by code_simp
  have n: "no_repeat [js ''Hel'', js ''lo'']" by code_simp
  have c: "calls (sc_generation (ch_ctl ?st1)) (stream_outs (snd (run_events (chat_step (\<lambda>_. []) id) ?st1 sample_answer))) =
      update_calls (sc_generation (ch_ctl ?st1)) [js ''Hel'', js ''lo''] @ [OnComplete (sc_generation (ch_ctl ?st1))]"
    by code_simp
  have u: "ch_updates (fst (run_events (chat_step (\<lambda>_. []) id) ?st1 sample_answer)) = []" by code_simp
  have v: "visible_text (concat [js ''Hel'', js ''lo'']) = js ''Hello''" by code_simp
  have i: "ci_messages sample_input = []" "ci_ids sample_input = show_nat" "ci_now sample_input = 3"
    by (simp_all add: sample_input_def)
  show ?thesis
    unfolding fst_run_Cons
    using chat_stream_exact [OF s q n c u] unfolding v i by auto
qed

text \<open>C21 [chat_error_shown]: when the stream of the latest request ends with an error, whatever content
  and reasoning it delivered before, the answer becomes an error message with the translated title
  and the displayed error, nothing else in the conversation has changed, and the playground is no
  longer generating. In the meantime chunks, flush timers, renders and late events of earlier
  requests may interleave in any way; the user neither sends, edits, deletes, stops nor leaves.\<close>

theorem chat_error_shown:
  fixes ni :: "rat \<Rightarrow> jstring" and tr :: "jstring \<Rightarrow> jstring" and es0 es :: "(chat_event \<times> env) list"
    and inp :: chat_input and userText :: jstring and ev :: env
  defines "st1 \<equiv> fst (run_events (chat_step ni tr) initial_chat (es0 @ [(SendMessage inp userText, ev)]))"
  defines "sg \<equiv> sc_generation (ch_ctl st1)"
  defines "r \<equiv> run_events (chat_step ni tr) st1 es"
  assumes "pc_stream (ci_config inp)" and "list_all (\<lambda>e. quiet (fst e)) es"
    and "list_all (\<lambda>x. \<not> terminal x) us"
    and "calls sg (stream_outs (snd r)) = us @ [OnError sg (JStr err) code]"
    and "ch_updates (fst r) = []"
  shows "\<not> isGenerating (fst r) \<and>
    (\<exists>m. ch_messages (fst r) = ci_messages inp @
        [createUserMessage (ci_ids inp 0) (ci_ids inp 1) userText (ci_now inp), m] \<and>
      m_key m = ci_ids inp 2 \<and> m_status m = Some StError \<and>
      getMessageContent m = tr API_REQUEST_ERROR @ js '': '' @ getDisplayError tr err)"
proof -
  define st where "st = fst (run_events (chat_step ni tr) initial_chat es0)"
  define m0 where "m0 = createLoadingAssistantMessage (ci_ids inp 2) (ci_ids inp 3) (ci_now inp)"
  define base where "base = ci_messages inp @ [createUserMessage (ci_ids inp 0) (ci_ids inp 1) userText (ci_now inp)]"
  have i: "chat_inv st" unfolding st_def by (rule chat.inv_run)
  have st1: "st1 = fst (update_and_send ni tr ev inp (base @ [m0]) st)"
    by (simp add: st1_def run_events_append case_prod_beta st_def handleSendMessage_def
        appendUserMessagePair_def base_def m0_def)
  have ms: "answering (ci_ids inp 2) m0" by (simp add: answering_def m0_def createLoadingAssistantMessage_def)
  note a = ended_answer [OF i assms(4) ms assms(5,6), of "OnError sg (JStr err) code" ni tr ev base, folded st1,
      folded sg_def, folded r_def]
  obtain m clk where m: "answering (ci_ids inp 2) m"
    "ch_messages (fst r) = run_updater (ch_generation st + 1) clk
      (end_updater ni tr (ch_generation st + 1) (OnError sg (JStr err) code)) (base @ [m])"
    using a(2) assms(7,8) by (auto simp del: run_updater.simps end_updater.simps)
  from m have "\<exists>m'. ch_messages (fst r) = base @ [m'] \<and> m_key m' = ci_ids inp 2 \<and> m_status m' = Some StError \<and>
      getMessageContent m' = tr API_REQUEST_ERROR @ js '': '' @ getDisplayError tr err"
    by (auto simp: answering_def updateAssistantMessageWithError_def updateLast_snoc Let_def json_text_def
        getMessageContent_def updateCurrentVersionContent_def getCurrentVersion_def)
  then show ?thesis using a(1) assms(7,8) by (auto simp: base_def)
qed

definition sample_failure :: "(chat_event \<times> env) list" where
  "sample_failure = map (\<lambda>e. (e, calm))
     [StreamEvent (HeadersReady 1 [] False), RenderUpdate,
      StreamEvent (SourceMessage 0 (Some (delta_data (js ''Hel'')))),
      StreamEvent (SourceMessage 0 (Some (delta_data (js ''Hello'')))),
      StreamEvent (SourceReadyState 0 (Some 2) (Some 502)), RenderUpdate, RenderUpdate]"

theorem chat_error_shown_witness:
  "\<exists>m. ch_messages (fst (run_events (chat_step (\<lambda>_. []) id) initial_chat
      ((SendMessage sample_input (js ''Hi''), calm) # sample_failure))) =
    [createUserMessage (show_nat 0) (show_nat 1) (js ''Hi'') 3, m] \<and>
    m_status m = Some StError \<and>
    getMessageContent m = js ''Request error occurred: HTTP 502: Connection closed''"
proof -
  let ?st1 = "fst (run_events (chat_step (\<lambda>_. []) id) initial_chat ([] @ [(SendMessage sample_input (js ''Hi''), calm)]))"
  have s: "pc_stream (ci_config sample_input)" by code_simp
  have q: "list_all (\<lambda>e. quiet (fst e)) sample_failure" by code_simp
  let ?us = "update_calls (sc_generation (ch_ctl ?st1)) [js ''Hel'', js ''Hello'']"
  have n: "list_all (\<lambda>x. \<not> terminal x) ?us" by (rule update_calls_open)
  have c: "calls (sc_generation (ch_ctl ?st1)) (stream_outs (snd (run_events (chat_step (\<lambda>_. []) id) ?st1 sample_failure))) =
      ?us @
        [OnError (sc_generation (ch_ctl ?st1)) (JStr (js ''HTTP 502: Connection closed'')) None]"
    by code_simp
  have u: "ch_updates (fst (run_events (chat_step (\<lambda>_. []) id) ?st1 sample_failure)) = []" by code_simp
  have v: "id API_REQUEST_ERROR @ js '': '' @ getDisplayError id (js ''HTTP 502: Connection closed'') =
      js ''Request error occurred: HTTP 502: Connection closed''" by code_simp
  have i: "ci_messages sample_input = []" "ci_ids sample_input = show_nat" "ci_now sample_input = 3"
    by (simp_all add: sample_input_def)
  show ?thesis
    unfolding fst_run_Cons
    using chat_error_shown [OF s q n c u] unfolding v i by auto
qed

text \<open>C6 [chat_stop_settles]: after the generation was stopped, whatever of the stopped request still
  arrives, once the updates are rendered the last message is not a pending answer and the
  playground is no longer generating.\<close>

theorem chat_stop_settles:
  fixes ni :: "rat \<Rightarrow> jstring" and tr :: "jstring \<Rightarrow> jstring" and es0 es :: "(chat_event \<times> env) list" and ev :: env
  defines "st \<equiv> fst (run_events (chat_step ni tr) initial_chat (es0 @ [(StopGeneration, ev)] @ es))"
  assumes "list_all (\<lambda>e. quiet (fst e)) es" and "ch_updates st = []"
  shows "\<not> isGenerating st \<and> \<not> isPendingAssistantMessage (last_message (ch_messages st))"
proof -
  define st0 where "st0 = fst (run_events (chat_step ni tr) initial_chat es0)"
  have "stopped (ch_generation st0 + 1) (fst (stopGeneration ni tr ev st0))"
    by (rule stopped_stop) (simp add: st0_def chat.inv_run)
  then have "stopped (ch_generation st0 + 1) st"
    using stopped_run [OF _ assms(2), of "ch_generation st0 + 1" "fst (stopGeneration ni tr ev st0)" ni tr]
    by (simp add: st_def run_events_append case_prod_beta st0_def)
  with assms(3) not_generating show ?thesis by (auto simp: stopped_def)
qed

definition sample_stop :: "(chat_event \<times> env) list" where
  "sample_stop = map (\<lambda>e. (e, calm))
     [StreamEvent (SourceMessage 0 (Some (delta_data (js ''late'')))), RenderUpdate, RenderUpdate]"

theorem chat_stop_settles_witness:
  "let es0 = (SendMessage sample_input (js ''Hi''), calm) # take 3 sample_answer;
       st = fst (run_events (chat_step (\<lambda>_. []) id) initial_chat (es0 @ [(StopGeneration, calm)] @ sample_stop))
   in isGenerating (fst (run_events (chat_step (\<lambda>_. []) id) initial_chat es0)) \<and> \<not> isGenerating st \<and>
      \<not> isPendingAssistantMessage (last_message (ch_messages st))"
proof -
  let ?es0 = "(SendMessage sample_input (js ''Hi''), calm) # take 3 sample_answer"
  have q: "list_all (\<lambda>e. quiet (fst e)) sample_stop" by code_simp
  have u: "ch_updates (fst (run_events (chat_step (\<lambda>_. []) id) initial_chat
      (?es0 @ [(StopGeneration, calm)] @ sample_stop))) = []" by code_simp
  have g: "isGenerating (fst (run_events (chat_step (\<lambda>_. []) id) initial_chat ?es0))" by code_simp
  show ?thesis using chat_stop_settles [OF q u] g by (simp only: Let_def simp_thms)
qed

text \<open>No chunk is stranded: whenever chunks of the current request wait to
  be shown, a flush for this request is scheduled.\<close>

theorem chat_chunks_scheduled:
  "let st = fst (run_events (chat_step ni tr) initial_chat es); p = ch_pending st
   in pk_generation p = ch_generation st \<longrightarrow>
      pk_content p = [] \<and> pk_reasoning p = [] \<or> ch_timer st = Some (ch_generation st) \<and> ch_armed st"
  using chat.inv_run [of ni tr es] by (auto simp: chat_inv_def flush_inv_def Let_def)

theorem chat_chunks_scheduled_witness:
  "let st = fst (run_events (chat_step (\<lambda>_. []) id) initial_chat
       ((SendMessage sample_input (js ''Hi''), calm) # take 3 sample_answer))
   in pk_content (ch_pending st) = js ''Hel'' \<and> ch_timer st = Some 1 \<and> ch_armed st"
proof -
  let ?es = "(SendMessage sample_input (js ''Hi''), calm) # take 3 sample_answer"
  let ?st = "fst (run_events (chat_step (\<lambda>_. []) id) initial_chat ?es)"
  have "pk_generation (ch_pending ?st) = 1" "ch_generation ?st = 1" "pk_content (ch_pending ?st) = js ''Hel''"
    by code_simp+
  moreover have "js ''Hel'' \<noteq> []" by simp
  ultimately show ?thesis
    using chat_chunks_scheduled [of "\<lambda>_. []" id ?es] unfolding Let_def by metis
qed

end
