(* ===== verification/PlaygroundStorage.thy ===== *)
theory PlaygroundStorage
  imports PlaygroundChat JsRoundTrip
begin

text \<open>
  What the playground keeps in \<open>localStorage\<close>: the schemas of \<open>lib/storage/storage-schema.ts\<close>, the
  functions of \<open>lib/storage/storage.ts\<close> that write, read, repair and bound the stored conversation, the
  initial state of \<open>lib/state/playground-state-utils.ts\<close>, and the hook \<open>usePlaygroundState\<close>
  (\<open>hooks/use-playground-state.ts\<close>) that saves the conversation with a delay.

  The schemas are written with zod, which is not part of the repository: a schema is data here, and
  \<open>zparse\<close> stands for \<open>schema.parse\<close>, \<open>None\<close> being its exception. What is used of it is that a value it
  returns has the declared type, with no other keys, and that it returns a value of the declared
  type unchanged (\<open>zod_laws\<close>). The storage is a dictionary of strings, and \<open>fits\<close> says whether
  \<open>setItem\<close> succeeds.
\<close>

section \<open>Schemas\<close>

datatype schema =
    SString
  | SNumber
  | SBool
  | SEnum "jstring list"
  | SOptional schema
  | SNullable schema
  | SArray schema nat
  | SObject "(jstring \<times> schema) list"

text \<open>The values of the type a schema declares, the keys of objects in the order of the schema.\<close>

fun conforms :: "schema \<Rightarrow> json option \<Rightarrow> bool"
  and fields_conform :: "(jstring \<times> schema) list \<Rightarrow> json jobj \<Rightarrow> bool" where
  "conforms SString v = is_string v"
| "conforms SNumber v = is_number v"
| "conforms SBool v = is_boolean v"
| "conforms (SEnum xs) v = (case v of Some (JStr s) \<Rightarrow> s \<in> set xs | _ \<Rightarrow> False)"
| "conforms (SOptional s) v = (v = None \<or> conforms s v)"
| "conforms (SNullable s) v = (v = Some JNull \<or> conforms s v)"
| "conforms (SArray s n) v =
     (case v of Some (JArr xs) \<Rightarrow> n \<le> length xs \<and> list_all (\<lambda>x. conforms s (Some x)) xs | _ \<Rightarrow> False)"
| "conforms (SObject fs) v = (case v of Some (JObj ob) \<Rightarrow> fields_conform fs ob | _ \<Rightarrow> False)"
| "fields_conform [] ob = (ob = [])"
| "fields_conform ((k, s) # fs) ob =
     (if ob \<noteq> [] \<and> fst (hd ob) = k
      then conforms s (Some (snd (hd ob))) \<and> fields_conform fs (tl ob)
      else conforms s None \<and> fields_conform fs ob)"

type_synonym zod = "schema \<Rightarrow> json \<Rightarrow> json option"

definition zod_laws :: "zod \<Rightarrow> bool" where
  "zod_laws zparse \<longleftrightarrow>
     (\<forall>s v w. zparse s v = Some w \<longrightarrow> conforms s (Some w)) \<and>
     (\<forall>s v. conforms s (Some v) \<longrightarrow> zparse s v = Some v)"

definition STORAGE_VERSION :: nat where
  "STORAGE_VERSION = 1"

definition MAX_STORED_MESSAGES :: nat where
  "MAX_STORED_MESSAGES = 100"

definition MAX_STORED_MESSAGES_BYTES :: nat where
  "MAX_STORED_MESSAGES_BYTES = 1024 * 1024"

definition MAX_LOADED_MESSAGES_CHARS :: nat where
  "MAX_LOADED_MESSAGES_CHARS = 120000"

definition MAX_LOADED_MESSAGE_CHARS :: nat where
  "MAX_LOADED_MESSAGE_CHARS = 40000"

definition playgroundConfigSchema :: schema where
  "playgroundConfigSchema = SObject
     [(js ''model'', SOptional SString), (js ''group'', SOptional SString),
      (js ''temperature'', SOptional SNumber), (js ''top_p'', SOptional SNumber),
      (js ''max_tokens'', SOptional SNumber), (js ''frequency_penalty'', SOptional SNumber),
      (js ''presence_penalty'', SOptional SNumber), (js ''seed'', SOptional (SNullable SNumber)),
      (js ''stream'', SOptional SBool)]"

definition parameterEnabledSchema :: schema where
  "parameterEnabledSchema = SObject
     [(js ''temperature'', SOptional SBool), (js ''top_p'', SOptional SBool),
      (js ''max_tokens'', SOptional SBool), (js ''frequency_penalty'', SOptional SBool),
      (js ''presence_penalty'', SOptional SBool), (js ''seed'', SOptional SBool)]"

definition messageRoleSchema :: schema where
  "messageRoleSchema = SEnum [js ''user'', js ''assistant'', js ''system'']"

definition messageStatusSchema :: schema where
  "messageStatusSchema = SEnum [js ''loading'', js ''streaming'', js ''complete'', js ''error'']"

definition messageVersionSchema :: schema where
  "messageVersionSchema = SObject [(js ''id'', SString), (js ''content'', SString)]"

definition sourceSchema :: schema where
  "sourceSchema = SObject [(js ''href'', SString), (js ''title'', SString)]"

definition reasoningSchema :: schema where
  "reasoningSchema = SObject
     [(js ''content'', SString), (js ''duration'', SNumber), (js ''startedAt'', SOptional SNumber),
      (js ''completedAt'', SOptional SNumber), (js ''durationMs'', SOptional SNumber)]"

definition message_fields :: "(jstring \<times> schema) list" where
  "message_fields =
     [(js ''key'', SString), (js ''from'', messageRoleSchema), (js ''versions'', SArray messageVersionSchema 1),
      (js ''createdAt'', SOptional SNumber), (js ''startedAt'', SOptional SNumber),
      (js ''completedAt'', SOptional SNumber), (js ''durationMs'', SOptional SNumber),
      (js ''sources'', SOptional (SArray sourceSchema 0)), (js ''reasoning'', SOptional reasoningSchema),
      (js ''isReasoningStreaming'', SOptional SBool), (js ''isReasoningComplete'', SOptional SBool),
      (js ''isContentComplete'', SOptional SBool), (js ''status'', SOptional messageStatusSchema),
      (js ''errorCode'', SOptional (SNullable SString))]"

definition messageSchema :: schema where
  "messageSchema = SObject message_fields"

definition messagesSchema :: schema where
  "messagesSchema = SArray messageSchema 0"


section \<open>Messages as JSON values\<close>

text \<open>A property that is undefined is left out.\<close>

definition opt_field :: "jstring \<Rightarrow> ('a \<Rightarrow> json) \<Rightarrow> 'a option \<Rightarrow> json jobj" where
  "opt_field k f v = (case v of None \<Rightarrow> [] | Some x \<Rightarrow> [(k, f x)])"

fun role_string :: "message_role \<Rightarrow> jstring" where
  "role_string RoleUser = js ''user''"
| "role_string RoleAssistant = js ''assistant''"
| "role_string RoleSystem = js ''system''"

fun status_string :: "message_status \<Rightarrow> jstring" where
  "status_string StLoading = js ''loading''"
| "status_string StStreaming = js ''streaming''"
| "status_string StComplete = js ''complete''"
| "status_string StError = js ''error''"

definition version_json :: "message_version \<Rightarrow> json" where
  "version_json v = JObj [(js ''id'', JStr (mv_id v)), (js ''content'', JStr (mv_content v))]"

definition source_json :: "msg_source \<Rightarrow> json" where
  "source_json s = JObj [(js ''href'', JStr (ms_href s)), (js ''title'', JStr (ms_title s))]"

definition reasoning_json :: "msg_reasoning \<Rightarrow> json" where
  "reasoning_json r = JObj ([(js ''content'', JStr (mr_content r)), (js ''duration'', JNum (mr_duration r))] @
     opt_field (js ''startedAt'') JNum (mr_startedAt r) @
     opt_field (js ''completedAt'') JNum (mr_completedAt r) @
     opt_field (js ''durationMs'') JNum (mr_durationMs r))"

definition message_json :: "message \<Rightarrow> json" where
  "message_json m = JObj
     ([(js ''key'', JStr (m_key m)), (js ''from'', JStr (role_string (m_from m))),
       (js ''versions'', JArr (map version_json (m_versions m)))] @
      opt_field (js ''createdAt'') JNum (m_createdAt m) @
      opt_field (js ''startedAt'') JNum (m_startedAt m) @
      opt_field (js ''completedAt'') JNum (m_completedAt m) @
      opt_field (js ''durationMs'') JNum (m_durationMs m) @
      opt_field (js ''sources'') (\<lambda>ss. JArr (map source_json ss)) (m_sources m) @
      opt_field (js ''reasoning'') reasoning_json (m_reasoning m) @
      opt_field (js ''isReasoningStreaming'') JBool (m_isReasoningStreaming m) @
      opt_field (js ''isReasoningComplete'') JBool (m_isReasoningComplete m) @
      opt_field (js ''isContentComplete'') JBool (m_isContentComplete m) @
      opt_field (js ''status'') (\<lambda>s. JStr (status_string s)) (m_status m) @
      opt_field (js ''errorCode'') (\<lambda>c. case c of None \<Rightarrow> JNull | Some s \<Rightarrow> JStr s) (m_errorCode m))"

text \<open>The cast \<open>as Message[]\<close>: reading a value that conforms to the schema as a message.\<close>

fun str_of :: "json option \<Rightarrow> jstring" where
  "str_of (Some (JStr s)) = s"
| "str_of _ = []"

fun num_of :: "json option \<Rightarrow> rat" where
  "num_of (Some (JNum q)) = q"
| "num_of _ = 0"

fun arr_of :: "json option \<Rightarrow> json list" where
  "arr_of (Some (JArr xs)) = xs"
| "arr_of _ = []"

definition role_of :: "jstring \<Rightarrow> message_role" where
  "role_of s = (if s = js ''user'' then RoleUser else if s = js ''assistant'' then RoleAssistant else RoleSystem)"

definition status_of :: "jstring \<Rightarrow> message_status" where
  "status_of s = (if s = js ''loading'' then StLoading else if s = js ''streaming'' then StStreaming
     else if s = js ''complete'' then StComplete else StError)"

definition version_of :: "json \<Rightarrow> message_version" where
  "version_of v = \<lparr>mv_id = str_of (jfield v (js ''id'')), mv_content = str_of (jfield v (js ''content''))\<rparr>"

definition source_of :: "json \<Rightarrow> msg_source" where
  "source_of v = \<lparr>ms_href = str_of (jfield v (js ''href'')), ms_title = str_of (jfield v (js ''title''))\<rparr>"

definition opt_num :: "json \<Rightarrow> jstring \<Rightarrow> rat option" where
  "opt_num v k = map_option (\<lambda>x. num_of (Some x)) (jfield v k)"

definition opt_bool :: "json \<Rightarrow> jstring \<Rightarrow> bool option" where
  "opt_bool v k = map_option (\<lambda>x. x = JBool True) (jfield v k)"

definition reasoning_of :: "json \<Rightarrow> msg_reasoning" where
  "reasoning_of v = \<lparr>mr_content = str_of (jfield v (js ''content'')), mr_duration = num_of (jfield v (js ''duration'')),
     mr_startedAt = opt_num v (js ''startedAt''), mr_completedAt = opt_num v (js ''completedAt''),
     mr_durationMs = opt_num v (js ''durationMs'')\<rparr>"

definition message_of :: "json \<Rightarrow> message" where
  "message_of v = \<lparr>m_key = str_of (jfield v (js ''key'')), m_from = role_of (str_of (jfield v (js ''from''))),
     m_versions = map version_of (arr_of (jfield v (js ''versions''))),
     m_createdAt = opt_num v (js ''createdAt''), m_startedAt = opt_num v (js ''startedAt''),
     m_completedAt = opt_num v (js ''completedAt''), m_durationMs = opt_num v (js ''durationMs''),
     m_sources = map_option (\<lambda>x. map source_of (arr_of (Some x))) (jfield v (js ''sources'')),
     m_reasoning = map_option reasoning_of (jfield v (js ''reasoning'')),
     m_isReasoningStreaming = opt_bool v (js ''isReasoningStreaming''),
     m_isReasoningComplete = opt_bool v (js ''isReasoningComplete''),
     m_isContentComplete = opt_bool v (js ''isContentComplete''),
     m_status = map_option (\<lambda>x. status_of (str_of (Some x))) (jfield v (js ''status'')),
     m_errorCode = map_option (\<lambda>x. case x of JStr s \<Rightarrow> Some s | _ \<Rightarrow> None) (jfield v (js ''errorCode''))\<rparr>"


section \<open>Reading and writing\<close>

type_synonym storage = "jstring jobj"

definition KEY_CONFIG :: jstring where
  "KEY_CONFIG = js ''playground_config''"

definition KEY_MESSAGES :: jstring where
  "KEY_MESSAGES = js ''playground_messages''"

definition KEY_PARAMETER_ENABLED :: jstring where
  "KEY_PARAMETER_ENABLED = js ''playground_parameter_enabled''"

text \<open>\<open>None\<close> is an exception; \<open>Some None\<close> the result \<open>null\<close>.\<close>

definition readStoredValue :: "storage \<Rightarrow> jstring \<Rightarrow> json option option" where
  "readStoredValue st k =
     (case obj_get st k of
        None \<Rightarrow> Some None
      | Some saved \<Rightarrow>
          if saved = [] then Some None
          else (case json_parse saved of None \<Rightarrow> None | Some v \<Rightarrow> Some (Some v)))"

definition readStoredMessagesValue :: "storage \<Rightarrow> storage \<times> json option option" where
  "readStoredMessagesValue st =
     (case obj_get st KEY_MESSAGES of
        None \<Rightarrow> (st, Some None)
      | Some saved \<Rightarrow>
          if saved = [] then (st, Some None)
          else if length saved > MAX_STORED_MESSAGES_BYTES then (obj_del KEY_MESSAGES st, Some None)
          else (st, case json_parse saved of None \<Rightarrow> None | Some v \<Rightarrow> Some (Some v)))"

definition unwrapStoredValue :: "json \<Rightarrow> json" where
  "unwrapStoredValue v =
     (if \<not> truthy (Some v) \<or> \<not> is_object (Some v) then v
      else case jfield v (js ''version'') of
             None \<Rightarrow> v
           | Some _ \<Rightarrow> (case jfield v (js ''data'') of None \<Rightarrow> v | Some d \<Rightarrow> d))"

definition stored_envelope :: "json \<Rightarrow> json" where
  "stored_envelope data = JObj [(js ''version'', JNum (of_nat STORAGE_VERSION)), (js ''data'', data)]"

definition writeStoredValue ::
  "(rat \<Rightarrow> jstring) \<Rightarrow> (jstring \<Rightarrow> jstring \<Rightarrow> bool) \<Rightarrow> jstring \<Rightarrow> json \<Rightarrow> storage \<Rightarrow> storage" where
  "writeStoredValue ni fits k data st =
     (let payload = stringify ni (stored_envelope data)
      in if fits k payload then map_put k payload st else st)"

definition trimMessages :: "message list \<Rightarrow> message list" where
  "trimMessages messages =
     (if length messages \<le> MAX_STORED_MESSAGES then messages
      else drop (length messages - MAX_STORED_MESSAGES) messages)"

definition getMessageSize :: "message \<Rightarrow> nat" where
  "getMessageSize m =
     foldl (\<lambda>total v. total + length (mv_content v)) 0 (m_versions m) +
     (case m_reasoning m of Some r \<Rightarrow> length (mr_content r) | None \<Rightarrow> 0)"

definition TRUNCATED_CONTENT_SUFFIX :: jstring where
  "TRUNCATED_CONTENT_SUFFIX = [10, 10] @ js ''[...]''"

definition MIN_PREFIX_COLLAPSE_LENGTH :: nat where
  "MIN_PREFIX_COLLAPSE_LENGTH = 2000"

definition MIN_REPEATED_SECTION_COUNT :: nat where
  "MIN_REPEATED_SECTION_COUNT = 3"

definition truncateText :: "jstring \<Rightarrow> nat \<Rightarrow> jstring" where
  "truncateText s maxLength =
     (if length s \<le> maxLength then s
      else if maxLength \<le> length TRUNCATED_CONTENT_SUFFIX then take maxLength s
      else take (maxLength - length TRUNCATED_CONTENT_SUFFIX) s @ TRUNCATED_CONTENT_SUFFIX)"


section \<open>Repeated sections\<close>

definition line_end :: "nat \<Rightarrow> bool" where
  "line_end u \<longleftrightarrow> u = 10 \<or> u = 13 \<or> u = 8232 \<or> u = 8233"

text \<open>The length of the match of \<open>#{2,6}\s+\d+\.\s+.+$\<close> at the start of a text. White space and
  digits exclude each other, so only the last \<open>\s+\<close> can give back: it takes as many units as
  leave one that is not a line end.\<close>

fun heading_rest :: "nat \<Rightarrow> jstring \<Rightarrow> nat option" where
  "heading_rest 0 s = None"
| "heading_rest (Suc k) s =
     (case drop (Suc k) s of
        u # _ \<Rightarrow> if line_end u then heading_rest k s
                else Some (Suc k + length (takeWhile (\<lambda>u. \<not> line_end u) (drop (Suc k) s)))
      | [] \<Rightarrow> heading_rest k s)"

definition heading_match :: "jstring \<Rightarrow> nat option" where
  "heading_match s =
     (let hashes = length (takeWhile (\<lambda>u. u = 35) s); s1 = drop hashes s;
          w1 = length (takeWhile is_ws s1); s2 = drop w1 s1;
          ds = length (takeWhile is_digit s2); s3 = drop ds s2
      in if 2 \<le> hashes \<and> hashes \<le> 6 \<and> w1 > 0 \<and> ds > 0 \<and> s3 \<noteq> [] \<and> hd s3 = 46
         then map_option (\<lambda>n. hashes + w1 + ds + 1 + n)
                (heading_rest (length (takeWhile is_ws (tl s3))) (tl s3))
         else None)"

lemma heading_match_pos: "heading_match s = Some n \<Longrightarrow> 0 < n"
  by (auto simp: heading_match_def Let_def split: if_splits)

record section_occurrence =
  so_heading :: jstring
  so_index :: nat

text \<open>The matches from the position \<open>pos\<close> on; \<open>bol\<close>: whether a line starts there.\<close>

function section_scan :: "nat \<Rightarrow> bool \<Rightarrow> jstring \<Rightarrow> section_occurrence list" where
  "section_scan pos bol s =
     (if s = [] then []
      else case (if bol then heading_match s else None) of
             Some n \<Rightarrow> \<lparr>so_heading = take n s, so_index = pos\<rparr> # section_scan (pos + n) False (drop n s)
           | None \<Rightarrow> section_scan (pos + 1) (line_end (hd s)) (tl s))"
  by pat_completeness auto
termination
  by (relation "measure (\<lambda>(_, _, s). length s)") (auto dest!: heading_match_pos split: if_splits)

declare section_scan.simps [simp del]

definition getSectionOccurrences :: "jstring \<Rightarrow> section_occurrence list" where
  "getSectionOccurrences s = section_scan 0 True s"

definition getHeadingCounts :: "section_occurrence list \<Rightarrow> nat jobj" where
  "getHeadingCounts occurrences =
     foldl (\<lambda>counts oc. map_put (so_heading oc) (coalesce (obj_get counts (so_heading oc)) 0 + 1) counts)
       [] occurrences"

text \<open>\<open>None\<close> is \<open>-1\<close>.\<close>

definition findLastRepeatedSectionRunStart :: "jstring \<Rightarrow> nat option" where
  "findLastRepeatedSectionRunStart s =
     (let occurrences = getSectionOccurrences s;
          headingCounts = getHeadingCounts occurrences;
          (lastRepeatedIndexes, seenHeadings) =
            foldl (\<lambda>(indexes, seen) oc.
              if coalesce (obj_get headingCounts (so_heading oc)) 0 < MIN_REPEATED_SECTION_COUNT \<or>
                 so_heading oc \<in> set seen
              then (indexes, seen)
              else (indexes @ [so_index oc], seen @ [so_heading oc])) ([], []) (rev occurrences)
      in if lastRepeatedIndexes = [] then None
         else Some (foldl min (hd lastRepeatedIndexes) (tl lastRepeatedIndexes)))"

definition collapseRepeatedSectionSnapshots :: "jstring \<Rightarrow> jstring" where
  "collapseRepeatedSectionSnapshots s =
     (if length s < MIN_PREFIX_COLLAPSE_LENGTH then s
      else case findLastRepeatedSectionRunStart s of None \<Rightarrow> s | Some i \<Rightarrow> drop i s)"


section \<open>Loading and saving the conversation\<close>

definition normalize_version :: "message_version \<Rightarrow> message_version" where
  "normalize_version v =
     (let content = truncateText (collapseRepeatedSectionSnapshots (mv_content v)) MAX_LOADED_MESSAGE_CHARS
      in if content = mv_content v \<and> collapseRepeatedSectionSnapshots (mv_content v) = mv_content v
         then v else v\<lparr>mv_content := content\<rparr>)"

definition normalize_reasoning :: "msg_reasoning \<Rightarrow> msg_reasoning" where
  "normalize_reasoning r = r\<lparr>mr_content := truncateText (mr_content r) MAX_LOADED_MESSAGE_CHARS\<rparr>"

definition normalizeStoredMessageForLoad :: "message \<Rightarrow> (nat \<Rightarrow> rat) \<Rightarrow> message" where
  "normalizeStoredMessageForLoad m clk =
     (let versions = map normalize_version (m_versions m);
          reasoning = map_option normalize_reasoning (m_reasoning m);
          changed = (versions \<noteq> m_versions m \<or>
            map_option mr_content reasoning \<noteq> map_option mr_content (m_reasoning m));
          normalized = (if changed then m\<lparr>m_versions := versions, m_reasoning := reasoning\<rparr> else m);
          hasReasoning = (case m_reasoning normalized of Some r \<Rightarrow> trim (mr_content r) \<noteq> [] | None \<Rightarrow> False)
      in if \<not> isAssistantMessagePending normalized then normalized
         else if \<not> hasMessageContent normalized \<and> \<not> hasReasoning then normalized
         else let completedAt = coalesce (m_completedAt normalized)
                    (coalesce (Option.bind (m_reasoning normalized) mr_completedAt)
                      (coalesce (m_startedAt normalized) (coalesce (m_createdAt normalized) (clk 0))))
              in completeAssistantTiming
                   ((finalizeMessage normalized None (\<lambda>i. clk (i + 1)))
                     \<lparr>m_status := Some StComplete, m_isReasoningStreaming := Some False\<rparr>) completedAt)"

text \<open>The backward loop: \<open>result\<close> is collected in reverse.\<close>

fun trim_loop :: "message list \<Rightarrow> nat \<Rightarrow> message list \<Rightarrow> message list" where
  "trim_loop [] totalSize result = result"
| "trim_loop (m # ms) totalSize result =
     (if result \<noteq> [] \<and> totalSize + getMessageSize m > MAX_LOADED_MESSAGES_CHARS then result
      else trim_loop ms (totalSize + getMessageSize m) (result @ [m]))"

definition trimMessagesByContentSize :: "message list \<Rightarrow> message list" where
  "trimMessagesByContentSize messages = rev (trim_loop (rev messages) 0 [])"

definition messages_json :: "message list \<Rightarrow> json" where
  "messages_json messages = JArr (map message_json messages)"

definition saveMessages ::
  "zod \<Rightarrow> (rat \<Rightarrow> jstring) \<Rightarrow> (jstring \<Rightarrow> jstring \<Rightarrow> bool) \<Rightarrow> message list \<Rightarrow> storage \<Rightarrow> storage" where
  "saveMessages zparse ni fits messages st =
     (case zparse messagesSchema (messages_json (trimMessages messages)) of
        None \<Rightarrow> st
      | Some parsed \<Rightarrow> writeStoredValue ni fits KEY_MESSAGES parsed st)"

text \<open>The condition of the second save always holds: \<open>trimMessagesByContentSize\<close> returns a new array,
  which is never identical to its argument.\<close>

definition loadMessages ::
  "zod \<Rightarrow> (rat \<Rightarrow> jstring) \<Rightarrow> (jstring \<Rightarrow> jstring \<Rightarrow> bool) \<Rightarrow> (jstring \<Rightarrow> jstring) \<Rightarrow> (nat \<Rightarrow> nat \<Rightarrow> rat) \<Rightarrow>
     storage \<Rightarrow> storage \<times> message list option" where
  "loadMessages zparse ni fits tr clks st =
     (case readStoredMessagesValue st of
        (st1, None) \<Rightarrow> (st1, None)
      | (st1, Some None) \<Rightarrow> (st1, None)
      | (st1, Some (Some saved)) \<Rightarrow>
          if \<not> truthy (Some saved) then (st1, None)
          else (case zparse messagesSchema (unwrapStoredValue saved) of
                  None \<Rightarrow> (st1, None)
                | Some v \<Rightarrow>
                    let parsed = map message_of (arr_of (Some v));
                        normalized = map (\<lambda>(i, m). normalizeStoredMessageForLoad m (clks i))
                          (zip [0..<length parsed] parsed);
                        trimmed = trimMessages normalized;
                        sizeTrimmed = trimMessagesByContentSize trimmed;
                        sanitized = sanitizeMessagesOnLoad tr sizeTrimmed (clks (length parsed))
                    in (saveMessages zparse ni fits sanitized st1, Some sanitized)))"

definition clearPlaygroundData :: "storage \<Rightarrow> storage" where
  "clearPlaygroundData st = obj_del KEY_MESSAGES (obj_del KEY_PARAMETER_ENABLED (obj_del KEY_CONFIG st))"

definition getInitialMessages ::
  "zod \<Rightarrow> (rat \<Rightarrow> jstring) \<Rightarrow> (jstring \<Rightarrow> jstring \<Rightarrow> bool) \<Rightarrow> (jstring \<Rightarrow> jstring) \<Rightarrow> (nat \<Rightarrow> nat \<Rightarrow> rat) \<Rightarrow>
     storage \<Rightarrow> storage \<times> message list" where
  "getInitialMessages zparse ni fits tr clks st =
     (case loadMessages zparse ni fits tr clks st of (st1, ms) \<Rightarrow> (st1, coalesce ms []))"


section \<open>Configuration\<close>

text \<open>A partial configuration is the JSON object with the properties it has.\<close>

definition config_fields :: "playground_config \<Rightarrow> json jobj" where
  "config_fields c =
     [(js ''model'', JStr (pc_model c)), (js ''group'', JStr (pc_group c)),
      (js ''temperature'', JNum (pc_temperature c)), (js ''top_p'', JNum (pc_top_p c)),
      (js ''max_tokens'', JNum (pc_max_tokens c)), (js ''frequency_penalty'', JNum (pc_frequency_penalty c)),
      (js ''presence_penalty'', JNum (pc_presence_penalty c)),
      (js ''seed'', case pc_seed c of None \<Rightarrow> JNull | Some q \<Rightarrow> JNum q), (js ''stream'', JBool (pc_stream c))]"

definition config_of :: "json jobj \<Rightarrow> playground_config" where
  "config_of ob =
     \<lparr>pc_model = str_of (obj_get ob (js ''model'')), pc_group = str_of (obj_get ob (js ''group'')),
      pc_temperature = num_of (obj_get ob (js ''temperature'')), pc_top_p = num_of (obj_get ob (js ''top_p'')),
      pc_max_tokens = num_of (obj_get ob (js ''max_tokens'')),
      pc_frequency_penalty = num_of (obj_get ob (js ''frequency_penalty'')),
      pc_presence_penalty = num_of (obj_get ob (js ''presence_penalty'')),
      pc_seed = (case obj_get ob (js ''seed'') of Some (JNum q) \<Rightarrow> Some q | _ \<Rightarrow> None),
      pc_stream = (obj_get ob (js ''stream'') = Some (JBool True))\<rparr>"

definition enabled_fields :: "parameter_enabled \<Rightarrow> json jobj" where
  "enabled_fields e =
     [(js ''temperature'', JBool (pe_temperature e)), (js ''top_p'', JBool (pe_top_p e)),
      (js ''max_tokens'', JBool (pe_max_tokens e)), (js ''frequency_penalty'', JBool (pe_frequency_penalty e)),
      (js ''presence_penalty'', JBool (pe_presence_penalty e)), (js ''seed'', JBool (pe_seed e))]"

definition enabled_of :: "json jobj \<Rightarrow> parameter_enabled" where
  "enabled_of ob =
     \<lparr>pe_temperature = (obj_get ob (js ''temperature'') = Some (JBool True)),
      pe_top_p = (obj_get ob (js ''top_p'') = Some (JBool True)),
      pe_max_tokens = (obj_get ob (js ''max_tokens'') = Some (JBool True)),
      pe_frequency_penalty = (obj_get ob (js ''frequency_penalty'') = Some (JBool True)),
      pe_presence_penalty = (obj_get ob (js ''presence_penalty'') = Some (JBool True)),
      pe_seed = (obj_get ob (js ''seed'') = Some (JBool True))\<rparr>"

definition load_object :: "zod \<Rightarrow> schema \<Rightarrow> jstring \<Rightarrow> storage \<Rightarrow> json jobj" where
  "load_object zparse sch k st =
     (case readStoredValue st k of
        Some (Some saved) \<Rightarrow>
          if \<not> truthy (Some saved) then []
          else (case zparse sch (unwrapStoredValue saved) of Some (JObj ob) \<Rightarrow> ob | _ \<Rightarrow> [])
      | _ \<Rightarrow> [])"

definition save_object ::
  "zod \<Rightarrow> (rat \<Rightarrow> jstring) \<Rightarrow> (jstring \<Rightarrow> jstring \<Rightarrow> bool) \<Rightarrow> schema \<Rightarrow> jstring \<Rightarrow> json jobj \<Rightarrow> storage \<Rightarrow> storage" where
  "save_object zparse ni fits sch k ob st =
     (case zparse sch (JObj ob) of None \<Rightarrow> st | Some parsed \<Rightarrow> writeStoredValue ni fits k parsed st)"

definition loadConfig :: "zod \<Rightarrow> storage \<Rightarrow> json jobj" where
  "loadConfig zparse st = load_object zparse playgroundConfigSchema KEY_CONFIG st"

definition saveConfig ::
  "zod \<Rightarrow> (rat \<Rightarrow> jstring) \<Rightarrow> (jstring \<Rightarrow> jstring \<Rightarrow> bool) \<Rightarrow> playground_config \<Rightarrow> storage \<Rightarrow> storage" where
  "saveConfig zparse ni fits config st =
     save_object zparse ni fits playgroundConfigSchema KEY_CONFIG (config_fields config) st"

definition loadParameterEnabled :: "zod \<Rightarrow> storage \<Rightarrow> json jobj" where
  "loadParameterEnabled zparse st = load_object zparse parameterEnabledSchema KEY_PARAMETER_ENABLED st"

definition saveParameterEnabled ::
  "zod \<Rightarrow> (rat \<Rightarrow> jstring) \<Rightarrow> (jstring \<Rightarrow> jstring \<Rightarrow> bool) \<Rightarrow> parameter_enabled \<Rightarrow> storage \<Rightarrow> storage" where
  "saveParameterEnabled zparse ni fits enabled st =
     save_object zparse ni fits parameterEnabledSchema KEY_PARAMETER_ENABLED (enabled_fields enabled) st"

definition getInitialPlaygroundConfig :: "zod \<Rightarrow> storage \<Rightarrow> playground_config" where
  "getInitialPlaygroundConfig zparse st = config_of (obj_spread (config_fields DEFAULT_CONFIG) (loadConfig zparse st))"

definition getInitialParameterEnabled :: "zod \<Rightarrow> storage \<Rightarrow> parameter_enabled" where
  "getInitialParameterEnabled zparse st =
     enabled_of (obj_spread (enabled_fields DEFAULT_PARAMETER_ENABLED) (loadParameterEnabled zparse st))"


section \<open>The state hook\<close>

text \<open>\<open>ps_timer\<close>: whether the save timer is set; \<open>ps_loaded\<close> is \<open>hasLoadedMessagesRef\<close>; \<open>ps_cancelled\<close> says
  that the loading effect was cleaned up before its timeout ran, \<open>ps_loading\<close> that the timeout is still
  to run.\<close>

record playground_state =
  ps_config :: playground_config
  ps_enabled :: parameter_enabled
  ps_messages :: "message list"
  ps_isLoading :: bool
  ps_latest :: "message list"
  ps_loaded :: bool
  ps_timer :: bool
  ps_loading :: bool
  ps_cancelled :: bool
  ps_storage :: storage

record storage_env =
  se_zod :: zod
  se_ni :: "rat \<Rightarrow> jstring"
  se_fits :: "jstring \<Rightarrow> jstring \<Rightarrow> bool"
  se_tr :: "jstring \<Rightarrow> jstring"

definition mount_state :: "storage_env \<Rightarrow> storage \<Rightarrow> playground_state" where
  "mount_state en st = \<lparr>ps_config = getInitialPlaygroundConfig (se_zod en) st,
     ps_enabled = getInitialParameterEnabled (se_zod en) st, ps_messages = [], ps_isLoading = True,
     ps_latest = [], ps_loaded = False, ps_timer = False, ps_loading = True, ps_cancelled = False,
     ps_storage = st\<rparr>"

definition save_latest :: "storage_env \<Rightarrow> playground_state \<Rightarrow> playground_state" where
  "save_latest en ps =
     ps\<lparr>ps_timer := False,
        ps_storage := saveMessages (se_zod en) (se_ni en) (se_fits en) (ps_latest ps) (ps_storage ps)\<rparr>"

definition persistMessages :: "message list \<Rightarrow> playground_state \<Rightarrow> playground_state" where
  "persistMessages messagesToSave ps =
     (let ps1 = ps\<lparr>ps_latest := messagesToSave\<rparr>
      in if \<not> ps_loaded ps1 then ps1 else ps1\<lparr>ps_timer := True\<rparr>)"

text \<open>The timeout of the loading effect.\<close>

definition load_effect :: "storage_env \<Rightarrow> (nat \<Rightarrow> nat \<Rightarrow> rat) \<Rightarrow> playground_state \<Rightarrow> playground_state" where
  "load_effect en clks ps =
     (if \<not> ps_loading ps then ps
      else case loadMessages (se_zod en) (se_ni en) (se_fits en) (se_tr en) clks (ps_storage ps) of
        (st1, ms) \<Rightarrow>
          let loadedMessages = coalesce ms []; ps1 = ps\<lparr>ps_loading := False, ps_storage := st1\<rparr>
          in if ps_cancelled ps1 then ps1
             else ps1\<lparr>ps_latest := loadedMessages, ps_loaded := True, ps_messages := loadedMessages,
                      ps_isLoading := False\<rparr>)"

text \<open>The cleanups of both effects.\<close>

definition unmount_state :: "storage_env \<Rightarrow> playground_state \<Rightarrow> playground_state" where
  "unmount_state en ps =
     (let ps1 = ps\<lparr>ps_cancelled := True\<rparr> in if ps_timer ps1 then save_latest en ps1 else ps1)"

text \<open>\<open>upd\<close> writes the one field that changes.\<close>

definition updateConfig ::
  "storage_env \<Rightarrow> (playground_config \<Rightarrow> playground_config) \<Rightarrow> playground_state \<Rightarrow> playground_state" where
  "updateConfig en upd ps =
     (let updated = upd (ps_config ps)
      in ps\<lparr>ps_config := updated,
            ps_storage := saveConfig (se_zod en) (se_ni en) (se_fits en) updated (ps_storage ps)\<rparr>)"

definition updateParameterEnabled ::
  "storage_env \<Rightarrow> (parameter_enabled \<Rightarrow> parameter_enabled) \<Rightarrow> playground_state \<Rightarrow> playground_state" where
  "updateParameterEnabled en upd ps =
     (let updated = upd (ps_enabled ps)
      in ps\<lparr>ps_enabled := updated,
            ps_storage := saveParameterEnabled (se_zod en) (se_ni en) (se_fits en) updated (ps_storage ps)\<rparr>)"

datatype message_state_updater =
    NewMessages "message list"
  | MessagesFrom "message list \<Rightarrow> message list"

fun applyMessageStateUpdate :: "message list \<Rightarrow> message_state_updater \<Rightarrow> message list" where
  "applyMessageStateUpdate previousMessages (NewMessages ms) = ms"
| "applyMessageStateUpdate previousMessages (MessagesFrom f) = f previousMessages"

definition updateMessages :: "message_state_updater \<Rightarrow> playground_state \<Rightarrow> playground_state" where
  "updateMessages upd ps =
     (let newMessages = applyMessageStateUpdate (ps_messages ps) upd in (persistMessages newMessages ps)\<lparr>ps_messages := newMessages\<rparr>)"

definition clearMessages :: "playground_state \<Rightarrow> playground_state" where
  "clearMessages ps = updateMessages (NewMessages []) ps"

definition resetConfig :: "storage_env \<Rightarrow> playground_state \<Rightarrow> playground_state" where
  "resetConfig en ps = updateParameterEnabled en (\<lambda>_. DEFAULT_PARAMETER_ENABLED) (updateConfig en (\<lambda>_. DEFAULT_CONFIG) ps)"

datatype state_event =
    LoadTimeout "nat \<Rightarrow> nat \<Rightarrow> rat"
  | SaveTimeout
  | UpdateMessages message_state_updater
  | ClearMessages
  | UpdateConfig "playground_config \<Rightarrow> playground_config"
  | UpdateEnabled "parameter_enabled \<Rightarrow> parameter_enabled"
  | ResetConfig
  | UnmountState

fun state_step :: "storage_env \<Rightarrow> playground_state \<Rightarrow> state_event \<Rightarrow> playground_state \<times> unit list" where
  "state_step en ps (LoadTimeout clks) = (load_effect en clks ps, [])"
| "state_step en ps SaveTimeout = (if ps_timer ps then save_latest en ps else ps, [])"
| "state_step en ps (UpdateMessages upd) = (updateMessages upd ps, [])"
| "state_step en ps ClearMessages = (clearMessages ps, [])"
| "state_step en ps (UpdateConfig c) = (updateConfig en c ps, [])"
| "state_step en ps (UpdateEnabled e) = (updateParameterEnabled en e ps, [])"
| "state_step en ps ResetConfig = (resetConfig en ps, [])"
| "state_step en ps UnmountState = (unmount_state en ps, [])"


section \<open>Values of the schema\<close>

lemma fields_conform_opt:
  "k \<notin> fst ` set rest \<Longrightarrow>
   fields_conform ((k, SOptional s) # fs) (opt_field k f v @ rest) \<longleftrightarrow>
     (case v of None \<Rightarrow> True | Some x \<Rightarrow> conforms s (Some (f x))) \<and> fields_conform fs rest"
  by (cases rest) (auto simp: opt_field_def split: option.split)

lemma keys_opt_field: "k \<in> fst ` set (opt_field k' f v) \<longleftrightarrow> k = k' \<and> v \<noteq> None"
  by (auto simp: opt_field_def split: option.split)

lemma fields_conform_key:
  "fields_conform ((k, s) # fs) ((k, v) # ob) \<longleftrightarrow> conforms s (Some v) \<and> fields_conform fs ob"
  by simp

lemma fields_conform_opt_last:
  "fields_conform [(k, SOptional s)] (opt_field k f v) \<longleftrightarrow>
     (case v of None \<Rightarrow> True | Some x \<Rightarrow> conforms s (Some (f x)))"
  using fields_conform_opt [of k "[]" s "[]" f v] by simp

lemma conforms_version: "conforms messageVersionSchema (Some (version_json v))"
  by (simp add: messageVersionSchema_def version_json_def)

lemma conforms_source: "conforms sourceSchema (Some (source_json v))"
  by (simp add: sourceSchema_def source_json_def)

lemma conforms_reasoning: "conforms reasoningSchema (Some (reasoning_json r))"
  by (simp add: reasoningSchema_def reasoning_json_def fields_conform_opt fields_conform_opt_last
      keys_opt_field image_Un del: fields_conform.simps(2))
    (simp add: fields_conform_key fields_conform_opt fields_conform_opt_last keys_opt_field image_Un
      del: fields_conform.simps(2) split: option.split)

text \<open>A message conforms to its schema exactly when it has a version.\<close>

lemma conforms_message: "conforms messageSchema (Some (message_json m)) \<longleftrightarrow> m_versions m \<noteq> []"
proof -
  have "conforms messageRoleSchema (Some (JStr (role_string r)))" for r
    by (cases r) (simp_all add: messageRoleSchema_def)
  moreover have "conforms (SArray messageVersionSchema 1) (Some (JArr (map version_json vs))) \<longleftrightarrow> vs \<noteq> []" for vs
    by (cases vs) (auto simp: list_all_iff conforms_version)
  moreover have "conforms (SArray sourceSchema 0) (Some (JArr (map source_json ss)))" for ss
    by (auto simp: list_all_iff conforms_source)
  moreover have "conforms messageStatusSchema (Some (JStr (status_string t)))" for t
    by (cases t) (simp_all add: messageStatusSchema_def)
  moreover have "conforms (SNullable SString) (Some (case c of None \<Rightarrow> JNull | Some x \<Rightarrow> JStr x))" for c
    by (auto split: option.split)
  moreover have "conforms SString (Some (JStr x))" "conforms SNumber (Some (JNum q))" "conforms SBool (Some (JBool b))"
    for x q b by simp_all
  ultimately show ?thesis
    by (simp add: messageSchema_def message_fields_def message_json_def fields_conform_key
        fields_conform_opt fields_conform_opt_last keys_opt_field image_Un conforms_reasoning
        option.case_eq_if
        del: fields_conform.simps(2) conforms.simps(1-7))
qed

lemma conforms_messages:
  "conforms messagesSchema (Some (messages_json ms)) \<longleftrightarrow> list_all (\<lambda>m. m_versions m \<noteq> []) ms"
  by (auto simp: messagesSchema_def messages_json_def list_all_iff conforms_message)

text \<open>Reading back what was written.\<close>

lemma obj_get_append: "obj_get (a @ b) k = (case obj_get a k of None \<Rightarrow> obj_get b k | Some v \<Rightarrow> Some v)"
  by (auto simp: obj_get_def map_add_def split: option.split)

lemma obj_get_opt_field: "obj_get (opt_field k f v) k' = (if k' = k then map_option f v else None)"
  by (auto simp: opt_field_def split: option.split)

lemma role_of_string [simp]: "role_of (role_string r) = r"
  by (cases r) (simp_all add: role_of_def)

lemma status_of_string [simp]: "status_of (status_string t) = t"
  by (cases t) (simp_all add: status_of_def)

lemma version_of_json [simp]: "version_of (version_json v) = v"
  by (simp add: version_of_def version_json_def)

lemma source_of_json [simp]: "source_of (source_json v) = v"
  by (simp add: source_of_def source_json_def)

lemma bool_id: "map_option (\<lambda>x. x = JBool True) (map_option JBool b) = b"
  by (cases b) auto

lemma num_id: "map_option (\<lambda>x. num_of (Some x)) (map_option JNum q) = q"
  by (cases q) auto

lemma reasoning_of_json [simp]: "reasoning_of (reasoning_json r) = r"
  by (simp add: reasoning_of_def reasoning_json_def opt_num_def obj_get_append obj_get_opt_field num_id
      option.case_eq_if)

lemma message_of_json [simp]: "message_of (message_json m) = m"
proof -
  have "map_option (\<lambda>x. map source_of (arr_of (Some x))) (map_option (\<lambda>ss. JArr (map source_json ss)) v) = v" for v
    by (cases v) (simp_all add: comp_def)
  moreover have "map_option reasoning_of (map_option reasoning_json v) = v" for v by (cases v) simp_all
  moreover have "map_option (\<lambda>x. status_of (str_of (Some x))) (map_option (\<lambda>s. JStr (status_string s)) v) = v" for v
    by (cases v) simp_all
  moreover have "map_option (\<lambda>x. case x of JStr s \<Rightarrow> Some s | _ \<Rightarrow> None)
      (map_option (\<lambda>c. case c of None \<Rightarrow> JNull | Some s \<Rightarrow> JStr s) v) = v" for v
    by (cases v) (auto split: option.split)
  ultimately show ?thesis
    by (simp add: message_of_def message_json_def opt_num_def opt_bool_def obj_get_append
        obj_get_opt_field num_id bool_id option.case_eq_if comp_def)
qed

text \<open>A value of the schema has a version in every message.\<close>

lemma conforms_required: "\<not> conforms SString None" "\<not> conforms messageRoleSchema None" "\<not> conforms (SArray s n) None"
  by (simp_all add: messageRoleSchema_def)

lemma fields_conform_required:
  assumes "fields_conform ((k, s) # fs) ob" "\<not> conforms s None"
  obtains v ob' where "ob = (k, v) # ob'" "conforms s (Some v)" "fields_conform fs ob'"
  using assms by (cases ob) (auto split: if_splits)

lemma conforms_has_version:
  assumes "conforms messageSchema (Some v)"
  shows "m_versions (message_of v) \<noteq> []"
proof -
  from assms obtain ob where ob: "v = JObj ob" "fields_conform message_fields ob"
    by (auto simp: messageSchema_def split: json.splits)
  from ob(2) [unfolded message_fields_def] obtain v1 o1 where 1: "ob = (js ''key'', v1) # o1"
    "fields_conform (tl message_fields) o1"
    by (rule fields_conform_required) (simp_all add: conforms_required message_fields_def)
  from 1(2) [unfolded message_fields_def list.sel] obtain v2 o2 where 2: "o1 = (js ''from'', v2) # o2"
    "fields_conform (tl (tl message_fields)) o2"
    by (rule fields_conform_required) (simp_all add: conforms_required message_fields_def)
  from 2(2) [unfolded message_fields_def list.sel] obtain v3 o3 where 3: "o2 = (js ''versions'', v3) # o3"
    "conforms (SArray messageVersionSchema 1) (Some v3)"
    by (rule fields_conform_required) (simp_all add: conforms_required message_fields_def)
  from 3(2) obtain xs where "v3 = JArr xs" "1 \<le> length xs" by (auto split: json.splits)
  then have "v3 = JArr xs" "xs \<noteq> []" by auto
  with 1 2 3 ob(1) show ?thesis by (simp add: message_of_def)
qed

lemma conforms_have_versions:
  "conforms messagesSchema (Some v) \<Longrightarrow> list_all (\<lambda>m. m_versions m \<noteq> []) (map message_of (arr_of (Some v)))"
  by (auto simp: messagesSchema_def list_all_iff conforms_has_version split: json.splits)


section \<open>What loading keeps\<close>

lemma versions_finalize [simp]: "m_versions (finalizeMessage m api clk) \<noteq> []"
  by (simp add: finalizeMessage_def updateCurrentVersionContent_def Let_def)

lemma versions_normalize: "m_versions m \<noteq> [] \<Longrightarrow> m_versions (normalizeStoredMessageForLoad m clk) \<noteq> []"
  by (auto simp: normalizeStoredMessageForLoad_def Let_def)

lemma trim_length: "length (trimMessages ms) \<le> MAX_STORED_MESSAGES"
  by (simp add: trimMessages_def)

lemma set_trimMessages: "set (trimMessages ms) \<subseteq> set ms"
  by (auto simp: trimMessages_def dest: in_set_dropD)

lemma trim_trim_messages: "length ms \<le> MAX_STORED_MESSAGES \<Longrightarrow> trimMessages ms = ms"
  by (simp add: trimMessages_def)

text \<open>The backward loop keeps a longest run of messages that fits, and at least one.\<close>

definition total_size :: "message list \<Rightarrow> nat" where
  "total_size ms = sum_list (map getMessageSize ms)"

lemma trim_loop_spec:
  assumes "trim_loop ms (total_size res) res = out"
    and "res = [] \<or> length res = 1 \<or> total_size res \<le> MAX_LOADED_MESSAGES_CHARS"
  shows "\<exists>k \<le> length ms. out = res @ take k ms \<and>
    (out = [] \<or> length out = 1 \<or> total_size out \<le> MAX_LOADED_MESSAGES_CHARS) \<and>
    (k < length ms \<longrightarrow> out \<noteq> [] \<and> total_size (out @ [ms ! k]) > MAX_LOADED_MESSAGES_CHARS)"
  using assms
proof (induction ms arbitrary: res)
  case Nil
  then show ?case by auto
next
  case (Cons m ms)
  show ?case
  proof (cases "res \<noteq> [] \<and> total_size res + getMessageSize m > MAX_LOADED_MESSAGES_CHARS")
    case True
    with Cons.prems show ?thesis by (intro exI [of _ 0]) (auto simp: total_size_def)
  next
    case False
    have t: "total_size (res @ [m]) = total_size res + getMessageSize m" by (simp add: total_size_def)
    with False Cons.prems(1) have "trim_loop ms (total_size (res @ [m])) (res @ [m]) = out"
      by (metis trim_loop.simps(2))
    moreover have "res @ [m] = [] \<or> length (res @ [m]) = 1 \<or> total_size (res @ [m]) \<le> MAX_LOADED_MESSAGES_CHARS"
      using False t by auto
    ultimately obtain k where "k \<le> length ms" "out = (res @ [m]) @ take k ms"
      "out = [] \<or> length out = 1 \<or> total_size out \<le> MAX_LOADED_MESSAGES_CHARS"
      "k < length ms \<longrightarrow> out \<noteq> [] \<and> total_size (out @ [ms ! k]) > MAX_LOADED_MESSAGES_CHARS"
      using Cons.IH by blast
    then show ?thesis by (intro exI [of _ "Suc k"]) auto
  qed
qed

lemma size_trim_spec:
  obtains d where "d \<le> length ms" "trimMessagesByContentSize ms = drop d ms"
    "length (drop d ms) \<le> 1 \<or> total_size (drop d ms) \<le> MAX_LOADED_MESSAGES_CHARS"
    "d > 0 \<Longrightarrow> drop d ms \<noteq> [] \<and> total_size (drop (d - 1) ms) > MAX_LOADED_MESSAGES_CHARS"
proof -
  have rs: "total_size (rev xs) = total_size xs" for xs by (simp add: total_size_def sum_list_rev rev_map [symmetric])
  define out where "out = trim_loop (rev ms) 0 []"
  have "trim_loop (rev ms) (total_size []) [] = out" by (simp add: out_def total_size_def)
  from trim_loop_spec [OF this] obtain k where k: "k \<le> length ms" "out = take k (rev ms)"
    "out = [] \<or> length out = 1 \<or> total_size out \<le> MAX_LOADED_MESSAGES_CHARS"
    "k < length ms \<Longrightarrow> out \<noteq> [] \<and> total_size (out @ [rev ms ! k]) > MAX_LOADED_MESSAGES_CHARS"
    unfolding length_rev append_Nil by blast
  have d: "rev out = drop (length ms - k) ms" using k(1,2) by (simp add: take_rev)
  have r: "trimMessagesByContentSize ms = drop (length ms - k) ms"
    using d by (simp add: trimMessagesByContentSize_def out_def)
  have s: "total_size (drop (length ms - k) ms) = total_size out" "length (drop (length ms - k) ms) = length out"
    using rs [of out] d by (metis, metis length_rev)
  have x: "total_size (drop (length ms - k - 1) ms) = total_size (out @ [rev ms ! k])" if "k < length ms"
  proof -
    have "drop (length ms - k - 1) ms = ms ! (length ms - k - 1) # drop (length ms - k) ms"
      using that Cons_nth_drop_Suc [of "length ms - k - 1" ms] by (simp add: Suc_diff_Suc)
    then show ?thesis using that s by (simp add: total_size_def rev_nth Suc_diff_Suc add.commute)
  qed
  show thesis
    by (rule that [of "length ms - k"]) (use k r s x in auto)
qed


section \<open>What loading returns\<close>

lemma versions_sanitize:
  assumes "list_all (\<lambda>m. m_versions m \<noteq> []) ms"
  shows "list_all (\<lambda>m. m_versions m \<noteq> []) (sanitizeMessagesOnLoad tr ms clk)"
  using assms
  by (auto simp: sanitizeMessagesOnLoad_def Let_def list_all_iff updateCurrentVersionContent_def
      dest!: set_update_subset_insert [THEN subsetD] split: option.splits)

lemma length_sanitize [simp]: "length (sanitizeMessagesOnLoad tr ms clk) = length ms"
  by (simp add: sanitizeMessagesOnLoad_def Let_def split: option.split)

lemma length_size_trim: "length (trimMessagesByContentSize ms) \<le> length ms"
  by (rule size_trim_spec [of ms]) simp

lemma set_size_trim: "set (trimMessagesByContentSize ms) \<subseteq> set ms"
  by (rule size_trim_spec [of ms]) (auto dest: in_set_dropD)

text \<open>The value the loaded text has for the schema, if it has one: it depends only on the text.\<close>

definition stored_conversation :: "zod \<Rightarrow> storage \<Rightarrow> json option" where
  "stored_conversation zparse st =
     (case snd (readStoredMessagesValue st) of
        Some (Some saved) \<Rightarrow> if truthy (Some saved) then zparse messagesSchema (unwrapStoredValue saved) else None
      | _ \<Rightarrow> None)"

lemma loadMessages_None:
  "snd (loadMessages zparse ni fits tr clks st) = None \<longleftrightarrow> stored_conversation zparse st = None"
  by (auto simp: loadMessages_def stored_conversation_def Let_def split: prod.split option.split)

lemma stored_conversation_cong:
  "obj_get st KEY_MESSAGES = obj_get st' KEY_MESSAGES \<Longrightarrow>
     stored_conversation zparse st = stored_conversation zparse st'"
  by (auto simp: stored_conversation_def readStoredMessagesValue_def split: option.split)

lemma loadMessages_Some:
  assumes "loadMessages zparse ni fits tr clks st = (st', Some ms)"
  obtains v st1 where "stored_conversation zparse st = Some v"
    "ms = sanitizeMessagesOnLoad tr (trimMessagesByContentSize (trimMessages
       (map (\<lambda>(i, m). normalizeStoredMessageForLoad m (clks i))
         (zip [0..<length (arr_of (Some v))] (map message_of (arr_of (Some v)))))))
       (clks (length (arr_of (Some v))))"
    "st' = saveMessages zparse ni fits ms st1"
  using assms
  by (auto simp: loadMessages_def stored_conversation_def Let_def split: prod.splits option.splits if_splits)

lemma stored_conversation_conforms:
  assumes "zod_laws zparse" "stored_conversation zparse st = Some v"
  shows "conforms messagesSchema (Some v)"
  using assms by (auto simp: stored_conversation_def zod_laws_def split: option.splits if_splits)

lemma loaded_versions:
  assumes "zod_laws zparse" "loadMessages zparse ni fits tr clks st = (st', Some ms)"
  shows "list_all (\<lambda>m. m_versions m \<noteq> []) ms" "length ms \<le> MAX_STORED_MESSAGES"
proof -
  from assms(2) obtain v where v: "stored_conversation zparse st = Some v"
    and ms: "ms = sanitizeMessagesOnLoad tr (trimMessagesByContentSize (trimMessages
       (map (\<lambda>(i, m). normalizeStoredMessageForLoad m (clks i))
         (zip [0..<length (arr_of (Some v))] (map message_of (arr_of (Some v)))))))
       (clks (length (arr_of (Some v))))"
    by (rule loadMessages_Some)
  let ?n = "map (\<lambda>(i, m). normalizeStoredMessageForLoad m (clks i))
         (zip [0..<length (arr_of (Some v))] (map message_of (arr_of (Some v))))"
  have "list_all (\<lambda>m. m_versions m \<noteq> []) (map message_of (arr_of (Some v)))"
    by (rule conforms_have_versions [OF stored_conversation_conforms [OF assms(1) v]])
  then have "list_all (\<lambda>m. m_versions m \<noteq> []) ?n"
    by (auto simp: list_all_iff intro!: versions_normalize dest!: set_zip_rightD)
  then have "list_all (\<lambda>m. m_versions m \<noteq> []) (trimMessagesByContentSize (trimMessages ?n))"
    unfolding list_all_iff by (meson set_size_trim set_trimMessages subsetD)
  then show "list_all (\<lambda>m. m_versions m \<noteq> []) ms" unfolding ms by (rule versions_sanitize)
  show "length ms \<le> MAX_STORED_MESSAGES"
    unfolding ms using length_size_trim [of "trimMessages ?n"] trim_length [of ?n] by simp
qed


section \<open>Saving and loading again\<close>

text \<open>A message that loading leaves as it is, and a conversation within the limits.\<close>

definition message_settled :: "message \<Rightarrow> bool" where
  "message_settled m \<longleftrightarrow>
     m_versions m \<noteq> [] \<and> \<not> isAssistantMessagePending m \<and>
     list_all (\<lambda>v. collapseRepeatedSectionSnapshots (mv_content v) = mv_content v \<and>
       length (mv_content v) \<le> MAX_LOADED_MESSAGE_CHARS) (m_versions m) \<and>
     (case m_reasoning m of Some r \<Rightarrow> length (mr_content r) \<le> MAX_LOADED_MESSAGE_CHARS | None \<Rightarrow> True)"

definition stored_text :: "(rat \<Rightarrow> jstring) \<Rightarrow> message list \<Rightarrow> jstring" where
  "stored_text ni ms = stringify ni (stored_envelope (messages_json ms))"

definition conversation_fits :: "(rat \<Rightarrow> jstring) \<Rightarrow> message list \<Rightarrow> bool" where
  "conversation_fits ni ms \<longleftrightarrow>
     length ms \<le> MAX_STORED_MESSAGES \<and> total_size ms \<le> MAX_LOADED_MESSAGES_CHARS \<and>
     length (stored_text ni ms) \<le> MAX_STORED_MESSAGES_BYTES \<and>
     json_ok (messages_json ms) \<and> list_all message_settled ms"

lemma normalize_settled:
  assumes "message_settled m"
  shows "normalizeStoredMessageForLoad m clk = m"
proof -
  have "map normalize_version (m_versions m) = m_versions m"
    using assms by (auto simp: message_settled_def list_all_iff normalize_version_def Let_def truncateText_def
        intro!: map_idI)
  moreover have "map_option normalize_reasoning (m_reasoning m) = m_reasoning m"
    using assms by (auto simp: message_settled_def normalize_reasoning_def truncateText_def split: option.splits)
  ultimately show ?thesis
    using assms by (simp add: normalizeStoredMessageForLoad_def message_settled_def Let_def)
qed

lemma last_index_None: "list_all (\<lambda>x. \<not> P x) xs \<Longrightarrow> n \<le> length xs \<Longrightarrow> last_index P xs n = None"
  by (induction n) (auto simp: list_all_length)

lemma sanitize_settled:
  assumes "list_all message_settled ms"
  shows "sanitizeMessagesOnLoad tr ms clk = ms"
proof -
  have "list_all (\<lambda>m. \<not> isPendingAssistantMessage (Some m)) ms"
    using assms by (auto simp: list_all_iff message_settled_def isPendingAssistantMessage_def)
  then show ?thesis by (simp add: sanitizeMessagesOnLoad_def last_index_None)
qed

lemma size_trim_fits:
  assumes "total_size ms \<le> MAX_LOADED_MESSAGES_CHARS"
  shows "trimMessagesByContentSize ms = ms"
proof (rule size_trim_spec [of ms])
  fix d assume d: "d \<le> length ms" "trimMessagesByContentSize ms = drop d ms"
    "d > 0 \<Longrightarrow> drop d ms \<noteq> [] \<and> total_size (drop (d - 1) ms) > MAX_LOADED_MESSAGES_CHARS"
  have "total_size (drop n ms) \<le> total_size ms" for n
    using append_take_drop_id [of n ms] by (metis le_add2 map_append sum_list_append total_size_def)
  with assms d(3) have "d = 0" by (meson gr0I leD le_trans)
  with d(2) show ?thesis by simp
qed

lemma unwrap_envelope [simp]: "unwrapStoredValue (stored_envelope d) = d"
  by (simp add: unwrapStoredValue_def stored_envelope_def)

lemma envelope_ok: "json_ok d \<Longrightarrow> json_ok (stored_envelope d)"
  by (simp add: stored_envelope_def STORAGE_VERSION_def obj_wf_def obj_keys_def js_lit key_before_def
      arr_index_def all_digits_def is_digit_def)

lemma load_saved:
  assumes z: "zod_laws zparse" and f: "conversation_fits ni ms"
    and st: "obj_get st KEY_MESSAGES = Some (stored_text ni ms)"
  shows "snd (loadMessages zparse ni fits tr clks st) = Some ms"
proof -
  have ok: "json_ok (stored_envelope (messages_json ms))"
    using f by (simp add: conversation_fits_def envelope_ok)
  have p: "json_parse (stored_text ni ms) = Some (stored_envelope (messages_json ms))"
    unfolding stored_text_def using ok by (rule json_round_trip)
  have ne: "stored_text ni ms \<noteq> []" unfolding stored_text_def using ok by (rule stringify_ne)
  have le: "\<not> length (stored_text ni ms) > MAX_STORED_MESSAGES_BYTES"
    using f by (simp add: conversation_fits_def)
  have s: "list_all message_settled ms" using f by (simp add: conversation_fits_def)
  then have "list_all (\<lambda>m. m_versions m \<noteq> []) ms" by (auto simp: list_all_iff message_settled_def)
  then have v: "zparse messagesSchema (messages_json ms) = Some (messages_json ms)"
    using z conforms_messages by (simp add: zod_laws_def)
  have t: "truthy (Some (stored_envelope d))" for d by (simp add: stored_envelope_def)
  have n: "map (\<lambda>(i, m). normalizeStoredMessageForLoad m (clks i)) (zip [0..<length ms] ms) = ms"
    using s by (intro nth_equalityI) (auto simp: list_all_length normalize_settled)
  have a: "map message_of (arr_of (Some (messages_json ms))) = ms" by (simp add: messages_json_def comp_def)
  show ?thesis
    using f s
    by (simp add: loadMessages_def readStoredMessagesValue_def st ne le p t v a n Let_def trim_trim_messages
        size_trim_fits sanitize_settled conversation_fits_def)
qed


section \<open>The conversation in the storage\<close>

definition saved_messages :: "storage_env \<Rightarrow> message list \<Rightarrow> storage \<Rightarrow> storage" where
  "saved_messages en ms st = saveMessages (se_zod en) (se_ni en) (se_fits en) ms st"

text \<open>A conversation whose kept messages have a version each, and whose text \<open>setItem\<close> takes. Once it is
  loaded and no save is due, its text is in the storage, or there is no conversation and nothing
  readable in the storage.\<close>

definition savable :: "storage_env \<Rightarrow> message list \<Rightarrow> bool" where
  "savable en ms \<longleftrightarrow>
     list_all (\<lambda>m. m_versions m \<noteq> []) (trimMessages ms) \<and>
     se_fits en KEY_MESSAGES (stored_text (se_ni en) (trimMessages ms))"

definition in_storage :: "storage_env \<Rightarrow> message list \<Rightarrow> storage \<Rightarrow> bool" where
  "in_storage en ms st \<longleftrightarrow>
     obj_get st KEY_MESSAGES = Some (stored_text (se_ni en) (trimMessages ms)) \<or>
     ms = [] \<and> stored_conversation (se_zod en) st = None"

definition state_inv :: "storage_env \<Rightarrow> playground_state \<Rightarrow> bool" where
  "state_inv en ps \<longleftrightarrow>
     ps_messages ps = ps_latest ps \<and> (ps_timer ps \<longrightarrow> ps_loaded ps) \<and>
     (ps_loaded ps \<longrightarrow> \<not> ps_loading ps) \<and> ps_isLoading ps = (\<not> ps_loaded ps) \<and>
     (zod_laws (se_zod en) \<and> savable en (ps_latest ps) \<and> ps_loaded ps \<and> \<not> ps_timer ps \<longrightarrow>
        in_storage en (ps_latest ps) (ps_storage ps))"

lemma save_keeps_other:
  "k \<noteq> k' \<Longrightarrow> obj_get (writeStoredValue ni fits k' d st) k = obj_get st k"
  by (simp add: writeStoredValue_def Let_def jmap.get_put)

lemma keys_distinct [simp]:
  "KEY_CONFIG \<noteq> KEY_MESSAGES" "KEY_PARAMETER_ENABLED \<noteq> KEY_MESSAGES" "KEY_MESSAGES \<noteq> KEY_CONFIG"
  "KEY_MESSAGES \<noteq> KEY_PARAMETER_ENABLED"
  by (simp_all add: KEY_CONFIG_def KEY_MESSAGES_def KEY_PARAMETER_ENABLED_def)

lemma save_object_messages:
  "k \<noteq> KEY_MESSAGES \<Longrightarrow> obj_get (save_object zparse ni fits sch k ob st) KEY_MESSAGES = obj_get st KEY_MESSAGES"
  by (auto simp: save_object_def save_keeps_other split: option.split)

lemma in_storage_cong:
  "obj_get st KEY_MESSAGES = obj_get st' KEY_MESSAGES \<Longrightarrow> in_storage en ms st = in_storage en ms st'"
  using stored_conversation_cong [of st st' "se_zod en"] by (simp add: in_storage_def)

lemma saved_text:
  assumes "zod_laws (se_zod en)" and "savable en ms"
  shows "obj_get (saved_messages en ms st) KEY_MESSAGES = Some (stored_text (se_ni en) (trimMessages ms))"
proof -
  have "se_zod en messagesSchema (messages_json (trimMessages ms)) = Some (messages_json (trimMessages ms))"
    using assms conforms_messages by (simp add: zod_laws_def savable_def)
  then show ?thesis
    using assms(2) by (simp add: saved_messages_def saveMessages_def writeStoredValue_def Let_def jmap.get_put
        stored_text_def savable_def)
qed

lemma saved_in_storage:
  "zod_laws (se_zod en) \<Longrightarrow> savable en ms \<Longrightarrow> in_storage en ms (saved_messages en ms st)"
  by (simp add: in_storage_def saved_text)

lemma fits_savable:
  "conversation_fits (se_ni en) ms \<Longrightarrow> se_fits en KEY_MESSAGES (stored_text (se_ni en) ms) \<Longrightarrow>
   trimMessages ms = ms \<and> savable en ms"
  by (auto simp: conversation_fits_def savable_def trim_trim_messages list_all_iff message_settled_def)

lemma state_inv_mount: "state_inv en (mount_state en st)"
  by (simp add: state_inv_def mount_state_def)

lemma state_inv_save: "state_inv en ps \<Longrightarrow> state_inv en (save_latest en ps)"
  using saved_in_storage by (auto simp: state_inv_def save_latest_def saved_messages_def [symmetric])

lemma state_inv_load:
  assumes "state_inv en ps"
  shows "state_inv en (load_effect en clks ps)"
proof (cases "ps_loading ps")
  case True
  obtain st1 ms where l: "loadMessages (se_zod en) (se_ni en) (se_fits en) (se_tr en) clks (ps_storage ps) = (st1, ms)"
    by (cases "loadMessages (se_zod en) (se_ni en) (se_fits en) (se_tr en) clks (ps_storage ps)")
  have "zod_laws (se_zod en) \<and> savable en (coalesce ms []) \<longrightarrow> in_storage en (coalesce ms []) st1"
  proof (cases ms)
    case None
    with l have "stored_conversation (se_zod en) (ps_storage ps) = None" by (metis loadMessages_None snd_conv)
    with l None have "stored_conversation (se_zod en) st1 = None"
      by (auto simp: loadMessages_def stored_conversation_def readStoredMessagesValue_def obj_get_del Let_def
          split: option.splits if_splits)
    with None show ?thesis by (simp add: in_storage_def coalesce_def)
  next
    case (Some ms')
    with l obtain st0 where "st1 = saved_messages en ms' st0"
      unfolding saved_messages_def by (metis loadMessages_Some)
    with Some saved_in_storage show ?thesis by (simp add: coalesce_def)
  qed
  with assms True l show ?thesis by (auto simp: load_effect_def state_inv_def Let_def)
qed (simp add: load_effect_def assms)

lemma state_inv_config:
  "state_inv en ps \<Longrightarrow> state_inv en (updateConfig en f ps)"
  "state_inv en ps \<Longrightarrow> state_inv en (updateParameterEnabled en g ps)"
  using in_storage_cong [OF save_object_messages]
  by (auto simp: state_inv_def updateConfig_def updateParameterEnabled_def Let_def saveConfig_def
      saveParameterEnabled_def)

lemma state_inv_unmount: "state_inv en ps \<Longrightarrow> state_inv en (unmount_state en ps)"
  using state_inv_save [of en "ps\<lparr>ps_cancelled := True\<rparr>"]
  by (simp add: unmount_state_def Let_def) (simp add: state_inv_def)

lemma state_inv_update: "state_inv en ps \<Longrightarrow> state_inv en (updateMessages f ps)"
  by (auto simp: state_inv_def updateMessages_def persistMessages_def Let_def)

lemma state_inv_step: "state_inv en ps \<Longrightarrow> state_inv en (fst (state_step en ps e))"
  by (cases e) (simp_all add: state_inv_load state_inv_save state_inv_config state_inv_update
      state_inv_unmount resetConfig_def clearMessages_def)

interpretation hook_state: machine "mount_state en st" "state_step en" "state_inv en" for en st
  by unfold_locales (simp_all add: state_inv_mount state_inv_step)

lemma run_unmount:
  "fst (run_events (state_step en) ps (es @ [UnmountState])) = unmount_state en (fst (run_events (state_step en) ps es))"
  by (simp add: run_events_append case_prod_beta)

lemma mounted_messages:
  "ps_messages (load_effect en clks (mount_state en st)) =
     coalesce (snd (loadMessages (se_zod en) (se_ni en) (se_fits en) (se_tr en) clks st)) []"
  by (simp add: load_effect_def mount_state_def Let_def split: prod.split)


section \<open>Properties\<close>

text \<open>An environment for the examples: the schema library as its laws say, and a storage that takes
  every text.\<close>

definition zod_ref :: zod where
  "zod_ref sch v = (if conforms sch (Some v) then Some v else None)"

definition env_ref :: storage_env where
  "env_ref = \<lparr>se_zod = zod_ref, se_ni = (\<lambda>_. []), se_fits = (\<lambda>_ _. True), se_tr = (\<lambda>s. s)\<rparr>"

lemma zod_ref_laws: "zod_laws zod_ref"
  by (simp add: zod_laws_def zod_ref_def)

definition hello :: "message list" where
  "hello = [createUserMessage (js ''k'') (js ''v'') (js ''Hi'') 5]"

text \<open>C22 [state_saved]: whatever the order of the loading timeout, the edits, the save timeouts, the
  configuration changes and the unmount, once the conversation is loaded and no save is due, the
  storage holds the text of exactly the last hundred messages of the conversation that is shown, or
  the conversation is empty and the storage holds none, provided that \<open>setItem\<close> takes that text and
  each of those messages has a version.\<close>
theorem state_saved:
  assumes "zod_laws (se_zod en)"
    and "ps = fst (run_events (state_step en) (mount_state en st) es)"
    and "savable en (ps_messages ps)" "ps_loaded ps" "\<not> ps_timer ps"
  shows "obj_get (ps_storage ps) KEY_MESSAGES =
           Some (stringify (se_ni en) (stored_envelope (messages_json (trimMessages (ps_messages ps))))) \<or>
         ps_messages ps = [] \<and> stored_conversation (se_zod en) (ps_storage ps) = None"
proof -
  have "state_inv en ps" unfolding assms(2) by (rule hook_state.inv_run)
  with assms show ?thesis by (auto simp: state_inv_def in_storage_def stored_text_def)
qed

theorem state_saved_witness:
  "let ps = fst (run_events (state_step env_ref) (mount_state env_ref [])
       [LoadTimeout (\<lambda>_ _. 0), UpdateMessages (NewMessages hello), SaveTimeout])
   in ps_messages ps = hello \<and>
      obj_get (ps_storage ps) KEY_MESSAGES = Some (stringify (\<lambda>_. []) (stored_envelope (messages_json hello)))"
proof -
  let ?ps = "fst (run_events (state_step env_ref) (mount_state env_ref [])
       [LoadTimeout (\<lambda>_ _. 0), UpdateMessages (NewMessages hello), SaveTimeout])"
  have m: "ps_messages ?ps = hello" "ps_loaded ?ps" "\<not> ps_timer ?ps"
    by (simp_all add: load_effect_def mount_state_def updateMessages_def persistMessages_def
        save_latest_def Let_def loadMessages_def readStoredMessagesValue_def)
  have f: "conversation_fits (\<lambda>_. []) hello" by code_simp
  have s: "trimMessages hello = hello \<and> savable env_ref hello"
    by (rule fits_savable) (use f in \<open>simp_all add: env_ref_def\<close>)
  have "hello \<noteq> []" by (simp add: hello_def)
  with state_saved [of env_ref ?ps "[]", OF _ refl] m s show ?thesis
    by (simp add: Let_def env_ref_def zod_ref_laws)
qed

text \<open>C7 [reopened_conversation]: leaving the playground and opening it again shows the same conversation:
  the unmount saves what is pending, and the loading effect of the next mount returns it unchanged,
  for every conversation that loading does not shorten: at most 100 messages, within the limits on
  characters and on the stored text, none of them a pending answer or longer than 40000 characters,
  and none of them with sections that loading takes for repeated snapshots and collapses.\<close>
theorem reopened_conversation:
  assumes "zod_laws (se_zod en)"
    and "ps = fst (run_events (state_step en) (mount_state en st) (es @ [UnmountState]))"
    and "ps_loaded ps" "conversation_fits (se_ni en) (ps_messages ps)"
    and "se_fits en KEY_MESSAGES (stored_text (se_ni en) (ps_messages ps))"
  shows "ps_messages (load_effect en clks (mount_state en (ps_storage ps))) = ps_messages ps"
proof -
  have "state_inv en ps" unfolding assms(2) by (rule hook_state.inv_run)
  moreover have "\<not> ps_timer ps" unfolding assms(2) run_unmount by (simp add: unmount_state_def save_latest_def Let_def)
  ultimately consider
      "obj_get (ps_storage ps) KEY_MESSAGES = Some (stored_text (se_ni en) (ps_messages ps))"
    | "ps_messages ps = []" "stored_conversation (se_zod en) (ps_storage ps) = None"
    using assms(1,3) fits_savable [OF assms(4,5)] by (auto simp: state_inv_def in_storage_def)
  then show ?thesis
  proof cases
    case 1
    from load_saved [OF assms(1,4) this] show ?thesis by (simp add: mounted_messages coalesce_def)
  next
    case 2
    then show ?thesis by (simp add: mounted_messages loadMessages_None [THEN iffD2] coalesce_def)
  qed
qed

theorem reopened_conversation_witness:
  "let ps = fst (run_events (state_step env_ref) (mount_state env_ref [])
       ([LoadTimeout (\<lambda>_ _. 0), UpdateMessages (NewMessages hello)] @ [UnmountState]))
   in ps_loaded ps \<and> conversation_fits (se_ni env_ref) (ps_messages ps) \<and> ps_messages ps = hello \<and>
      ps_messages (load_effect env_ref (\<lambda>_ _. 9) (mount_state env_ref (ps_storage ps))) = hello"
proof -
  let ?ps = "fst (run_events (state_step env_ref) (mount_state env_ref [])
       ([LoadTimeout (\<lambda>_ _. 0), UpdateMessages (NewMessages hello)] @ [UnmountState]))"
  have m: "ps_messages ?ps = hello" "ps_loaded ?ps"
    by (simp_all add: load_effect_def mount_state_def updateMessages_def persistMessages_def unmount_state_def
        save_latest_def Let_def loadMessages_def readStoredMessagesValue_def)
  have f: "conversation_fits (\<lambda>_. []) hello" by code_simp
  have "ps_messages (load_effect env_ref (\<lambda>_ _. 9) (mount_state env_ref (ps_storage ?ps))) = ps_messages ?ps"
    by (rule reopened_conversation [OF _ refl]) (use m f in \<open>simp_all add: env_ref_def zod_ref_laws\<close>)
  with m f show ?thesis by (simp only: Let_def env_ref_def storage_env.simps)
qed

text \<open>C23 [loaded_messages_typed]: whatever text the storage holds, what loading returns is a value of the
  type the schema declares, so the cast to messages is justified: every message has a version. There
  are at most 100 of them, and the normalising, trimming and finalising steps keep the type.\<close>
theorem loaded_messages_typed:
  assumes "zod_laws zparse" "loadMessages zparse ni fits tr clks st = (st', Some ms)"
  shows "conforms messagesSchema (Some (messages_json ms)) \<and> length ms \<le> MAX_STORED_MESSAGES"
  using loaded_versions [OF assms] by (simp add: conforms_messages)

theorem loaded_messages_typed_witness:
  "\<exists>st'. loadMessages zod_ref (\<lambda>_. []) (\<lambda>_ _. True) (\<lambda>s. s) (\<lambda>_ _. 0)
       [(KEY_MESSAGES, stored_text (\<lambda>_. []) hello)] = (st', Some hello) \<and>
     conforms messagesSchema (Some (messages_json hello)) \<and> length hello \<le> MAX_STORED_MESSAGES"
proof -
  let ?l = "loadMessages zod_ref (\<lambda>_. []) (\<lambda>_ _. True) (\<lambda>s. s) (\<lambda>_ _. 0)
       [(KEY_MESSAGES, stored_text (\<lambda>_. []) hello)]"
  have "conversation_fits (\<lambda>_. []) hello" by code_simp
  then have "snd ?l = Some hello" by (intro load_saved zod_ref_laws) simp_all
  then have l: "?l = (fst ?l, Some hello)" by (simp add: prod_eq_iff)
  from loaded_messages_typed [OF zod_ref_laws l] l show ?thesis by blast
qed

text \<open>The bound on the size of a loaded conversation keeps its most recent
  messages: the result is a suffix that fits (or one message, however long), and it is the longest
  one, because it is not empty and the message before it would exceed the bound.\<close>
theorem load_keeps_recent:
  "\<exists>d. d \<le> length ms \<and> trimMessagesByContentSize ms = drop d ms \<and>
     (length (drop d ms) \<le> 1 \<or> total_size (drop d ms) \<le> MAX_LOADED_MESSAGES_CHARS) \<and>
     (d = 0 \<or> drop d ms \<noteq> [] \<and> total_size (drop (d - 1) ms) > MAX_LOADED_MESSAGES_CHARS)"
  by (rule size_trim_spec [of ms]) blast

text \<open>C24 [oversize_conversation_lost]: saving does not apply the limit of 1 MiB that loading applies. A
  conversation whose text is longer is written, and the next load deletes it and returns nothing.\<close>
theorem oversize_conversation_lost:
  assumes "zod_laws zparse" "list_all (\<lambda>m. m_versions m \<noteq> []) ms" "length ms \<le> MAX_STORED_MESSAGES"
    and "fits KEY_MESSAGES (stored_text ni ms)" "length (stored_text ni ms) > MAX_STORED_MESSAGES_BYTES"
  shows "obj_get (saveMessages zparse ni fits ms st) KEY_MESSAGES = Some (stored_text ni ms) \<and>
     loadMessages zparse ni fits tr clks (saveMessages zparse ni fits ms st) =
       (obj_del KEY_MESSAGES (saveMessages zparse ni fits ms st), None)"
proof -
  have v: "zparse messagesSchema (messages_json ms) = Some (messages_json ms)"
    using assms(1,2) conforms_messages by (simp add: zod_laws_def)
  have g: "obj_get (saveMessages zparse ni fits ms st) KEY_MESSAGES = Some (stored_text ni ms)"
    using assms(3,4) by (simp add: saveMessages_def trim_trim_messages v writeStoredValue_def Let_def jmap.get_put
        stored_text_def)
  moreover have "stored_text ni ms \<noteq> []" using assms(5) by auto
  ultimately show ?thesis using assms(5) by (simp add: loadMessages_def readStoredMessagesValue_def)
qed

lemma quote_body_length: "length s \<le> length (quote_body s)"
  by (induction s rule: quote_body.induct) (auto simp: esc_unit_def esc_u_def)

theorem oversize_conversation_lost_witness:
  "let ms = [createUserMessage (js ''k'') (js ''v'') (replicate 1048577 97) 5]
   in obj_get (saveMessages zod_ref (\<lambda>_. []) (\<lambda>_ _. True) ms []) KEY_MESSAGES = Some (stored_text (\<lambda>_. []) ms) \<and>
      loadMessages zod_ref (\<lambda>_. []) (\<lambda>_ _. True) (\<lambda>s. s) (\<lambda>_ _. 0)
        (saveMessages zod_ref (\<lambda>_. []) (\<lambda>_ _. True) ms []) =
        (obj_del KEY_MESSAGES (saveMessages zod_ref (\<lambda>_. []) (\<lambda>_ _. True) ms []), None)"
proof -
  have "length s < length (stored_text ni [createUserMessage a b s q])" for ni a b s q
    using quote_body_length [of s]
    by (simp add: stored_text_def stored_envelope_def messages_json_def message_json_def createUserMessage_def
        createMessageVersion_def version_json_def opt_field_def json_quote_def)
  from this [of "replicate 1048577 97" "\<lambda>_. []" "js ''k''" "js ''v''" 5]
  have "MAX_STORED_MESSAGES_BYTES < length (stored_text (\<lambda>_. []) [createUserMessage (js ''k'') (js ''v'') (replicate 1048577 97) 5])"
    by (simp add: MAX_STORED_MESSAGES_BYTES_def)
  then show ?thesis
    unfolding Let_def
    by (intro oversize_conversation_lost zod_ref_laws)
      (simp_all add: createUserMessage_def MAX_STORED_MESSAGES_def)
qed

end
