(* ===== verification/JsRegex.thy ===== *)
theory JsRegex
  imports JsString
begin

text \<open>
  Regular expressions of the language: a backtracking matcher that returns every way to match, in
  the order in which the language tries them, so that the first one is the match. A position is the
  text before it, in reverse, and the text after it; groups are numbered by the expression. Groups
  inside a repetition are not reset between its rounds; the expressions used here have none.
\<close>

section \<open>Expressions and their matches\<close>

datatype regex =
    Chr "nat \<Rightarrow> bool"
  | Lit jstring
  | Eps
  | Seq regex regex
  | Alt regex regex
  | Star regex
  | Group nat regex
  | Back nat
  | Bol
  | Eol
  | WordB

record rpos =
  rp_before :: jstring
  rp_after :: jstring
  rp_groups :: "(nat \<times> jstring) list"

definition word_unit :: "nat \<Rightarrow> bool" where
  "word_unit u \<longleftrightarrow> is_digit u \<or> 65 \<le> u \<and> u \<le> 90 \<or> 97 \<le> u \<and> u \<le> 122 \<or> u = 95"

definition at_word :: "jstring \<Rightarrow> bool" where
  "at_word s \<longleftrightarrow> s \<noteq> [] \<and> word_unit (hd s)"

definition eat :: "jstring \<Rightarrow> rpos \<Rightarrow> rpos list" where
  "eat s p = (if startsWith (rp_after p) s
     then [p\<lparr>rp_before := rev s @ rp_before p, rp_after := drop (length s) (rp_after p)\<rparr>] else [])"

text \<open>What was read between two positions.\<close>

definition between :: "rpos \<Rightarrow> rpos \<Rightarrow> jstring" where
  "between p q = take (length (rp_after p) - length (rp_after q)) (rp_after p)"

definition group :: "rpos \<Rightarrow> nat \<Rightarrow> jstring option" where
  "group p i = map_of (rp_groups p) i"

function matches :: "regex \<Rightarrow> rpos \<Rightarrow> rpos list" where
  "matches (Chr P) p =
     (case rp_after p of
        [] \<Rightarrow> []
      | u # r \<Rightarrow> if P u then [p\<lparr>rp_before := u # rp_before p, rp_after := r\<rparr>] else [])"
| "matches (Lit s) p = eat s p"
| "matches Eps p = [p]"
| "matches (Seq a b) p = concat (map (matches b) (matches a p))"
| "matches (Alt a b) p = matches a p @ matches b p"
| "matches (Star a) p =
     concat (map (\<lambda>q. if length (rp_after q) < length (rp_after p) then matches (Star a) q else []) (matches a p)) @ [p]"
| "matches (Group i a) p = map (\<lambda>q. q\<lparr>rp_groups := (i, between p q) # rp_groups q\<rparr>) (matches a p)"
| "matches (Back i) p = (case group p i of None \<Rightarrow> [p] | Some s \<Rightarrow> eat s p)"
| "matches Bol p = (if rp_before p = [] then [p] else [])"
| "matches Eol p = (if rp_after p = [] then [p] else [])"
| "matches WordB p = (if at_word (rp_before p) \<noteq> at_word (rp_after p) then [p] else [])"
  by pat_completeness auto
termination
  by (relation "measures [\<lambda>(a, p). size a, \<lambda>(a, p). length (rp_after p)]") auto

text \<open>The usual abbreviations.\<close>

definition Opt :: "regex \<Rightarrow> regex" where
  "Opt a = Alt a Eps"

definition Plus :: "regex \<Rightarrow> regex" where
  "Plus a = Seq a (Star a)"

fun Seqs :: "regex list \<Rightarrow> regex" where
  "Seqs [] = Eps"
| "Seqs [a] = a"
| "Seqs (a # b # rs) = Seq a (Seqs (b # rs))"

fun Alts :: "regex list \<Rightarrow> regex" where
  "Alts [] = Chr (\<lambda>_. False)"
| "Alts [a] = a"
| "Alts (a # b # rs) = Alt a (Alts (b # rs))"

definition Ws :: regex where
  "Ws = Star (Chr is_ws)"

text \<open>The first match at a position, the first position from there on with a match, and the test of a
  whole text.\<close>

definition first_of :: "'a list \<Rightarrow> 'a option" where
  "first_of xs = (case xs of [] \<Rightarrow> None | x # _ \<Rightarrow> Some x)"

definition match_at :: "regex \<Rightarrow> rpos \<Rightarrow> rpos option" where
  "match_at a p = first_of (matches a p)"

definition start :: "jstring \<Rightarrow> rpos" where
  "start s = \<lparr>rp_before = [], rp_after = s, rp_groups = []\<rparr>"

fun search :: "regex \<Rightarrow> jstring \<Rightarrow> jstring \<Rightarrow> (rpos \<times> rpos) option" where
  "search a pre [] =
     (let p = \<lparr>rp_before = pre, rp_after = [], rp_groups = []\<rparr> in map_option (\<lambda>q. (p, q)) (match_at a p))"
| "search a pre (u # s) =
     (let p = \<lparr>rp_before = pre, rp_after = u # s, rp_groups = []\<rparr>
      in case match_at a p of Some q \<Rightarrow> Some (p, q) | None \<Rightarrow> search a (u # pre) s)"

text \<open>\<open>text.match(/^...$/)\<close>.\<close>

definition full_match :: "regex \<Rightarrow> jstring \<Rightarrow> rpos option" where
  "full_match a s = match_at (Seq a Eol) (start s)"

text \<open>The matches of a loop over \<open>exec\<close> with the flag \<open>g\<close>, or of \<open>matchAll\<close>, from a position on. An
  empty match advances by one unit.\<close>

lemma search_after: "search a pre s = Some (p, q) \<Longrightarrow> length (rp_after p) \<le> length s"
  by (induction a pre s rule: search.induct) (auto simp: Let_def split: option.splits)

function exec_all :: "regex \<Rightarrow> jstring \<Rightarrow> jstring \<Rightarrow> (rpos \<times> rpos) list" where
  "exec_all a pre s =
     (case search a pre s of
        None \<Rightarrow> []
      | Some (p, q) \<Rightarrow>
          (p, q) #
          (if length (rp_after q) < length (rp_after p) then exec_all a (rp_before q) (rp_after q)
           else case rp_after q of [] \<Rightarrow> [] | u # r \<Rightarrow> if length r < length s then exec_all a (u # rp_before q) r else []))"
  by pat_completeness auto
termination
  by (relation "measure (\<lambda>(a, pre, s). length s)") (auto dest!: search_after)

declare exec_all.simps [simp del] matches.simps(6) [simp del]

text \<open>\<open>text.replaceAll(re, by)\<close> and \<open>text.split(re)\<close> for an expression that does not match the empty text.\<close>

function replace_all :: "regex \<Rightarrow> jstring \<Rightarrow> jstring \<Rightarrow> jstring \<Rightarrow> jstring" where
  "replace_all a by pre s =
     (case search a pre s of
        None \<Rightarrow> s
      | Some (p, q) \<Rightarrow>
          take (length s - length (rp_after p)) s @ by @
          (if length (rp_after q) < length s then replace_all a by (rp_before q) (rp_after q) else rp_after q))"
  by pat_completeness auto
termination
  by (relation "measure (\<lambda>(a, b, pre, s). length s)") auto

function split_re :: "regex \<Rightarrow> jstring \<Rightarrow> jstring \<Rightarrow> jstring list" where
  "split_re a pre s =
     (case search a pre s of
        None \<Rightarrow> [s]
      | Some (p, q) \<Rightarrow>
          take (length s - length (rp_after p)) s #
          (if length (rp_after q) < length s then split_re a (rp_before q) (rp_after q) else [rp_after q]))"
  by pat_completeness auto
termination
  by (relation "measure (\<lambda>(a, pre, s). length s)") auto

declare replace_all.simps [simp del] split_re.simps [simp del]


section \<open>Greedy repetition of a class\<close>

definition adv :: "nat \<Rightarrow> rpos \<Rightarrow> rpos" where
  "adv k p = p\<lparr>rp_before := rev (take k (rp_after p)) @ rp_before p, rp_after := drop k (rp_after p)\<rparr>"

lemma adv_simps [simp]:
  "rp_after (adv k p) = drop k (rp_after p)" "rp_groups (adv k p) = rp_groups p"
  "rp_before (adv k p) = rev (take k (rp_after p)) @ rp_before p" "adv 0 p = p"
  by (simp_all add: adv_def)

lemma adv_Suc: "rp_after p = u # r \<Longrightarrow> adv (Suc k) p = adv k (p\<lparr>rp_before := u # rp_before p, rp_after := r\<rparr>)"
  by (simp add: adv_def)

lemma matches_Star_Chr:
  "matches (Star (Chr P)) p = map (\<lambda>k. adv k p) (rev [0..<Suc (length (takeWhile P (rp_after p)))])"
proof (induction "rp_after p" arbitrary: p)
  case Nil
  then show ?case by (simp add: matches.simps(6) split: list.split)
next
  case (Cons u r)
  let ?q = "p\<lparr>rp_before := u # rp_before p, rp_after := r\<rparr>"
  show ?case
  proof (cases "P u")
    case True
    have "matches (Star (Chr P)) p = matches (Star (Chr P)) ?q @ [p]"
      using Cons(2) [symmetric] True by (simp add: matches.simps(6) [of _ p])
    also have "matches (Star (Chr P)) ?q = map (\<lambda>k. adv k ?q) (rev [0..<Suc (length (takeWhile P r))])"
      using Cons(1) [of ?q] by simp
    also have "\<dots> = map (\<lambda>k. adv (Suc k) p) (rev [0..<Suc (length (takeWhile P r))])"
      using Cons(2) [symmetric] by (intro map_cong refl) (simp add: adv_Suc)
    also have "\<dots> @ [p] = map (\<lambda>k. adv k p) (rev [0..<Suc (Suc (length (takeWhile P r)))])"
    proof -
      have "[0..<Suc (Suc n)] = 0 # map Suc [0..<Suc n]" for n
        by (metis map_Suc_upt upt_conv_Cons zero_less_Suc)
      then show ?thesis by (simp only: rev.simps map_append list.map rev_map [symmetric] map_map comp_def adv_simps)
    qed
    finally show ?thesis using Cons(2) [symmetric] True by simp
  next
    case False
    with Cons(2) [symmetric] show ?thesis by (simp add: matches.simps(6) del: upt_Suc) (simp add: upt_rec)
  qed
qed

lemma matches_Plus_Chr:
  "matches (Plus (Chr P)) p = map (\<lambda>k. adv k p) (rev [1..<Suc (length (takeWhile P (rp_after p)))])"
proof (cases "rp_after p")
  case Nil
  then show ?thesis by (simp add: Plus_def)
next
  case (Cons u r)
  show ?thesis
  proof (cases "P u")
    case True
    let ?q = "p\<lparr>rp_before := u # rp_before p, rp_after := r\<rparr>"
    have "matches (Plus (Chr P)) p = matches (Star (Chr P)) ?q" using Cons True by (simp add: Plus_def)
    also have "\<dots> = map (\<lambda>k. adv (Suc k) p) (rev [0..<Suc (length (takeWhile P r))])"
      unfolding matches_Star_Chr using Cons by (simp add: adv_Suc)
    also have "\<dots> = map (\<lambda>k. adv k p) (map Suc (rev [0..<Suc (length (takeWhile P r))]))"
      by (simp only: map_map comp_def)
    also have "map Suc (rev [0..<Suc n]) = rev [1..<Suc (Suc n)]" for n
      by (simp only: rev_map [symmetric] map_Suc_upt One_nat_def)
    finally show ?thesis using Cons True by simp
  qed (use Cons in \<open>simp add: Plus_def\<close>)
qed


section \<open>Deterministic matching\<close>

text \<open>\<open>takes a s gs s' gs'\<close>: the first match of \<open>a\<close> on the text \<open>s\<close> with the groups \<open>gs\<close> leaves the text \<open>s'\<close>
  and the groups \<open>gs'\<close>. \<open>refuses a s gs\<close>: there is no match.\<close>

definition takes :: "regex \<Rightarrow> jstring \<Rightarrow> (nat \<times> jstring) list \<Rightarrow> jstring \<Rightarrow> (nat \<times> jstring) list \<Rightarrow> bool" where
  "takes a s gs s' gs' \<longleftrightarrow>
     (\<forall>p. rp_after p = s \<longrightarrow> rp_groups p = gs \<longrightarrow>
        (\<exists>q. match_at a p = Some q \<and> rp_after q = s' \<and> rp_groups q = gs'))"

definition refuses :: "regex \<Rightarrow> jstring \<Rightarrow> (nat \<times> jstring) list \<Rightarrow> bool" where
  "refuses a s gs \<longleftrightarrow> (\<forall>p. rp_after p = s \<longrightarrow> rp_groups p = gs \<longrightarrow> matches a p = [])"

named_theorems rx \<open>rules for deterministic matching\<close>

lemma first_of_simps [simp]:
  "first_of [] = None" "first_of (x # xs) = Some x" "first_of (xs @ ys) = (if xs = [] then first_of ys else first_of xs)"
  "first_of (map f xs) = map_option f (first_of xs)" "first_of xs = None \<longleftrightarrow> xs = []"
  by (auto simp: first_of_def split: list.split)

lemma first_of_concat:
  "first_of xs = Some ys \<Longrightarrow> first_of ys = Some y \<Longrightarrow> first_of (concat xs) = Some y"
  by (auto simp: first_of_def split: list.splits)

lemma takesI: "(\<And>p. rp_after p = s \<Longrightarrow> rp_groups p = gs \<Longrightarrow> \<exists>q. match_at a p = Some q \<and> rp_after q = s' \<and> rp_groups q = gs') \<Longrightarrow>
    takes a s gs s' gs'"
  by (simp add: takes_def)

lemma takesE:
  assumes "takes a s gs s' gs'" "rp_after p = s" "rp_groups p = gs"
  obtains q where "match_at a p = Some q" "rp_after q = s'" "rp_groups q = gs'"
  using assms unfolding takes_def by blast

lemma takes_Eps: "takes Eps s gs s gs"
  by (auto simp: takes_def match_at_def)

lemma takes_Lit: "takes (Lit w) (w @ s) gs s gs"
  by (auto simp: takes_def match_at_def eat_def)

lemma takes_Eol: "takes Eol [] gs [] gs"
  by (auto simp: takes_def match_at_def)

lemma takes_Seq: "takes a s gs s1 g1 \<Longrightarrow> takes b s1 g1 s2 g2 \<Longrightarrow> takes (Seq a b) s gs s2 g2"
proof (rule takesI)
  fix p :: rpos
  assume a: "takes a s gs s1 g1" and b: "takes b s1 g1 s2 g2" and p: "rp_after p = s" "rp_groups p = gs"
  from a p obtain q where q: "match_at a p = Some q" "rp_after q = s1" "rp_groups q = g1" by (rule takesE)
  from b q(2,3) obtain r where r: "match_at b q = Some r" "rp_after r = s2" "rp_groups r = g2" by (rule takesE)
  have "match_at (Seq a b) p = Some r"
    using first_of_concat [of "map (matches b) (matches a p)" "matches b q" r] q(1) r(1)
    by (simp add: match_at_def)
  with r show "\<exists>q. match_at (Seq a b) p = Some q \<and> rp_after q = s2 \<and> rp_groups q = g2" by blast
qed

lemma match_at_Alt: "match_at (Alt a b) p = (case match_at a p of None \<Rightarrow> match_at b p | Some q \<Rightarrow> Some q)"
  by (auto simp: match_at_def split: option.split)

lemma takes_Alt1: "takes a s gs s' gs' \<Longrightarrow> takes (Alt a b) s gs s' gs'"
  unfolding takes_def match_at_Alt by (metis option.simps(5))

lemma takes_Alt2: "refuses a s gs \<Longrightarrow> takes b s gs s' gs' \<Longrightarrow> takes (Alt a b) s gs s' gs'"
  unfolding takes_def refuses_def match_at_def by auto

lemma takes_Opt: "takes a s gs s' gs' \<Longrightarrow> takes (Opt a) s gs s' gs'"
  unfolding Opt_def by (rule takes_Alt1)

lemma takes_Opt_skip: "refuses a s gs \<Longrightarrow> takes (Opt a) s gs s gs"
  unfolding Opt_def by (blast intro: takes_Alt2 takes_Eps)

lemma takes_Group: "takes a (w @ s) gs s gs' \<Longrightarrow> takes (Group i a) (w @ s) gs s ((i, w) # gs')"
proof (rule takesI)
  fix p :: rpos
  assume a: "takes a (w @ s) gs s gs'" and p: "rp_after p = w @ s" "rp_groups p = gs"
  from a p obtain q where q: "match_at a p = Some q" "rp_after q = s" "rp_groups q = gs'" by (rule takesE)
  then have "match_at (Group i a) p = Some (q\<lparr>rp_groups := (i, w) # gs'\<rparr>)"
    using p by (simp add: match_at_def between_def)
  with q(2) show "\<exists>q. match_at (Group i a) p = Some q \<and> rp_after q = s \<and> rp_groups q = (i, w) # gs'" by force
qed

lemma takes_Back: "map_of gs i = Some w \<Longrightarrow> takes (Back i) (w @ s) gs s gs"
  by (auto simp: takes_def match_at_def eat_def group_def)

definition runs :: "(nat \<Rightarrow> bool) \<Rightarrow> jstring \<Rightarrow> jstring \<Rightarrow> bool" where
  "runs P w s \<longleftrightarrow> list_all P w \<and> (s = [] \<or> \<not> P (hd s))"

lemma runs_takeWhile: "runs P w s \<Longrightarrow> takeWhile P (w @ s) = w"
  by (cases s) (auto simp: runs_def list_all_iff takeWhile_append)

lemma takes_Star: "runs P w s \<Longrightarrow> takes (Star (Chr P)) (w @ s) gs s gs"
  by (auto simp: takes_def match_at_def matches_Star_Chr runs_takeWhile)

lemma takes_Plus: "runs P w s \<Longrightarrow> w \<noteq> [] \<Longrightarrow> takes (Plus (Chr P)) (w @ s) gs s gs"
  by (auto simp: takes_def match_at_def matches_Plus_Chr runs_takeWhile Suc_le_eq)

lemma refuses_Lit: "\<not> startsWith s w \<Longrightarrow> refuses (Lit w) s gs"
  by (auto simp: refuses_def eat_def)

lemma refuses_Seq: "refuses a s gs \<Longrightarrow> refuses (Seq a b) s gs"
  by (auto simp: refuses_def)

lemma refuses_Alt: "refuses a s gs \<Longrightarrow> refuses b s gs \<Longrightarrow> refuses (Alt a b) s gs"
  by (auto simp: refuses_def)

lemma refuses_Group: "refuses a s gs \<Longrightarrow> refuses (Group i a) s gs"
  by (auto simp: refuses_def)

lemma refuses_Plus: "s = [] \<or> \<not> P (hd s) \<Longrightarrow> refuses (Plus (Chr P)) s gs"
  by (cases s) (auto simp: refuses_def Plus_def)

lemma refuses_Eol: "s \<noteq> [] \<Longrightarrow> refuses Eol s gs"
  by (auto simp: refuses_def)

text \<open>A run of a class is followed by something that fails after every shorter run.\<close>

lemma refuses_Plus_then:
  assumes "\<And>k. 0 < k \<Longrightarrow> k \<le> length (takeWhile P s) \<Longrightarrow> refuses b (drop k s) gs"
  shows "refuses (Seq (Plus (Chr P)) b) s gs"
  unfolding refuses_def
proof (intro allI impI)
  fix p :: rpos assume p: "rp_after p = s" "rp_groups p = gs"
  have "matches b q = []" if "q \<in> set (matches (Plus (Chr P)) p)" for q
  proof -
    from that obtain k where k: "q = adv k p" "k \<in> {1..<Suc (length (takeWhile P s))}"
      unfolding matches_Plus_Chr p(1) set_map set_rev set_upt by blast
    then have "refuses b (drop k s) gs" by (intro assms) simp_all
    moreover have "rp_after q = drop k s" "rp_groups q = gs" using k(1) p by simp_all
    ultimately show ?thesis unfolding refuses_def by blast
  qed
  then show "matches (Seq (Plus (Chr P)) b) p = []"
    by (simp only: matches.simps(4) concat_eq_Nil_conv set_map ball_simps) blast
qed

lemma full_match_Some:
  assumes "takes (Seq a Eol) s [] [] gs"
  obtains q where "full_match a s = Some q" "rp_groups q = gs"
proof -
  from assms have "\<exists>q. match_at (Seq a Eol) (start s) = Some q \<and> rp_after q = [] \<and> rp_groups q = gs"
    unfolding takes_def by (simp only: start_def rpos.simps)
  with that show thesis unfolding full_match_def by blast
qed

lemma full_match_None: "refuses (Seq a Eol) s [] \<Longrightarrow> full_match a s = None"
  unfolding refuses_def full_match_def match_at_def
  by (drule spec [of _ "start s"]) (simp add: start_def)

lemma takes_Star_step:
  assumes "takes a s gs s1 g1" "length s1 < length s" "takes (Star a) s1 g1 s2 g2"
  shows "takes (Star a) s gs s2 g2"
proof (rule takesI)
  fix p :: rpos
  assume p: "rp_after p = s" "rp_groups p = gs"
  from assms(1) p obtain q where q: "match_at a p = Some q" "rp_after q = s1" "rp_groups q = g1" by (rule takesE)
  from assms(3) q(2,3) obtain r where r: "match_at (Star a) q = Some r" "rp_after r = s2" "rp_groups r = g2"
    by (rule takesE)
  let ?f = "\<lambda>q. if length (rp_after q) < length (rp_after p) then matches (Star a) q else []"
  have f: "?f q = matches (Star a) q" using q(2) p(1) assms(2) by (simp only: if_True)
  have "first_of (map ?f (matches a p)) = Some (?f q)"
    using q(1) unfolding match_at_def first_of_simps(4) by (simp only: option.map)
  then have "first_of (map ?f (matches a p)) = Some (matches (Star a) q)" unfolding f .
  then have "first_of (concat (map ?f (matches a p))) = Some r"
    by (rule first_of_concat) (rule r(1) [unfolded match_at_def])
  then have "first_of (concat (map ?f (matches a p)) @ [p]) = Some r"
    by (cases "concat (map ?f (matches a p))") (simp_all only: first_of_simps append_Cons append_Nil option.simps)
  then have "match_at (Star a) p = Some r"
    unfolding match_at_def by (subst matches.simps(6)) assumption
  with r show "\<exists>q. match_at (Star a) p = Some q \<and> rp_after q = s2 \<and> rp_groups q = g2" by blast
qed

lemma takes_Star_stop: "refuses a s gs \<Longrightarrow> takes (Star a) s gs s gs"
  by (auto simp: takes_def refuses_def match_at_def matches.simps(6))

lemma takes_Chr: "P u \<Longrightarrow> takes (Chr P) (u # s) gs s gs"
  by (auto simp: takes_def match_at_def)

lemma refuses_Chr: "s = [] \<or> \<not> P (hd s) \<Longrightarrow> refuses (Chr P) s gs"
  by (cases s) (auto simp: refuses_def)

lemma takes_Star_Alt:
  "list_all P w \<Longrightarrow> refuses (Alt (Chr P) b) s gs \<Longrightarrow> takes (Star (Alt (Chr P) b)) (w @ s) gs s gs"
proof (induction w)
  case Nil
  then show ?case by (simp add: takes_Star_stop)
next
  case (Cons u w)
  then have "takes (Alt (Chr P) b) (u # w @ s) gs (w @ s) gs" by (intro takes_Alt1 takes_Chr) simp
  from takes_Star_step [OF this] Cons show ?case by simp
qed

lemma takes_Seqs:
  "takes a s gs s1 g1 \<Longrightarrow> takes (Seqs (b # rs)) s1 g1 s2 g2 \<Longrightarrow> takes (Seqs (a # b # rs)) s gs s2 g2"
  by (simp add: takes_Seq)

lemma concat_map_concat: "concat (map f (concat (map g xs))) = concat (map (\<lambda>x. concat (map f (g x))) xs)"
  by (induction xs) simp_all

lemma matches_assoc: "matches (Seq (Seq a b) c) p = matches (Seq a (Seq b c)) p"
proof -
  have "matches (Seq b c) = (\<lambda>q. concat (map (matches c) (matches b q)))" by (rule ext) simp
  then show ?thesis by (simp add: concat_map_concat)
qed

lemma takes_assoc [rx]: "takes (Seq (Seq a b) c) s gs s' gs' \<longleftrightarrow> takes (Seq a (Seq b c)) s gs s' gs'"
  by (simp only: takes_def match_at_def matches_assoc)

lemma refuses_assoc [rx]: "refuses (Seq (Seq a b) c) s gs \<longleftrightarrow> refuses (Seq a (Seq b c)) s gs"
  by (simp only: refuses_def matches_assoc)

lemmas Seqs_rx [rx] = Seqs.simps

lemma matches_Seqs_append:
  "xs \<noteq> [] \<Longrightarrow> ys \<noteq> [] \<Longrightarrow> matches (Seqs (xs @ ys)) p = matches (Seq (Seqs xs) (Seqs ys)) p"
proof (induction xs arbitrary: p rule: Seqs.induct)
  case (2 a)
  then show ?case by (cases ys) simp_all
next
  case (3 a b xs)
  then have "matches (Seqs ((b # xs) @ ys)) = matches (Seq (Seqs (b # xs)) (Seqs ys))" by (intro ext) simp
  then have "matches (Seqs ((a # b # xs) @ ys)) p = matches (Seq a (Seq (Seqs (b # xs)) (Seqs ys))) p" by simp
  then show ?case by (simp only: matches_assoc Seqs.simps)
qed simp

lemma full_match_Seqs: "xs \<noteq> [] \<Longrightarrow> full_match (Seqs xs) s = match_at (Seqs (xs @ [Eol])) (start s)"
  by (simp add: full_match_def match_at_def matches_Seqs_append del: matches.simps)


section \<open>Which units a match reads\<close>

definition only :: "(nat \<Rightarrow> bool) \<Rightarrow> regex \<Rightarrow> bool" where
  "only P a \<longleftrightarrow> (\<forall>p q. q \<in> set (matches a p) \<longrightarrow> (\<exists>w. rp_after p = w @ rp_after q \<and> list_all P w))"

lemma only_Chr: "(\<And>u. Q u \<Longrightarrow> P u) \<Longrightarrow> only P (Chr Q)"
  unfolding only_def
proof (intro allI impI)
  fix p q :: rpos assume a: "\<And>u. Q u \<Longrightarrow> P u" "q \<in> set (matches (Chr Q) p)"
  then obtain u r where "rp_after p = u # r" "Q u" "rp_after q = r"
    by (cases "rp_after p") (auto split: if_splits)
  with a(1) show "\<exists>w. rp_after p = w @ rp_after q \<and> list_all P w" by (intro exI [of _ "[u]"]) simp
qed

lemma only_Lit: "list_all P w \<Longrightarrow> only P (Lit w)"
  by (auto simp: only_def eat_def startsWith_iff split: if_splits)

lemma only_Eps: "only P Eps"
  by (auto simp: only_def)

lemma only_Seq: "only P a \<Longrightarrow> only P b \<Longrightarrow> only P (Seq a b)"
  unfolding only_def
proof (intro allI impI)
  fix p q :: rpos
  assume a: "\<forall>p q. q \<in> set (matches a p) \<longrightarrow> (\<exists>w. rp_after p = w @ rp_after q \<and> list_all P w)"
    and b: "\<forall>p q. q \<in> set (matches b p) \<longrightarrow> (\<exists>w. rp_after p = w @ rp_after q \<and> list_all P w)"
    and "q \<in> set (matches (Seq a b) p)"
  then obtain m where m: "m \<in> set (matches a p)" "q \<in> set (matches b m)" by auto
  from a m(1) obtain w where w: "rp_after p = w @ rp_after m" "list_all P w" by blast
  from b m(2) obtain v where v: "rp_after m = v @ rp_after q" "list_all P v" by blast
  from w v show "\<exists>w. rp_after p = w @ rp_after q \<and> list_all P w" by (intro exI [of _ "w @ v"]) simp
qed

lemma only_Alt: "only P a \<Longrightarrow> only P b \<Longrightarrow> only P (Alt a b)"
  unfolding only_def by auto

lemma only_Opt: "only P a \<Longrightarrow> only P (Opt a)"
  unfolding Opt_def by (blast intro: only_Alt only_Eps)

lemma only_Star:
  assumes "only P a"
  shows "only P (Star a)"
proof -
  have "\<exists>w. rp_after p = w @ rp_after q \<and> list_all P w" if "q \<in> set (matches (Star a) p)" for p q
    using that
  proof (induction "length (rp_after p)" arbitrary: p rule: less_induct)
    case less
    from less.prems consider "q = p"
      | r where "r \<in> set (matches a p)" "length (rp_after r) < length (rp_after p)" "q \<in> set (matches (Star a) r)"
      by (subst (asm) matches.simps(6)) (auto split: if_splits)
    then show ?case
    proof cases
      case 2
      with less.hyps obtain w where "rp_after r = w @ rp_after q" "list_all P w" by blast
      moreover obtain v where "rp_after p = v @ rp_after r" "list_all P v"
        using 2(1) assms unfolding only_def by blast
      ultimately show ?thesis by (intro exI [of _ "v @ w"]) simp
    qed simp
  qed
  then show ?thesis unfolding only_def by blast
qed

lemma only_Plus: "only P a \<Longrightarrow> only P (Plus a)"
  unfolding Plus_def by (blast intro: only_Seq only_Star)

lemma only_full_match:
  assumes "only P a" "full_match a s \<noteq> None"
  shows "list_all P s"
proof -
  from assms(2) have "matches (Seq a Eol) (start s) \<noteq> []"
    by (simp only: full_match_def match_at_def first_of_simps simp_thms)
  then obtain q where "q \<in> set (matches (Seq a Eol) (start s))" by (meson list.set_sel(1))
  then have "q \<in> set (matches a (start s))" and e: "rp_after q = []" by (auto split: if_splits)
  with assms(1) obtain w where "rp_after (start s) = w @ rp_after q" "list_all P w" unfolding only_def by blast
  with e show ?thesis by (simp add: start_def)
qed



section \<open>Words and alternatives\<close>

lemma refuses_Alts: "(\<And>a. a \<in> set as \<Longrightarrow> refuses a s gs) \<Longrightarrow> refuses (Alts as) s gs"
  by (induction as rule: Alts.induct) (auto intro: refuses_Alt simp: refuses_def split: list.split)

lemma takes_Alts:
  "(\<And>a. a \<in> set as \<Longrightarrow> refuses a s gs) \<Longrightarrow> takes b s gs s' gs' \<Longrightarrow> takes (Alts (as @ b # bs)) s gs s' gs'"
proof (induction as rule: Alts.induct)
  case 1
  then show ?case by (cases bs) (simp_all add: takes_Alt1)
next
  case (2 a)
  then show ?case by (cases bs) (simp_all add: takes_Alt2 takes_Alt1)
next
  case (3 a c as)
  then show ?case by (simp add: takes_Alt2)
qed

text \<open>A group that reads a run of a class, followed by something that cannot start inside the run.\<close>

lemma takes_word: "runs P w s \<Longrightarrow> w \<noteq> [] \<Longrightarrow> takes (Group i (Plus (Chr P))) (w @ s) gs s ((i, w) # gs)"
  by (intro takes_Group takes_Plus)

lemma takes_word0: "runs P w s \<Longrightarrow> takes (Group i (Star (Chr P))) (w @ s) gs s ((i, w) # gs)"
  by (intro takes_Group takes_Star)

lemma refuses_Group_then:
  assumes "\<And>k. 0 < k \<Longrightarrow> k \<le> length (takeWhile P s) \<Longrightarrow> refuses b (drop k s) ((i, take k s) # gs)"
  shows "refuses (Seq (Group i (Plus (Chr P))) b) s gs"
  unfolding refuses_def
proof (intro allI impI)
  fix p :: rpos assume p: "rp_after p = s" "rp_groups p = gs"
  have "matches b q = []" if "q \<in> set (matches (Group i (Plus (Chr P))) p)" for q
  proof -
    from that obtain r where r: "r \<in> set (matches (Plus (Chr P)) p)" "q = r\<lparr>rp_groups := (i, between p r) # rp_groups r\<rparr>"
      by auto
    then obtain k where k: "r = adv k p" "k \<in> {1..<Suc (length (takeWhile P s))}"
      unfolding matches_Plus_Chr p(1) set_map set_rev set_upt by blast
    then have "refuses b (drop k s) ((i, take k s) # gs)" by (intro assms) simp_all
    moreover have "k \<le> length s" using k(2) length_takeWhile_le [of P s] by simp
    then have "rp_after q = drop k s" "rp_groups q = (i, take k s) # gs"
      using r(2) k(1) p by (simp_all add: between_def)
    ultimately show ?thesis unfolding refuses_def by blast
  qed
  then show "matches (Seq (Group i (Plus (Chr P))) b) p = []"
    by (simp only: matches.simps(4) concat_eq_Nil_conv set_map ball_simps) blast
qed

lemma refuses_word:
  assumes r: "runs P w t" and i: "\<And>u s g. P u \<Longrightarrow> refuses b (u # s) g" and t: "refuses b t ((i, w) # gs)"
  shows "refuses (Seq (Group i (Plus (Chr P))) b) (w @ t) gs"
proof (rule refuses_Group_then)
  fix k assume k: "0 < k" "k \<le> length (takeWhile P (w @ t))"
  then have kw: "k \<le> length w" using r by (simp add: runs_takeWhile)
  show "refuses b (drop k (w @ t)) ((i, take k (w @ t)) # gs)"
  proof (cases "k = length w")
    case True
    then show ?thesis using t by simp
  next
    case False
    with kw have "drop k w \<noteq> []" by simp
    then obtain u v where uv: "drop k w = u # v" by (cases "drop k w") auto
    then have "u \<in> set w" by (metis in_set_dropD list.set_intros(1))
    with r have "P u" by (simp add: runs_def list_all_iff)
    with uv kw i show ?thesis by simp
  qed
qed

lemma refuses_then: "refuses b s gs \<Longrightarrow> refuses (Seq (Lit w) b) (w @ s) gs"
  by (auto simp: refuses_def eat_def)

lemma refuses_start: "\<not> startsWith s w \<Longrightarrow> refuses (Seq (Lit w) b) s gs"
  by (intro refuses_Seq refuses_Lit)

lemma matches_Alts_Lit: "matches (Alts (map Lit ws)) p = concat (map (\<lambda>w. eat w p) ws)"
proof (induction ws rule: induct_list012)
  case 1
  then show ?case by (simp split: list.split)
qed simp_all

lemma refuses_Alts_then:
  assumes "\<And>w. w \<in> set ws \<Longrightarrow> startsWith s w \<Longrightarrow> refuses b (drop (length w) s) ((i, w) # gs)"
  shows "refuses (Seq (Group i (Alts (map Lit ws))) b) s gs"
  unfolding refuses_def
proof (intro allI impI)
  fix p :: rpos assume p: "rp_after p = s" "rp_groups p = gs"
  have "matches b q = []" if "q \<in> set (matches (Group i (Alts (map Lit ws))) p)" for q
  proof -
    from that obtain r where r: "r \<in> set (matches (Alts (map Lit ws)) p)"
      "q = r\<lparr>rp_groups := (i, between p r) # rp_groups r\<rparr>" by auto
    from r(1) obtain w where w: "w \<in> set ws" "r \<in> set (eat w p)" unfolding matches_Alts_Lit by auto
    then have s: "startsWith s w" and rr: "r = p\<lparr>rp_before := rev w @ rp_before p, rp_after := drop (length w) s\<rparr>"
      using p by (auto simp: eat_def split: if_splits)
    from s have "take (length w) s = w" "length w \<le> length s" by (auto simp: startsWith_iff)
    then have "rp_after q = drop (length w) s" "rp_groups q = (i, w) # gs"
      using r(2) rr p by (simp_all add: between_def)
    with assms [OF w(1) s] show ?thesis unfolding refuses_def by blast
  qed
  then show "matches (Seq (Group i (Alts (map Lit ws))) b) p = []"
    by (simp only: matches.simps(4) concat_eq_Nil_conv set_map ball_simps) blast
qed

lemma between_adv: "k \<le> length (rp_after p) \<Longrightarrow> between p (adv k p) = take k (rp_after p)"
  by (simp add: between_def)

text \<open>A group that reads anything gives back until the rest matches.\<close>

lemma takes_any:
  assumes w: "w \<noteq> []" and b: "takes b r ((i, w) # gs) s' gs'"
    and longer: "\<And>k g. 0 < k \<Longrightarrow> k \<le> length r \<Longrightarrow> refuses b (drop k r) g"
  shows "takes (Seq (Group i (Plus (Chr (\<lambda>_. True)))) b) (w @ r) gs s' gs'"
proof (rule takesI)
  fix p :: rpos
  assume p: "rp_after p = w @ r" "rp_groups p = gs"
  let ?at = "\<lambda>k. (adv k p)\<lparr>rp_groups := (i, take k (w @ r)) # gs\<rparr>"
  have g: "matches (Group i (Plus (Chr (\<lambda>_. True)))) p = map ?at (rev [1..<Suc (length (w @ r))])"
  proof -
    have t: "takeWhile (\<lambda>_. True) (w @ r) = w @ r" by (rule takeWhile_eq_all_conv [THEN iffD2]) simp
    have e: "(adv k p)\<lparr>rp_groups := (i, between p (adv k p)) # rp_groups (adv k p)\<rparr> = ?at k"
      if "k \<le> length (w @ r)" for k
      using that p between_adv [of k p] by (simp only: adv_simps)
    have "matches (Group i (Plus (Chr (\<lambda>_. True)))) p =
        map (\<lambda>k. (adv k p)\<lparr>rp_groups := (i, between p (adv k p)) # rp_groups (adv k p)\<rparr>)
          (rev [1..<Suc (length (w @ r))])"
      by (simp only: matches.simps(7) matches_Plus_Chr p(1) t map_map comp_def)
    also have "\<dots> = map ?at (rev [1..<Suc (length (w @ r))])"
      by (rule map_cong [OF refl], rule e) (simp only: set_rev set_upt atLeastLessThan_iff less_Suc_eq_le)
    finally show ?thesis .
  qed
  have split: "rev [1..<Suc (length (w @ r))] = rev [Suc (length w)..<Suc (length (w @ r))] @ length w # rev [1..<length w]"
  proof -
    have "[1..<Suc (length (w @ r))] = [1..<length w] @ length w # [Suc (length w)..<Suc (length (w @ r))]"
    proof -
      have "1 \<le> length w" using w by (cases w) simp_all
      then have "[1..<Suc (length (w @ r))] = [1..<length w] @ [length w..<Suc (length (w @ r))]"
        using upt_add_eq_append [of 1 "length w" "Suc (length r)"] by (simp del: upt_Suc)
      also have "[length w..<Suc (length (w @ r))] = length w # [Suc (length w)..<Suc (length (w @ r))]"
        by (rule upt_conv_Cons) simp
      finally show ?thesis .
    qed
    then show ?thesis by simp
  qed
  have none: "matches b (?at k) = []" if "k \<in> set (rev [Suc (length w)..<Suc (length (w @ r))])" for k
  proof -
    from that have k: "0 < k - length w" "k - length w \<le> length r" by auto
    have "rp_after (?at k) = drop (k - length w) r" using p that by (auto simp: drop_append)
    with longer [OF k] show ?thesis unfolding refuses_def by blast
  qed
  have "rp_after (?at (length w)) = r" "rp_groups (?at (length w)) = (i, w) # gs" using p by simp_all
  from takesE [OF b this] obtain q where q: "match_at b (?at (length w)) = Some q" "rp_after q = s'" "rp_groups q = gs'" .
  have "concat (map (matches b) (map ?at (rev [Suc (length w)..<Suc (length (w @ r))]))) = []"
    unfolding concat_eq_Nil_conv using none by auto
  then have "match_at (Seq (Group i (Plus (Chr (\<lambda>_. True)))) b) p = Some q"
    using q(1) unfolding match_at_def matches.simps(4) g split map_append concat_append list.map concat.simps
    by (cases "matches b (?at (length w))") (simp_all del: upt_Suc)
  with q show "\<exists>q. match_at (Seq (Group i (Plus (Chr (\<lambda>_. True)))) b) p = Some q \<and> rp_after q = s' \<and> rp_groups q = gs'"
    by blast
qed

text \<open>A match only moves forward; so an expression that ends with a literal matches only texts that do.\<close>

lemma only_any: "only (\<lambda>_. True) a"
proof (induction a)
  case (Group i a)
  then show ?case unfolding only_def by fastforce
next
  case (Back i)
  then show ?case by (auto simp: only_def eat_def startsWith_iff list_all_iff split: option.splits if_splits)
qed (auto intro: only_Chr only_Lit only_Eps only_Seq only_Alt only_Star simp: list_all_iff,
    auto simp: only_def split: if_splits)

lemma full_match_suffix:
  assumes "full_match (Seq a (Lit w)) s \<noteq> None"
  obtains t where "s = t @ w"
proof -
  from assms have "matches (Seq (Seq a (Lit w)) Eol) (start s) \<noteq> []"
    by (simp only: full_match_def match_at_def first_of_simps simp_thms)
  then obtain q where "q \<in> set (matches (Seq (Seq a (Lit w)) Eol) (start s))" by (meson list.set_sel(1))
  then obtain r where r: "r \<in> set (matches a (start s))" "q \<in> set (eat w r)" "rp_after q = []"
    by (auto split: if_splits)
  from r(2,3) have "rp_after r = w" by (auto simp: eat_def startsWith_iff split: if_splits)
  moreover obtain t where "rp_after (start s) = t @ rp_after r"
    using only_any [of a] r(1) unfolding only_def by blast
  ultimately show thesis using that by (simp add: start_def)
qed



section \<open>Choices inside a sequence\<close>

lemma matches_Seq_Alt: "matches (Seq (Alt a b) c) p = matches (Seq a c) p @ matches (Seq b c) p"
  by simp

lemma refuses_Seq_Alt: "refuses (Seq a c) s gs \<Longrightarrow> refuses (Seq b c) s gs \<Longrightarrow> refuses (Seq (Alt a b) c) s gs"
  unfolding refuses_def matches_Seq_Alt by simp

lemma takes_Seq_Alt1: "takes (Seq a c) s gs s' gs' \<Longrightarrow> takes (Seq (Alt a b) c) s gs s' gs'"
  unfolding takes_def match_at_def matches_Seq_Alt
  by (metis first_of_simps(3) first_of_simps(5) option.distinct(1))

lemma takes_Seq_Alt2:
  "refuses (Seq a c) s gs \<Longrightarrow> takes (Seq b c) s gs s' gs' \<Longrightarrow> takes (Seq (Alt a b) c) s gs s' gs'"
  unfolding takes_def refuses_def match_at_def matches_Seq_Alt by simp

lemma matches_Group_Alt: "matches (Seq (Group i (Alt a b)) c) p = matches (Seq (Group i a) c) p @ matches (Seq (Group i b) c) p"
  by simp

lemma takes_Group_Alt1: "takes (Seq (Group i a) c) s gs s' gs' \<Longrightarrow> takes (Seq (Group i (Alt a b)) c) s gs s' gs'"
  unfolding takes_def match_at_def matches_Group_Alt
  by (metis first_of_simps(3) first_of_simps(5) option.distinct(1))

lemma takes_Group_Alt2:
  "refuses (Seq (Group i a) c) s gs \<Longrightarrow> takes (Seq (Group i b) c) s gs s' gs' \<Longrightarrow> takes (Seq (Group i (Alt a b)) c) s gs s' gs'"
  unfolding takes_def refuses_def match_at_def matches_Group_Alt by simp

lemma refuses_Group_Lit: "refuses c s ((i, w) # gs) \<Longrightarrow> refuses (Seq (Group i (Lit w)) c) (w @ s) gs"
  by (auto simp: refuses_def eat_def between_def)

lemma refuses_Seq_Eps: "refuses (Seq Eps b) s gs \<longleftrightarrow> refuses b s gs"
  by (simp add: refuses_def)

lemma takes_Seqs_append:
  assumes "xs \<noteq> []" "ys \<noteq> []" "takes (Seqs xs) s gs s1 g1" "takes (Seqs ys) s1 g1 s2 g2"
  shows "takes (Seqs (xs @ ys)) s gs s2 g2"
proof -
  have "match_at (Seqs (xs @ ys)) = match_at (Seq (Seqs xs) (Seqs ys))"
    using assms(1,2) by (intro ext) (simp only: match_at_def matches_Seqs_append not_False_eq_True)
  with takes_Seq [OF assms(3,4)] show ?thesis by (simp only: takes_def)
qed

text \<open>White space before a literal.\<close>

lemma takes_Ws: "s = [] \<or> \<not> is_ws (hd s) \<Longrightarrow> takes Ws (32 # s) gs s gs"
  using takes_Star [of is_ws "[32]" s gs] by (simp add: Ws_def runs_def is_ws_def)

lemma takes_Ws0: "s = [] \<or> \<not> is_ws (hd s) \<Longrightarrow> takes Ws s gs s gs"
  using takes_Star [of is_ws "[]" s gs] by (simp add: Ws_def runs_def)

lemma refuses_Ws:
  assumes "\<And>k. k \<le> length (takeWhile is_ws s) \<Longrightarrow> refuses b (drop k s) gs"
  shows "refuses (Seq Ws b) s gs"
  unfolding refuses_def
proof (intro allI impI)
  fix p :: rpos assume p: "rp_after p = s" "rp_groups p = gs"
  have "matches b q = []" if "q \<in> set (matches Ws p)" for q
  proof -
    from that obtain k where k: "q = adv k p" "k \<in> {0..<Suc (length (takeWhile is_ws s))}"
      unfolding Ws_def matches_Star_Chr p(1) set_map set_rev set_upt by blast
    then have "refuses b (drop k s) gs" by (intro assms) simp
    moreover have "rp_after q = drop k s" "rp_groups q = gs" using k(1) p by simp_all
    ultimately show ?thesis unfolding refuses_def by blast
  qed
  then show "matches (Seq Ws b) p = []"
    by (simp only: matches.simps(4) concat_eq_Nil_conv set_map ball_simps) blast
qed

text \<open>After at most one blank, a literal that does not start with white space is refused.\<close>

lemma refuses_Ws_Lit0:
  assumes "s = [] \<or> \<not> is_ws (hd s)" "refuses (Seq (Lit w) b) s gs"
  shows "refuses (Seq Ws (Seq (Lit w) b)) s gs"
  using assms by (intro refuses_Ws) (cases s, auto)

lemma refuses_Ws_Lit:
  assumes "s = [] \<or> \<not> is_ws (hd s)" "refuses (Seq (Lit w) b) s gs" "w \<noteq> []" "\<not> is_ws (hd w)"
  shows "refuses (Seq Ws (Seq (Lit w) b)) (32 # s) gs"
proof (rule refuses_Ws)
  fix k assume "k \<le> length (takeWhile is_ws (32 # s))"
  then have "k \<le> 1" using assms(1) by (cases s) (auto simp: is_ws_def)
  then consider "k = 0" | "k = 1" by linarith
  then show "refuses (Seq (Lit w) b) (drop k (32 # s)) gs"
  proof cases
    case 1
    have "\<not> startsWith (32 # s) w" using assms(3,4) by (cases w) (auto simp: startsWith_def is_ws_def)
    with 1 show ?thesis by (simp add: refuses_start)
  qed (use assms(2) in simp)
qed


section \<open>Searching\<close>

lemma search_here:
  assumes "takes a s [] s' gs"
  obtains q where "search a pre s = Some (\<lparr>rp_before = pre, rp_after = s, rp_groups = []\<rparr>, q)" "rp_after q = s'" "rp_groups q = gs"
proof -
  obtain q where "match_at a \<lparr>rp_before = pre, rp_after = s, rp_groups = []\<rparr> = Some q" "rp_after q = s'" "rp_groups q = gs"
    by (rule takesE [OF assms]) auto
  then show thesis by (intro that [of q]) (cases s; simp)+
qed

lemma search_skip: "refuses a (u # s) [] \<Longrightarrow> search a pre (u # s) = search a (u # pre) s"
  unfolding refuses_def
  by (drule spec [of _ "\<lparr>rp_before = pre, rp_after = u # s, rp_groups = []\<rparr>"]) (simp add: match_at_def Let_def)

lemma search_skips:
  "(\<And>k. k < length w \<Longrightarrow> refuses a (drop k (w @ s)) []) \<Longrightarrow> search a pre (w @ s) = search a (rev w @ pre) s"
proof (induction w arbitrary: pre)
  case (Cons u w)
  have "refuses a (u # w @ s) []" using Cons.prems [of 0] by simp
  then have "search a pre ((u # w) @ s) = search a (u # pre) (w @ s)" by (simp add: search_skip del: search.simps)
  also have "\<dots> = search a (rev w @ u # pre) s"
    using Cons.prems [of "Suc k" for k] by (intro Cons.IH) simp
  finally show ?case by simp
qed simp

lemma search_none: "(\<And>k. k \<le> length s \<Longrightarrow> refuses a (drop k s) []) \<Longrightarrow> search a pre s = None"
proof -
  assume a: "\<And>k. k \<le> length s \<Longrightarrow> refuses a (drop k s) []"
  then have "search a pre (s @ []) = search a (rev s @ pre) []" by (intro search_skips) (simp add: less_imp_le)
  moreover have "refuses a [] []" using a [of "length s"] by simp
  then have "search a (rev s @ pre) [] = None"
    unfolding refuses_def
    by (drule_tac x = "\<lparr>rp_before = rev s @ pre, rp_after = [], rp_groups = []\<rparr>" in spec) (simp add: match_at_def Let_def)
  ultimately show ?thesis by simp
qed

lemma exec_all_none: "search a pre s = None \<Longrightarrow> exec_all a pre s = []"
  by (subst exec_all.simps) simp

lemma exec_all_some:
  "search a pre s = Some (p, q) \<Longrightarrow> length (rp_after q) < length (rp_after p) \<Longrightarrow>
     exec_all a pre s = (p, q) # exec_all a (rp_before q) (rp_after q)"
  by (subst exec_all.simps) simp

lemma only_Group: "only P a \<Longrightarrow> only P (Group i a)"
  unfolding only_def by fastforce

lemma only_Seqs: "list_all (only P) as \<Longrightarrow> only P (Seqs as)"
  by (induction as rule: Seqs.induct) (auto intro: only_Eps only_Seq)

end
