(* ===== verification/BillingExpr.thy ===== *)
theory BillingExpr
  imports JsRegex JsNumber JsRoundTrip
begin

text \<open>
  \<open>features/pricing/lib/billing-expr.ts\<close>: the registry of billing variables, the parsers of tiers and of
  request rules, the editor's printer of request rules, and splitting and combining an expression
  with its rules. The regular expressions of the source are written as values of \<open>regex\<close>. A result of
  type \<open>'a option option\<close> is \<open>None\<close> for an exception and \<open>Some None\<close> for \<open>null\<close>.
\<close>

section \<open>The registry of variables\<close>

datatype var_side = SideInput | SideOutput | SideCondition

record billing_var =
  bv_key :: jstring
  bv_field :: "jstring option"
  bv_tierField :: "jstring option"
  bv_label :: jstring
  bv_shortLabel :: jstring
  bv_side :: var_side
  bv_isBase :: bool
  bv_isConditionOnly :: bool
  bv_group :: "jstring option"

definition price_var ::
  "string \<Rightarrow> string \<Rightarrow> string \<Rightarrow> string \<Rightarrow> string \<Rightarrow> var_side \<Rightarrow> bool \<Rightarrow> string \<Rightarrow> billing_var" where
  "price_var key field tierField label shortLabel side isBase grp =
     \<lparr>bv_key = js key, bv_field = Some (js field), bv_tierField = Some (js tierField), bv_label = js label,
      bv_shortLabel = js shortLabel, bv_side = side, bv_isBase = isBase, bv_isConditionOnly = False,
      bv_group = (if grp = [] then None else Some (js grp))\<rparr>"

definition BILLING_VARS :: "billing_var list" where
  "BILLING_VARS =
     [price_var ''p'' ''inputPrice'' ''input_unit_cost'' ''Input price'' ''Input'' SideInput True [],
      price_var ''c'' ''outputPrice'' ''output_unit_cost'' ''Completion price'' ''Output'' SideOutput True [],
      \<lparr>bv_key = js ''len'', bv_field = None, bv_tierField = None, bv_label = js ''Input length'',
       bv_shortLabel = js ''Length'', bv_side = SideCondition, bv_isBase = False, bv_isConditionOnly = True,
       bv_group = None\<rparr>,
      price_var ''cr'' ''cacheReadPrice'' ''cache_read_unit_cost'' ''Cache read price'' ''Cache Read''
        SideInput False ''cache'',
      price_var ''cc'' ''cacheCreatePrice'' ''cache_create_unit_cost'' ''Cache create price'' ''Cache Write''
        SideInput False ''cache'',
      price_var ''cc1h'' ''cacheCreate1hPrice'' ''cache_create_1h_unit_cost'' ''Cache create (1h) price''
        ''Cache Write (1h)'' SideInput False ''cache'',
      price_var ''img'' ''imagePrice'' ''image_unit_cost'' ''Image input price'' ''Image In'' SideInput False ''media'',
      price_var ''img_o'' ''imageOutputPrice'' ''image_output_unit_cost'' ''Image output price'' ''Image Out''
        SideOutput False ''media'',
      price_var ''ai'' ''audioInputPrice'' ''audio_input_unit_cost'' ''Audio input price'' ''Audio In''
        SideInput False ''media'',
      price_var ''ao'' ''audioOutputPrice'' ''audio_output_unit_cost'' ''Audio output price'' ''Audio Out''
        SideOutput False ''media'']"

definition BILLING_PRICING_VARS :: "billing_var list" where
  "BILLING_PRICING_VARS = filter (\<lambda>v. \<not> bv_isConditionOnly v) BILLING_VARS"

definition BILLING_CONDITION_VARS :: "jstring list" where
  "BILLING_CONDITION_VARS = map bv_key (filter (\<lambda>v. bv_isBase v \<or> bv_isConditionOnly v) BILLING_VARS)"

definition BILLING_VAR_KEY_TO_FIELD :: "jstring jobj" where
  "BILLING_VAR_KEY_TO_FIELD = map (\<lambda>v. (bv_key v, coalesce (bv_field v) [])) BILLING_PRICING_VARS"

definition BILLING_EXTRA_VARS :: "billing_var list" where
  "BILLING_EXTRA_VARS = filter (\<lambda>v. \<not> bv_isBase v \<and> \<not> bv_isConditionOnly v) BILLING_VARS"

text \<open>Pairs of \<open>field\<close> and \<open>exprVar\<close>.\<close>

definition BILLING_CACHE_VAR_MAP :: "(jstring \<times> jstring) list" where
  "BILLING_CACHE_VAR_MAP = map (\<lambda>v. (coalesce (bv_tierField v) [], bv_key v)) BILLING_EXTRA_VARS"

text \<open>The class \<open>[\d.eE+-]\<close>.\<close>

definition num_unit :: "nat \<Rightarrow> bool" where
  "num_unit u \<longleftrightarrow> is_digit u \<or> u = 46 \<or> u = 101 \<or> u = 69 \<or> u = 43 \<or> u = 45"

abbreviation Num :: regex where
  "Num \<equiv> Plus (Chr num_unit)"

abbreviation L :: "string \<Rightarrow> regex" where
  "L s \<equiv> Lit (js s)"

definition BILLING_VAR_REGEX :: regex where
  "BILLING_VAR_REGEX =
     Seqs [WordB, Group 1 (Alts (map (\<lambda>v. Lit (bv_key v)) BILLING_PRICING_VARS)), Ws, L ''*'', Ws, Group 2 Num]"


section \<open>Request rules\<close>

definition TIME_FUNCS :: "jstring list" where
  "TIME_FUNCS = [js ''hour'', js ''minute'', js ''weekday'', js ''month'', js ''day'']"

definition NUMERIC_LITERAL_REGEX :: regex where
  "NUMERIC_LITERAL_REGEX =
     Seqs [Opt (L ''-''),
       Alt (Seqs [Plus (Chr is_digit), Opt (L ''.''), Star (Chr is_digit)]) (Seq (L ''.'') (Plus (Chr is_digit))),
       Opt (Seqs [Chr (\<lambda>u. u = 101 \<or> u = 69), Opt (Chr (\<lambda>u. u = 43 \<or> u = 45)), Plus (Chr is_digit)])]"

definition is_numeric :: "jstring \<Rightarrow> bool" where
  "is_numeric s \<longleftrightarrow> full_match NUMERIC_LITERAL_REGEX s \<noteq> None"

record param_header_condition =
  ph_source :: jstring
  ph_path :: jstring
  ph_mode :: jstring
  ph_value :: jstring

record time_condition =
  tc_timeFunc :: jstring
  tc_timezone :: jstring
  tc_mode :: jstring
  tc_value :: jstring
  tc_rangeStart :: jstring
  tc_rangeEnd :: jstring

datatype request_condition =
    TimeCondition time_condition
  | ParamHeaderCondition param_header_condition

record rule_group =
  rg_conditions :: "request_condition list"
  rg_multiplier :: jstring
  rg_conditionText :: "jstring option"
  rg_matched :: "bool option"

record rule_trace =
  rt_cond :: jstring
  rt_multiplier :: rat
  rt_matched :: bool


section \<open>Tiers\<close>

record tier_condition =
  tcn_var :: jstring
  tcn_op :: jstring
  tcn_value :: "rat option"

record parsed_tier =
  pt_label :: jstring
  pt_conditions :: "tier_condition list"
  pt_prices :: "rat jobj"

definition stripExprVersion :: "jstring \<Rightarrow> rat option \<times> jstring" where
  "stripExprVersion exprStr =
     (if exprStr = [] then (Some 1, [])
      else case full_match (Seqs [L ''v'', Group 1 (Plus (Chr is_digit)), L '':'', Group 2 (Star (Chr (\<lambda>_. True)))]) exprStr of
             Some m \<Rightarrow> (string_to_number (coalesce (group m 1) []), coalesce (group m 2) [])
           | None \<Rightarrow> (Some 1, exprStr))"

text \<open>A coefficient that is not a number, and a variable without one, count as 0.\<close>

definition parseTierBody :: "jstring \<Rightarrow> rat jobj" where
  "parseTierBody bodyStr =
     (let coeffs = foldl (\<lambda>coeffs (p, m).
            let v = coalesce (group m 1) []
            in if v \<in> set (obj_keys coeffs) then coeffs
               else obj_put v (string_to_number (coalesce (group m 2) [])) coeffs) [] (exec_all BILLING_VAR_REGEX [] bodyStr)
      in foldl (\<lambda>tier (varName, field). obj_put field (coalesce (Option.bind (obj_get coeffs varName) id) 0) tier)
           [] BILLING_VAR_KEY_TO_FIELD)"

text \<open>The class \<open>[\d.eE+]\<close> of the values in conditions.\<close>

definition cond_unit :: "nat \<Rightarrow> bool" where
  "cond_unit u \<longleftrightarrow> is_digit u \<or> u = 46 \<or> u = 101 \<or> u = 69 \<or> u = 43"

definition cond_var :: regex where
  "cond_var = Alts [L ''p'', L ''c'', L ''len'']"

definition cond_op :: regex where
  "cond_op = Alts [L ''<'', L ''<='', L ''>'', L ''>='']"

definition cond_atom :: regex where
  "cond_atom = Seqs [cond_var, Ws, cond_op, Ws, Plus (Chr cond_unit)]"

definition condGroup :: regex where
  "condGroup = Seq cond_atom (Star (Seqs [Ws, L ''&&'', Ws, cond_atom]))"

definition tierRe :: regex where
  "tierRe = Seqs [Opt (Seqs [Group 1 condGroup, Ws, L ''?'', Ws]), L ''tier(\"'', Group 2 (Star (Chr (\<lambda>u. u \<noteq> 34))),
     L ''\",'', Ws, Group 3 (Plus (Chr (\<lambda>u. u \<noteq> 41))), L '')'']"

definition parse_tier_condition :: "jstring \<Rightarrow> tier_condition option" where
  "parse_tier_condition cp =
     (case full_match (Seqs [Group 1 cond_var, Ws, Group 2 cond_op, Ws, Group 3 (Plus (Chr cond_unit))]) (trim cp) of
        Some cm \<Rightarrow> Some \<lparr>tcn_var = coalesce (group cm 1) [], tcn_op = coalesce (group cm 2) [],
                        tcn_value = string_to_number (coalesce (group cm 3) [])\<rparr>
      | None \<Rightarrow> None)"

definition parse_tier_conditions :: "jstring \<Rightarrow> tier_condition list" where
  "parse_tier_conditions condStr =
     (if condStr = [] then []
      else List.map_filter parse_tier_condition (split_re (Seqs [Ws, L ''&&'', Ws]) [] condStr))"

definition parseTiersFromExpr :: "jstring \<Rightarrow> parsed_tier list" where
  "parseTiersFromExpr exprStr =
     (if exprStr = [] then []
      else map (\<lambda>(p, m). \<lparr>pt_label = coalesce (group m 2) [],
             pt_conditions = parse_tier_conditions (coalesce (group m 1) []),
             pt_prices = parseTierBody (coalesce (group m 3) [])\<rparr>)
           (exec_all tierRe [] (snd (stripExprVersion exprStr))))"

text \<open>\<open>lower\<close> is \<open>toLowerCase\<close>. The wide signs are 65309 (equals), 65308 and 65310 (less and greater than);
  8804 and 8805 are the signs for at most and at least.\<close>

definition normalizeTierLabel :: "(jstring \<Rightarrow> jstring) \<Rightarrow> jstring option \<Rightarrow> jstring" where
  "normalizeTierLabel lower label =
     (case label of
        None \<Rightarrow> []
      | Some l \<Rightarrow>
          if l = [] then []
          else let eq = Opt (Chr (\<lambda>u. u = 61 \<or> u = 65309));
                   l1 = replace_all (Alts [Seq (L ''<'') eq, Lit [8804], Seq (Lit [65308]) eq]) (js ''<'') [] l;
                   l2 = replace_all (Alts [Seq (L ''>'') eq, Lit [8805], Seq (Lit [65310]) eq]) (js ''>'') [] l1
               in lower (replace_all (Plus (Chr is_ws)) [] [] l2))"


section \<open>Parsing request rules\<close>

text \<open>The loop of \<open>splitTopLevelMultiply\<close> and \<open>splitTopLevelAnd\<close>: \<open>cur\<close> is the part read so far.\<close>

function split_top :: "jstring \<Rightarrow> int \<Rightarrow> jstring \<Rightarrow> jstring \<Rightarrow> jstring list" where
  "split_top sep depth cur [] = [trim cur]"
| "split_top sep depth cur (u # s) =
     (let depth1 = (if u = 40 then depth + 1 else depth); depth2 = (if u = 41 then depth1 - 1 else depth1)
      in if depth2 = 0 \<and> startsWith (u # s) sep
         then trim cur # split_top sep depth2 [] (drop (length sep - 1) s)
         else split_top sep depth2 (cur @ [u]) s)"
  by pat_completeness auto
termination
  by (relation "measure (\<lambda>(sep, d, cur, s). length s)") auto

definition splitTopLevelMultiply :: "jstring \<Rightarrow> jstring list" where
  "splitTopLevelMultiply expr = filter (\<lambda>p. p \<noteq> []) (split_top (js '' * '') 0 [] expr)"

definition splitTopLevelAnd :: "jstring \<Rightarrow> jstring list" where
  "splitTopLevelAnd expr = filter (\<lambda>p. p \<noteq> []) (split_top (js '' && '') 0 [] expr)"

definition parseExprLiteral :: "jstring \<Rightarrow> json option" where
  "parseExprLiteral raw =
     (let t = trim raw
      in if t = js ''true'' \<or> t = js ''false'' then Some (JStr t)
         else if is_numeric t then Some (JStr t)
         else case json_parse t of Some JNull \<Rightarrow> None | r \<Rightarrow> r)"

text \<open>\<open>fn("zone")\<close> with its groups 1 and 2, and the same again.\<close>

definition time_call :: regex where
  "time_call = Seqs [Group 1 (Alts (map Lit TIME_FUNCS)), L ''(\"'', Group 2 (Plus (Chr (\<lambda>u. u \<noteq> 34))), L ''\")'']"

definition time_range :: regex where
  "time_range = Seqs [time_call, L '' >= '', Group 3 Num, L '' || '', Back 1, L ''(\"'', Back 2, L ''\") < '', Group 4 Num]"

definition time_compare :: regex where
  "time_compare = Seqs [time_call, L '' '', Group 3 (Alts [L ''=='', L ''>='', L ''<'']), L '' '', Group 4 Num]"

definition range_condition :: "rpos \<Rightarrow> request_condition" where
  "range_condition m = TimeCondition \<lparr>tc_timeFunc = coalesce (group m 1) [], tc_timezone = coalesce (group m 2) [],
     tc_mode = js ''range'', tc_value = [], tc_rangeStart = coalesce (group m 3) [],
     tc_rangeEnd = coalesce (group m 4) []\<rparr>"

definition time_mode :: "jstring \<Rightarrow> jstring" where
  "time_mode op = (if op = js ''>='' then js ''gte'' else if op = js ''<'' then js ''lt'' else js ''eq'')"

definition tryParseTimeCondition :: "jstring \<Rightarrow> request_condition option" where
  "tryParseTimeCondition expr =
     (case full_match time_range expr of
        Some m \<Rightarrow> Some (range_condition m)
      | None \<Rightarrow>
      (case full_match (Seqs [L ''('', time_range, L '')'']) expr of
        Some m \<Rightarrow> Some (range_condition m)
      | None \<Rightarrow>
      (case full_match time_compare expr of
        Some m \<Rightarrow> Some (TimeCondition \<lparr>tc_timeFunc = coalesce (group m 1) [], tc_timezone = coalesce (group m 2) [],
          tc_mode = time_mode (coalesce (group m 3) []), tc_value = coalesce (group m 4) [], tc_rangeStart = [],
          tc_rangeEnd = []\<rparr>)
      | None \<Rightarrow> None)))"

definition not_quote :: regex where
  "not_quote = Plus (Chr (\<lambda>u. u \<noteq> 34))"

definition line_unit :: "nat \<Rightarrow> bool" where
  "line_unit u \<longleftrightarrow> u \<noteq> 10 \<and> u \<noteq> 13 \<and> u \<noteq> 8232 \<and> u \<noteq> 8233"

text \<open>The class \<open>"(?:[^"\\]|\\.)*"\<close> of quoted texts.\<close>

definition quoted :: regex where
  "quoted = Seqs [Lit [34], Star (Alt (Chr (\<lambda>u. u \<noteq> 34 \<and> u \<noteq> 92)) (Seq (Lit [92]) (Chr line_unit))), Lit [34]]"

definition ph :: "string \<Rightarrow> rpos \<Rightarrow> string \<Rightarrow> jstring \<Rightarrow> request_condition" where
  "ph src m mode v = ParamHeaderCondition
     \<lparr>ph_source = js src, ph_path = coalesce (group m 1) [], ph_mode = js mode, ph_value = v\<rparr>"

text \<open>\<open>JSON.parse(m[i])\<close>, which may throw.\<close>

definition parsed_group :: "rpos \<Rightarrow> nat \<Rightarrow> jstring option" where
  "parsed_group m i = (case json_parse (coalesce (group m i) []) of Some (JStr s) \<Rightarrow> Some s | _ \<Rightarrow> None)"

definition header_exists_re :: regex where
  "header_exists_re = Seqs [L ''header(\"'', Group 1 not_quote, L ''\") != \"\"'']"

definition param_exists_re :: regex where
  "param_exists_re = Seqs [L ''param(\"'', Group 1 not_quote, L ''\") != nil'']"

definition header_contains_re :: regex where
  "header_contains_re = Seqs [L ''has(header(\"'', Group 1 not_quote, L ''\"), '', Group 2 quoted, L '')'']"

definition param_contains_re :: regex where
  "param_contains_re = Seqs [L ''param(\"'', Group 1 not_quote, L ''\") != nil && has(param(\"'', Group 2 not_quote,
     L ''\"), '', Group 3 quoted, L '')'']"

definition param_compare_re :: regex where
  "param_compare_re = Seqs [L ''param(\"'', Group 1 not_quote, L ''\") != nil && param(\"'', Group 2 not_quote,
     L ''\") '', Group 3 (Alts [L ''>'', L ''>='', L ''<'', L ''<='']), L '' '', Group 4 Num]"

definition equals_re :: regex where
  "equals_re = Seqs [Group 1 (Alts [L ''param'', L ''header'']), L ''(\"'', Group 2 not_quote, L ''\") == '',
     Group 3 (Plus (Chr line_unit))]"

definition compare_mode :: "jstring \<Rightarrow> string" where
  "compare_mode op = (if op = js ''>'' then ''gt'' else if op = js ''>='' then ''gte''
     else if op = js ''<'' then ''lt'' else ''lte'')"

definition same_groups :: "rpos option \<Rightarrow> rpos option" where
  "same_groups mo = (case mo of Some m \<Rightarrow> if group m 1 = group m 2 then Some m else None | None \<Rightarrow> None)"

definition tryParseRequestCondition :: "(rat \<Rightarrow> jstring) \<Rightarrow> jstring \<Rightarrow> request_condition option option" where
  "tryParseRequestCondition ni expr =
     (case tryParseTimeCondition expr of
        Some tc \<Rightarrow> Some (Some tc)
      | None \<Rightarrow>
      (case full_match header_exists_re expr of
        Some m \<Rightarrow> Some (Some (ph ''header'' m ''exists'' []))
      | None \<Rightarrow>
      (case full_match param_exists_re expr of
        Some m \<Rightarrow> Some (Some (ph ''param'' m ''exists'' []))
      | None \<Rightarrow>
      (case full_match header_contains_re expr of
        Some m \<Rightarrow> map_option (\<lambda>v. Some (ph ''header'' m ''contains'' v)) (parsed_group m 2)
      | None \<Rightarrow>
      (case same_groups (full_match param_contains_re expr) of
        Some m \<Rightarrow> map_option (\<lambda>v. Some (ph ''param'' m ''contains'' v)) (parsed_group m 3)
      | None \<Rightarrow>
      (case same_groups (full_match param_compare_re expr) of
        Some m \<Rightarrow> Some (Some (ph ''param'' m (compare_mode (coalesce (group m 3) [])) (coalesce (group m 4) [])))
      | None \<Rightarrow>
      (case full_match equals_re expr of
        Some m \<Rightarrow>
          (case parseExprLiteral (coalesce (group m 3) []) of
             None \<Rightarrow> Some None
           | Some v \<Rightarrow> Some (Some (ParamHeaderCondition \<lparr>ph_source = coalesce (group m 1) [],
               ph_path = coalesce (group m 2) [], ph_mode = js ''eq'', ph_value = js_to_string ni v\<rparr>)))
      | None \<Rightarrow> Some None)))))))"

fun parse_parts :: "(jstring \<Rightarrow> 'a option option) \<Rightarrow> jstring list \<Rightarrow> 'a list option option" where
  "parse_parts f [] = Some (Some [])"
| "parse_parts f (p # ps) =
     (case f p of
        None \<Rightarrow> None
      | Some None \<Rightarrow> Some None
      | Some (Some c) \<Rightarrow> map_option (map_option (\<lambda>cs. c # cs)) (parse_parts f ps))"

definition tryParseRequestConditions :: "(rat \<Rightarrow> jstring) \<Rightarrow> jstring \<Rightarrow> request_condition list option option" where
  "tryParseRequestConditions ni conditionStr =
     (case parse_parts (\<lambda>part. tryParseRequestCondition ni (trim part)) (splitTopLevelAnd conditionStr) of
        Some (Some []) \<Rightarrow> Some None
      | r \<Rightarrow> r)"

definition rule_factor_re :: regex where
  "rule_factor_re = Seqs [L ''('', Group 1 (Plus (Chr (\<lambda>_. True))), L '' ? '', Group 2 Num, L '' : 1)'']"

definition tryParseRuleGroupFactor :: "(rat \<Rightarrow> jstring) \<Rightarrow> jstring \<Rightarrow> rule_group option option" where
  "tryParseRuleGroupFactor ni part =
     (case full_match rule_factor_re part of
        None \<Rightarrow> Some None
      | Some m \<Rightarrow>
          map_option (map_option (\<lambda>cs. \<lparr>rg_conditions = cs, rg_multiplier = coalesce (group m 2) [],
              rg_conditionText = None, rg_matched = None\<rparr>))
            (tryParseRequestConditions ni (coalesce (group m 1) [])))"

definition requestRuleGroupsFromTrace :: "(rat \<Rightarrow> jstring) \<Rightarrow> rule_trace list \<Rightarrow> rule_group list option" where
  "requestRuleGroupsFromTrace ni requestRules =
     those (map (\<lambda>rule.
       let conditionText = trim (rt_cond rule)
       in map_option (\<lambda>cs. \<lparr>rg_conditions = coalesce cs [], rg_multiplier = num_str ni (rt_multiplier rule),
              rg_conditionText = Some conditionText, rg_matched = Some (rt_matched rule)\<rparr>)
            (tryParseRequestConditions ni conditionText)) requestRules)"

definition tryParseRequestRuleExpr :: "(rat \<Rightarrow> jstring) \<Rightarrow> jstring \<Rightarrow> rule_group list option option" where
  "tryParseRequestRuleExpr ni expr =
     (let trimmed = trim expr
      in if trimmed = [] then Some (Some [])
         else parse_parts (tryParseRuleGroupFactor ni) (splitTopLevelMultiply trimmed))"


section \<open>Splitting and combining\<close>

text \<open>The loop of \<open>hasFullOuterParens\<close>: no proper prefix closes every parenthesis.\<close>

fun outer_loop :: "int \<Rightarrow> jstring \<Rightarrow> bool" where
  "outer_loop depth [] = (depth = 0)"
| "outer_loop depth (u # s) =
     (let depth1 = (if u = 40 then depth + 1 else depth); depth2 = (if u = 41 then depth1 - 1 else depth1)
      in if depth2 = 0 \<and> s \<noteq> [] then False else outer_loop depth2 s)"

definition hasFullOuterParens :: "jstring \<Rightarrow> bool" where
  "hasFullOuterParens expr \<longleftrightarrow> startsWith expr (js ''('') \<and> endsWith expr (js '')'') \<and> outer_loop 0 expr"

text \<open>\<open>current.slice(1, -1)\<close>.\<close>

definition inner :: "jstring \<Rightarrow> jstring" where
  "inner s = butlast (tl s)"

lemma length_trim: "length (trim s) \<le> length s"
  by (simp add: trim_def trimStart_def trimEnd_def) (metis length_dropWhile_le length_rev order_trans)

lemma outer_nonempty: "hasFullOuterParens s \<Longrightarrow> s \<noteq> []"
  by (auto simp: hasFullOuterParens_def startsWith_def)

function unwrap_loop :: "jstring \<Rightarrow> jstring" where
  "unwrap_loop current = (if hasFullOuterParens current then unwrap_loop (trim (inner current)) else current)"
  by pat_completeness auto
termination
proof (relation "measure length")
  fix s assume "hasFullOuterParens s"
  then have "s \<noteq> []" by (rule outer_nonempty)
  then have "length (inner s) < length s" by (cases s) (auto simp: inner_def)
  then show "(trim (inner s), s) \<in> measure length" using length_trim [of "inner s"] by simp
qed simp

declare unwrap_loop.simps [simp del]

definition unwrapOuterParens :: "jstring \<Rightarrow> jstring" where
  "unwrapOuterParens expr = unwrap_loop (trim expr)"

record split_expr =
  sx_billingExpr :: jstring
  sx_requestRuleExpr :: jstring

text \<open>Which parts are rules; \<open>None\<close> if a part throws.\<close>

definition is_rule_part :: "(rat \<Rightarrow> jstring) \<Rightarrow> jstring \<Rightarrow> bool option" where
  "is_rule_part ni part =
     (case tryParseRequestRuleExpr ni part of
        None \<Rightarrow> None
      | Some None \<Rightarrow> Some False
      | Some (Some gs) \<Rightarrow> Some (gs \<noteq> []))"

definition splitBillingExprAndRequestRules :: "(rat \<Rightarrow> jstring) \<Rightarrow> jstring \<Rightarrow> split_expr option" where
  "splitBillingExprAndRequestRules ni expr =
     (let trimmed = trim expr
      in if trimmed = [] then Some \<lparr>sx_billingExpr = [], sx_requestRuleExpr = []\<rparr>
         else let parts = splitTopLevelMultiply trimmed
              in if length parts \<le> 1 then Some \<lparr>sx_billingExpr = trimmed, sx_requestRuleExpr = []\<rparr>
                 else (case those (map (is_rule_part ni) parts) of
                         None \<Rightarrow> None
                       | Some flags \<Rightarrow>
                           let ruleParts = map fst (filter snd (zip parts flags));
                               baseParts = map fst (filter (\<lambda>x. \<not> snd x) (zip parts flags))
                           in if ruleParts = [] \<or> length baseParts \<noteq> 1
                              then Some \<lparr>sx_billingExpr = trimmed, sx_requestRuleExpr = []\<rparr>
                              else Some \<lparr>sx_billingExpr = unwrapOuterParens (hd baseParts),
                                         sx_requestRuleExpr = join (js '' * '') ruleParts\<rparr>))"

definition combineBillingExpr :: "jstring \<Rightarrow> jstring \<Rightarrow> jstring" where
  "combineBillingExpr baseExpr requestRuleExpr =
     (let base = trim baseExpr; rules = trim requestRuleExpr
      in if base = [] then [] else if rules = [] then base else js ''('' @ base @ js '') * '' @ rules)"


section \<open>The editor: normalising and printing rules\<close>

definition createEmptyCondition :: param_header_condition where
  "createEmptyCondition = \<lparr>ph_source = js ''param'', ph_path = [], ph_mode = js ''eq'', ph_value = []\<rparr>"

definition createEmptyTimeCondition :: time_condition where
  "createEmptyTimeCondition = \<lparr>tc_timeFunc = js ''hour'', tc_timezone = js ''Asia/Shanghai'', tc_mode = js ''gte'',
     tc_value = [], tc_rangeStart = [], tc_rangeEnd = []\<rparr>"

definition createEmptyRuleGroup :: rule_group where
  "createEmptyRuleGroup = \<lparr>rg_conditions = [ParamHeaderCondition createEmptyCondition], rg_multiplier = [],
     rg_conditionText = None, rg_matched = None\<rparr>"

definition createEmptyTimeRuleGroup :: rule_group where
  "createEmptyTimeRuleGroup = \<lparr>rg_conditions = [TimeCondition createEmptyTimeCondition], rg_multiplier = [],
     rg_conditionText = None, rg_matched = None\<rparr>"

text \<open>Pairs of \<open>value\<close> and \<open>labelKey\<close>.\<close>

definition getRequestRuleMatchOptions :: "jstring \<Rightarrow> (jstring \<times> jstring) list" where
  "getRequestRuleMatchOptions src =
     (if src = js ''time''
      then [(js ''eq'', js ''Equals''), (js ''gte'', js ''Greater than or equal''), (js ''lt'', js ''Less than''),
            (js ''range'', js ''Overnight range'')]
      else let base = [(js ''eq'', js ''Equals''), (js ''contains'', js ''Contains''), (js ''exists'', js ''Exists'')]
           in if src = js ''header'' then base
              else base @ [(js ''gt'', js ''Greater than''), (js ''gte'', js ''Greater than or equal''),
                           (js ''lt'', js ''Less than''), (js ''lte'', js ''Less than or equal'')])"

definition isTimeFunc :: "jstring option \<Rightarrow> bool" where
  "isTimeFunc v = (case v of Some s \<Rightarrow> s \<in> set TIME_FUNCS | None \<Rightarrow> False)"

text \<open>\<open>Partial<RequestCondition>\<close>: every property may be missing.\<close>

record partial_condition =
  pn_source :: "jstring option"
  pn_timeFunc :: "jstring option"
  pn_timezone :: "jstring option"
  pn_path :: "jstring option"
  pn_mode :: "jstring option"
  pn_value :: "jstring option"
  pn_rangeStart :: "jstring option"
  pn_rangeEnd :: "jstring option"

fun partial_of :: "request_condition \<Rightarrow> partial_condition" where
  "partial_of (TimeCondition c) = \<lparr>pn_source = Some (js ''time''), pn_timeFunc = Some (tc_timeFunc c),
     pn_timezone = Some (tc_timezone c), pn_path = None, pn_mode = Some (tc_mode c), pn_value = Some (tc_value c),
     pn_rangeStart = Some (tc_rangeStart c), pn_rangeEnd = Some (tc_rangeEnd c)\<rparr>"
| "partial_of (ParamHeaderCondition c) = \<lparr>pn_source = Some (ph_source c), pn_timeFunc = None,
     pn_timezone = None, pn_path = Some (ph_path c), pn_mode = Some (ph_mode c), pn_value = Some (ph_value c),
     pn_rangeStart = None, pn_rangeEnd = None\<rparr>"

definition allowed_mode :: "jstring \<Rightarrow> jstring option \<Rightarrow> jstring \<Rightarrow> jstring" where
  "allowed_mode src mode dflt =
     (case mode of
        Some m \<Rightarrow> if m \<in> fst ` set (getRequestRuleMatchOptions src) then m else dflt
      | None \<Rightarrow> dflt)"

definition normalizeCondition :: "partial_condition option \<Rightarrow> request_condition" where
  "normalizeCondition cond =
     (let get = (\<lambda>f. Option.bind cond f);
          source = (if get pn_source = Some (js ''time'') then js ''time''
                    else if get pn_source = Some (js ''header'') then js ''header'' else js ''param'')
      in if source = js ''time''
         then TimeCondition \<lparr>tc_timeFunc = (if isTimeFunc (get pn_timeFunc) then the (get pn_timeFunc) else js ''hour''),
                tc_timezone = (if coalesce (get pn_timezone) [] = [] then js ''Asia/Shanghai'' else the (get pn_timezone)),
                tc_mode = allowed_mode (js ''time'') (get pn_mode) (js ''gte''),
                tc_value = coalesce (get pn_value) [], tc_rangeStart = coalesce (get pn_rangeStart) [],
                tc_rangeEnd = coalesce (get pn_rangeEnd) []\<rparr>
         else ParamHeaderCondition \<lparr>ph_source = source, ph_path = coalesce (get pn_path) [],
                ph_mode = allowed_mode source (get pn_mode) (js ''eq''), ph_value = coalesce (get pn_value) []\<rparr>)"

definition buildExprLiteral :: "jstring \<Rightarrow> jstring \<Rightarrow> jstring" where
  "buildExprLiteral mode v =
     (let t = trim v
      in if mode = js ''contains'' then json_quote t
         else if t = js ''true'' \<or> t = js ''false'' then t
         else if is_numeric t then t
         else json_quote t)"

definition buildTimeConditionExpr :: "time_condition \<Rightarrow> jstring" where
  "buildTimeConditionExpr cond =
     (case normalizeCondition (Some (partial_of (TimeCondition cond))) of
        TimeCondition n \<Rightarrow>
          (let fn = tc_timeFunc n @ js ''('' @ json_quote (tc_timezone n) @ js '')''
           in if tc_mode n = js ''range''
              then let s = trim (tc_rangeStart n); e = trim (tc_rangeEnd n)
                   in if \<not> is_numeric s \<or> \<not> is_numeric e then []
                      else fn @ js '' >= '' @ s @ js '' || '' @ fn @ js '' < '' @ e
              else let v = trim (tc_value n)
                   in if \<not> is_numeric v then []
                      else fn @ js '' '' @
                        (if tc_mode n = js ''gte'' then js ''>='' else if tc_mode n = js ''lt'' then js ''<'' else js ''=='') @
                        js '' '' @ v)
      | _ \<Rightarrow> [])"

definition compare_op :: "jstring \<Rightarrow> jstring" where
  "compare_op mode = (if mode = js ''gt'' then js ''>'' else if mode = js ''gte'' then js ''>=''
     else if mode = js ''lt'' then js ''<'' else js ''<='')"

definition buildRequestConditionExpr :: "request_condition \<Rightarrow> jstring" where
  "buildRequestConditionExpr cond =
     (case cond of
        TimeCondition c \<Rightarrow> buildTimeConditionExpr c
      | ParamHeaderCondition c \<Rightarrow>
          (case normalizeCondition (Some (partial_of cond)) of
             ParamHeaderCondition n \<Rightarrow>
               (let path = trim (ph_path n); header = (ph_source n = js ''header'');
                    sourceExpr = (if header then js ''header('' else js ''param('') @ json_quote path @ js '')'';
                    mode = ph_mode n
                in if path = [] then []
                   else if mode = js ''exists''
                   then sourceExpr @ (if header then js '' != \"\"'' else js '' != nil'')
                   else if mode = js ''contains''
                   then (if header then [] else sourceExpr @ js '' != nil && '') @
                        js ''has('' @ sourceExpr @ js '', '' @ buildExprLiteral mode (ph_value n) @ js '')''
                   else if mode \<in> {js ''gt'', js ''gte'', js ''lt'', js ''lte''}
                   then let numText = trim (ph_value n)
                        in if \<not> is_numeric numText then []
                           else sourceExpr @ js '' != nil && '' @ sourceExpr @ js '' '' @ compare_op mode @ js '' '' @ numText
                   else sourceExpr @ js '' == '' @ buildExprLiteral mode (ph_value n))
           | _ \<Rightarrow> []))"

definition buildRuleGroupFactor :: "rule_group \<Rightarrow> jstring" where
  "buildRuleGroupFactor g =
     (let multiplier = trim (rg_multiplier g);
          condExprs = filter (\<lambda>e. e \<noteq> []) (map buildRequestConditionExpr (rg_conditions g))
      in if \<not> is_numeric multiplier then []
         else if condExprs = [] then []
         else let combined = (if length condExprs = 1 then hd condExprs
                    else join (js '' && '')
                      (map (\<lambda>e. if js_includes e (js '' || '') then js ''('' @ e @ js '')'' else e) condExprs))
              in js ''('' @ combined @ js '' ? '' @ multiplier @ js '' : 1)'')"

definition buildRequestRuleExpr :: "rule_group list \<Rightarrow> jstring" where
  "buildRequestRuleExpr gs =
     join (js '' * '') (filter (\<lambda>f. f \<noteq> []) (map buildRuleGroupFactor gs))"

end
