(* ===== verification/TierExpr.thy ===== *)
theory TierExpr
  imports BillingExpr
begin

text \<open>
  \<open>features/pricing/lib/tier-expr.ts\<close>: the tiers of the visual price editor, the expression they are
  printed to, and the parser that recognises such an expression. A tier holds the properties the
  source declares; other properties are carried along by the source and ignored here. A number that
  may be \<open>NaN\<close> is a \<open>rat option\<close>. The local evaluation of an expression (\<open>evalExprLocally\<close>) runs the
  text as a program: it is the parameter \<open>run\<close>.
\<close>

section \<open>Tiers\<close>

datatype cache_mode = CACHE_MODE_TIMED | CACHE_MODE_GENERIC

datatype cond_value =
    CNum "rat option"
  | CStr jstring

record tier_cond_input =
  ti_var :: jstring
  ti_op :: jstring
  ti_value :: cond_value

record visual_tier =
  vt_label :: jstring
  vt_conditions :: "tier_cond_input list"
  vt_input :: "rat option"
  vt_output :: "rat option"
  vt_cache_mode :: cache_mode
  vt_extra :: "rat list"

text \<open>\<open>vt_extra\<close> holds the seven optional costs in the order of \<open>BILLING_CACHE_VAR_MAP\<close>. In a \<open>Partial<VisualTier>\<close>
  every property may be missing, and a cost may be \<open>NaN\<close>.\<close>

record partial_tier =
  qt_label :: "jstring option"
  qt_conditions :: "tier_cond_input list option"
  qt_input :: "rat option option"
  qt_output :: "rat option option"
  qt_cache_mode :: "cache_mode option"
  qt_extra :: "rat option option list"

type_synonym visual_config = "visual_tier list"

text \<open>\<open>Number(x) || 0\<close>.\<close>

definition num_or_zero :: "rat option option \<Rightarrow> rat" where
  "num_or_zero v = (case v of Some (Some q) \<Rightarrow> q | _ \<Rightarrow> 0)"

definition extra_index :: "string \<Rightarrow> nat" where
  "extra_index v = length (takeWhile (\<lambda>x. snd x \<noteq> js v) BILLING_CACHE_VAR_MAP)"

definition getTierCacheMode :: "partial_tier \<Rightarrow> cache_mode" where
  "getTierCacheMode tier =
     (case qt_cache_mode tier of
        Some m \<Rightarrow> m
      | None \<Rightarrow> if num_or_zero (qt_extra tier ! extra_index ''cc1h'') > 0 then CACHE_MODE_TIMED else CACHE_MODE_GENERIC)"

text \<open>A property of the argument wins over the default before the spread; the optional costs are
  converted after it.\<close>

definition normalizeVisualTier :: "partial_tier \<Rightarrow> visual_tier" where
  "normalizeVisualTier tier =
     \<lparr>vt_label = coalesce (qt_label tier) [], vt_conditions = coalesce (qt_conditions tier) [],
      vt_input = coalesce (qt_input tier) (Some 0), vt_output = coalesce (qt_output tier) (Some 0),
      vt_cache_mode = getTierCacheMode tier, vt_extra = map num_or_zero (qt_extra tier)\<rparr>"

definition tier_partial :: "visual_tier \<Rightarrow> partial_tier" where
  "tier_partial t = \<lparr>qt_label = Some (vt_label t), qt_conditions = Some (vt_conditions t), qt_input = Some (vt_input t),
     qt_output = Some (vt_output t), qt_cache_mode = Some (vt_cache_mode t),
     qt_extra = map (\<lambda>q. Some (Some q)) (vt_extra t)\<rparr>"

definition createDefaultVisualConfig :: visual_config where
  "createDefaultVisualConfig =
     [normalizeVisualTier \<lparr>qt_label = Some (js ''base''), qt_conditions = Some [], qt_input = Some (Some 0),
        qt_output = Some (Some 0), qt_cache_mode = Some CACHE_MODE_GENERIC,
        qt_extra = map (\<lambda>_. None) BILLING_CACHE_VAR_MAP\<rparr>]"

definition normalizeVisualConfig :: "visual_config option \<Rightarrow> visual_config" where
  "normalizeVisualConfig config =
     (case config of
        None \<Rightarrow> createDefaultVisualConfig
      | Some tiers \<Rightarrow> if tiers = [] then createDefaultVisualConfig
                     else map (\<lambda>t. normalizeVisualTier (tier_partial t)) tiers)"


section \<open>Printing\<close>

definition num_text_of :: "(rat \<Rightarrow> jstring) \<Rightarrow> rat option \<Rightarrow> jstring" where
  "num_text_of ni q = (case q of Some x \<Rightarrow> num_str ni x | None \<Rightarrow> js ''NaN'')"

fun cond_value_text :: "(rat \<Rightarrow> jstring) \<Rightarrow> cond_value \<Rightarrow> jstring" where
  "cond_value_text ni (CNum q) = num_text_of ni q"
| "cond_value_text ni (CStr s) = s"

definition buildConditionStr :: "(rat \<Rightarrow> jstring) \<Rightarrow> tier_cond_input list \<Rightarrow> jstring" where
  "buildConditionStr ni conditions =
     join (js '' && '')
       (map (\<lambda>c. ti_var c @ js '' '' @ ti_op c @ js '' '' @ cond_value_text ni (ti_value c))
         (filter (\<lambda>c. ti_var c \<noteq> [] \<and> ti_op c \<noteq> [] \<and> ti_value c \<noteq> CStr []) conditions))"

definition buildTierBodyExpr :: "(rat \<Rightarrow> jstring) \<Rightarrow> visual_tier \<Rightarrow> jstring" where
  "buildTierBodyExpr ni tier =
     join (js '' + '')
       ([js ''p * '' @ num_str ni (num_or_zero (Some (vt_input tier))),
         js ''c * '' @ num_str ni (num_or_zero (Some (vt_output tier)))] @
        map (\<lambda>((field, exprVar), v). exprVar @ js '' * '' @ num_str ni v)
          (filter (\<lambda>(cv, v). v \<noteq> 0) (zip BILLING_CACHE_VAR_MAP (vt_extra tier))))"

definition tier_text :: "(rat \<Rightarrow> jstring) \<Rightarrow> jstring \<Rightarrow> visual_tier \<Rightarrow> jstring" where
  "tier_text ni label tier = js ''tier(\"'' @ label @ js ''\", '' @ buildTierBodyExpr ni tier @ js '')''"

text \<open>The parts of the loop from index \<open>i\<close> on; the condition of the last tier is left out.\<close>

fun tier_parts :: "(rat \<Rightarrow> jstring) \<Rightarrow> nat \<Rightarrow> visual_tier list \<Rightarrow> jstring list" where
  "tier_parts ni i [] = []"
| "tier_parts ni i (tier # tiers) =
     (let label = (if vt_label tier = [] then js ''tier_'' @ show_nat (i + 1) else vt_label tier);
          body = tier_text ni label tier; cond = buildConditionStr ni (vt_conditions tier)
      in (if tiers \<noteq> [] \<and> cond \<noteq> [] then cond @ js '' ? '' @ body else body) # tier_parts ni (i + 1) tiers)"

definition generateExprFromVisualConfig :: "(rat \<Rightarrow> jstring) \<Rightarrow> visual_config option \<Rightarrow> jstring" where
  "generateExprFromVisualConfig ni config =
     (case config of
        None \<Rightarrow> js ''p * 0 + c * 0''
      | Some [] \<Rightarrow> js ''p * 0 + c * 0''
      | Some [tier] \<Rightarrow>
          let label = (if vt_label tier = [] then js ''default'' else vt_label tier);
              body = tier_text ni label tier; cond = buildConditionStr ni (vt_conditions tier)
          in if cond \<noteq> [] then cond @ js '' ? '' @ body @ js '' : p * 0 + c * 0'' else body
      | Some tiers \<Rightarrow> join (js '' : '') (tier_parts ni 0 tiers))"


section \<open>Parsing\<close>

definition cost_group :: "nat \<Rightarrow> jstring \<Rightarrow> regex" where
  "cost_group i v = Opt (Seqs [Ws, L ''+'', Ws, Lit v, Ws, L ''*'', Ws, Group i Num])"

fun cost_groups :: "nat \<Rightarrow> jstring list \<Rightarrow> regex list" where
  "cost_groups i [] = []"
| "cost_groups i (v # vs) = cost_group i v # cost_groups (i + 1) vs"

definition bodyPat :: "nat \<Rightarrow> regex" where
  "bodyPat k = Seqs ([L ''p'', Ws, L ''*'', Ws, Group k Num, Ws, L ''+'', Ws, L ''c'', Ws, L ''*'', Ws, Group (k + 1) Num] @
     cost_groups (k + 2) (map snd BILLING_CACHE_VAR_MAP))"

definition singleRe :: regex where
  "singleRe = Seqs [L ''tier(\"'', Group 1 (Star (Chr (\<lambda>u. u \<noteq> 34))), L ''\",'', Ws, bodyPat 2, L '')'']"

definition visualTierRe :: regex where
  "visualTierRe = Seqs [Opt (Seqs [Group 1 condGroup, Ws, L ''?'', Ws]), L ''tier(\"'', Group 2 (Star (Chr (\<lambda>u. u \<noteq> 34))),
     L ''\",'', Ws, bodyPat 3, L '')'']"

definition group_number :: "rpos \<Rightarrow> nat \<Rightarrow> rat option" where
  "group_number m i = string_to_number (coalesce (group m i) [])"

definition tier_of_match :: "rpos \<Rightarrow> nat \<Rightarrow> tier_cond_input list \<Rightarrow> visual_tier" where
  "tier_of_match m k conditions = normalizeVisualTier
     \<lparr>qt_label = Some (coalesce (group m (k - 1)) []), qt_conditions = Some conditions,
      qt_input = Some (group_number m k), qt_output = Some (group_number m (k + 1)), qt_cache_mode = None,
      qt_extra = map (\<lambda>i. case group m (k + 2 + i) of None \<Rightarrow> None | Some s \<Rightarrow> Some (string_to_number s))
        [0..<length BILLING_CACHE_VAR_MAP]\<rparr>"

definition input_condition :: "tier_condition \<Rightarrow> tier_cond_input" where
  "input_condition c = \<lparr>ti_var = tcn_var c, ti_op = tcn_op c, ti_value = CNum (tcn_value c)\<rparr>"

definition strip_version :: "jstring \<Rightarrow> jstring" where
  "strip_version s =
     (case full_match (Seqs [L ''v'', Plus (Chr is_digit), L '':'', Group 1 (Star (Chr (\<lambda>_. True)))]) s of
        Some m \<Rightarrow> coalesce (group m 1) []
      | None \<Rightarrow> s)"

definition strip_space :: "jstring \<Rightarrow> jstring" where
  "strip_space s = replace_all (Plus (Chr is_ws)) [] [] s"

definition tryParseVisualConfig :: "(rat \<Rightarrow> jstring) \<Rightarrow> jstring option \<Rightarrow> visual_config option" where
  "tryParseVisualConfig ni exprStr =
     (case exprStr of
        None \<Rightarrow> None
      | Some [] \<Rightarrow> None
      | Some e \<Rightarrow>
          let body = strip_version e
          in (case full_match singleRe body of
                Some simple \<Rightarrow> Some (normalizeVisualConfig (Some [tier_of_match simple 2 []]))
              | None \<Rightarrow>
                  let tiers = map (\<lambda>(p, m). tier_of_match m 3
                        (map input_condition (parse_tier_conditions (coalesce (group m 1) []))))
                        (exec_all visualTierRe [] body)
                  in if tiers = [] then None
                     else let cfg = normalizeVisualConfig (Some tiers);
                              regenerated = generateExprFromVisualConfig ni (Some cfg)
                          in if strip_space regenerated \<noteq> strip_space body then None else Some cfg))"


section \<open>The estimator\<close>

definition ESTIMATOR_VARS :: "(jstring \<times> jstring) list" where
  "ESTIMATOR_VARS = [(js ''cr'', js ''cacheReadTokens''), (js ''cc'', js ''cacheCreateTokens''),
     (js ''cc1h'', js ''cacheCreate1hTokens''), (js ''img'', js ''imageTokens''), (js ''img_o'', js ''imageOutputTokens''),
     (js ''ai'', js ''audioInputTokens''), (js ''ao'', js ''audioOutputTokens'')]"

record eval_result =
  er_cost :: rat
  er_matchedTier :: jstring
  er_error :: "jstring option"

text \<open>\<open>run expr env\<close> evaluates the text: \<open>Inl\<close> is the message of an exception, \<open>Inr\<close> the value as a number
  (\<open>None\<close> for \<open>NaN\<close>) with the name of the tier that was called last.\<close>

definition evalExprLocally ::
  "(jstring \<Rightarrow> rat jobj \<Rightarrow> jstring + rat option \<times> jstring) \<Rightarrow> jstring \<Rightarrow> rat \<Rightarrow> rat \<Rightarrow> rat jobj \<Rightarrow> eval_result" where
  "evalExprLocally run exprStr promptTokens completionTokens extraTokenValues =
     (if trim exprStr = [] then \<lparr>er_cost = 0, er_matchedTier = [], er_error = None\<rparr>
      else let tok = (\<lambda>k. coalesce (obj_get extraTokenValues (js k)) 0);
               len = promptTokens + tok ''cacheReadTokens'' + tok ''cacheCreateTokens'' + tok ''cacheCreate1hTokens'';
               env = [(js ''p'', promptTokens), (js ''c'', completionTokens), (js ''len'', len)] @
                 map (\<lambda>(v, k). (v, coalesce (obj_get extraTokenValues k) 0)) ESTIMATOR_VARS
           in (case run exprStr env of
                 Inl message \<Rightarrow> \<lparr>er_cost = 0, er_matchedTier = [], er_error = Some message\<rparr>
               | Inr (cost, matchedTier) \<Rightarrow>
                   \<lparr>er_cost = coalesce cost 0, er_matchedTier = matchedTier, er_error = None\<rparr>))"

definition exprUsesExtraVars :: "jstring \<Rightarrow> bool" where
  "exprUsesExtraVars exprStr \<longleftrightarrow>
     exprStr \<noteq> [] \<and> search (Seqs [WordB, Alts (map (\<lambda>x. Lit (fst x)) ESTIMATOR_VARS), WordB]) [] exprStr \<noteq> None"

end
