(* ===== verification/BillingRules.thy ===== *)
theory BillingRules
  imports BillingExpr
begin

text \<open>
  What the printer and the parser of request rules promise each other: rules in the editor's normal
  form are printed to a text that parses back to them, and an expression combined with its rules is
  split into the same parts. Two kinds of conditions are outside, and shown to be: comparisons and
  containment on parameters are printed as a conjunction, which the parser takes apart.
\<close>

section \<open>Parentheses\<close>

definition dstep :: "int \<Rightarrow> nat \<Rightarrow> int" where
  "dstep d u = (if u = 40 then d + 1 else if u = 41 then d - 1 else d)"

definition dep :: "int \<Rightarrow> jstring \<Rightarrow> int" where
  "dep d w = foldl dstep d w"

fun never :: "jstring \<Rightarrow> int \<Rightarrow> jstring \<Rightarrow> jstring \<Rightarrow> bool" where
  "never sep d [] s = True"
| "never sep d (u # w) s = (\<not> (dstep d u = 0 \<and> startsWith (u # w @ s) sep) \<and> never sep (dstep d u) w s)"

fun above :: "int \<Rightarrow> int \<Rightarrow> jstring \<Rightarrow> bool" where
  "above b d [] = True"
| "above b d (u # w) = (b \<le> dstep d u \<and> above b (dstep d u) w)"

text \<open>Balanced: no prefix closes more than it opens, and all is closed at the end.\<close>

definition bal :: "jstring \<Rightarrow> bool" where
  "bal w \<longleftrightarrow> above 0 0 w \<and> dep 0 w = 0"

lemma dep_simps [simp]: "dep d [] = d" "dep d (u # w) = dep (dstep d u) w" "dep d (v @ w) = dep (dep d v) w"
  by (simp_all add: dep_def)

lemma dstep_shift: "dstep (d + k) u = dstep d u + k"
  by (simp add: dstep_def)

lemma dep_shift: "dep (d + k) w = dep d w + k"
  by (induction w arbitrary: d) (simp_all add: dstep_shift)

lemma above_shift: "above (b + k) (d + k) w = above b d w"
  by (induction w arbitrary: d) (simp_all add: dstep_shift)

lemma above_append: "above b d (v @ w) \<longleftrightarrow> above b d v \<and> above b (dep d v) w"
  by (induction v arbitrary: d) simp_all

lemma bal_dep: "bal w \<Longrightarrow> dep d w = d"
  using dep_shift [of 0 d w] by (simp add: bal_def)

lemma bal_above: "bal w \<Longrightarrow> above d d w"
  using above_shift [of 0 d 0 w] by (simp add: bal_def)

lemma above_mono: "above b d w \<Longrightarrow> b' \<le> b \<Longrightarrow> above b' d w"
  by (induction w arbitrary: d) auto

lemma bal_append: "bal v \<Longrightarrow> bal w \<Longrightarrow> bal (v @ w)"
  by (simp add: bal_def above_append)

lemma bal_paren:
  assumes "bal w"
  shows "bal (40 # w @ [41])"
proof -
  have "above 1 1 w" "dep 1 w = 1" using bal_above [OF assms] bal_dep [OF assms] by simp_all
  then show ?thesis by (auto simp: bal_def dstep_def above_append intro: above_mono)
qed

definition no_paren :: "jstring \<Rightarrow> bool" where
  "no_paren w \<longleftrightarrow> 40 \<notin> set w \<and> 41 \<notin> set w"

lemma dep_no_paren: "no_paren w \<Longrightarrow> dep d w = d"
  by (induction w) (auto simp: no_paren_def dstep_def)

lemma above_no_paren: "no_paren w \<Longrightarrow> b \<le> d \<Longrightarrow> above b d w"
  by (induction w) (auto simp: no_paren_def dstep_def)

lemma bal_no_paren: "no_paren w \<Longrightarrow> bal w"
  by (simp add: bal_def dep_no_paren above_no_paren)

lemma bal_call: "bal w \<Longrightarrow> no_paren v \<Longrightarrow> bal (v @ 40 # w @ 41 # s) \<longleftrightarrow> bal s"
proof -
  assume w: "bal w" and v: "no_paren v"
  have p: "bal (v @ 40 # w @ [41])" using bal_append [OF bal_no_paren [OF v] bal_paren [OF w]] by simp
  have "bal (v @ 40 # w @ 41 # s) \<longleftrightarrow> bal ((v @ 40 # w @ [41]) @ s)" by simp
  also have "\<dots> \<longleftrightarrow> bal s"
    using p bal_dep [OF p] unfolding bal_def above_append dep_simps(3) by simp
  finally show ?thesis .
qed


section \<open>Splitting at the top level\<close>

lemma split_top_step:
  "split_top sep d cur (u # s) =
     (if dstep d u = 0 \<and> startsWith (u # s) sep then trim cur # split_top sep (dstep d u) [] (drop (length sep - 1) s)
      else split_top sep (dstep d u) (cur @ [u]) s)"
  by (simp add: dstep_def Let_def)

lemma split_top_skip:
  "never sep d w s \<Longrightarrow> split_top sep d cur (w @ s) = split_top sep (dep d w) (cur @ w) s"
proof (induction w arbitrary: d cur)
  case (Cons u w)
  then have "\<not> (dstep d u = 0 \<and> startsWith (u # w @ s) sep)" by simp
  then have "split_top sep d cur ((u # w) @ s) = split_top sep (dstep d u) (cur @ [u]) (w @ s)"
    unfolding append_Cons by (subst split_top_step) (simp only: if_False)
  also have "\<dots> = split_top sep (dep (dstep d u) w) ((cur @ [u]) @ w) s" using Cons by (intro Cons.IH) simp
  finally show ?case by simp
qed simp

lemma split_top_sep:
  "sep = u # sep' \<Longrightarrow> dstep 0 u = 0 \<Longrightarrow> split_top sep 0 cur (sep @ s) = trim cur # split_top sep 0 [] s"
  by (simp add: split_top_step startsWith_def del: split_top.simps)

text \<open>A list of trimmed texts, none of which is split, is what splitting their join returns.\<close>

lemma split_top_join:
  assumes sep: "sep = u # sep'" "dstep 0 u = 0"
    and parts: "\<forall>p\<in>set ps. trim p = p \<and> dep 0 p = 0 \<and> never sep 0 p [] \<and> (\<forall>s. never sep 0 p (sep @ s))"
    and "ps \<noteq> []"
  shows "split_top sep 0 [] (join sep ps) = ps"
  using assms(4,3)
proof (induction ps rule: list_nonempty_induct)
  case (single p)
  then show ?case using split_top_skip [of sep 0 p "[]" "[]"] by simp
next
  case (cons p ps)
  then obtain q qs where ps: "ps = q # qs" by (cases ps) auto
  have "split_top sep 0 [] (join sep (p # ps)) = split_top sep 0 p (sep @ join sep ps)"
    using cons.prems split_top_skip [of sep 0 p "sep @ join sep ps" "[]"] ps by simp
  also have "\<dots> = trim p # split_top sep 0 [] (join sep ps)" by (rule split_top_sep [OF sep])
  finally show ?case using cons by simp
qed

lemma never_above: "above 1 d w \<Longrightarrow> never sep d w s"
  by (induction w arbitrary: d) auto

lemma never_append: "never sep d (v @ w) s \<longleftrightarrow> never sep d v (w @ s) \<and> never sep (dep d v) w s"
  by (induction v arbitrary: d) auto

text \<open>Inside parentheses nothing is split.\<close>

lemma never_paren:
  assumes "bal w" "sep = c # sep'" "c \<noteq> 40" "c \<noteq> 41"
  shows "never sep 0 (40 # w @ [41]) s"
proof -
  have "above 1 1 w" "dep 1 w = 1" using bal_above [OF assms(1)] bal_dep [OF assms(1)] by simp_all
  then have "never sep 1 w ([41] @ s)" "dep 1 w = 1" by (simp_all add: never_above)
  then show ?thesis using assms(2-4) by (simp add: never_append dstep_def startsWith_def)
qed

text \<open>A text without the second unit of the separator that does not end with its first is not split.\<close>

lemma never_unit:
  assumes "c2 \<notin> set w" "w = [] \<or> last w \<noteq> c1"
  shows "never (c1 # c2 # sep) d w s"
  using assms
proof (induction w arbitrary: d)
  case (Cons u w)
  have "\<not> startsWith (u # w @ s) (c1 # c2 # sep)"
    using Cons.prems by (cases w) (auto simp: startsWith_def)
  moreover have "never (c1 # c2 # sep) (dstep d u) w s"
    using Cons.prems by (intro Cons.IH) (auto split: if_splits)
  ultimately show ?case by simp
qed simp


section \<open>Texts and numbers\<close>

text \<open>Units that are printed unchanged and are neither a parenthesis, an ampersand,
  a bar nor a line end.\<close>

definition plain :: "nat \<Rightarrow> bool" where
  "plain u \<longleftrightarrow> 32 \<le> u \<and> u \<noteq> 34 \<and> u \<noteq> 92 \<and> u \<noteq> 40 \<and> u \<noteq> 41 \<and> u \<noteq> 38 \<and> u \<noteq> 124 \<and> u \<noteq> 8232 \<and> u \<noteq> 8233 \<and>
     \<not> hi_surrogate u \<and> \<not> lo_surrogate u \<and> u < 65536"

lemma quote_body_plain: "list_all plain s \<Longrightarrow> quote_body s = s"
  by (induction s rule: quote_body.induct) (auto simp: plain_def esc_unit_def)

lemma quote_plain: "list_all plain s \<Longrightarrow> json_quote s = 34 # s @ [34]"
  by (simp add: json_quote_def quote_body_plain)

lemma plain_sets: "list_all plain s \<Longrightarrow> no_paren s \<and> 34 \<notin> set s \<and> 38 \<notin> set s \<and> 124 \<notin> set s \<and> units_ok s"
  by (auto simp: list_all_iff no_paren_def plain_def units_ok_def)

lemma is_numeric_units: "is_numeric s \<Longrightarrow> list_all num_unit s"
  unfolding is_numeric_def
  by (rule only_full_match [of num_unit NUMERIC_LITERAL_REGEX])
    (auto simp: NUMERIC_LITERAL_REGEX_def num_unit_def js_lit
      intro!: only_Seq only_Alt only_Opt only_Star only_Plus only_Chr only_Lit)

lemma is_numeric_ne: "is_numeric s \<Longrightarrow> s \<noteq> []"
proof
  assume "is_numeric s" "s = []"
  moreover have "\<not> is_numeric []" by code_simp
  ultimately show False by simp
qed

lemma num_unit_facts: "num_unit u \<Longrightarrow> \<not> is_ws u \<and> u \<noteq> 34 \<and> u \<noteq> 38 \<and> u \<noteq> 40 \<and> u \<noteq> 41 \<and> u \<noteq> 32 \<and> line_unit u"
  by (auto simp: num_unit_def is_digit_def is_ws_def line_unit_def)

lemma numeric_facts:
  assumes "is_numeric s"
  shows "s \<noteq> []" "trim s = s" "no_paren s" "38 \<notin> set s" "list_all num_unit s"
  using assms is_numeric_units [OF assms] is_numeric_ne num_unit_facts
  by (auto simp: list_all_iff no_paren_def intro!: trim_no_ws)


section \<open>Conditions in normal form\<close>

definition param_ok :: "param_header_condition \<Rightarrow> bool" where
  "param_ok c \<longleftrightarrow>
     (ph_source c = js ''param'' \<or> ph_source c = js ''header'') \<and>
     ph_path c \<noteq> [] \<and> list_all plain (ph_path c) \<and> trim (ph_path c) = ph_path c \<and>
     (ph_mode c = js ''exists'' \<and> ph_value c = [] \<or>
      (ph_mode c = js ''contains'' \<and> ph_source c = js ''header'' \<or> ph_mode c = js ''eq'') \<and>
      list_all plain (ph_value c) \<and> trim (ph_value c) = ph_value c)"

definition time_ok :: "time_condition \<Rightarrow> bool" where
  "time_ok c \<longleftrightarrow>
     tc_timeFunc c \<in> set TIME_FUNCS \<and> tc_timezone c \<noteq> [] \<and> list_all plain (tc_timezone c) \<and>
     (if tc_mode c = js ''range''
      then tc_value c = [] \<and> is_numeric (tc_rangeStart c) \<and> is_numeric (tc_rangeEnd c)
      else (tc_mode c = js ''eq'' \<or> tc_mode c = js ''gte'' \<or> tc_mode c = js ''lt'') \<and>
        is_numeric (tc_value c) \<and> tc_rangeStart c = [] \<and> tc_rangeEnd c = [])"

fun cond_ok :: "request_condition \<Rightarrow> bool" where
  "cond_ok (TimeCondition c) = time_ok c"
| "cond_ok (ParamHeaderCondition c) = param_ok c"

text \<open>The texts of the conditions.\<close>

definition call_text :: "jstring \<Rightarrow> jstring \<Rightarrow> jstring" where
  "call_text f x = f @ js ''(\"'' @ x @ js ''\")''"

definition literal_text :: "jstring \<Rightarrow> jstring" where
  "literal_text v = (if v = js ''true'' \<or> v = js ''false'' \<or> is_numeric v then v else 34 # v @ [34])"

definition param_text :: "param_header_condition \<Rightarrow> jstring" where
  "param_text c =
     (if ph_mode c = js ''exists''
      then call_text (ph_source c) (ph_path c) @ (if ph_source c = js ''header'' then js '' != \"\"'' else js '' != nil'')
      else if ph_mode c = js ''contains''
      then js ''has('' @ call_text (ph_source c) (ph_path c) @ js '', \"'' @ ph_value c @ js ''\")''
      else call_text (ph_source c) (ph_path c) @ js '' == '' @ literal_text (ph_value c))"

definition time_op :: "jstring \<Rightarrow> jstring" where
  "time_op mode = (if mode = js ''gte'' then js ''>='' else if mode = js ''lt'' then js ''<'' else js ''=='')"

definition time_text :: "time_condition \<Rightarrow> jstring" where
  "time_text c =
     (if tc_mode c = js ''range''
      then call_text (tc_timeFunc c) (tc_timezone c) @ js '' >= '' @ tc_rangeStart c @ js '' || '' @
           call_text (tc_timeFunc c) (tc_timezone c) @ js '' < '' @ tc_rangeEnd c
      else call_text (tc_timeFunc c) (tc_timezone c) @ js '' '' @ time_op (tc_mode c) @ js '' '' @ tc_value c)"

fun cond_text :: "request_condition \<Rightarrow> jstring" where
  "cond_text (TimeCondition c) = time_text c"
| "cond_text (ParamHeaderCondition c) = param_text c"

lemma call_quote: "list_all plain x \<Longrightarrow> f @ js ''('' @ json_quote x @ js '')'' = call_text f x"
  by (simp add: call_text_def quote_plain js_lit)

lemma time_modes [simp]:
  "allowed_mode (js ''time'') (Some (js ''range'')) d = js ''range''"
  "allowed_mode (js ''time'') (Some (js ''eq'')) d = js ''eq''"
  "allowed_mode (js ''time'') (Some (js ''gte'')) d = js ''gte''"
  "allowed_mode (js ''time'') (Some (js ''lt'')) d = js ''lt''"
  by (simp_all add: allowed_mode_def getRequestRuleMatchOptions_def)

lemma param_modes [simp]:
  "allowed_mode (js ''header'') (Some (js ''exists'')) d = js ''exists''"
  "allowed_mode (js ''header'') (Some (js ''contains'')) d = js ''contains''"
  "allowed_mode (js ''header'') (Some (js ''eq'')) d = js ''eq''"
  "allowed_mode (js ''param'') (Some (js ''exists'')) d = js ''exists''"
  "allowed_mode (js ''param'') (Some (js ''contains'')) d = js ''contains''"
  "allowed_mode (js ''param'') (Some (js ''eq'')) d = js ''eq''"
  "m \<in> {js ''gt'', js ''gte'', js ''lt'', js ''lte''} \<Longrightarrow> allowed_mode (js ''param'') (Some m) d = m"
  by (auto simp: allowed_mode_def getRequestRuleMatchOptions_def)

lemma build_time:
  assumes "time_ok c"
  shows "buildTimeConditionExpr c = time_text c"
proof -
  have t: "tc_timeFunc c \<in> set TIME_FUNCS" "tc_timezone c \<noteq> []" "list_all plain (tc_timezone c)"
    using assms by (simp_all add: time_ok_def)
  have n: "normalizeCondition (Some (partial_of (TimeCondition c))) = TimeCondition c"
    using assms t by (auto simp: normalizeCondition_def isTimeFunc_def coalesce_def time_ok_def split: if_splits)
  show ?thesis
    unfolding buildTimeConditionExpr_def n request_condition.case Let_def call_quote [OF t(3)]
    using assms numeric_facts(2) by (auto simp: time_ok_def time_text_def time_op_def split: if_splits)
qed

lemma build_literal:
  "list_all plain v \<Longrightarrow> trim v = v \<Longrightarrow> buildExprLiteral (js ''eq'') v = literal_text v"
  by (simp add: buildExprLiteral_def literal_text_def quote_plain)

lemma build_contains: "buildExprLiteral (js ''contains'') v = json_quote (trim v)"
  by (simp add: buildExprLiteral_def)

lemma build_param:
  assumes "param_ok c"
  shows "buildRequestConditionExpr (ParamHeaderCondition c) = param_text c"
proof -
  have t: "ph_path c \<noteq> []" "list_all plain (ph_path c)" "trim (ph_path c) = ph_path c"
    using assms by (simp_all add: param_ok_def)
  have n: "normalizeCondition (Some (partial_of (ParamHeaderCondition c))) = ParamHeaderCondition c"
    using assms t by (auto simp: normalizeCondition_def coalesce_def param_ok_def)
  have src: "(if ph_source c = js ''header'' then js ''header('' else js ''param('') @ json_quote (ph_path c) @ js '')'' =
      call_text (ph_source c) (ph_path c)"
    using assms t(2) by (auto simp: param_ok_def call_text_def quote_plain js_lit)
  have q: "js '', '' @ json_quote v @ js '')'' = js '', \"'' @ v @ js ''\")''" if "list_all plain v" for v
    using that by (simp add: quote_plain js_lit)
  show ?thesis
    unfolding buildRequestConditionExpr_def n request_condition.case Let_def t(3) src
    using assms t(1) by (auto simp: param_ok_def param_text_def build_literal build_contains q)
qed

lemma build_cond: "cond_ok c \<Longrightarrow> buildRequestConditionExpr c = cond_text c"
proof (cases c)
  case (TimeCondition t)
  then show "cond_ok c \<Longrightarrow> buildRequestConditionExpr c = cond_text c"
    by (simp add: build_time buildRequestConditionExpr_def)
qed (simp add: build_param)


section \<open>Parsing a condition\<close>

definition gets :: "regex \<Rightarrow> jstring \<Rightarrow> (nat \<times> jstring) list \<Rightarrow> bool" where
  "gets a s gs \<longleftrightarrow> (\<exists>q. full_match a s = Some q \<and> rp_groups q = gs)"

lemma getsI: "takes (Seq a Eol) s [] [] gs \<Longrightarrow> gets a s gs"
  unfolding gets_def by (metis full_match_Some)

lemma getsI_Seqs: "takes (Seqs ((a # xs) @ [Eol])) s [] [] gs \<Longrightarrow> gets (Seqs (a # xs)) s gs"
  unfolding gets_def full_match_Seqs [OF list.simps(3)] by (erule takesE [of _ _ _ _ _ "start s"]) (simp_all add: start_def)

lemma refusedI: "refuses (Seqs ((a # xs) @ [Eol])) s [] \<Longrightarrow> full_match (Seqs (a # xs)) s = None"
  unfolding full_match_Seqs [OF list.simps(3)] match_at_def refuses_def start_def
  by (simp del: matches.simps Seqs.simps)

lemma plain_not_quote: "list_all plain x \<Longrightarrow> runs (\<lambda>u. u \<noteq> 34) x (34 # s)"
  by (auto simp: runs_def list_all_iff plain_def)

lemma not_quote_then:
  assumes "list_all plain x" "refuses b s ((i, x) # gs)"
  shows "refuses (Seq (Group i not_quote) (Seq (Lit (34 # w)) b)) (x @ 34 # w @ s) gs"
  unfolding not_quote_def
proof (rule refuses_word [OF plain_not_quote [OF assms(1)]])
  fix u s g assume "u \<noteq> (34::nat)"
  then show "refuses (Seq (Lit (34 # w)) b) (u # s) g" by (intro refuses_start) (simp add: startsWith_def)
next
  show "refuses (Seq (Lit (34 # w)) b) (34 # w @ s) ((i, x) # gs)"
    using refuses_then [OF assms(2), of "34 # w"] by simp
qed

lemma not_quote_stop:
  assumes "list_all plain x" "\<not> startsWith (34 # s) w" "w = 34 # w'"
  shows "refuses (Seq (Group i not_quote) (Seq (Lit w) b)) (x @ 34 # s) gs"
  unfolding not_quote_def
proof (rule refuses_word [OF plain_not_quote [OF assms(1)]])
  fix u s g assume "u \<noteq> (34::nat)"
  then show "refuses (Seq (Lit w) b) (u # s) g" using assms(3) by (intro refuses_start) (simp add: startsWith_def)
qed (use assms in \<open>simp add: refuses_start\<close>)

lemma takes_not_quote:
  "list_all plain x \<Longrightarrow> x \<noteq> [] \<Longrightarrow> takes (Group i not_quote) (x @ 34 # s) gs (34 # s) ((i, x) # gs)"
  unfolding not_quote_def by (intro takes_word plain_not_quote)

lemma takes_num: "is_numeric n \<Longrightarrow> s = [] \<or> \<not> num_unit (hd s) \<Longrightarrow> takes (Group i Num) (n @ s) gs s ((i, n) # gs)"
  using numeric_facts by (intro takes_word) (auto simp: runs_def)

lemma takes_literal: "s = w @ t \<Longrightarrow> takes (Lit w) s gs t gs"
  by (simp add: takes_Lit)

text \<open>Which texts are no time conditions.\<close>

lemma no_time:
  assumes "\<And>f. f \<in> set TIME_FUNCS \<Longrightarrow> \<not> startsWith s f" "\<not> startsWith s (js ''('')"
  shows "tryParseTimeCondition s = None"
proof -
  have c: "refuses (Seq (Group 1 (Alts (map Lit TIME_FUNCS))) b) s []" for b
    using assms(1) by (intro refuses_Seq refuses_Group refuses_Alts) (auto intro: refuses_Lit)
  have "refuses (Seq time_range Eol) s []" "refuses (Seq time_compare Eol) s []"
    by (simp_all only: time_range_def time_compare_def time_call_def rx c)
  moreover have "refuses (Seq (Seqs [L ''('', time_range, L '')'']) Eol) s []"
    by (simp only: rx refuses_start assms(2) not_False_eq_True)
  ultimately show ?thesis by (simp add: tryParseTimeCondition_def full_match_None)
qed

lemma param_no_time:
  "tryParseTimeCondition (js ''param('' @ s) = None" "tryParseTimeCondition (js ''header('' @ s) = None"
  "tryParseTimeCondition (js ''has('' @ s) = None"
  by (rule no_time; auto simp: TIME_FUNCS_def startsWith_def js_lit)+

lemma takes_path:
  assumes "list_all plain x" "x \<noteq> []" "t \<noteq> []" "hd t = 34"
  shows "takes (Group i not_quote) (x @ t) gs t ((i, x) # gs)"
  using takes_not_quote [OF assms(1,2), of i "tl t"] assms(3,4) by (cases t) auto

lemma takes_end: "takes (Lit w) w gs [] gs"
  using takes_Lit [of w "[]"] by simp

lemma refuses_path:
  assumes "list_all plain x" "t \<noteq> []" "hd t = 34" "w \<noteq> []" "hd w = 34" "\<not> startsWith t w"
  shows "refuses (Seq (Group i not_quote) (Seq (Lit w) b)) (x @ t) gs"
  using assms not_quote_stop [of x "tl t" w "tl w" i b gs] by (cases t; cases w) auto

lemma refuses_path_then:
  assumes "list_all plain x" "w \<noteq> []" "hd w = 34" "refuses b s ((i, x) # gs)"
  shows "refuses (Seq (Group i not_quote) (Seq (Lit w) b)) (x @ w @ s) gs"
  using assms not_quote_then [of x b s i gs "tl w"] by (cases w) auto

lemmas takes_rules = takes_Seq takes_Lit takes_end takes_Eol takes_path

lemma gets_header_exists:
  assumes "list_all plain x" "x \<noteq> []"
  shows "gets header_exists_re (js ''header(\"'' @ x @ js ''\") != \"\"'') [(1, x)]"
  by (rule getsI, simp only: header_exists_re_def rx, (rule takes_rules assms | (simp add: js_lit; fail))+)

lemma gets_param_exists:
  assumes "list_all plain x" "x \<noteq> []"
  shows "gets param_exists_re (js ''param(\"'' @ x @ js ''\") != nil'') [(1, x)]"
  by (rule getsI, simp only: param_exists_re_def rx, (rule takes_rules assms | (simp add: js_lit; fail))+)

lemma takes_quoted:
  assumes "list_all plain v"
  shows "takes quoted (34 # v @ 34 # s) gs s gs"
proof -
  let ?a = "Alt (Chr (\<lambda>u. u \<noteq> 34 \<and> u \<noteq> 92)) (Seq (Lit [92]) (Chr line_unit))"
  have p: "list_all (\<lambda>u. u \<noteq> 34 \<and> u \<noteq> 92) v" using assms by (auto simp: list_all_iff plain_def)
  have "refuses ?a (34 # s) gs"
    by (intro refuses_Alt refuses_Chr refuses_start) (simp_all add: startsWith_def)
  with p have "takes (Star ?a) (v @ 34 # s) gs (34 # s) gs" by (rule takes_Star_Alt)
  moreover have "takes (Lit [34]) (34 # s) gs s gs" for s using takes_Lit [of "[34]" s] by simp
  ultimately show ?thesis unfolding quoted_def Seqs.simps by (blast intro: takes_Seq)
qed

lemma gets_header_contains:
  assumes "list_all plain x" "x \<noteq> []" "list_all plain v"
  shows "gets header_contains_re (js ''has(header(\"'' @ x @ js ''\"), '' @ (34 # v @ [34]) @ js '')'')
    [(2, 34 # v @ [34]), (1, x)]"
proof (rule getsI)
  have q: "takes (Group 2 quoted) ((34 # v @ [34]) @ s) gs s ((2, 34 # v @ [34]) # gs)" for s gs
    using takes_quoted [OF assms(3)] by (intro takes_Group) simp
  show "takes (Seq header_contains_re Eol) (js ''has(header(\"'' @ x @ js ''\"), '' @ (34 # v @ [34]) @ js '')'') [] []
      [(2, 34 # v @ [34]), (1, x)]"
    by (simp only: header_contains_re_def rx, (rule takes_Seq takes_Lit q takes_rules assms(1,2) | (simp add: js_lit; fail))+)
qed

lemma gets_equals:
  assumes "src = js ''param'' \<or> src = js ''header''" "list_all plain x" "x \<noteq> []" "list_all line_unit v" "v \<noteq> []"
  shows "gets equals_re (src @ js ''(\"'' @ x @ js ''\") == '' @ v) [(3, v), (2, x), (1, src)]"
proof -
  let ?t = "js ''(\"'' @ x @ js ''\") == '' @ v"
  have 1: "takes (Group 1 (Alts [L ''param'', L ''header''])) (src @ ?t) [] ?t [(1, src)]"
    using assms(1)
  proof
    assume "src = js ''param''"
    then show ?thesis by (intro takes_Group) (simp add: takes_Alt1 takes_Lit)
  next
    assume s: "src = js ''header''"
    have "refuses (L ''param'') (src @ ?t) []" unfolding s by (rule refuses_Lit) (simp add: startsWith_def js_lit)
    then show ?thesis unfolding s by (intro takes_Group) (simp add: takes_Alt2 takes_Lit)
  qed
  have 3: "takes (Group 3 (Plus (Chr line_unit))) v [(2, x), (1, src)] [] [(3, v), (2, x), (1, src)]"
    using takes_word [of line_unit v "[]" 3] assms(4,5) by (simp add: runs_def)
  have "hd (js ''\") == '' @ v) = 34" by (simp add: js_lit)
  then have "takes (Seq (Group 2 not_quote) (Seq (L ''\") == '') (Seq (Group 3 (Plus (Chr line_unit))) Eol)))
      (x @ js ''\") == '' @ v) [(1, src)] [] [(3, v), (2, x), (1, src)]"
    by (intro takes_Seq [OF takes_path [OF assms(2,3)]] takes_Seq [OF takes_Lit] takes_Seq [OF 3] takes_Eol) simp_all
  then show ?thesis
    unfolding equals_re_def
    by (intro getsI_Seqs, simp only: append_Cons append_Nil Seqs.simps, intro takes_Seq [OF 1] takes_Seq [OF takes_Lit])
qed

lemma no_start: "\<not> startsWith s w \<Longrightarrow> full_match (Seqs (Lit w # b # bs)) s = None"
  by (rule refusedI) (simp add: refuses_start)

text \<open>The expressions that do not match the text of a condition on a header or a parameter.\<close>

lemma header_no_param:
  "full_match param_exists_re (js ''header('' @ s) = None" "full_match header_contains_re (js ''header('' @ s) = None"
  "full_match param_contains_re (js ''header('' @ s) = None" "full_match param_compare_re (js ''header('' @ s) = None"
  unfolding param_exists_re_def header_contains_re_def param_contains_re_def param_compare_re_def
  by (rule no_start; simp add: startsWith_def js_lit)+

lemma param_no_header:
  "full_match header_exists_re (js ''param('' @ s) = None" "full_match header_contains_re (js ''param('' @ s) = None"
  unfolding header_exists_re_def header_contains_re_def by (rule no_start; simp add: startsWith_def js_lit)+

lemma has_no_exists:
  "full_match header_exists_re (js ''has('' @ s) = None" "full_match param_exists_re (js ''has('' @ s) = None"
  unfolding header_exists_re_def param_exists_re_def by (rule no_start; simp add: startsWith_def js_lit)+

lemma equals_no_header_exists:
  assumes "list_all plain x"
  shows "full_match header_exists_re (js ''header(\"'' @ x @ js ''\") == '' @ v) = None"
  unfolding header_exists_re_def
  by (rule refusedI, simp only: append_Cons append_Nil Seqs.simps, intro refuses_then refuses_path assms)
    (simp_all add: js_lit startsWith_def)

lemma equals_no_param:
  assumes "list_all plain x"
  shows "full_match param_exists_re (js ''param(\"'' @ x @ js ''\") == '' @ v) = None"
    "full_match param_contains_re (js ''param(\"'' @ x @ js ''\") == '' @ v) = None"
    "full_match param_compare_re (js ''param(\"'' @ x @ js ''\") == '' @ v) = None"
  unfolding param_exists_re_def param_contains_re_def param_compare_re_def
  by (rule refusedI, simp only: append_Cons append_Nil Seqs.simps, intro refuses_then refuses_path assms;
      simp add: js_lit startsWith_def)+

text \<open>The groups of a match.\<close>

lemma getsE:
  assumes "gets a s gs"
  obtains m where "full_match a s = Some m" "\<And>i. group m i = map_of gs i"
  using assms by (auto simp: gets_def group_def)

lemma units_plain: "list_all plain v \<Longrightarrow> units_ok v"
  using plain_sets by blast

lemma parse_quoted: "list_all plain v \<Longrightarrow> json_parse (34 # v @ [34]) = Some (JStr v)"
  using json_round_trip [of "JStr v" "\<lambda>_. []"] by (simp add: units_plain quote_plain)

lemma parse_literal:
  assumes "list_all plain v" "trim v = v"
  shows "parseExprLiteral (literal_text v) = Some (JStr v)" "literal_text v \<noteq> []" "list_all line_unit (literal_text v)"
proof -
  have n: "\<not> is_numeric (34 # v @ [34])"
    using numeric_facts(5) [of "34 # v @ [34]"] by (auto simp: num_unit_def is_digit_def)
  have t: "trim (34 # v @ [34]) = 34 # v @ [34]" by (rule trim_id) (simp add: is_ws_def)
  have w: "34 # v @ [34] \<noteq> js ''true''" "34 # v @ [34] \<noteq> js ''false''" by (simp_all add: js_lit)
  show "parseExprLiteral (literal_text v) = Some (JStr v)"
    using assms n t w by (auto simp: parseExprLiteral_def literal_text_def Let_def parse_quoted)
  show "literal_text v \<noteq> []" using is_numeric_ne by (auto simp: literal_text_def)
  have "literal_text v = v \<or> literal_text v = 34 # v @ [34]" by (simp add: literal_text_def)
  then have "set (literal_text v) \<subseteq> insert 34 (set v)" by auto
  moreover have "line_unit 34" "\<And>u. plain u \<Longrightarrow> line_unit u" by (simp_all add: line_unit_def plain_def)
  moreover have "\<forall>u\<in>set v. plain u" using assms(1) by (simp only: list_all_iff)
  ultimately show "list_all line_unit (literal_text v)" unfolding list_all_iff by blast
qed

lemma header_text: "call_text (js ''header'') x = js ''header(\"'' @ x @ js ''\")''"
  "js ''header(\"'' @ s = js ''header('' @ js ''\"'' @ s" "js ''param(\"'' @ s = js ''param('' @ js ''\"'' @ s"
  "call_text (js ''param'') x = js ''param(\"'' @ x @ js ''\")''" "js ''has(header(\"'' @ s = js ''has('' @ js ''header(\"'' @ s"
  by (simp_all add: call_text_def js_lit)

lemma parse_header_exists:
  assumes "list_all plain x" "x \<noteq> []"
  shows "tryParseRequestCondition ni (js ''header(\"'' @ x @ js ''\") != \"\"'') =
    Some (Some (ParamHeaderCondition \<lparr>ph_source = js ''header'', ph_path = x, ph_mode = js ''exists'', ph_value = []\<rparr>))"
proof (rule getsE [OF gets_header_exists [OF assms]])
  fix m assume "full_match header_exists_re (js ''header(\"'' @ x @ js ''\") != \"\"'') = Some m"
    "\<And>i. group m i = map_of [(1, x)] i"
  then show ?thesis
    unfolding tryParseRequestCondition_def header_text(2) param_no_time by (simp add: ph_def coalesce_def)
qed

lemma parse_param_exists:
  assumes "list_all plain x" "x \<noteq> []"
  shows "tryParseRequestCondition ni (js ''param(\"'' @ x @ js ''\") != nil'') =
    Some (Some (ParamHeaderCondition \<lparr>ph_source = js ''param'', ph_path = x, ph_mode = js ''exists'', ph_value = []\<rparr>))"
proof (rule getsE [OF gets_param_exists [OF assms]])
  fix m assume "full_match param_exists_re (js ''param(\"'' @ x @ js ''\") != nil'') = Some m"
    "\<And>i. group m i = map_of [(1, x)] i"
  then show ?thesis
    unfolding tryParseRequestCondition_def header_text(3) param_no_time param_no_header by (simp add: ph_def coalesce_def)
qed

lemma parse_header_contains:
  assumes "list_all plain x" "x \<noteq> []" "list_all plain v"
  shows "tryParseRequestCondition ni (js ''has(header(\"'' @ x @ js ''\"), '' @ (34 # v @ [34]) @ js '')'') =
    Some (Some (ParamHeaderCondition \<lparr>ph_source = js ''header'', ph_path = x, ph_mode = js ''contains'', ph_value = v\<rparr>))"
proof (rule getsE [OF gets_header_contains [OF assms]])
  fix m assume m: "full_match header_contains_re (js ''has(header(\"'' @ x @ js ''\"), '' @ (34 # v @ [34]) @ js '')'') = Some m"
    "\<And>i. group m i = map_of [(2, 34 # v @ [34]), (1, x)] i"
  have "parsed_group m 2 = Some v" using m(2) assms(3) by (simp add: parsed_group_def coalesce_def parse_quoted)
  with m show ?thesis
    unfolding tryParseRequestCondition_def header_text(5) param_no_time has_no_exists by (simp add: ph_def coalesce_def)
qed

lemma parse_equals:
  assumes src: "src = js ''param'' \<or> src = js ''header''" and x: "list_all plain x" "x \<noteq> []"
    and v: "list_all plain v" "trim v = v"
  shows "tryParseRequestCondition ni (call_text src x @ js '' == '' @ literal_text v) =
    Some (Some (ParamHeaderCondition \<lparr>ph_source = src, ph_path = x, ph_mode = js ''eq'', ph_value = v\<rparr>))"
proof -
  let ?t = "call_text src x @ js '' == '' @ literal_text v"
  have t: "?t = src @ js ''(\"'' @ x @ js ''\") == '' @ literal_text v" by (simp add: call_text_def js_lit)
  have n: "tryParseTimeCondition ?t = None \<and> full_match header_exists_re ?t = None \<and> full_match param_exists_re ?t = None \<and>
      full_match header_contains_re ?t = None \<and> full_match param_contains_re ?t = None \<and>
      full_match param_compare_re ?t = None"
    using src
  proof
    assume s: "src = js ''param''"
    have e: "?t = js ''param(\"'' @ x @ js ''\") == '' @ literal_text v" unfolding s by (simp add: call_text_def js_lit)
    show ?thesis
      unfolding e header_text(3) by (simp only: equals_no_param [OF x(1), unfolded header_text(3)] param_no_time
          param_no_header simp_thms)
  next
    assume s: "src = js ''header''"
    have e: "?t = js ''header(\"'' @ x @ js ''\") == '' @ literal_text v" unfolding s by (simp add: call_text_def js_lit)
    show ?thesis
      unfolding e header_text(2) by (simp only: equals_no_header_exists [OF x(1), unfolded header_text(2)] param_no_time
          header_no_param simp_thms)
  qed
  have "gets equals_re ?t [(3, literal_text v), (2, x), (1, src)]"
    unfolding t by (rule gets_equals [OF src x parse_literal(3,2) [OF v]])
  then obtain m where m: "full_match equals_re ?t = Some m"
    "\<And>i. group m i = map_of [(3, literal_text v), (2, x), (1, src)] i"
    by (rule getsE) (rule that)
  have g: "coalesce (group m 1) [] = src" "coalesce (group m 2) [] = x" "coalesce (group m 3) [] = literal_text v"
    using m(2) by (simp_all add: coalesce_def)
  show ?thesis
    unfolding tryParseRequestCondition_def
    by (simp only: n m(1) g parse_literal(1) [OF v] option.case same_groups_def js_to_string.simps)
qed

lemma parse_param:
  assumes "param_ok c"
  shows "tryParseRequestCondition ni (param_text c) = Some (Some (ParamHeaderCondition c))"
proof -
  obtain src x mode v where c: "c = \<lparr>ph_source = src, ph_path = x, ph_mode = mode, ph_value = v\<rparr>" by (cases c)
  have x: "list_all plain x" "x \<noteq> []" and src: "src = js ''param'' \<or> src = js ''header''"
    using assms by (simp_all add: c param_ok_def)
  consider "mode = js ''exists''" "v = []"
    | "mode = js ''contains''" "src = js ''header''" "list_all plain v"
    | "mode = js ''eq''" "list_all plain v" "trim v = v"
    using assms by (auto simp: c param_ok_def)
  then show ?thesis
  proof cases
    case 1
    from src show ?thesis
    proof
      assume s: "src = js ''param''"
      have "param_text c = js ''param(\"'' @ x @ js ''\") != nil''"
        by (simp add: c 1 s param_text_def call_text_def js_lit)
      then show ?thesis using parse_param_exists [OF x] by (simp add: c 1 s)
    next
      assume s: "src = js ''header''"
      have "param_text c = js ''header(\"'' @ x @ js ''\") != \"\"''"
        by (simp add: c 1 s param_text_def call_text_def js_lit)
      then show ?thesis using parse_header_exists [OF x] by (simp add: c 1 s)
    qed
  next
    case 2
    have "param_text c = js ''has(header(\"'' @ x @ js ''\"), '' @ (34 # v @ [34]) @ js '')''"
      by (simp add: c 2(1,2) param_text_def call_text_def js_lit)
    then show ?thesis using parse_header_contains [OF x 2(3)] by (simp add: c 2(1,2))
  next
    case 3
    then show ?thesis using parse_equals [OF src x 3(2,3)] by (simp add: c 3(1) param_text_def)
  qed
qed


section \<open>Parsing a time condition\<close>

lemma time_call_eq: "time_call = Seqs [Group 1 (Alts (map Lit TIME_FUNCS)), L ''(\"'', Group 2 not_quote, L ''\")'']"
  by (simp add: time_call_def not_quote_def)

lemma time_func_prefix:
  "f \<in> set TIME_FUNCS \<Longrightarrow> w \<in> set TIME_FUNCS \<Longrightarrow> startsWith (f @ js ''(\"'' @ s) w \<Longrightarrow> w = f"
  by (auto simp: TIME_FUNCS_def startsWith_def js_lit)

lemma takes_time_func:
  assumes "f \<in> set TIME_FUNCS"
  shows "takes (Group 1 (Alts (map Lit TIME_FUNCS))) (f @ js ''(\"'' @ s) gs (js ''(\"'' @ s) ((1, f) # gs)"
proof (rule takes_Group)
  from assms obtain as bs where t: "TIME_FUNCS = as @ f # bs" by (metis split_list)
  have "distinct TIME_FUNCS" by (simp add: TIME_FUNCS_def)
  then have "w \<noteq> f" if "w \<in> set as" for w using that unfolding t by auto
  note ne = this
  have "refuses a (f @ js ''(\"'' @ s) gs" if "a \<in> set (map Lit as)" for a
  proof -
    from that obtain w where w: "a = Lit w" "w \<in> set as" by auto
    then have "w \<in> set TIME_FUNCS" unfolding t by simp
    with w show ?thesis using time_func_prefix [OF assms, of w s] ne [of w]
      by (auto intro!: refuses_Lit)
  qed
  then have "takes (Alts (map Lit as @ Lit f # map Lit bs)) (f @ js ''(\"'' @ s) gs (js ''(\"'' @ s) gs"
    by (intro takes_Alts takes_Lit)
  then show "takes (Alts (map Lit TIME_FUNCS)) (f @ js ''(\"'' @ s) gs (js ''(\"'' @ s) gs" by (simp add: t)
qed

lemma takes_call:
  assumes "f \<in> set TIME_FUNCS" "list_all plain x" "x \<noteq> []"
  shows "takes time_call (call_text f x @ s) gs s ((2, x) # (1, f) # gs)"
  unfolding time_call_eq call_text_def append_assoc Seqs.simps
  by (intro takes_Seq [OF takes_time_func [OF assms(1)]] takes_Seq [OF takes_Lit] takes_Seq [OF takes_path [OF assms(2,3)]] takes_Lit)
    (simp_all add: js_lit)

lemma refuses_call:
  assumes "f \<in> set TIME_FUNCS" "list_all plain x" "refuses b s ((2, x) # (1, f) # gs)"
  shows "refuses (Seq time_call b) (call_text f x @ s) gs"
proof -
  have "refuses (Seq (Group 2 not_quote) (Seq (L ''\")'') b)) (x @ js ''\")'' @ s) ((1, f) # gs)"
    by (rule refuses_path_then [OF assms(2) _ _ assms(3)]) (simp_all add: js_lit)
  then have c: "refuses (Seq (L ''(\"'') (Seq (Group 2 not_quote) (Seq (L ''\")'') b))) (js ''(\"'' @ x @ js ''\")'' @ s) ((1, f) # gs)"
    by (rule refuses_then)
  have "refuses (Seq (Group 1 (Alts (map Lit TIME_FUNCS))) (Seq (L ''(\"'') (Seq (Group 2 not_quote) (Seq (L ''\")'') b))))
      (f @ js ''(\"'' @ x @ js ''\")'' @ s) gs"
  proof (rule refuses_Alts_then)
    fix w assume "w \<in> set TIME_FUNCS" "startsWith (f @ js ''(\"'' @ x @ js ''\")'' @ s) w"
    then have "w = f" by (rule time_func_prefix [OF assms(1)])
    with c show "refuses (Seq (L ''(\"'') (Seq (Group 2 not_quote) (Seq (L ''\")'') b)))
        (drop (length w) (f @ js ''(\"'' @ x @ js ''\")'' @ s)) ((1, w) # gs)" by simp
  qed
  then show ?thesis unfolding time_call_eq call_text_def append_assoc Seqs.simps refuses_assoc
    by (simp only: refuses_def matches_assoc matches.simps(4) concat_map_concat) (simp add: comp_def)
qed

lemma num_text: "is_numeric n \<Longrightarrow> takes (Group i Num) n gs [] ((i, n) # gs)"
  using takes_num [of n "[]"] by simp

lemma not_num: "\<not> num_unit 32" "\<not> num_unit 41"
  by (simp_all add: num_unit_def is_digit_def)

text \<open>The overnight range, alone and in parentheses.\<close>

definition range_text :: "jstring \<Rightarrow> jstring \<Rightarrow> jstring \<Rightarrow> jstring \<Rightarrow> jstring" where
  "range_text f x a b = call_text f x @ js '' >= '' @ a @ js '' || '' @ f @ js ''(\"'' @ x @ js ''\") < '' @ b"

lemma takes_range:
  assumes f: "f \<in> set TIME_FUNCS" and x: "list_all plain x" "x \<noteq> []" and n: "is_numeric a" "is_numeric b"
    and s: "s = [] \<or> \<not> num_unit (hd s)"
  shows "takes time_range (range_text f x a b @ s) gs s ((4, b) # (3, a) # (2, x) # (1, f) # gs)"
proof -
  have a: "takes (Group 3 Num) (a @ js '' || '' @ t) h (js '' || '' @ t) ((3, a) # h)" for t h
    by (rule takes_num [OF n(1)]) (simp add: js_lit not_num)
  have b: "takes (Group 4 Num) (b @ s) h s ((4, b) # h)" for h by (rule takes_num [OF n(2) s])
  have g: "takes (Back 1) (f @ t) ((3, a) # (2, x) # (1, f) # gs) t ((3, a) # (2, x) # (1, f) # gs)"
    "takes (Back 2) (x @ t) ((3, a) # (2, x) # (1, f) # gs) t ((3, a) # (2, x) # (1, f) # gs)" for t
    by (rule takes_Back, simp)+
  show ?thesis
    unfolding time_range_def range_text_def append_assoc Seqs.simps
    by (intro takes_Seq [OF takes_call [OF f x]] takes_Seq [OF takes_Lit] takes_Seq [OF a] takes_Seq [OF g(1)]
        takes_Seq [OF g(2)] b)
qed

lemma parse_time_range:
  assumes f: "f \<in> set TIME_FUNCS" and x: "list_all plain x" "x \<noteq> []" and n: "is_numeric a" "is_numeric b"
  shows "tryParseTimeCondition (range_text f x a b) = Some (TimeCondition \<lparr>tc_timeFunc = f, tc_timezone = x,
    tc_mode = js ''range'', tc_value = [], tc_rangeStart = a, tc_rangeEnd = b\<rparr>)"
proof -
  have "gets time_range (range_text f x a b) [(4, b), (3, a), (2, x), (1, f)]"
    using takes_range [OF f x n, of "[]"] by (intro getsI takes_Seq [OF _ takes_Eol]) simp
  then obtain m where "full_match time_range (range_text f x a b) = Some m"
    "\<And>i. group m i = map_of [(4, b), (3, a), (2, x), (1, f)] i" by (rule getsE) (rule that)
  then show ?thesis by (simp add: tryParseTimeCondition_def range_condition_def coalesce_def)
qed

lemma paren_no_time:
  "refuses (Seq (Seqs (time_call # b # bs)) Eol) (js ''('' @ s) []"
proof -
  have "refuses (Seq (Group 1 (Alts (map Lit TIME_FUNCS))) c) (js ''('' @ s) []" for c
    by (rule refuses_Seq, rule refuses_Group, rule refuses_Alts)
      (auto simp: TIME_FUNCS_def startsWith_def js_lit intro!: refuses_Lit)
  then show ?thesis by (simp only: time_call_eq Seqs.simps refuses_assoc)
qed

lemma parse_paren_range:
  assumes f: "f \<in> set TIME_FUNCS" and x: "list_all plain x" "x \<noteq> []" and n: "is_numeric a" "is_numeric b"
  shows "tryParseTimeCondition (js ''('' @ range_text f x a b @ js '')'') = Some (TimeCondition \<lparr>tc_timeFunc = f,
    tc_timezone = x, tc_mode = js ''range'', tc_value = [], tc_rangeStart = a, tc_rangeEnd = b\<rparr>)"
proof -
  let ?t = "js ''('' @ range_text f x a b @ js '')''"
  have 0: "full_match time_range ?t = None"
    unfolding time_range_def by (rule full_match_None, rule paren_no_time)
  have r: "takes time_range (range_text f x a b @ js '')'') h (js '')'') ((4, b) # (3, a) # (2, x) # (1, f) # h)" for h
    by (rule takes_range [OF f x n]) (simp add: js_lit not_num)
  have "gets (Seqs [L ''('', time_range, L '')'']) ?t [(4, b), (3, a), (2, x), (1, f)]"
    by (rule getsI_Seqs, simp only: append_Cons append_Nil Seqs.simps)
      (intro takes_Seq [OF takes_Lit] takes_Seq [OF r] takes_Seq [OF takes_end] takes_Eol)
  then obtain m where "full_match (Seqs [L ''('', time_range, L '')'']) ?t = Some m"
    "\<And>i. group m i = map_of [(4, b), (3, a), (2, x), (1, f)] i" by (rule getsE) (rule that)
  with 0 show ?thesis by (simp add: tryParseTimeCondition_def range_condition_def coalesce_def)
qed

lemma parse_time_compare:
  assumes f: "f \<in> set TIME_FUNCS" and x: "list_all plain x" "x \<noteq> []" and n: "is_numeric v"
    and mode: "mode \<in> {js ''eq'', js ''gte'', js ''lt''}"
  shows "tryParseTimeCondition (call_text f x @ js '' '' @ time_op mode @ js '' '' @ v) = Some (TimeCondition
    \<lparr>tc_timeFunc = f, tc_timezone = x, tc_mode = mode, tc_value = v, tc_rangeStart = [], tc_rangeEnd = []\<rparr>)"
proof -
  let ?t = "call_text f x @ js '' '' @ time_op mode @ js '' '' @ v"
  have op: "time_op mode \<in> {js ''=='', js ''>='', js ''<''}" by (simp add: time_op_def)
  have nr: "refuses (Seq (Group 3 Num) (Seq (L '' || '') c)) v h" for c h
  proof -
    have "refuses (Seq (Group 3 Num) (Seq (L '' || '') c)) (v @ []) h"
      using numeric_facts(5) [OF n] num_unit_facts
      by (intro refuses_word refuses_start) (auto simp: runs_def startsWith_def js_lit)
    then show ?thesis by simp
  qed
  have "refuses (Seq (L '' >= '') (Seq (Group 3 Num) (Seq (L '' || '') c))) (js '' '' @ time_op mode @ js '' '' @ v) h" for c h
  proof (cases "time_op mode = js ''>=''")
    case True
    then have e: "js '' '' @ time_op mode @ js '' '' @ v = js '' >= '' @ v" by (simp add: js_lit)
    show ?thesis unfolding e by (rule refuses_then [OF nr])
  next
    case False
    with op show ?thesis by (intro refuses_start) (auto simp: startsWith_def js_lit)
  qed
  then have 0: "full_match time_range ?t = None"
    unfolding time_range_def by (intro refusedI, simp only: append_Cons append_Nil Seqs.simps, intro refuses_call [OF f x(1)])
  have "\<not> startsWith ?t (js ''('')"
    using f by (auto simp: TIME_FUNCS_def call_text_def startsWith_def js_lit)
  then have 1: "full_match (Seqs [L ''('', time_range, L '')'']) ?t = None" by (rule no_start)
  have o: "takes (Group 3 (Alts [L ''=='', L ''>='', L ''<''])) (time_op mode @ js '' '' @ v) h (js '' '' @ v) ((3, time_op mode) # h)" for h
  proof (rule takes_Group)
    show "takes (Alts [L ''=='', L ''>='', L ''<'']) (time_op mode @ js '' '' @ v) h (js '' '' @ v) h"
      using op
    proof (elim insertE emptyE)
      assume o: "time_op mode = js ''==''"
      show ?thesis unfolding o Alts.simps by (rule takes_Alt1, rule takes_Lit)
    next
      assume o: "time_op mode = js ''>=''"
      show ?thesis unfolding o Alts.simps
        by (rule takes_Alt2, rule refuses_Lit, simp add: startsWith_def js_lit, rule takes_Alt1, rule takes_Lit)
    next
      assume o: "time_op mode = js ''<''"
      show ?thesis unfolding o Alts.simps
        by (rule takes_Alt2, rule refuses_Lit, simp add: startsWith_def js_lit, rule takes_Alt2, rule refuses_Lit,
          simp add: startsWith_def js_lit, rule takes_Lit)
    qed
  qed
  have "gets time_compare ?t [(4, v), (3, time_op mode), (2, x), (1, f)]"
    unfolding time_compare_def
    by (rule getsI_Seqs, simp only: append_Cons append_Nil Seqs.simps)
      (intro takes_Seq [OF takes_call [OF f x]] takes_Seq [OF takes_Lit] takes_Seq [OF o] takes_Seq [OF num_text [OF n]] takes_Eol)
  then obtain m where m: "full_match time_compare ?t = Some m"
    "\<And>i. group m i = map_of [(4, v), (3, time_op mode), (2, x), (1, f)] i" by (rule getsE) (rule that)
  have "time_mode (time_op mode) = mode" using mode by (auto simp: time_mode_def time_op_def)
  then show ?thesis
    unfolding tryParseTimeCondition_def 0 1 m(1) option.case by (simp add: m(2) coalesce_def)
qed

lemma parse_time:
  assumes "time_ok c"
  shows "tryParseTimeCondition (time_text c) = Some (TimeCondition c)"
    "tc_mode c = js ''range'' \<Longrightarrow> tryParseTimeCondition (js ''('' @ time_text c @ js '')'') = Some (TimeCondition c)"
proof -
  obtain f x mode v a b where c: "c = \<lparr>tc_timeFunc = f, tc_timezone = x, tc_mode = mode, tc_value = v,
    tc_rangeStart = a, tc_rangeEnd = b\<rparr>" by (cases c)
  have t: "time_text c = range_text f x a b" if "mode = js ''range''"
    using that by (simp add: c time_text_def range_text_def call_text_def js_lit)
  show "tryParseTimeCondition (time_text c) = Some (TimeCondition c)"
  proof (cases "mode = js ''range''")
    case True
    with assms t show ?thesis by (simp add: c time_ok_def parse_time_range)
  next
    case False
    with assms show ?thesis by (auto simp: c time_ok_def time_text_def parse_time_compare)
  qed
  show "tryParseTimeCondition (js ''('' @ time_text c @ js '')'') = Some (TimeCondition c)" if "tc_mode c = js ''range''"
    using assms t that by (simp add: c time_ok_def parse_paren_range)
qed

lemma parse_cond: "cond_ok c \<Longrightarrow> tryParseRequestCondition ni (cond_text c) = Some (Some c)"
proof (cases c)
  case (TimeCondition t)
  then show "cond_ok c \<Longrightarrow> tryParseRequestCondition ni (cond_text c) = Some (Some c)"
    by (simp add: parse_time(1) tryParseRequestCondition_def)
qed (simp add: parse_param)


section \<open>The texts of the conditions\<close>

text \<open>What splitting needs to know of a text: it is trimmed, balanced and has no ampersand.\<close>

definition part_ok :: "jstring \<Rightarrow> bool" where
  "part_ok s \<longleftrightarrow> s \<noteq> [] \<and> \<not> is_ws (hd s) \<and> \<not> is_ws (last s) \<and> 38 \<notin> set s \<and> bal s"

lemma part_trim: "part_ok s \<Longrightarrow> trim s = s"
  by (rule trim_id) (simp add: part_ok_def)

lemma no_paren_append [simp]: "no_paren (a @ b) \<longleftrightarrow> no_paren a \<and> no_paren b" "no_paren []"
  "no_paren (u # a) \<longleftrightarrow> u \<noteq> 40 \<and> u \<noteq> 41 \<and> no_paren a"
  by (auto simp: no_paren_def)

lemma bal_call_text:
  assumes "no_paren f" "list_all plain x"
  shows "bal (call_text f x @ s) \<longleftrightarrow> bal s"
proof -
  have "bal (34 # x @ [34])" using plain_sets [OF assms(2)] by (intro bal_no_paren) simp
  from bal_call [OF this assms(1), of s] show ?thesis by (simp add: call_text_def js_lit)
qed

lemma part_ok_append:
  assumes "part_ok a" "bal (a @ b)" "b \<noteq> []" "\<not> is_ws (last b)" "38 \<notin> set b"
  shows "part_ok (a @ b)"
  using assms by (simp add: part_ok_def)

lemma call_part:
  assumes "no_paren f" "list_all plain x" "f \<noteq> []" "\<not> is_ws (hd f)" "38 \<notin> set f"
  shows "part_ok (call_text f x)"
  using assms plain_sets [OF assms(2)] bal_call_text [OF assms(1,2), of "[]"] bal_no_paren [of "[]"]
  by (simp add: part_ok_def) (simp add: call_text_def js_lit is_ws_def)

lemma call_part_append:
  assumes "no_paren f" "list_all plain x" "f \<noteq> []" "\<not> is_ws (hd f)" "38 \<notin> set f"
    and "no_paren b" "b \<noteq> []" "\<not> is_ws (last b)" "38 \<notin> set b"
  shows "part_ok (call_text f x @ b)"
  using assms bal_call_text [OF assms(1,2)] by (intro part_ok_append call_part) (simp_all add: bal_no_paren)

lemma num_last: "is_numeric n \<Longrightarrow> \<not> is_ws (last n)"
  using numeric_facts(1,5) [of n] num_unit_facts by (auto simp: list_all_iff)

lemma literal_facts:
  assumes "list_all plain v" "trim v = v"
  shows "no_paren (literal_text v)" "38 \<notin> set (literal_text v)" "\<not> is_ws (last (literal_text v))"
    "literal_text v \<noteq> []" "124 \<notin> set (literal_text v)"
proof -
  have e: "literal_text v = v \<and> v \<noteq> [] \<or> literal_text v = 34 # v @ [34]"
    using is_numeric_ne [of v] by (auto simp: literal_text_def)
  then show "no_paren (literal_text v)" "38 \<notin> set (literal_text v)" "literal_text v \<noteq> []" "124 \<notin> set (literal_text v)"
    using plain_sets [OF assms(1)] by auto
  show "\<not> is_ws (last (literal_text v))"
    using e assms(2) trim_last [of v] by (auto simp: is_ws_def)
qed

lemma source_facts:
  "src = js ''param'' \<or> src = js ''header'' \<Longrightarrow> no_paren src \<and> src \<noteq> [] \<and> \<not> is_ws (hd src) \<and> 38 \<notin> set src \<and> 124 \<notin> set src"
  by (auto simp: js_lit is_ws_def)

lemma func_facts:
  "f \<in> set TIME_FUNCS \<Longrightarrow> no_paren f \<and> f \<noteq> [] \<and> \<not> is_ws (hd f) \<and> 38 \<notin> set f \<and> 124 \<notin> set f"
  by (auto simp: TIME_FUNCS_def js_lit is_ws_def)

lemma param_part:
  assumes "param_ok c"
  shows "part_ok (param_text c)"
proof -
  obtain src x mode v where c: "c = \<lparr>ph_source = src, ph_path = x, ph_mode = mode, ph_value = v\<rparr>" by (cases c)
  have x: "list_all plain x" and src: "src = js ''param'' \<or> src = js ''header''"
    using assms by (simp_all add: c param_ok_def)
  note sf = source_facts [OF src]
  consider "mode = js ''exists''"
    | "mode = js ''contains''" "src = js ''header''" "list_all plain v"
    | "mode = js ''eq''" "list_all plain v" "trim v = v"
    using assms by (auto simp: c param_ok_def)
  then show ?thesis
  proof cases
    case 1
    have "param_text c = call_text src x @ (if src = js ''header'' then js '' != \"\"'' else js '' != nil'')"
      by (simp add: c 1 param_text_def)
    then show ?thesis using sf x by (auto intro!: call_part_append simp: js_lit is_ws_def)
  next
    case 2
    have t: "param_text c = js ''has'' @ 40 # (call_text src x @ js '', \"'' @ v @ [34]) @ [41]"
      by (simp add: c 2(1) param_text_def js_lit)
    have "bal (call_text src x @ js '', \"'' @ v @ [34])"
      using bal_call_text [of src x] sf x plain_sets [OF 2(3)] by (simp add: bal_no_paren js_lit)
    then have "bal (js ''has'' @ 40 # (call_text src x @ js '', \"'' @ v @ [34]) @ [41])"
      using bal_call [of "call_text src x @ js '', \"'' @ v @ [34]" "js ''has''" "[]"] bal_no_paren [of "[]"]
      by (simp add: no_paren_def js_lit)
    then show ?thesis
      unfolding t part_ok_def using plain_sets [OF 2(3)] plain_sets [OF x] sf
      by (simp add: call_text_def js_lit is_ws_def)
  next
    case 3
    have "param_text c = call_text src x @ (js '' == '' @ literal_text v)" by (simp add: c 3(1) param_text_def)
    then show ?thesis using sf x literal_facts [OF 3(2,3)] by (auto intro!: call_part_append simp: js_lit)
  qed
qed

lemma op_facts: "no_paren (time_op mode)" "38 \<notin> set (time_op mode)" "124 \<notin> set (time_op mode)"
  by (auto simp: time_op_def js_lit)

lemma time_part:
  assumes "time_ok c"
  shows "part_ok (time_text c)"
proof -
  obtain f x mode v a b where c: "c = \<lparr>tc_timeFunc = f, tc_timezone = x, tc_mode = mode, tc_value = v,
    tc_rangeStart = a, tc_rangeEnd = b\<rparr>" by (cases c)
  have f: "f \<in> set TIME_FUNCS" "list_all plain x" using assms by (simp_all add: c time_ok_def)
  note ff = func_facts [OF f(1)]
  show ?thesis
  proof (cases "mode = js ''range''")
    case True
    have n: "is_numeric a" "is_numeric b" using assms True by (simp_all add: c time_ok_def)
    have t: "time_text c = call_text f x @ (js '' >= '' @ a @ js '' || '') @ call_text f x @ (js '' < '' @ b)"
      using True by (simp add: c time_text_def)
    have "part_ok (call_text f x @ (js '' < '' @ b))"
      using ff f numeric_facts [OF n(2)] num_last [OF n(2)] by (intro call_part_append) (auto simp: js_lit)
    then have p: "bal (call_text f x @ (js '' < '' @ b))" "\<not> is_ws (last (call_text f x @ (js '' < '' @ b)))"
      "38 \<notin> set (call_text f x @ (js '' < '' @ b))" by (simp_all only: part_ok_def not_False_eq_True)
    have "bal (js '' >= '' @ a @ js '' || '')" using numeric_facts(3) [OF n(1)] by (intro bal_no_paren) (simp add: js_lit)
    then have "bal (call_text f x @ (js '' >= '' @ a @ js '' || '') @ call_text f x @ (js '' < '' @ b))"
      using bal_call_text ff f(2) bal_append p(1) by blast
    then show ?thesis
      unfolding t using p numeric_facts(4) [OF n(1)] ff f
      by (intro part_ok_append call_part) (simp_all add: js_lit)
  next
    case False
    then have n: "is_numeric v" using assms by (simp add: c time_ok_def)
    have "time_text c = call_text f x @ (js '' '' @ time_op mode @ js '' '' @ v)"
      using False by (simp add: c time_text_def)
    then show ?thesis
      using ff f numeric_facts [OF n] num_last [OF n] op_facts [of mode]
      by (auto intro!: call_part_append simp: js_lit)
  qed
qed

lemma cond_part: "cond_ok c \<Longrightarrow> part_ok (cond_text c)"
  by (cases c) (simp_all add: param_part time_part)


section \<open>Groups\<close>

definition group_ok :: "rule_group \<Rightarrow> bool" where
  "group_ok g \<longleftrightarrow> is_numeric (rg_multiplier g) \<and> rg_conditions g \<noteq> [] \<and> list_all cond_ok (rg_conditions g) \<and>
     rg_conditionText g = None \<and> rg_matched g = None"

definition wrap_or :: "jstring \<Rightarrow> jstring" where
  "wrap_or e = (if js_includes e (js '' || '') then js ''('' @ e @ js '')'' else e)"

definition group_parts :: "rule_group \<Rightarrow> jstring list" where
  "group_parts g = (let es = map cond_text (rg_conditions g) in if length es = 1 then es else map wrap_or es)"

definition group_text :: "rule_group \<Rightarrow> jstring" where
  "group_text g = 40 # (join (js '' && '') (group_parts g) @ js '' ? '' @ rg_multiplier g @ js '' : 1'') @ [41]"

lemma no_bar: "124 \<notin> set e \<Longrightarrow> wrap_or e = e"
  by (auto simp: wrap_or_def js_includes_iff js_lit)

lemma param_no_bar:
  assumes "param_ok c"
  shows "124 \<notin> set (param_text c)"
proof -
  have x: "124 \<notin> set (ph_path c)" and src: "124 \<notin> set (ph_source c)"
    using assms plain_sets [of "ph_path c"] source_facts [of "ph_source c"] by (auto simp: param_ok_def)
  have "124 \<notin> set (call_text (ph_source c) (ph_path c))" using x src by (simp add: call_text_def js_lit)
  then show ?thesis
    using assms literal_facts(5) [of "ph_value c"] plain_sets [of "ph_value c"]
    by (auto simp: param_text_def param_ok_def js_lit)
qed

lemma wrapped:
  assumes "cond_ok c"
  shows "part_ok (wrap_or (cond_text c))" "tryParseRequestCondition ni (wrap_or (cond_text c)) = Some (Some c)"
proof -
  have p: "part_ok (cond_text c)" "tryParseRequestCondition ni (cond_text c) = Some (Some c)"
    using assms by (simp_all add: cond_part parse_cond)
  have "wrap_or (cond_text c) = cond_text c \<or>
    (\<exists>t. c = TimeCondition t \<and> tc_mode t = js ''range'' \<and> wrap_or (cond_text c) = js ''('' @ time_text t @ js '')'')"
  proof (cases c)
    case (TimeCondition t)
    have x: "124 \<notin> set (tc_timezone t)" "124 \<notin> set (tc_timeFunc t)"
      using assms plain_sets [of "tc_timezone t"] func_facts [of "tc_timeFunc t"] by (auto simp: TimeCondition time_ok_def)
    show ?thesis
    proof (cases "tc_mode t = js ''range''")
      case True
      then show ?thesis by (auto simp: TimeCondition wrap_or_def)
    next
      case False
      then have "124 \<notin> set (tc_value t)"
        using assms numeric_facts(5) [of "tc_value t"]
        by (auto simp: TimeCondition time_ok_def list_all_iff num_unit_def is_digit_def)
      with x False have "124 \<notin> set (time_text t)"
        using op_facts(3) by (simp add: time_text_def call_text_def js_lit)
      then show ?thesis by (simp add: TimeCondition no_bar)
    qed
  next
    case (ParamHeaderCondition q)
    then show ?thesis using assms by (simp add: no_bar param_no_bar)
  qed
  then have "part_ok (wrap_or (cond_text c)) \<and> tryParseRequestCondition ni (wrap_or (cond_text c)) = Some (Some c)"
  proof (elim disjE exE conjE)
    fix t assume t: "c = TimeCondition t" "tc_mode t = js ''range''" "wrap_or (cond_text c) = js ''('' @ time_text t @ js '')''"
    have "time_ok t" using assms t(1) by simp
    then have "tryParseTimeCondition (js ''('' @ time_text t @ js '')'') = Some c" using t(1,2) by (simp add: parse_time(2))
    then have "tryParseRequestCondition ni (wrap_or (cond_text c)) = Some (Some c)"
      unfolding t(3) tryParseRequestCondition_def by simp
    moreover have "bal (40 # time_text t @ [41])" using p(1) t(1) by (intro bal_paren) (simp add: part_ok_def)
    then have "part_ok (wrap_or (cond_text c))"
      unfolding t(3) using p(1) t(1) by (simp add: part_ok_def js_lit is_ws_def)
    ultimately show ?thesis by blast
  qed (use p in simp)
  then show "part_ok (wrap_or (cond_text c))" "tryParseRequestCondition ni (wrap_or (cond_text c)) = Some (Some c)"
    by simp_all
qed

lemma group_parts_ok:
  assumes "group_ok g"
  shows "list_all part_ok (group_parts g)" "group_parts g \<noteq> []"
    "parse_parts (\<lambda>part. tryParseRequestCondition ni (trim part)) (group_parts g) = Some (Some (rg_conditions g))"
proof -
  have c: "list_all cond_ok (rg_conditions g)" "rg_conditions g \<noteq> []" using assms by (simp_all add: group_ok_def)
  have pp: "parse_parts f (map h cs) = Some (Some cs)" if "\<forall>c\<in>set cs. f (h c) = Some (Some c)"
    for f and h :: "request_condition \<Rightarrow> jstring" and cs
    using that by (induction cs) simp_all
  obtain h where h: "group_parts g = map h (rg_conditions g)" "h = cond_text \<or> h = wrap_or \<circ> cond_text"
  proof
    show "group_parts g = map (if length (rg_conditions g) = 1 then cond_text else wrap_or \<circ> cond_text) (rg_conditions g)"
      by (simp add: group_parts_def Let_def)
  qed simp
  have 1: "part_ok (h x)" "tryParseRequestCondition ni (h x) = Some (Some x)" if "x \<in> set (rg_conditions g)" for x
    using h(2) that c(1) wrapped cond_part parse_cond by (auto simp: list_all_iff)
  show "list_all part_ok (group_parts g)" "group_parts g \<noteq> []" using 1(1) c(2) by (auto simp: h(1) list_all_iff)
  show "parse_parts (\<lambda>part. tryParseRequestCondition ni (trim part)) (group_parts g) = Some (Some (rg_conditions g))"
    unfolding h(1) by (rule pp) (simp add: 1 part_trim)
qed

lemma split_and:
  assumes "list_all part_ok ps" "ps \<noteq> []"
  shows "splitTopLevelAnd (join (js '' && '') ps) = ps"
proof -
  have sep: "js '' && '' = 32 # 38 # [38, 32]" by (simp add: js_lit)
  have "split_top (js '' && '') 0 [] (join (js '' && '') ps) = ps"
  proof (rule split_top_join)
    show "js '' && '' = 32 # [38, 38, 32]" by (simp add: js_lit)
    show "dstep 0 32 = 0" by (simp add: dstep_def)
    show "\<forall>p\<in>set ps. trim p = p \<and> dep 0 p = 0 \<and> never (js '' && '') 0 p [] \<and> (\<forall>s. never (js '' && '') 0 p (js '' && '' @ s))"
    proof
      fix q assume "q \<in> set ps"
      then have q: "part_ok q" using assms(1) by (simp add: list_all_iff)
      then have "last q \<noteq> 32" by (auto simp: part_ok_def is_ws_def)
      then have n: "never (js '' && '') 0 q s" for s
        unfolding sep using q by (intro never_unit) (auto simp: part_ok_def)
      show "trim q = q \<and> dep 0 q = 0 \<and> never (js '' && '') 0 q [] \<and> (\<forall>s. never (js '' && '') 0 q (js '' && '' @ s))"
        using q n by (simp add: part_trim) (simp add: part_ok_def bal_dep)
    qed
  qed (rule assms(2))
  moreover have "filter (\<lambda>p. p \<noteq> []) ps = ps"
    using assms(1) by (auto simp: filter_id_conv list_all_iff part_ok_def)
  ultimately show ?thesis by (simp add: splitTopLevelAnd_def)
qed

lemma join_bal: "list_all bal ps \<Longrightarrow> no_paren sep \<Longrightarrow> bal (join sep ps)"
  by (induction sep ps rule: join.induct) (auto intro!: bal_append intro: bal_no_paren)

lemma join_ne: "ps \<noteq> [] \<Longrightarrow> list_all (\<lambda>p. p \<noteq> []) ps \<Longrightarrow> join sep ps \<noteq> []"
  by (induction sep ps rule: join.induct) auto

lemma no_later_question:
  assumes "63 \<notin> set z" "0 < k"
  shows "\<not> startsWith (drop k (32 # 63 # z)) (32 # 63 # y)"
proof
  assume s: "startsWith (drop k (32 # 63 # z)) (32 # 63 # y)"
  obtain j where k: "k = Suc j" using assms(2) by (cases k) auto
  show False
  proof (cases j)
    case 0
    with s k show False by (simp add: startsWith_def)
  next
    case (Suc i)
    with s k have "startsWith (drop i z) (32 # 63 # y)" by simp
    then obtain t where "drop i z = 32 # 63 # y @ t" by (auto simp: startsWith_iff)
    then have "63 \<in> set (drop i z)" by simp
    with assms(1) show False by (meson in_set_dropD)
  qed
qed

lemma gets_factor:
  assumes "w \<noteq> []" "is_numeric m"
  shows "gets rule_factor_re (js ''('' @ w @ js '' ? '' @ m @ js '' : 1)'') [(2, m), (1, w)]"
  unfolding rule_factor_re_def
proof (rule getsI_Seqs, simp only: append_Cons append_Nil Seqs.simps, rule takes_Seq [OF takes_Lit], rule takes_any [OF assms(1)])
  have n: "takes (Group 2 Num) (m @ js '' : 1)'') [(1, w)] (js '' : 1)'') [(2, m), (1, w)]"
    by (rule takes_num [OF assms(2)]) (simp add: js_lit not_num)
  show "takes (Seq (L '' ? '') (Seq (Group 2 Num) (Seq (L '' : 1)'') Eol))) (js '' ? '' @ m @ js '' : 1)'') [(1, w)] [] [(2, m), (1, w)]"
    by (intro takes_Seq [OF takes_Lit] takes_Seq [OF n] takes_Seq [OF takes_end] takes_Eol)
next
  fix k g assume k: "0 < k" "k \<le> length (js '' ? '' @ m @ js '' : 1)'')"
  have "63 \<notin> set m" using numeric_facts(5) [OF assms(2)] by (auto simp: list_all_iff num_unit_def is_digit_def)
  then have "\<not> startsWith (drop k (js '' ? '' @ m @ js '' : 1)'')) (js '' ? '')"
    using no_later_question [OF _ k(1), of "32 # m @ js '' : 1)''" "[32]"] by (simp add: js_lit)
  then show "refuses (Seq (L '' ? '') (Seq (Group 2 Num) (Seq (L '' : 1)'') Eol))) (drop k (js '' ? '' @ m @ js '' : 1)'')) g"
    by (rule refuses_start)
qed

lemma group_text_alt:
  "group_text g = js ''('' @ join (js '' && '') (group_parts g) @ js '' ? '' @ rg_multiplier g @ js '' : 1)''"
  by (simp add: group_text_def js_lit)

lemma parse_group:
  assumes "group_ok g"
  shows "tryParseRuleGroupFactor ni (group_text g) = Some (Some g)"
proof -
  note gp = group_parts_ok [OF assms]
  have "join (js '' && '') (group_parts g) \<noteq> []"
    using gp(1,2) by (intro join_ne) (auto simp: list_all_iff part_ok_def)
  then have "gets rule_factor_re (group_text g) [(2, rg_multiplier g), (1, join (js '' && '') (group_parts g))]"
    unfolding group_text_alt using assms by (intro gets_factor) (simp_all add: group_ok_def)
  then obtain m where m: "full_match rule_factor_re (group_text g) = Some m"
    "\<And>i. group m i = map_of [(2, rg_multiplier g), (1, join (js '' && '') (group_parts g))] i"
    by (rule getsE) (rule that)
  have "rg_conditions g \<noteq> []" using assms by (simp add: group_ok_def)
  then have "tryParseRequestConditions ni (join (js '' && '') (group_parts g)) = Some (Some (rg_conditions g))"
    by (simp add: tryParseRequestConditions_def split_and [OF gp(1,2)] gp(3) split: list.split)
  then show ?thesis
    using assms by (simp add: tryParseRuleGroupFactor_def m coalesce_def group_ok_def)
qed

lemma build_group:
  assumes "group_ok g"
  shows "buildRuleGroupFactor g = group_text g"
proof -
  have c: "list_all cond_ok (rg_conditions g)" "rg_conditions g \<noteq> []" using assms by (simp_all add: group_ok_def)
  have e: "map buildRequestConditionExpr (rg_conditions g) = map cond_text (rg_conditions g)"
    using c(1) by (auto simp: list_all_iff build_cond)
  have f: "filter (\<lambda>e. e \<noteq> []) (map cond_text (rg_conditions g)) = map cond_text (rg_conditions g)"
    using c(1) cond_part by (auto simp: filter_id_conv list_all_iff part_ok_def)
  have t: "trim (rg_multiplier g) = rg_multiplier g" "is_numeric (rg_multiplier g)"
    using assms numeric_facts(2) by (auto simp: group_ok_def)
  show ?thesis
    using c(2) t unfolding buildRuleGroupFactor_def e f Let_def group_text_alt group_parts_def
    by (cases "rg_conditions g") (auto simp: wrap_or_def [abs_def])
qed


section \<open>Rules\<close>

lemma split_mult_join:
  assumes "\<forall>p\<in>set ps. \<exists>w. p = 40 # w @ [41] \<and> bal w" "ps \<noteq> []"
  shows "splitTopLevelMultiply (join (js '' * '') ps) = ps" "trim (join (js '' * '') ps) = join (js '' * '') ps"
    "join (js '' * '') ps \<noteq> []"
proof -
  have sep: "js '' * '' = 32 # [42, 32]" by (simp add: js_lit)
  have "split_top (js '' * '') 0 [] (join (js '' * '') ps) = ps"
  proof (rule split_top_join [OF sep])
    show "dstep 0 32 = 0" by (simp add: dstep_def)
    show "\<forall>p\<in>set ps. trim p = p \<and> dep 0 p = 0 \<and> never (js '' * '') 0 p [] \<and> (\<forall>s. never (js '' * '') 0 p (js '' * '' @ s))"
    proof
      fix q assume "q \<in> set ps"
      then obtain w where w: "q = 40 # w @ [41]" "bal w" using assms(1) by blast
      have "trim q = q" unfolding w(1) by (rule trim_id) (simp add: is_ws_def)
      moreover have "dep 0 q = 0" unfolding w(1) by (rule bal_dep [OF bal_paren [OF w(2)]])
      ultimately show "trim q = q \<and> dep 0 q = 0 \<and> never (js '' * '') 0 q [] \<and> (\<forall>s. never (js '' * '') 0 q (js '' * '' @ s))"
        using never_paren [OF w(2) sep] w(1) by simp
    qed
  qed (rule assms(2))
  moreover have "filter (\<lambda>p. p \<noteq> []) ps = ps" using assms(1) by (auto simp: filter_id_conv)
  ultimately show "splitTopLevelMultiply (join (js '' * '') ps) = ps" by (simp add: splitTopLevelMultiply_def)
  have "join (js '' * '') ps \<noteq> [] \<and> hd (join (js '' * '') ps) = 40 \<and> last (join (js '' * '') ps) = 41"
    using assms(2,1)
  proof (induction ps rule: list_nonempty_induct)
    case (cons p ps)
    then obtain w q qs where "p = 40 # w @ [41]" "ps = q # qs" by (cases ps) auto
    with cons show ?case by (simp add: js_lit)
  qed auto
  then show "trim (join (js '' * '') ps) = join (js '' * '') ps" "join (js '' * '') ps \<noteq> []"
    by (auto intro!: trim_id simp: is_ws_def)
qed

lemma group_text_paren:
  assumes "group_ok g"
  shows "\<exists>w. group_text g = 40 # w @ [41] \<and> bal w"
proof -
  have "list_all bal (group_parts g)" using group_parts_ok(1) [OF assms] by (auto simp: list_all_iff part_ok_def)
  then have "bal (join (js '' && '') (group_parts g))" by (rule join_bal) (simp add: js_lit)
  moreover have "no_paren (js '' ? '' @ rg_multiplier g @ js '' : 1'')"
    using assms numeric_facts(3) [of "rg_multiplier g"] by (simp add: group_ok_def js_lit)
  ultimately have "bal (join (js '' && '') (group_parts g) @ js '' ? '' @ rg_multiplier g @ js '' : 1'')"
    by (blast intro: bal_append bal_no_paren)
  then show ?thesis unfolding group_text_def by blast
qed

lemma build_rules:
  assumes "list_all group_ok gs"
  shows "buildRequestRuleExpr gs = join (js '' * '') (map group_text gs)"
proof -
  have "map buildRuleGroupFactor gs = map group_text gs" using assms by (auto simp: list_all_iff build_group)
  moreover have "filter (\<lambda>f. f \<noteq> []) (map group_text gs) = map group_text gs"
    by (auto simp: filter_id_conv group_text_def)
  ultimately show ?thesis unfolding buildRequestRuleExpr_def by (simp only:)
qed

lemma parse_groups:
  "list_all group_ok gs \<Longrightarrow> parse_parts (tryParseRuleGroupFactor ni) (map group_text gs) = Some (Some gs)"
  by (induction gs) (simp_all add: parse_group)

lemma rules_reparse:
  assumes "list_all group_ok gs"
  shows "tryParseRequestRuleExpr ni (buildRequestRuleExpr gs) = Some (Some gs)"
proof (cases "gs = []")
  case True
  then show ?thesis by (simp add: tryParseRequestRuleExpr_def buildRequestRuleExpr_def)
next
  case False
  have "\<forall>p\<in>set (map group_text gs). \<exists>w. p = 40 # w @ [41] \<and> bal w"
    using assms group_text_paren by (auto simp: list_all_iff)
  from split_mult_join [OF this] False show ?thesis
    by (simp add: tryParseRequestRuleExpr_def build_rules [OF assms] parse_groups [OF assms] Let_def)
qed


section \<open>Splitting what was combined\<close>

definition base_ok :: "jstring \<Rightarrow> bool" where
  "base_ok b \<longleftrightarrow> b \<noteq> [] \<and> trim b = b \<and> bal b \<and> \<not> hasFullOuterParens b \<and> \<not> endsWith b (js '' : 1'')"

lemma endsWith_iff: "endsWith s p \<longleftrightarrow> (\<exists>t. s = t @ p)"
proof
  assume "endsWith s p"
  then have "s = take (length s - length p) s @ p" unfolding endsWith_def by (metis append_take_drop_id)
  then show "\<exists>t. s = t @ p" by blast
qed (auto simp: endsWith_def)

lemma outer_loop_bal:
  "above 1 d w \<Longrightarrow> outer_loop d (w @ [41]) \<longleftrightarrow> dep d w = 1"
proof (induction w arbitrary: d)
  case Nil
  then show ?case by simp
next
  case (Cons u w)
  from Cons.prems have "dstep d u \<noteq> 0" "above 1 (dstep d u) w" by auto
  with Cons.IH [of "dstep d u"] show ?case by (auto simp: Let_def dstep_def)
qed

lemma paren_outer: "bal w \<Longrightarrow> hasFullOuterParens (40 # w @ [41])"
proof -
  assume w: "bal w"
  have "outer_loop 1 (w @ [41])" using outer_loop_bal [of 1 w] bal_above [OF w] bal_dep [OF w] by simp
  then show ?thesis by (simp add: hasFullOuterParens_def startsWith_def endsWith_iff js_lit)
qed

lemma unwrap_paren:
  assumes "bal b" "trim b = b" "\<not> hasFullOuterParens b"
  shows "unwrapOuterParens (40 # b @ [41]) = b"
proof -
  have "trim (40 # b @ [41]) = 40 # b @ [41]" by (rule trim_id) (simp add: is_ws_def)
  moreover have "unwrap_loop (40 # b @ [41]) = unwrap_loop b"
    using paren_outer [OF assms(1)] assms(2) by (subst unwrap_loop.simps) (simp add: inner_def)
  moreover have "unwrap_loop b = b" using assms(3) by (subst unwrap_loop.simps) simp
  ultimately show ?thesis by (simp add: unwrapOuterParens_def)
qed

lemma no_rule_end:
  assumes "\<not> endsWith b (js '' : 1'')"
  shows "full_match rule_factor_re (40 # b @ [41]) = None"
proof (rule ccontr)
  assume a: "full_match rule_factor_re (40 # b @ [41]) \<noteq> None"
  have "full_match rule_factor_re s = full_match (Seq (Seqs [L ''('', Group 1 (Plus (Chr (\<lambda>_. True))), L '' ? '', Group 2 Num]) (L '' : 1)'')) s" for s
    unfolding rule_factor_re_def full_match_def match_at_def
    using matches_Seqs_append [of "[L ''('', Group 1 (Plus (Chr (\<lambda>_. True))), L '' ? '', Group 2 Num]" "[L '' : 1)'']"]
    by (simp only: append_Cons append_Nil Seqs.simps list.simps simp_thms matches.simps(4))
  with a obtain t where "40 # b @ [41] = t @ js '' : 1)''" by (metis full_match_suffix)
  then have "b @ [41] = tl (t @ js '' : 1)'')" by (metis list.sel(3))
  then have e: "b = butlast (tl (t @ js '' : 1)''))" by (metis butlast_snoc)
  show False
  proof (cases t)
    case Nil
    with \<open>40 # b @ [41] = t @ js '' : 1)''\<close> show False by (simp add: js_lit)
  next
    case (Cons u t')
    with e have "b = t' @ js '' : 1''" by (simp add: js_lit butlast_append)
    with assms show False by (auto simp: endsWith_iff)
  qed
qed

lemma base_no_rule:
  assumes "base_ok b"
  shows "is_rule_part ni (40 # b @ [41]) = Some False"
proof -
  have "splitTopLevelMultiply (join (js '' * '') [40 # b @ [41]]) = [40 # b @ [41]]"
    "trim (join (js '' * '') [40 # b @ [41]]) = join (js '' * '') [40 # b @ [41]]"
    using assms by (intro split_mult_join; simp add: base_ok_def)+
  then show ?thesis
    using no_rule_end [of b] assms
    by (simp add: is_rule_part_def tryParseRequestRuleExpr_def tryParseRuleGroupFactor_def base_ok_def)
qed

lemma group_rule_part:
  assumes "group_ok g"
  shows "is_rule_part ni (group_text g) = Some True"
  using rules_reparse [of "[g]" ni] assms by (simp add: build_rules is_rule_part_def)

lemma those_Some: "those (map f xs) = Some (map h xs)" if "\<forall>x\<in>set xs. f x = Some (h x)"
  using that by (induction xs) simp_all

lemma split_combine:
  assumes b: "base_ok b" and g: "list_all group_ok gs" and ne: "gs \<noteq> []"
  shows "splitBillingExprAndRequestRules ni (combineBillingExpr b (buildRequestRuleExpr gs)) =
    Some \<lparr>sx_billingExpr = b, sx_requestRuleExpr = buildRequestRuleExpr gs\<rparr>"
proof -
  let ?ps = "(40 # b @ [41]) # map group_text gs"
  have parts: "\<forall>p\<in>set ?ps. \<exists>w. p = 40 # w @ [41] \<and> bal w"
    using g b group_text_paren by (auto simp: list_all_iff base_ok_def)
  have parts': "\<forall>p\<in>set (map group_text gs). \<exists>w. p = 40 # w @ [41] \<and> bal w" using parts by simp
  note r = build_rules [OF g]
  have "join (js '' * '') ?ps = 40 # b @ 41 # js '' * '' @ join (js '' * '') (map group_text gs)"
    using ne by (cases gs) simp_all
  then have c: "combineBillingExpr b (buildRequestRuleExpr gs) = join (js '' * '') ?ps"
    using b ne split_mult_join(2,3) [OF parts'] by (simp add: combineBillingExpr_def r base_ok_def js_lit)
  have f: "those (map (is_rule_part ni) (map group_text gs)) = Some (map (\<lambda>_. True) (map group_text gs))"
    using g group_rule_part by (intro those_Some) (auto simp: list_all_iff)
  have fl: "those (map (is_rule_part ni) ?ps) = Some (False # map (\<lambda>_. True) (map group_text gs))"
    using f base_no_rule [OF b] by simp
  have z: "filter snd (zip xs (map (\<lambda>_. True) xs)) = zip xs (map (\<lambda>_. True) xs)"
    "filter (\<lambda>x. \<not> snd x) (zip xs (map (\<lambda>_. True) xs)) = []" for xs :: "jstring list"
    by (induction xs) simp_all
  show ?thesis
    unfolding splitBillingExprAndRequestRules_def c split_mult_join [OF parts list.simps(3)] Let_def fl option.case
    using ne split_mult_join(3) [OF parts] b
    by (simp add: z r unwrap_paren base_ok_def del: map_map)
qed


text \<open>C25 [request_rules_reparsed]: request rules in normal form survive the expression. A group is in normal
  form when its multiplier is numeric, it has a condition, and each condition is one on the existence
  or equality of a parameter or header, one on a header containing a text, or a time comparison or
  range; paths, zones and values are trimmed and hold no quotes, backslashes, parentheses, ampersands,
  bars, control units or surrogates. Comparisons and containment on body parameters, which the editor
  also offers, are not in normal form. Printing such groups, at least one, and combining them with a
  base expression that is trimmed, balanced, not parenthesised as a whole and does not end like a rule
  gives an expression that splits into the same base and the same rules, and the rules parse to the
  same groups.\<close>

theorem request_rules_reparsed:
  assumes "base_ok b" and "list_all group_ok gs" and "gs \<noteq> []"
  shows "splitBillingExprAndRequestRules ni (combineBillingExpr b (buildRequestRuleExpr gs)) =
      Some \<lparr>sx_billingExpr = b, sx_requestRuleExpr = buildRequestRuleExpr gs\<rparr> \<and>
    tryParseRequestRuleExpr ni (buildRequestRuleExpr gs) = Some (Some gs)"
  using split_combine [OF assms] rules_reparse [OF assms(2)] by (rule conjI)

definition sample_groups :: "rule_group list" where
  "sample_groups =
     [\<lparr>rg_conditions =
         [ParamHeaderCondition \<lparr>ph_source = js ''param'', ph_path = js ''stream'', ph_mode = js ''eq'', ph_value = js ''true''\<rparr>,
          TimeCondition \<lparr>tc_timeFunc = js ''hour'', tc_timezone = js ''UTC'', tc_mode = js ''range'', tc_value = [],
            tc_rangeStart = js ''22'', tc_rangeEnd = js ''6''\<rparr>],
       rg_multiplier = js ''0.5'', rg_conditionText = None, rg_matched = None\<rparr>,
      \<lparr>rg_conditions =
         [ParamHeaderCondition \<lparr>ph_source = js ''header'', ph_path = js ''x-beta'', ph_mode = js ''contains'', ph_value = js ''fast''\<rparr>],
       rg_multiplier = js ''2'', rg_conditionText = None, rg_matched = None\<rparr>]"

lemma sample_groups_ok: "list_all group_ok sample_groups"
  by code_simp

lemma sample_base_ok: "base_ok (js ''p * 2 + c * 8'')"
  by code_simp

theorem request_rules_reparsed_witness:
  "splitBillingExprAndRequestRules (\<lambda>_. []) (combineBillingExpr (js ''p * 2 + c * 8'') (buildRequestRuleExpr sample_groups)) =
      Some \<lparr>sx_billingExpr = js ''p * 2 + c * 8'', sx_requestRuleExpr = buildRequestRuleExpr sample_groups\<rparr> \<and>
    tryParseRequestRuleExpr (\<lambda>_. []) (buildRequestRuleExpr sample_groups) = Some (Some sample_groups)"
  by (rule request_rules_reparsed [OF sample_base_ok sample_groups_ok]) (simp add: sample_groups_def)

end
