(* ===== verification/TierRules.thy ===== *)
theory TierRules
  imports TierExpr BillingRules
begin

text \<open>
  What the visual price editor prints, its parser recognises: the expression generated from a
  configuration of tiers parses to the same configuration. The lemmas follow the regular expressions
  of \<open>features/pricing/lib/tier-expr.ts\<close> over the printed text from left to right.
\<close>

section \<open>Numbers in the text\<close>

text \<open>\<open>printable P ni q\<close>: the text of the number is read back as the number and stays in the class \<open>P\<close>.\<close>

definition printable :: "(nat \<Rightarrow> bool) \<Rightarrow> (rat \<Rightarrow> jstring) \<Rightarrow> rat \<Rightarrow> bool" where
  "printable P ni q \<longleftrightarrow> num_str ni q \<noteq> [] \<and> list_all P (num_str ni q) \<and> string_to_number (num_str ni q) = Some q"

text \<open>A factor \<open>v * n\<close>.\<close>

definition factor :: "nat \<Rightarrow> jstring \<Rightarrow> regex list" where
  "factor i v = [Lit v, Ws, L ''*'', Ws, Group i Num]"

definition factor_text :: "(rat \<Rightarrow> jstring) \<Rightarrow> jstring \<Rightarrow> rat \<Rightarrow> jstring" where
  "factor_text ni v q = v @ 32 # 42 # 32 # num_str ni q"

lemma takes_unit: "js w = [u] \<Longrightarrow> takes (L w) (u # s) gs s gs"
  using takes_Lit [of "[u]" s gs] by simp

lemma num_hd: "printable num_unit ni q \<Longrightarrow> num_str ni q @ s = [] \<or> \<not> is_ws (hd (num_str ni q @ s))"
  using num_unit_facts by (auto simp: printable_def list_all_iff)

lemma takes_number:
  assumes "printable num_unit ni q" "s = [] \<or> \<not> num_unit (hd s)"
  shows "takes (Group i Num) (num_str ni q @ s) gs s ((i, num_str ni q) # gs)"
  using assms by (intro takes_word) (simp_all add: printable_def runs_def)

lemma takes_factor:
  assumes "printable num_unit ni q" "s = [] \<or> \<not> num_unit (hd s)"
  shows "takes (Seqs (factor i v)) (factor_text ni v q @ s) gs s ((i, num_str ni q) # gs)"
  unfolding factor_def factor_text_def Seqs.simps append_assoc append_Cons
  by (intro takes_Seq [OF takes_Lit] takes_Seq [OF takes_Ws] takes_Seq [OF takes_unit] takes_number assms num_hd)
    (simp_all add: js_lit is_ws_def)


section \<open>The body of a tier\<close>

text \<open>The optional costs: their text, and the groups a match records.\<close>

definition plus :: "regex list" where
  "plus = [Ws, L ''+'', Ws]"

lemma cost_group_eq: "cost_group i v = Opt (Seqs (plus @ factor i v))"
  by (simp add: cost_group_def plus_def factor_def)

lemma takes_plus: "s = [] \<or> \<not> is_ws (hd s) \<Longrightarrow> takes (Seqs plus) (32 # 43 # 32 # s) gs s gs"
  unfolding plus_def Seqs.simps
  by (intro takes_Seq [OF takes_Ws] takes_Seq [OF takes_unit] takes_Ws) (simp_all add: js_lit is_ws_def)

fun costs_text :: "(rat \<Rightarrow> jstring) \<Rightarrow> jstring list \<Rightarrow> rat list \<Rightarrow> jstring" where
  "costs_text ni (v # vs) (q # qs) =
     (if q = 0 then [] else 32 # 43 # 32 # factor_text ni v q) @ costs_text ni vs qs"
| "costs_text ni _ _ = []"

fun cost_gs :: "(rat \<Rightarrow> jstring) \<Rightarrow> nat \<Rightarrow> rat list \<Rightarrow> (nat \<times> jstring) list \<Rightarrow> (nat \<times> jstring) list" where
  "cost_gs ni i [] gs = gs"
| "cost_gs ni i (q # qs) gs = cost_gs ni (i + 1) qs (if q = 0 then gs else (i, num_str ni q) # gs)"

definition var_name :: "jstring \<Rightarrow> bool" where
  "var_name v \<longleftrightarrow> v \<noteq> [] \<and> list_all (\<lambda>u. \<not> is_ws u \<and> u \<noteq> 42) v"

lemma costs_hd:
  "costs_text ni vs qs = [] \<or> (\<exists>w q r. w \<in> set vs \<and> costs_text ni vs qs = 32 # 43 # 32 # factor_text ni w q @ r)"
  by (induction ni vs qs rule: costs_text.induct) auto

text \<open>A variable is refused where the text has another one, or none.\<close>

lemma refuses_other:
  assumes "var_name v" "var_name w" "v \<noteq> w"
  shows "refuses (Seqs (plus @ factor i v)) (32 # 43 # 32 # factor_text ni w q @ s) gs"
proof -
  have nw: "w @ t = [] \<or> \<not> is_ws (hd (w @ t))" "v \<noteq> []" "\<not> is_ws (hd v)" for t
    using assms by (auto simp: var_name_def list_all_iff)
  have "refuses (Seq (Lit v) (Seq Ws (Seq (L ''*'') b))) (w @ 32 # t) gs" for b t
  proof (cases "startsWith (w @ 32 # t) v")
    case True
    then obtain r where r: "w @ 32 # t = v @ r" by (auto simp: startsWith_iff)
    have "32 \<notin> set v" using assms(1) by (auto simp: var_name_def list_all_iff is_ws_def)
    with r obtain z where z: "w = v @ z" "r = z @ 32 # t" by (auto simp: append_eq_append_conv2 append_eq_Cons_conv Cons_eq_append_conv)
    with assms have zz: "z \<noteq> []" "\<not> is_ws (hd z)" "hd z \<noteq> 42" by (auto simp: var_name_def list_all_iff)
    have "refuses (Seq Ws (Seq (L ''*'') b)) r gs"
      using z zz by (intro refuses_Ws_Lit0 refuses_start) (cases z, auto simp: startsWith_def js_lit)+
    then show ?thesis unfolding r by (rule refuses_then)
  qed (rule refuses_start)
  note r1 = this
  have "refuses (Seq Ws (Seq (Lit v) (Seq Ws (Seq (L ''*'') b)))) (32 # w @ 32 # t) gs" for b t
    by (intro refuses_Ws_Lit r1 nw)
  note r2 = this
  have "refuses (Seq (L ''+'') (Seq Ws (Seq (Lit v) (Seq Ws (Seq (L ''*'') b))))) (43 # 32 # w @ 32 # t) gs" for b t
    using refuses_then [OF r2, of "[43]"] by (simp add: js_lit)
  then show ?thesis
    unfolding plus_def factor_def factor_text_def append.simps Seqs.simps append_assoc append_Cons
    by (intro refuses_Ws_Lit) (simp_all add: js_lit is_ws_def)
qed

lemma refuses_close: "refuses (Seqs (plus @ factor i v)) (41 # s) gs"
  unfolding plus_def factor_def append.simps Seqs.simps
  by (intro refuses_Ws_Lit0 refuses_start) (simp_all add: is_ws_def startsWith_def js_lit)

lemma takes_cost:
  assumes "printable num_unit ni q" "var_name v" "list_all var_name vs" "v \<notin> set vs"
  shows "takes (cost_group i v) (costs_text ni (v # vs) (q # qs) @ 41 # s) gs (costs_text ni vs qs @ 41 # s)
    (if q = 0 then gs else (i, num_str ni q) # gs)"
proof (cases "q = 0")
  case True
  have "refuses (Seqs (plus @ factor i v)) (costs_text ni vs qs @ 41 # s) gs"
    using costs_hd [of ni vs qs]
  proof
    assume "\<exists>w q r. w \<in> set vs \<and> costs_text ni vs qs = 32 # 43 # 32 # factor_text ni w q @ r"
    then obtain w q' r where w: "w \<in> set vs" "costs_text ni vs qs = 32 # 43 # 32 # factor_text ni w q' @ r" by blast
    then have "var_name w" "v \<noteq> w" using assms(3,4) by (auto simp: list_all_iff)
    from refuses_other [OF assms(2) this] show ?thesis unfolding w(2) by simp
  qed (simp add: refuses_close)
  with True show ?thesis unfolding cost_group_eq by (simp add: takes_Opt_skip)
next
  case False
  have hd: "factor_text ni v q @ t = [] \<or> \<not> is_ws (hd (factor_text ni v q @ t))" for t
    using assms(2) by (auto simp: factor_text_def var_name_def list_all_iff)
  have "\<not> num_unit (hd (costs_text ni vs qs @ 41 # s))"
    using costs_hd [of ni vs qs] by (auto simp: num_unit_def is_digit_def)
  then have "takes (Seqs (plus @ factor i v)) (32 # 43 # 32 # factor_text ni v q @ costs_text ni vs qs @ 41 # s) gs
      (costs_text ni vs qs @ 41 # s) ((i, num_str ni q) # gs)"
    by (intro takes_Seqs_append [OF _ _ takes_plus [OF hd] takes_factor [OF assms(1)]]) (simp_all add: plus_def factor_def)
  with False show ?thesis unfolding cost_group_eq by (simp add: takes_Opt)
qed

lemma takes_costs:
  assumes "length qs = length vs" "vs \<noteq> []" "list_all (printable num_unit ni) qs" "list_all var_name vs" "distinct vs"
  shows "takes (Seqs (cost_groups i vs)) (costs_text ni vs qs @ 41 # s) gs (41 # s) (cost_gs ni i qs gs)"
  using assms
proof (induction vs arbitrary: qs i gs)
  case (Cons v vs)
  from Cons.prems obtain q rs where q: "qs = q # rs" by (cases qs) auto
  have c: "takes (cost_group i v) (costs_text ni (v # vs) (q # rs) @ 41 # s) gs (costs_text ni vs rs @ 41 # s)
      (if q = 0 then gs else (i, num_str ni q) # gs)"
    using Cons.prems q by (intro takes_cost) simp_all
  show ?case
  proof (cases vs)
    case Nil
    with Cons.prems q c show ?thesis by simp
  next
    case (Cons w ws)
    have t: "takes (Seqs (cost_groups (i + 1) vs)) (costs_text ni vs rs @ 41 # s) g (41 # s) (cost_gs ni (i + 1) rs g)" for g
      using Cons.prems q Cons by (intro Cons.IH) simp_all
    from takes_Seq [OF c t] show ?thesis unfolding q Cons by simp
  qed
qed simp


definition extra_vars :: "jstring list" where
  "extra_vars = map snd BILLING_CACHE_VAR_MAP"

lemma cache_var_map: "BILLING_CACHE_VAR_MAP =
  [(js ''cache_read_unit_cost'', js ''cr''), (js ''cache_create_unit_cost'', js ''cc''),
   (js ''cache_create_1h_unit_cost'', js ''cc1h''), (js ''image_unit_cost'', js ''img''),
   (js ''image_output_unit_cost'', js ''img_o''), (js ''audio_input_unit_cost'', js ''ai''),
   (js ''audio_output_unit_cost'', js ''ao'')]"
  by (simp add: BILLING_CACHE_VAR_MAP_def BILLING_EXTRA_VARS_def BILLING_VARS_def price_var_def coalesce_def)

lemma extra_vars_eq: "extra_vars = [js ''cr'', js ''cc'', js ''cc1h'', js ''img'', js ''img_o'', js ''ai'', js ''ao'']"
  by (simp add: extra_vars_def cache_var_map)

lemma extra_vars_facts: "list_all var_name extra_vars" "distinct extra_vars" "length extra_vars = 7"
  by (simp_all add: extra_vars_eq var_name_def) (simp_all add: js_lit is_ws_def)

lemma length_cache_map: "length BILLING_CACHE_VAR_MAP = 7"
  by (simp add: cache_var_map)

lemma one_hour_index: "extra_index ''cc1h'' = 2"
  by (simp add: extra_index_def cache_var_map)


section \<open>Tiers in normal form\<close>

definition tcond_ok :: "(rat \<Rightarrow> jstring) \<Rightarrow> tier_cond_input \<Rightarrow> bool" where
  "tcond_ok ni c \<longleftrightarrow>
     ti_var c \<in> set [js ''p'', js ''c'', js ''len''] \<and> ti_op c \<in> set [js ''<'', js ''<='', js ''>'', js ''>=''] \<and>
     (case ti_value c of CNum (Some q) \<Rightarrow> printable cond_unit ni q | _ \<Rightarrow> False)"

definition cost_ok :: "(rat \<Rightarrow> jstring) \<Rightarrow> rat option \<Rightarrow> bool" where
  "cost_ok ni q = (case q of Some x \<Rightarrow> printable num_unit ni x | None \<Rightarrow> False)"

definition tier_ok :: "(rat \<Rightarrow> jstring) \<Rightarrow> visual_tier \<Rightarrow> bool" where
  "tier_ok ni t \<longleftrightarrow>
     vt_label t \<noteq> [] \<and> list_all plain (vt_label t) \<and> list_all (tcond_ok ni) (vt_conditions t) \<and>
     cost_ok ni (vt_input t) \<and> cost_ok ni (vt_output t) \<and>
     length (vt_extra t) = 7 \<and> list_all (printable num_unit ni) (vt_extra t) \<and>
     vt_cache_mode t = (if vt_extra t ! 2 > 0 then CACHE_MODE_TIMED else CACHE_MODE_GENERIC)"

lemma join_Cons: "join sep (x # xs) = x @ concat (map (\<lambda>y. sep @ y) xs)"
  by (induction xs arbitrary: x) simp_all

lemma costs_join:
  "concat (map (\<lambda>y. js '' + '' @ y) (map (\<lambda>((field, v), q). v @ js '' * '' @ num_str ni q)
     (filter (\<lambda>(cv, q). q \<noteq> 0) (zip m qs)))) = costs_text ni (map snd m) qs"
proof (induction m arbitrary: qs)
  case (Cons x m)
  then show ?case by (cases x; cases qs) (auto simp: factor_text_def js_lit)
qed simp

lemma body_text:
  assumes "vt_input t = Some a" "vt_output t = Some b"
  shows "buildTierBodyExpr ni t =
    factor_text ni (js ''p'') a @ 32 # 43 # 32 # factor_text ni (js ''c'') b @ costs_text ni extra_vars (vt_extra t)"
  unfolding buildTierBodyExpr_def append.simps join_Cons list.map concat.simps costs_join extra_vars_def
  using assms by (simp add: num_or_zero_def factor_text_def js_lit)

lemma body_pat: "bodyPat k = Seqs (factor k (js ''p'') @ plus @ factor (k + 1) (js ''c'') @ cost_groups (k + 2) extra_vars)"
  by (simp add: bodyPat_def factor_def plus_def extra_vars_def)

lemma takes_body:
  assumes t: "tier_ok ni t" and ab: "vt_input t = Some a" "vt_output t = Some b"
  shows "takes (bodyPat k) (buildTierBodyExpr ni t @ 41 # s) gs (41 # s)
    (cost_gs ni (k + 2) (vt_extra t) ((k + 1, num_str ni b) # (k, num_str ni a) # gs))"
proof -
  have f: "\<not> num_unit 32" "\<not> num_unit 41" by (simp_all add: num_unit_def is_digit_def)
  have p: "printable num_unit ni a" "printable num_unit ni b" using t ab by (simp_all add: tier_ok_def cost_ok_def)
  have h: "factor_text ni (js ''c'') b @ r = [] \<or> \<not> is_ws (hd (factor_text ni (js ''c'') b @ r))" for r
    by (simp add: factor_text_def js_lit is_ws_def)
  have g: "\<not> num_unit (hd (costs_text ni extra_vars (vt_extra t) @ 41 # s))"
    using costs_hd [of ni extra_vars "vt_extra t"] f by auto
  have cs: "takes (Seqs (cost_groups (k + 2) extra_vars)) (costs_text ni extra_vars (vt_extra t) @ 41 # s) g (41 # s)
      (cost_gs ni (k + 2) (vt_extra t) g)" for g
    using t extra_vars_facts by (intro takes_costs) (auto simp: tier_ok_def)
  have ne: "cost_groups (k + 2) extra_vars \<noteq> []" by (simp add: extra_vars_eq)
  show ?thesis
    unfolding body_pat body_text [OF ab] append_assoc append_Cons
    by (rule takes_Seqs_append [OF _ _ takes_factor [OF p(1)] takes_Seqs_append [OF _ _ takes_plus [OF h]
          takes_Seqs_append [OF _ _ takes_factor [OF p(2)] cs]]])
      (use ne g f in \<open>simp_all add: factor_def plus_def\<close>)
qed

lemma cost_gs_lookup:
  "map_of (cost_gs ni i qs gs) j =
     (if i \<le> j \<and> j < i + length qs \<and> qs ! (j - i) \<noteq> 0 then Some (num_str ni (qs ! (j - i))) else map_of gs j)"
proof (induction qs arbitrary: i gs j)
  case (Cons q qs)
  consider "j < i" | "j = i" | d where "j = i + 1 + d" by (metis add.commute add_Suc_right less_imp_Suc_add linorder_neqE_nat plus_1_eq_Suc)
  then show ?case
  proof cases
    case 3
    then show ?thesis by (simp add: Cons.IH)
  qed (simp_all add: Cons.IH)
qed auto

lemma tier_of_groups:
  assumes t: "tier_ok ni t" and ab: "vt_input t = Some a" "vt_output t = Some b"
    and g: "rp_groups m = cost_gs ni (k + 2) (vt_extra t) ((k + 1, num_str ni b) # (k, num_str ni a) # (k - 1, vt_label t) # gs)"
    and k: "0 < k" "\<forall>j\<ge>k. map_of gs j = None"
  shows "tier_of_match m k (vt_conditions t) = t"
proof -
  have l: "length (vt_extra t) = 7" and ex: "i < 7 \<Longrightarrow> printable num_unit ni (vt_extra t ! i)" for i
    using t by (auto simp: tier_ok_def list_all_length)
  have p: "printable num_unit ni a" "printable num_unit ni b" using t ab by (simp_all add: tier_ok_def cost_ok_def)
  have gl: "group m (k - 1) = Some (vt_label t)" "group m k = Some (num_str ni a)" "group m (k + 1) = Some (num_str ni b)"
    using k(1) by (cases k; simp add: group_def g cost_gs_lookup)+
  have ge: "group m (k + 2 + i) = (if vt_extra t ! i = 0 then None else Some (num_str ni (vt_extra t ! i)))" if "i < 7" for i
    using that l k by (cases k) (simp_all add: group_def g cost_gs_lookup)
  have e: "map num_or_zero (map (\<lambda>i. case group m (k + 2 + i) of None \<Rightarrow> None | Some s \<Rightarrow> Some (string_to_number s)) [0..<7]) =
      vt_extra t"
    by (rule nth_equalityI) (use l ex in \<open>auto simp: ge [simplified] num_or_zero_def printable_def\<close>)
  let ?x = "map (\<lambda>i. case group m (k + 2 + i) of None \<Rightarrow> None | Some s \<Rightarrow> Some (string_to_number s)) [0..<7]"
  have c: "num_or_zero (?x ! 2) = vt_extra t ! 2" using arg_cong [OF e, of "\<lambda>x. x ! 2"] by (simp add: nth_map)
  have "tier_of_match m k (vt_conditions t) = \<lparr>vt_label = vt_label t, vt_conditions = vt_conditions t, vt_input = Some a,
      vt_output = Some b, vt_cache_mode = vt_cache_mode t, vt_extra = vt_extra t\<rparr>"
    unfolding tier_of_match_def normalizeVisualTier_def getTierCacheMode_def one_hour_index group_number_def gl length_cache_map
      partial_tier.simps c e option.case
    using t p by (simp add: tier_ok_def printable_def coalesce_def)
  with ab show ?thesis by simp
qed



section \<open>Conditions\<close>

definition ctext :: "(rat \<Rightarrow> jstring) \<Rightarrow> tier_cond_input \<Rightarrow> jstring" where
  "ctext ni c = ti_var c @ 32 # ti_op c @ 32 # cond_value_text ni (ti_value c)"

lemma tcond_okE:
  assumes "tcond_ok ni c"
  obtains q where "ti_value c = CNum (Some q)" "printable cond_unit ni q" "cond_value_text ni (ti_value c) = num_str ni q"
  using assms by (auto simp: tcond_ok_def num_text_of_def split: cond_value.splits option.splits)

lemma refuses_Ws0: "s = [] \<or> \<not> is_ws (hd s) \<Longrightarrow> refuses b s gs \<Longrightarrow> refuses (Seq Ws b) s gs"
  by (intro refuses_Ws) (cases s, auto)

lemma cond_op_eq: "cond_op = Alt (L ''<'') (Alt (L ''<='') (Alt (L ''>'') (L ''>='')))"
  by (simp add: cond_op_def)

lemma ops:
  assumes "op \<in> set [js ''<'', js ''<='', js ''>'', js ''>='']"
  obtains "op = [60]" | "op = [60, 61]" | "op = [62]" | "op = [62, 61]"
  using assms by (auto simp: js_lit)

lemma takes_op:
  assumes op: "op \<in> set [js ''<'', js ''<='', js ''>'', js ''>='']"
    and r: "\<And>t gs. refuses b (61 # t) gs" and b: "takes b (32 # s) gs s' gs'"
  shows "takes (Seq cond_op b) (op @ 32 # s) gs s' gs'"
proof -
  have r1: "refuses (Seq (Lit [u]) b) (u # 61 # t) gs" for u t using refuses_then [OF r, of "[u]"] by simp
  have t1: "takes (Seq (Lit w) b) (w @ 32 # s) gs s' gs'" for w by (rule takes_Seq [OF takes_Lit b])
  have lits: "js ''<'' = [60]" "js ''<='' = [60, 61]" "js ''>'' = [62]" "js ''>='' = [62, 61]" by (simp_all add: js_lit)
  show ?thesis using op
  proof (rule ops)
    assume o: "op = [60]"
    show ?thesis unfolding cond_op_eq lits o using t1 [of "[60]"] by (intro takes_Seq_Alt1)
  next
    assume o: "op = [60, 61]"
    show ?thesis unfolding cond_op_eq lits o using r1 t1 [of "[60, 61]"] by (intro takes_Seq_Alt2 [OF _ takes_Seq_Alt1]) simp_all
  next
    assume o: "op = [62]"
    show ?thesis unfolding cond_op_eq lits o
      by (intro takes_Seq_Alt2 [OF refuses_start] takes_Seq_Alt1 t1) (simp_all add: startsWith_def)
  next
    assume o: "op = [62, 61]"
    show ?thesis unfolding cond_op_eq lits o using r1
      by (intro takes_Seq_Alt2 [OF refuses_start] takes_Seq_Alt2 [OF _ t1]) (simp_all add: startsWith_def)
  qed
qed

lemma takes_group_op:
  assumes op: "op \<in> set [js ''<'', js ''<='', js ''>'', js ''>='']"
    and r: "\<And>t gs. refuses b (61 # t) gs" and b: "takes b (32 # s) ((i, op) # gs) s' gs'"
  shows "takes (Seq (Group i cond_op) b) (op @ 32 # s) gs s' gs'"
proof -
  have r1: "refuses (Seq (Group i (Lit [u])) b) (u # 61 # t) gs" for u t using refuses_Group_Lit [OF r, of i "[u]"] by simp
  have r2: "\<not> startsWith x w \<Longrightarrow> refuses (Seq (Group i (Lit w)) b) x gs" for x w
    by (intro refuses_Seq refuses_Group refuses_Lit)
  have t1: "takes (Seq (Group i (Lit op)) b) (op @ 32 # s) gs s' gs'" by (rule takes_Seq [OF takes_Group [OF takes_Lit] b])
  have lits: "js ''<'' = [60]" "js ''<='' = [60, 61]" "js ''>'' = [62]" "js ''>='' = [62, 61]" by (simp_all add: js_lit)
  show ?thesis using op
  proof (rule ops)
    assume o: "op = [60]"
    show ?thesis using t1 unfolding cond_op_eq lits o by (intro takes_Group_Alt1)
  next
    assume o: "op = [60, 61]"
    show ?thesis using t1 r1 unfolding cond_op_eq lits o by (intro takes_Group_Alt2 [OF _ takes_Group_Alt1]) simp_all
  next
    assume o: "op = [62]"
    show ?thesis using t1 unfolding cond_op_eq lits o
      by (intro takes_Group_Alt2 [OF r2] takes_Group_Alt1) (simp_all add: startsWith_def)
  next
    assume o: "op = [62, 61]"
    show ?thesis using t1 r1 unfolding cond_op_eq lits o
      by (intro takes_Group_Alt2 [OF r2] takes_Group_Alt2) (simp_all add: startsWith_def)
  qed
qed

lemma takes_var:
  assumes "v \<in> set [js ''p'', js ''c'', js ''len'']"
  shows "takes cond_var (v @ s) gs s gs"
proof -
  have e: "cond_var = Alt (L ''p'') (Alt (L ''c'') (L ''len''))" by (simp add: cond_var_def)
  consider "v = js ''p''" | "v = js ''c''" | "v = js ''len''" using assms by auto
  then show ?thesis
  proof cases
    case 1
    then show ?thesis unfolding e by (auto intro: takes_Alt1 takes_Lit)
  next
    case 2
    show ?thesis unfolding e 2
      by (rule takes_Alt2 [OF refuses_Lit takes_Alt1 [OF takes_Lit]]) (simp add: startsWith_def js_lit)
  next
    case 3
    show ?thesis unfolding e 3
      by (rule takes_Alt2 [OF refuses_Lit takes_Alt2 [OF refuses_Lit takes_Lit]]) (simp_all add: startsWith_def js_lit)
  qed
qed

lemma op_hd: "op \<in> set [js ''<'', js ''<='', js ''>'', js ''>=''] \<Longrightarrow> op @ s = [] \<or> \<not> is_ws (hd (op @ s))"
  by (auto simp: js_lit is_ws_def)

lemma cond_unit_facts: "cond_unit u \<Longrightarrow> \<not> is_ws u \<and> u \<noteq> 34 \<and> u \<noteq> 38 \<and> u \<noteq> 40 \<and> u \<noteq> 41 \<and> u \<noteq> 61"
  by (auto simp: cond_unit_def is_digit_def is_ws_def)

lemma takes_atom:
  assumes c: "tcond_ok ni c" and s: "s = [] \<or> \<not> cond_unit (hd s)"
  shows "takes cond_atom (ctext ni c @ s) gs s gs"
proof -
  obtain q where q: "printable cond_unit ni q" "cond_value_text ni (ti_value c) = num_str ni q" by (rule tcond_okE [OF c]) (rule that)
  have v: "ti_var c \<in> set [js ''p'', js ''c'', js ''len'']" "ti_op c \<in> set [js ''<'', js ''<='', js ''>'', js ''>='']"
    using c by (simp_all add: tcond_ok_def)
  have n: "takes (Plus (Chr cond_unit)) (num_str ni q @ s) gs s gs"
    using q(1) s by (intro takes_Plus) (simp_all add: printable_def runs_def)
  have h: "num_str ni q @ s = [] \<or> \<not> is_ws (hd (num_str ni q @ s))"
    using q(1) cond_unit_facts by (auto simp: printable_def list_all_iff)
  have r: "refuses (Seq Ws (Plus (Chr cond_unit))) (61 # t) g" for t g
    by (intro refuses_Ws0 refuses_Plus) (simp_all add: is_ws_def cond_unit_def is_digit_def)
  show ?thesis
    unfolding cond_atom_def Seqs.simps ctext_def q(2) append_assoc append_Cons
    by (intro takes_Seq [OF takes_var [OF v(1)]] takes_Seq [OF takes_Ws [OF op_hd [OF v(2)]]] takes_op [OF v(2) r] takes_Seq [OF takes_Ws [OF h] n])
qed

definition and_text :: "jstring list \<Rightarrow> jstring" where
  "and_text ts = concat (map (\<lambda>t. 32 # 38 # 38 # 32 # t) ts)"

lemma join_and: "join (js '' && '') (t # ts) = t @ and_text ts"
  by (simp add: join_Cons and_text_def js_lit)

lemma and_hd: "\<not> cond_unit (hd (and_text ts @ 32 # s))"
  by (cases ts) (simp_all add: and_text_def cond_unit_def is_digit_def)

lemma ctext_hd: "tcond_ok ni c \<Longrightarrow> ctext ni c \<noteq> [] \<and> \<not> is_ws (hd (ctext ni c))"
  by (auto simp: tcond_ok_def ctext_def js_lit is_ws_def)

lemma takes_conds:
  assumes "list_all (tcond_ok ni) cs"
  shows "takes (Star (Seqs [Ws, L ''&&'', Ws, cond_atom])) (and_text (map (ctext ni) cs) @ 32 # 63 # s) gs (32 # 63 # s) gs"
  using assms
proof (induction cs)
  case Nil
  have "refuses (Seqs [Ws, L ''&&'', Ws, cond_atom]) (32 # 63 # s) gs"
    unfolding Seqs.simps by (intro refuses_Ws_Lit refuses_start) (simp_all add: is_ws_def startsWith_def js_lit)
  then show ?case by (simp add: and_text_def takes_Star_stop)
next
  case (Cons c cs)
  let ?r = "and_text (map (ctext ni) cs) @ 32 # 63 # s"
  have "takes (Seqs [Ws, L ''&&'', Ws, cond_atom]) (32 # js ''&&'' @ 32 # ctext ni c @ ?r) gs ?r gs"
    unfolding Seqs.simps using Cons.prems ctext_hd [of ni c] and_hd
    by (intro takes_Seq [OF takes_Ws] takes_Seq [OF takes_Lit] takes_atom) (simp_all add: is_ws_def js_lit)
  from takes_Star_step [OF this _ Cons.IH] Cons.prems show ?case by (simp add: and_text_def js_lit)
qed

lemma takes_condGroup:
  assumes "list_all (tcond_ok ni) (c # cs)"
  shows "takes condGroup (join (js '' && '') (map (ctext ni) (c # cs)) @ 32 # 63 # s) gs (32 # 63 # s) gs"
  unfolding condGroup_def list.map join_and append_assoc
  using assms and_hd by (intro takes_Seq [OF takes_atom takes_conds]) simp_all


text \<open>Reading the conditions back: splitting at the ampersands, then one condition at a time.\<close>

definition and_re :: regex where
  "and_re = Seqs [Ws, L ''&&'', Ws]"

lemma drop_within: "k \<le> length a \<Longrightarrow> drop k (a @ b) = drop k a @ b"
  by simp

lemma refuses_and:
  assumes "w \<noteq> []" "\<not> is_ws (last w)" "38 \<notin> set w"
  shows "refuses and_re (w @ s) gs"
proof -
  have d: "\<exists>u r. dropWhile is_ws (w @ s) = u # r \<and> u \<noteq> 38"
    using assms
  proof (induction w)
    case (Cons u w)
    then show ?case by (cases "w = []") auto
  qed simp
  show ?thesis unfolding and_re_def Seqs.simps
  proof (intro refuses_Ws refuses_start)
    fix k assume k: "k \<le> length (takeWhile is_ws (w @ s))"
    have "drop k (takeWhile is_ws (w @ s) @ dropWhile is_ws (w @ s)) = drop k (takeWhile is_ws (w @ s)) @ dropWhile is_ws (w @ s)"
      by (rule drop_within [OF k])
    then have "drop k (w @ s) = drop k (takeWhile is_ws (w @ s)) @ dropWhile is_ws (w @ s)"
      by (simp only: takeWhile_dropWhile_id)
    moreover have "38 \<notin> set (drop k (takeWhile is_ws (w @ s)))"
      using set_takeWhileD [of 38 is_ws "w @ s"] in_set_dropD [of 38 k] by (auto simp: is_ws_def)
    moreover obtain u r where "dropWhile is_ws (w @ s) = u # r" "u \<noteq> 38" using d by blast
    ultimately show "\<not> startsWith (drop k (w @ s)) (js ''&&'')"
      by (cases "drop k (takeWhile is_ws (w @ s))") (simp_all add: startsWith_def js_lit)
  qed
qed

definition piece :: "jstring \<Rightarrow> bool" where
  "piece w \<longleftrightarrow> w \<noteq> [] \<and> \<not> is_ws (hd w) \<and> \<not> is_ws (last w) \<and> 38 \<notin> set w"

lemma piece_skip: "piece w \<Longrightarrow> k < length w \<Longrightarrow> refuses and_re (drop k (w @ s)) gs"
  using refuses_and [of "drop k w" s gs] set_drop_subset [of k w] by (auto simp: piece_def)

lemma refuses_and_Nil: "refuses and_re [] gs"
  unfolding and_re_def Seqs.simps by (intro refuses_Ws_Lit0 refuses_start) (simp_all add: startsWith_def js_lit)

lemma split_pieces:
  "piece w \<Longrightarrow> list_all piece ws \<Longrightarrow> split_re and_re pre (w @ and_text ws) = w # ws"
proof (induction ws arbitrary: w pre)
  case Nil
  have "search and_re pre w = None"
  proof (rule search_none)
    fix k assume "k \<le> length w"
    then show "refuses and_re (drop k w) []"
      using piece_skip [OF Nil(1), of k "[]"] refuses_and_Nil by (cases "k = length w") auto
  qed
  then show ?case by (simp add: split_re.simps and_text_def)
next
  case (Cons v ws)
  let ?r = "v @ and_text ws"
  have v: "?r = [] \<or> \<not> is_ws (hd ?r)" using Cons.prems by (simp add: piece_def)
  have t: "takes and_re (32 # js ''&&'' @ 32 # ?r) [] ?r []"
    unfolding and_re_def Seqs.simps
    by (intro takes_Seq [OF takes_Ws] takes_Seq [OF takes_Lit] takes_Ws v) (simp add: is_ws_def js_lit)
  obtain q where q: "search and_re (rev w @ pre) (32 # js ''&&'' @ 32 # ?r) =
      Some (\<lparr>rp_before = rev w @ pre, rp_after = 32 # js ''&&'' @ 32 # ?r, rp_groups = []\<rparr>, q)" "rp_after q = ?r"
    by (rule search_here [OF t]) (rule that)
  have "search and_re pre (w @ 32 # js ''&&'' @ 32 # ?r) = search and_re (rev w @ pre) (32 # js ''&&'' @ 32 # ?r)"
    using piece_skip Cons.prems(1) by (intro search_skips) blast
  with q have "split_re and_re pre (w @ 32 # js ''&&'' @ 32 # ?r) = w # split_re and_re (rp_before q) ?r"
    by (subst split_re.simps) simp
  also have "\<dots> = w # v # ws" using Cons.prems by (simp add: Cons.IH)
  finally show ?case by (simp add: and_text_def js_lit)
qed

lemma ctext_piece:
  assumes "tcond_ok ni c"
  shows "piece (ctext ni c)"
proof -
  obtain q where q: "printable cond_unit ni q" "cond_value_text ni (ti_value c) = num_str ni q" by (rule tcond_okE [OF assms]) (rule that)
  then have "\<not> is_ws (last (num_str ni q))" "38 \<notin> set (num_str ni q)" "num_str ni q \<noteq> []"
    using cond_unit_facts by (auto simp: printable_def list_all_iff)
  moreover have "38 \<notin> set (ti_var c)" "38 \<notin> set (ti_op c)" using assms by (auto simp: tcond_ok_def js_lit)
  ultimately show ?thesis using ctext_hd [OF assms] by (simp add: piece_def) (simp add: ctext_def q(2))
qed

lemma parse_ctext:
  assumes c: "tcond_ok ni c"
  shows "map_option input_condition (parse_tier_condition (ctext ni c)) = Some c"
proof -
  obtain q where q: "ti_value c = CNum (Some q)" "printable cond_unit ni q" "cond_value_text ni (ti_value c) = num_str ni q"
    by (rule tcond_okE [OF c]) (rule that)
  have v: "ti_var c \<in> set [js ''p'', js ''c'', js ''len'']" "ti_op c \<in> set [js ''<'', js ''<='', js ''>'', js ''>='']"
    using c by (simp_all add: tcond_ok_def)
  have h: "num_str ni q = [] \<or> \<not> is_ws (hd (num_str ni q))"
    using q(2) cond_unit_facts by (auto simp: printable_def list_all_iff)
  have n: "takes (Group 3 (Plus (Chr cond_unit))) (num_str ni q) gs [] ((3, num_str ni q) # gs)" for gs
    using q(2) takes_word [of cond_unit "num_str ni q" "[]"] by (simp add: printable_def runs_def)
  have r: "refuses (Seq Ws (Seq (Group 3 (Plus (Chr cond_unit))) Eol)) (61 # t) g" for t g
    by (intro refuses_Ws0 refuses_Seq refuses_Group refuses_Plus) (simp_all add: is_ws_def cond_unit_def is_digit_def)
  have g: "gets (Seqs [Group 1 cond_var, Ws, Group 2 cond_op, Ws, Group 3 (Plus (Chr cond_unit))]) (ctext ni c)
      [(3, num_str ni q), (2, ti_op c), (1, ti_var c)]"
    unfolding ctext_def q(3)
    by (rule getsI_Seqs, unfold append.simps Seqs.simps,
      intro takes_Seq [OF takes_Group [OF takes_var [OF v(1)]]] takes_Seq [OF takes_Ws [OF op_hd [OF v(2)]]] takes_group_op [OF v(2) r]
        takes_Seq [OF takes_Ws [OF h]] takes_Seq [OF n] takes_Eol)
  obtain m where m: "full_match (Seqs [Group 1 cond_var, Ws, Group 2 cond_op, Ws, Group 3 (Plus (Chr cond_unit))]) (ctext ni c) = Some m"
    "\<And>i. group m i = map_of [(3, num_str ni q), (2, ti_op c), (1, ti_var c)] i" using g by (rule getsE) (rule that)
  have t: "trim (ctext ni c) = ctext ni c" using ctext_piece [OF c] by (intro trim_id) (simp add: piece_def)
  show ?thesis
    unfolding parse_tier_condition_def t m(1) option.case
    using q(1,2) by (simp add: m(2) coalesce_def input_condition_def printable_def)
qed

lemma parse_conditions:
  assumes "list_all (tcond_ok ni) cs"
  shows "map input_condition (parse_tier_conditions (join (js '' && '') (map (ctext ni) cs))) = cs"
proof (cases cs)
  case (Cons c ds)
  have p: "list_all piece (map (ctext ni) cs)" using assms ctext_piece by (auto simp: list_all_iff)
  have ne: "join (js '' && '') (map (ctext ni) cs) \<noteq> []" using p Cons by (simp add: join_and piece_def)
  have s: "split_re (Seqs [Ws, L ''&&'', Ws]) [] (join (js '' && '') (map (ctext ni) cs)) = map (ctext ni) cs"
    using p unfolding Cons list.map join_and and_re_def [symmetric] by (intro split_pieces) simp_all
  have "map input_condition (List.map_filter parse_tier_condition (map (ctext ni) cs)) = cs" using assms
  proof (induction cs)
    case (Cons c cs)
    then show ?case using parse_ctext [of ni c] by (auto simp: map_filter_simps)
  qed (simp add: map_filter_simps)
  then show ?thesis using ne s by (simp add: parse_tier_conditions_def)
qed (simp add: parse_tier_conditions_def)

lemma tcond_present: "tcond_ok ni c \<Longrightarrow> ti_var c \<noteq> [] \<and> ti_op c \<noteq> [] \<and> ti_value c \<noteq> CStr []"
  by (cases "ti_value c") (auto simp: tcond_ok_def)

lemma condition_str:
  assumes "list_all (tcond_ok ni) cs"
  shows "buildConditionStr ni cs = join (js '' && '') (map (ctext ni) cs)"
proof -
  have "filter (\<lambda>c. ti_var c \<noteq> [] \<and> ti_op c \<noteq> [] \<and> ti_value c \<noteq> CStr []) cs = cs"
    using assms tcond_present by (simp add: filter_id_conv list_all_iff) blast
  then show ?thesis by (simp add: buildConditionStr_def ctext_def [abs_def] js_lit)
qed



section \<open>One tier\<close>

definition tier_re :: "nat \<Rightarrow> nat \<Rightarrow> regex list" where
  "tier_re i k = [L ''tier(\"'', Group i (Star (Chr (\<lambda>u. u \<noteq> 34))), L ''\",'', Ws, bodyPat k, L '')'']"

definition tier_gs :: "(rat \<Rightarrow> jstring) \<Rightarrow> nat \<Rightarrow> nat \<Rightarrow> visual_tier \<Rightarrow> (nat \<times> jstring) list \<Rightarrow> (nat \<times> jstring) list" where
  "tier_gs ni i k t gs = cost_gs ni (k + 2) (vt_extra t)
     ((k + 1, num_str ni (the (vt_output t))) # (k, num_str ni (the (vt_input t))) # (i, vt_label t) # gs)"

lemma tier_okE:
  assumes "tier_ok ni t"
  obtains a b where "vt_input t = Some a" "vt_output t = Some b"
  using assms by (auto simp: tier_ok_def cost_ok_def split: option.splits)

lemma takes_tier:
  assumes t: "tier_ok ni t"
  shows "takes (Seqs (tier_re i k)) (tier_text ni (vt_label t) t @ s) gs s (tier_gs ni i k t gs)"
proof -
  obtain a b where ab: "vt_input t = Some a" "vt_output t = Some b" using t by (rule tier_okE)
  have l: "runs (\<lambda>u. u \<noteq> 34) (vt_label t) (34 # r)" for r
    using t plain_not_quote by (simp add: tier_ok_def)
  have h: "buildTierBodyExpr ni t @ r = [] \<or> \<not> is_ws (hd (buildTierBodyExpr ni t @ r))" for r
    by (simp add: body_text [OF ab] factor_text_def js_lit is_ws_def)
  have e: "tier_text ni (vt_label t) t @ s =
      js ''tier(\"'' @ vt_label t @ 34 # 44 # 32 # buildTierBodyExpr ni t @ 41 # s"
    by (simp add: tier_text_def js_lit)
  have c: "takes (L ''\",'') (34 # 44 # r) g r g" for r g using takes_Lit [of "js ''\",''"] by (simp add: js_lit)
  show ?thesis
    unfolding tier_re_def Seqs.simps e tier_gs_def ab option.sel
    by (intro takes_Seq [OF takes_Lit] takes_Seq [OF takes_word0 [OF l]] takes_Seq [OF c] takes_Seq [OF takes_Ws [OF h]]
        takes_Seq [OF takes_body [OF t ab]] takes_unit) (simp add: js_lit)
qed

lemma visual_re: "visualTierRe = Seq (Opt (Seqs [Group 1 condGroup, Ws, L ''?'', Ws])) (Seqs (tier_re 2 3))"
  by (simp add: visualTierRe_def tier_re_def)

lemma single_re: "singleRe = Seqs (tier_re 1 2)"
  by (simp add: singleRe_def tier_re_def)

text \<open>Where no tier starts.\<close>

lemma refuses_visual:
  assumes "refuses cond_atom s gs" "\<not> startsWith s (js ''tier(\"'')"
  shows "refuses visualTierRe s gs"
  unfolding visual_re Opt_def
proof (rule refuses_Seq_Alt)
  show "refuses (Seq (Seqs [Group 1 condGroup, Ws, L ''?'', Ws]) (Seqs (tier_re 2 3))) s gs"
    unfolding Seqs.simps condGroup_def by (intro refuses_Seq refuses_Group assms)
  show "refuses (Seq Eps (Seqs (tier_re 2 3))) s gs"
    unfolding refuses_Seq_Eps tier_re_def Seqs.simps by (rule refuses_start [OF assms(2)])
qed

lemma refuses_hd: "s = [] \<or> hd s \<noteq> u \<Longrightarrow> refuses (Lit (u # v)) s gs"
  by (rule refuses_Lit) (cases s, simp_all add: startsWith_def)

lemma refuses_atom: "s = [] \<or> hd s \<notin> {112, 99, 108} \<Longrightarrow> refuses cond_atom s gs"
  unfolding cond_atom_def Seqs.simps cond_var_def
  by (intro refuses_Seq refuses_Alts) (auto intro!: refuses_hd simp: js_lit)

lemma refuses_var:
  assumes "refuses b s gs" "u \<in> {112, 99}"
  shows "refuses (Seq cond_var b) (u # s) gs"
proof -
  have t: "refuses (Seq (Lit [v]) b) (u # s) gs" for v
    using refuses_then [OF assms(1), of "[v]"] refuses_start [of "u # s" "[v]"] by (cases "u = v") (simp_all add: startsWith_def)
  have e: "refuses (Seq (L ''len'') b) (u # s) gs"
    using assms(2) by (intro refuses_start) (auto simp: startsWith_def js_lit)
  show ?thesis unfolding cond_var_def Alts.simps
    by (intro refuses_Seq_Alt e) (simp_all add: t js_lit)
qed

lemma refuses_atom_star:
  assumes "u \<in> {112, 99}"
  shows "refuses cond_atom (u # 32 # 42 # s) gs"
proof -
  have o: "refuses cond_op r g" if "hd r \<notin> {60, 62}" "r \<noteq> []" for r g
    unfolding cond_op_def using that by (intro refuses_Alts) (auto intro!: refuses_hd simp: js_lit)
  have "refuses (Seq Ws (Seq cond_op (Seq Ws (Plus (Chr cond_unit))))) (32 # 42 # s) gs"
  proof (intro refuses_Ws refuses_Seq)
    fix k assume "k \<le> length (takeWhile is_ws (32 # 42 # s))"
    then have "k = 0 \<or> k = 1" by (auto simp: is_ws_def)
    then show "refuses cond_op (drop k (32 # 42 # s)) gs" using o by auto
  qed
  then show ?thesis using assms unfolding cond_atom_def Seqs.simps by (intro refuses_var)
qed



section \<open>All tiers\<close>

definition conds_text :: "(rat \<Rightarrow> jstring) \<Rightarrow> visual_tier \<Rightarrow> jstring" where
  "conds_text ni t = join (js '' && '') (map (ctext ni) (vt_conditions t))"

definition part_text :: "(rat \<Rightarrow> jstring) \<Rightarrow> visual_tier \<Rightarrow> jstring" where
  "part_text ni t = (if vt_conditions t = [] then [] else conds_text ni t @ 32 # 63 # 32 # []) @ tier_text ni (vt_label t) t"

definition part_gs :: "(rat \<Rightarrow> jstring) \<Rightarrow> visual_tier \<Rightarrow> (nat \<times> jstring) list" where
  "part_gs ni t = tier_gs ni 2 3 t (if vt_conditions t = [] then [] else [(1, conds_text ni t)])"

lemma tier_text_hd: "\<exists>r. tier_text ni l t = 116 # r"
  by (simp add: tier_text_def js_lit)

lemma takes_part:
  assumes t: "tier_ok ni t"
  shows "takes visualTierRe (part_text ni t @ s) [] s (part_gs ni t)"
proof (cases "vt_conditions t")
  case Nil
  obtain r where r: "tier_text ni (vt_label t) t = 116 # r" using tier_text_hd by blast
  have "refuses (Seqs [Group 1 condGroup, Ws, L ''?'', Ws]) (tier_text ni (vt_label t) t @ s) []"
    unfolding Seqs.simps condGroup_def r by (intro refuses_Seq refuses_Group refuses_atom) simp
  from takes_Seq [OF takes_Opt_skip [OF this] takes_tier [OF t]] Nil show ?thesis
    by (simp add: visual_re part_text_def part_gs_def)
next
  case (Cons c cs)
  have c: "list_all (tcond_ok ni) (c # cs)" using t Cons by (simp add: tier_ok_def)
  obtain r where r: "tier_text ni (vt_label t) t = 116 # r" using tier_text_hd by blast
  have "takes (Seqs [Group 1 condGroup, Ws, L ''?'', Ws]) (conds_text ni t @ 32 # 63 # 32 # tier_text ni (vt_label t) t @ s) []
      (tier_text ni (vt_label t) t @ s) [(1, conds_text ni t)]"
    unfolding Seqs.simps conds_text_def Cons
    by (intro takes_Seq [OF takes_Group [OF takes_condGroup [OF c]]] takes_Seq [OF takes_Ws] takes_Seq [OF takes_unit] takes_Ws)
      (simp_all add: is_ws_def js_lit r)
  from takes_Seq [OF takes_Opt [OF this] takes_tier [OF t]] Cons show ?thesis
    by (simp add: visual_re part_text_def part_gs_def)
qed

lemma length_part: "0 < length (part_text ni t)"
  by (simp add: part_text_def tier_text_def)

text \<open>The separator of tiers, and the rest after the last one.\<close>

definition colon :: jstring where
  "colon = [32, 58, 32]"

lemma js_colon: "js '' : '' = colon"
  by (simp add: colon_def js_lit)

lemma refuses_blank: "u \<in> {32, 58, 42, 48, 43} \<Longrightarrow> refuses visualTierRe (u # s) gs"
  by (intro refuses_visual refuses_atom) (auto simp: startsWith_def js_lit)

lemma colon_skip: "k < length colon \<Longrightarrow> refuses visualTierRe (drop k (colon @ s)) []"
  by (auto simp: colon_def less_Suc_eq intro!: refuses_blank)

definition no_tiers :: "jstring \<Rightarrow> bool" where
  "no_tiers s \<longleftrightarrow> (\<forall>k\<le>length s. refuses visualTierRe (drop k s) [])"

lemma no_tiers_Nil: "no_tiers []"
  by (simp add: no_tiers_def) (rule refuses_visual, rule refuses_atom, simp_all add: startsWith_def js_lit)

lemma no_tiers_Cons: "refuses visualTierRe (u # s) [] \<Longrightarrow> no_tiers s \<Longrightarrow> no_tiers (u # s)"
  unfolding no_tiers_def
proof (intro allI impI)
  fix k assume a: "refuses visualTierRe (u # s) []" "\<forall>k\<le>length s. refuses visualTierRe (drop k s) []" "k \<le> length (u # s)"
  then show "refuses visualTierRe (drop k (u # s)) []" by (cases k) simp_all
qed

lemma refuses_factor: "u \<in> {112, 99} \<Longrightarrow> refuses visualTierRe (u # 32 # 42 # s) gs"
  by (intro refuses_visual refuses_atom_star) (auto simp: startsWith_def js_lit)

lemma no_tiers_rest: "no_tiers (js '' : p * 0 + c * 0'')"
  unfolding js_lit by (simp, intro no_tiers_Cons no_tiers_Nil) (auto intro: refuses_blank refuses_factor)

lemma exec_parts:
  assumes "list_all (tier_ok ni) (t # ts)" "no_tiers s"
    and "\<And>k s. k < length w \<Longrightarrow> refuses visualTierRe (drop k (w @ s)) []"
  shows "map (\<lambda>(p, m). rp_groups m) (exec_all visualTierRe pre (w @ join colon (map (part_text ni) (t # ts)) @ s)) =
    map (part_gs ni) (t # ts)"
  using assms
proof (induction ts arbitrary: t w pre)
  case Nil
  have "takes visualTierRe (part_text ni t @ s) [] s (part_gs ni t)" using Nil by (intro takes_part) simp
  then obtain q where q: "search visualTierRe (rev w @ pre) (part_text ni t @ s) =
      Some (\<lparr>rp_before = rev w @ pre, rp_after = part_text ni t @ s, rp_groups = []\<rparr>, q)" "rp_after q = s" "rp_groups q = part_gs ni t"
    by (rule search_here)
  have "search visualTierRe pre (w @ part_text ni t @ s) = search visualTierRe (rev w @ pre) (part_text ni t @ s)"
    using Nil.prems(3) by (rule search_skips)
  moreover have "exec_all visualTierRe (rp_before q) s = []"
    using Nil.prems(2) by (intro exec_all_none search_none) (simp add: no_tiers_def)
  ultimately show ?case using q length_part by (simp add: exec_all_some)
next
  case (Cons v vs)
  let ?r = "colon @ join colon (map (part_text ni) (v # vs)) @ s"
  have "takes visualTierRe (part_text ni t @ ?r) [] ?r (part_gs ni t)" using Cons.prems by (intro takes_part) simp
  then obtain q where q: "search visualTierRe (rev w @ pre) (part_text ni t @ ?r) =
      Some (\<lparr>rp_before = rev w @ pre, rp_after = part_text ni t @ ?r, rp_groups = []\<rparr>, q)" "rp_after q = ?r" "rp_groups q = part_gs ni t"
    by (rule search_here)
  have s: "search visualTierRe pre (w @ part_text ni t @ ?r) = search visualTierRe (rev w @ pre) (part_text ni t @ ?r)"
    using Cons.prems(3) by (rule search_skips)
  have e: "exec_all visualTierRe pre (w @ part_text ni t @ ?r) =
      (\<lparr>rp_before = rev w @ pre, rp_after = part_text ni t @ ?r, rp_groups = []\<rparr>, q) # exec_all visualTierRe (rp_before q) ?r"
    using exec_all_some [OF s [unfolded q(1)]] q(2) length_part by simp
  have i: "map (\<lambda>(p, m). rp_groups m) (exec_all visualTierRe (rp_before q) ?r) = map (part_gs ni) (v # vs)"
    using Cons.prems(1,2) colon_skip by (intro Cons.IH) simp_all
  have j: "w @ join colon (map (part_text ni) (t # v # vs)) @ s = w @ part_text ni t @ ?r" by simp
  show ?case unfolding j e using i q(3) by simp
qed



section \<open>A text with one tier only\<close>

text \<open>\<open>counts n a\<close>: every match of \<open>a\<close> reads exactly \<open>n\<close> quotes.\<close>

definition counts :: "nat \<Rightarrow> regex \<Rightarrow> bool" where
  "counts n a \<longleftrightarrow> (\<forall>p q. q \<in> set (matches a p) \<longrightarrow> (\<exists>w. rp_after p = w @ rp_after q \<and> count_list w 34 = n))"

lemma counts_only:
  assumes "only (\<lambda>u. u \<noteq> 34) a"
  shows "counts 0 a"
  unfolding counts_def
proof (intro allI impI)
  fix p q assume "q \<in> set (matches a p)"
  then obtain w where "rp_after p = w @ rp_after q" "list_all (\<lambda>u. u \<noteq> 34) w" using assms unfolding only_def by blast
  moreover from this(2) have "count_list w 34 = 0" by (induction w) simp_all
  ultimately show "\<exists>w. rp_after p = w @ rp_after q \<and> count_list w 34 = 0" by blast
qed

lemma counts_Lit: "counts (count_list w 34) (Lit w)"
  by (auto simp: counts_def eat_def startsWith_iff split: if_splits)

lemma counts_Seq:
  assumes "counts m a" "counts n b"
  shows "counts (m + n) (Seq a b)"
  unfolding counts_def
proof (intro allI impI)
  fix p q assume "q \<in> set (matches (Seq a b) p)"
  then obtain r where r: "r \<in> set (matches a p)" "q \<in> set (matches b r)" by auto
  obtain v where v: "rp_after p = v @ rp_after r" "count_list v 34 = m" using assms(1) r(1) unfolding counts_def by blast
  obtain w where w: "rp_after r = w @ rp_after q" "count_list w 34 = n" using assms(2) r(2) unfolding counts_def by blast
  show "\<exists>w. rp_after p = w @ rp_after q \<and> count_list w 34 = m + n"
    using v w by (intro exI [of _ "v @ w"]) (simp add: count_list_append)
qed

lemma counts_full_match:
  assumes "counts n a" "full_match a s \<noteq> None"
  shows "count_list s 34 = n"
proof -
  obtain q where "q \<in> set (matches (Seq a Eol) (start s))"
    using assms(2) unfolding full_match_def match_at_def by (cases "matches (Seq a Eol) (start s)") auto
  then obtain r where "r \<in> set (matches a (start s))" "rp_after r = []" by (auto split: if_splits)
  with assms(1) show ?thesis unfolding counts_def start_def by fastforce
qed

lemma only_factor: "v \<noteq> [] \<Longrightarrow> 34 \<notin> set v \<Longrightarrow> list_all (only (\<lambda>u. u \<noteq> 34)) (factor i v)"
  unfolding factor_def Ws_def
  by (auto intro!: only_Lit only_Star only_Chr only_Group only_Plus simp: list_all_iff js_lit is_ws_def num_unit_def is_digit_def)

lemma only_plus: "list_all (only (\<lambda>u. u \<noteq> 34)) plus"
  unfolding plus_def Ws_def
  by (auto intro!: only_Lit only_Star only_Chr simp: js_lit is_ws_def)

lemma only_costs:
  "list_all (\<lambda>v. v \<noteq> [] \<and> 34 \<notin> set v) vs \<Longrightarrow> list_all (only (\<lambda>u. u \<noteq> 34)) (cost_groups i vs)"
proof (induction vs arbitrary: i)
  case (Cons v vs)
  then show ?case using only_factor [of v i] only_plus
    by (auto simp: cost_group_eq intro!: only_Opt only_Seqs)
qed simp

lemma only_body: "only (\<lambda>u. u \<noteq> 34) (bodyPat k)"
proof -
  have "list_all (\<lambda>v. v \<noteq> [] \<and> 34 \<notin> set v) extra_vars" by (simp add: extra_vars_eq js_lit)
  from only_costs [OF this] show ?thesis
    unfolding body_pat by (intro only_Seqs) (simp add: only_plus only_factor js_lit)
qed

lemma counts_single: "counts 2 singleRe"
proof -
  have w: "counts 0 (Group 1 (Star (Chr (\<lambda>u. u \<noteq> 34))))" "counts 0 Ws" "counts 0 (bodyPat 2)"
    using only_body [of 2]
    by (auto intro!: counts_only only_Group only_Star only_Chr simp: Ws_def is_ws_def)
  have "counts (1 + (0 + (1 + (0 + (0 + 0))))) singleRe"
    unfolding singleRe_def Seqs.simps
    using counts_Lit [of "js ''tier(\"''"] counts_Lit [of "js ''\",''"] counts_Lit [of "js '')''"]
    by (intro counts_Seq w) (simp_all add: js_lit)
  then show ?thesis by (simp add: numeral_2_eq_2)
qed

lemma count_tier_text: "2 \<le> count_list (tier_text ni l t) 34"
  by (simp add: tier_text_def js_lit count_list_append)

lemma count_part: "2 \<le> count_list (part_text ni t) 34"
  using count_tier_text [of ni "vt_label t" t] by (simp add: part_text_def count_list_append)

lemma several_not_single: "full_match singleRe (join colon (map (part_text ni) (t # v # ts))) = None"
proof -
  have "join colon (map (part_text ni) (t # v # ts)) = part_text ni t @ colon @ part_text ni v @ concat (map (\<lambda>y. colon @ y) (map (part_text ni) ts))"
    by (simp add: join_Cons)
  then have "4 \<le> count_list (join colon (map (part_text ni) (t # v # ts))) 34"
    using count_part [of ni t] count_part [of ni v] by (simp add: count_list_append)
  with counts_full_match [OF counts_single] show ?thesis by fastforce
qed


section \<open>Configurations\<close>

definition config_ok :: "(rat \<Rightarrow> jstring) \<Rightarrow> visual_config \<Rightarrow> bool" where
  "config_ok ni ts \<longleftrightarrow> ts \<noteq> [] \<and> list_all (tier_ok ni) ts \<and> (1 < length ts \<longrightarrow> vt_conditions (last ts) = [])"

lemma normalize_tier: "normalizeVisualTier (tier_partial t) = t"
  by (simp add: normalizeVisualTier_def tier_partial_def getTierCacheMode_def coalesce_def num_or_zero_def comp_def)

lemma normalize_config: "ts \<noteq> [] \<Longrightarrow> normalizeVisualConfig (Some ts) = ts"
  by (simp add: normalizeVisualConfig_def normalize_tier)

lemma conds_ne: "list_all (tcond_ok ni) (c # cs) \<Longrightarrow> join (js '' && '') (map (ctext ni) (c # cs)) \<noteq> []"
  using ctext_hd [of ni c] by (simp add: join_and)

lemma tier_cond_str:
  assumes "tier_ok ni t"
  shows "buildConditionStr ni (vt_conditions t) = conds_text ni t" "conds_text ni t = [] \<longleftrightarrow> vt_conditions t = []"
proof -
  have c: "list_all (tcond_ok ni) (vt_conditions t)" using assms by (simp add: tier_ok_def)
  then show "buildConditionStr ni (vt_conditions t) = conds_text ni t" by (simp add: conds_text_def condition_str)
  show "conds_text ni t = [] \<longleftrightarrow> vt_conditions t = []"
    using c conds_ne [of ni] by (cases "vt_conditions t") (simp_all add: conds_text_def)
qed

lemma parts_eq:
  assumes "list_all (tier_ok ni) ts" "ts \<noteq> []" "vt_conditions (last ts) = []"
  shows "tier_parts ni i ts = map (part_text ni) ts"
  using assms
proof (induction ts arbitrary: i)
  case (Cons t ts)
  have t: "tier_ok ni t" "vt_label t \<noteq> []" using Cons.prems by (simp_all add: tier_ok_def)
  show ?case
  proof (cases ts)
    case Nil
    with Cons.prems t show ?thesis by (simp add: part_text_def Let_def)
  next
    case (Cons v vs)
    then show ?thesis using Cons.IH Cons.prems t tier_cond_str [OF t(1)] by (auto simp: part_text_def Let_def js_lit)
  qed
qed simp

lemma generate_one:
  assumes "tier_ok ni t"
  shows "generateExprFromVisualConfig ni (Some [t]) =
    part_text ni t @ (if vt_conditions t = [] then [] else js '' : p * 0 + c * 0'')"
  using assms tier_cond_str [OF assms]
  by (auto simp: generateExprFromVisualConfig_def part_text_def Let_def tier_ok_def js_lit)

lemma generate_several:
  assumes "config_ok ni (t # v # ts)"
  shows "generateExprFromVisualConfig ni (Some (t # v # ts)) = join colon (map (part_text ni) (t # v # ts))"
  using assms parts_eq [of ni "t # v # ts" 0]
  by (simp add: generateExprFromVisualConfig_def config_ok_def js_colon del: tier_parts.simps)

lemma part_hd:
  assumes "tier_ok ni t"
  obtains r where "part_text ni t = 116 # r" "vt_conditions t = []"
    | u r where "part_text ni t = u # r" "u \<in> {112, 99, 108}" "vt_conditions t \<noteq> []"
proof (cases "vt_conditions t")
  case Nil
  with that(1) tier_text_hd [of ni "vt_label t" t] show thesis by (auto simp: part_text_def)
next
  case (Cons c cs)
  have "tcond_ok ni c" using assms Cons by (simp add: tier_ok_def)
  then have "\<exists>u r. ctext ni c = u # r \<and> u \<in> {112, 99, 108}" by (auto simp: tcond_ok_def ctext_def js_lit)
  with that(2) Cons show thesis by (auto simp: part_text_def conds_text_def join_and)
qed

lemma strip_version_id: "s = u # r \<Longrightarrow> u \<noteq> 118 \<Longrightarrow> strip_version s = s"
  unfolding strip_version_def by (subst no_start) (simp_all add: startsWith_def js_lit)

lemma parsed_parts:
  assumes "list_all (tier_ok ni) ts" "map (\<lambda>(p, m). rp_groups m) xs = map (part_gs ni) ts"
  shows "map (\<lambda>(p, m). tier_of_match m 3 (map input_condition (parse_tier_conditions (coalesce (group m 1) [])))) xs = ts"
  using assms
proof (induction ts arbitrary: xs)
  case (Cons t ts)
  then obtain p m ys where xs: "xs = (p, m) # ys" and g: "rp_groups m = part_gs ni t"
    and ys: "map (\<lambda>(p, m). rp_groups m) ys = map (part_gs ni) ts" by auto
  have t: "tier_ok ni t" using Cons.prems by simp
  obtain a b where ab: "vt_input t = Some a" "vt_output t = Some b" using t by (rule tier_okE)
  let ?g = "if vt_conditions t = [] then [] else [(1, conds_text ni t)]"
  have gr: "rp_groups m = cost_gs ni (3 + 2) (vt_extra t) ((3 + 1, num_str ni b) # (3, num_str ni a) # (3 - 1, vt_label t) # ?g)"
    using ab unfolding g part_gs_def tier_gs_def by simp
  have "coalesce (group m 1) [] = conds_text ni t"
    using tier_cond_str(2) [OF t] by (auto simp: group_def gr cost_gs_lookup coalesce_def)
  then have c: "map input_condition (parse_tier_conditions (coalesce (group m 1) [])) = vt_conditions t"
    using parse_conditions [of ni "vt_conditions t"] t by (simp add: conds_text_def tier_ok_def)
  have "tier_of_match m 3 (vt_conditions t) = t"
    using tier_of_groups [OF t ab gr] by simp
  with c Cons.IH [OF _ ys] Cons.prems xs show ?case by simp
qed simp


text \<open>The three shapes of a generated expression.\<close>

lemma parse_from_parts:
  assumes ts: "list_all (tier_ok ni) (t # ts)" and e: "e = join colon (map (part_text ni) (t # ts)) @ s" and s: "no_tiers s"
    and single: "full_match singleRe e = None" and gen: "generateExprFromVisualConfig ni (Some (t # ts)) = e"
  shows "tryParseVisualConfig ni (Some e) = Some (t # ts)"
proof -
  have t: "tier_ok ni t" using ts by simp
  have e': "e = part_text ni t @ concat (map (\<lambda>y. colon @ y) (map (part_text ni) ts)) @ s" unfolding e by (simp add: join_Cons)
  have hd: "\<exists>u r. e = u # r \<and> u \<noteq> 118"
    using t by (rule part_hd) (auto simp: e')
  then have v: "strip_version e = e" using strip_version_id by blast
  have m: "map (\<lambda>(p, m). rp_groups m) (exec_all visualTierRe [] e) = map (part_gs ni) (t # ts)"
    using exec_parts [OF ts s, of "[]" "[]"] unfolding e by simp
  obtain u r where ur: "e = u # r" using hd by blast
  show ?thesis
    using parsed_parts [OF ts m] single v gen unfolding ur
    by (simp add: tryParseVisualConfig_def normalize_config Let_def)
qed

lemma config_reparse:
  assumes "config_ok ni ts"
  shows "tryParseVisualConfig ni (Some (generateExprFromVisualConfig ni (Some ts))) = Some ts"
proof -
  obtain t us where ts: "ts = t # us" using assms by (cases ts) (auto simp: config_ok_def)
  have all: "list_all (tier_ok ni) (t # us)" and t: "tier_ok ni t" using assms ts by (auto simp: config_ok_def)
  show ?thesis
  proof (cases us)
    case (Cons v vs)
    have g: "generateExprFromVisualConfig ni (Some (t # us)) = join colon (map (part_text ni) (t # us)) @ []"
      using generate_several assms unfolding ts Cons by simp
    have "full_match singleRe (generateExprFromVisualConfig ni (Some (t # us))) = None"
      unfolding g unfolding Cons append_Nil2 by (rule several_not_single)
    then show ?thesis unfolding ts by (intro parse_from_parts [OF all g no_tiers_Nil _ refl])
  next
    case Nil
    show ?thesis
    proof (cases "vt_conditions t = []")
      case False
      have g: "generateExprFromVisualConfig ni (Some (t # us)) = join colon (map (part_text ni) (t # us)) @ js '' : p * 0 + c * 0''"
        using generate_one [OF t] False unfolding Nil by simp
      obtain u r where u: "part_text ni t = u # r" "u \<in> {112, 99, 108}" using t False by (auto elim: part_hd)
      have "full_match singleRe (generateExprFromVisualConfig ni (Some (t # us))) = None"
        unfolding singleRe_def g unfolding Nil using u by (intro no_start) (auto simp: startsWith_def js_lit)
      then show ?thesis unfolding ts by (intro parse_from_parts [OF all g no_tiers_rest _ refl])
    next
      case True
      have g: "generateExprFromVisualConfig ni (Some (t # us)) = tier_text ni (vt_label t) t"
        using generate_one [OF t] True unfolding Nil by (simp add: part_text_def)
      have "gets singleRe (tier_text ni (vt_label t) t) (tier_gs ni 1 2 t [])"
        unfolding single_re using takes_Seq [OF takes_tier [OF t] takes_Eol, of 1 2 "[]"] by (intro getsI) simp
      then obtain m where m: "full_match singleRe (tier_text ni (vt_label t) t) = Some m" "rp_groups m = tier_gs ni 1 2 t []"
        unfolding gets_def by blast
      obtain a b where ab: "vt_input t = Some a" "vt_output t = Some b" using t by (rule tier_okE)
      have "tier_of_match m 2 (vt_conditions t) = t"
        using m(2) ab by (intro tier_of_groups [OF t ab, where gs = "[]"]) (simp_all add: tier_gs_def)
      moreover obtain r where r: "tier_text ni (vt_label t) t = 116 # r" using tier_text_hd by blast
      ultimately show ?thesis
        unfolding ts g using m(1) True Nil strip_version_id [OF r]
        by (simp add: tryParseVisualConfig_def r normalize_config)
    qed
  qed
qed


section \<open>The generated expression as a base\<close>

lemma no_paren_number: "printable num_unit ni q \<Longrightarrow> no_paren (num_str ni q)"
  using num_unit_facts by (auto simp: printable_def list_all_iff no_paren_def)

lemma no_paren_factor: "printable num_unit ni q \<Longrightarrow> no_paren v \<Longrightarrow> no_paren (factor_text ni v q)"
  using no_paren_number [of ni q] by (simp add: factor_text_def no_paren_def)

lemma no_paren_costs:
  "list_all (printable num_unit ni) qs \<Longrightarrow> list_all no_paren vs \<Longrightarrow> no_paren (costs_text ni vs qs)"
proof (induction ni vs qs rule: costs_text.induct)
  case (1 ni v vs q qs)
  then show ?case using no_paren_factor [of ni q v] by (simp add: no_paren_def)
qed simp_all

lemma no_paren_body:
  assumes "tier_ok ni t"
  shows "no_paren (buildTierBodyExpr ni t)"
proof -
  obtain a b where ab: "vt_input t = Some a" "vt_output t = Some b" using assms by (rule tier_okE)
  have "list_all no_paren extra_vars" by (simp add: extra_vars_eq no_paren_def js_lit)
  then show ?thesis using assms no_paren_factor [of ni a "js ''p''"] no_paren_factor [of ni b "js ''c''"] no_paren_costs [of ni "vt_extra t" extra_vars] ab
    unfolding body_text [OF ab] by (simp add: tier_ok_def cost_ok_def no_paren_def js_lit)
qed

lemma bal_tier:
  assumes "tier_ok ni t"
  shows "bal (tier_text ni (vt_label t) t)"
proof -
  let ?w = "34 # vt_label t @ js ''\", '' @ buildTierBodyExpr ni t"
  have "no_paren (vt_label t)" using assms plain_sets by (simp add: tier_ok_def)
  then have w: "no_paren ?w" using no_paren_body [OF assms] by (simp add: no_paren_def js_lit)
  have v: "no_paren (js ''tier'')" "bal []" by (simp_all add: no_paren_def js_lit bal_def)
  have "bal (js ''tier'' @ 40 # ?w @ 41 # [])" using bal_call [OF bal_no_paren [OF w] v(1)] v(2) by (rule iffD2)
  then show ?thesis by (simp add: tier_text_def js_lit)
qed

lemma no_paren_ctext:
  assumes "tcond_ok ni c"
  shows "no_paren (ctext ni c)"
proof -
  obtain q where q: "printable cond_unit ni q" "cond_value_text ni (ti_value c) = num_str ni q" by (rule tcond_okE [OF assms]) (rule that)
  then have "no_paren (num_str ni q)" using cond_unit_facts by (auto simp: printable_def list_all_iff no_paren_def)
  moreover have "no_paren (ti_var c)" "no_paren (ti_op c)" using assms by (auto simp: tcond_ok_def no_paren_def js_lit)
  ultimately show ?thesis unfolding ctext_def q(2) by (simp add: no_paren_def)
qed

lemma bal_part:
  assumes "tier_ok ni t"
  shows "bal (part_text ni t)"
proof -
  have "list_all bal (map (ctext ni) (vt_conditions t))"
    using assms no_paren_ctext bal_no_paren by (fastforce simp: tier_ok_def list_all_iff)
  then have "bal (conds_text ni t)" unfolding conds_text_def by (rule join_bal) (simp add: no_paren_def js_lit)
  moreover have "bal [32, 63, 32]" by (rule bal_no_paren) (simp add: no_paren_def)
  ultimately have "bal (conds_text ni t @ [32, 63, 32])" by (rule bal_append)
  from bal_append [OF this bal_tier [OF assms]] show ?thesis using bal_tier [OF assms] by (simp add: part_text_def)
qed

lemma generated_text:
  assumes "config_ok ni ts"
  obtains "generateExprFromVisualConfig ni (Some ts) = join colon (map (part_text ni) ts)"
    | "generateExprFromVisualConfig ni (Some ts) = join colon (map (part_text ni) ts) @ js '' : p * 0 + c * 0''"
proof -
  obtain t us where ts: "ts = t # us" using assms by (cases ts) (auto simp: config_ok_def)
  show thesis
  proof (cases us)
    case Nil
    have "tier_ok ni t" using assms ts by (simp add: config_ok_def)
    from generate_one [OF this] that show thesis by (cases "vt_conditions t = []") (simp_all add: ts Nil)
  next
    case (Cons v vs)
    with generate_several assms that show thesis by (simp add: ts)
  qed
qed

lemma generated_hd:
  assumes "config_ok ni ts"
  shows "\<exists>u r. generateExprFromVisualConfig ni (Some ts) = u # r \<and> u \<in> {116, 112, 99, 108}"
proof -
  obtain t us where ts: "ts = t # us" using assms by (cases ts) (auto simp: config_ok_def)
  have t: "tier_ok ni t" using assms ts by (simp add: config_ok_def)
  have "\<exists>u r. part_text ni t = u # r \<and> u \<in> {116, 112, 99, 108}" using t by (rule part_hd) auto
  then obtain u r where p: "part_text ni t = u # r" "u \<in> {116, 112, 99, 108}" by blast
  have j: "join colon (map (part_text ni) ts) = u # r @ concat (map (\<lambda>y. colon @ y) (map (part_text ni) us))"
    unfolding ts by (simp add: join_Cons p(1))
  show ?thesis using assms by (rule generated_text) (use p(2) j in auto)
qed

lemma part_last: "last (part_text ni t) = 41"
  by (simp add: part_text_def tier_text_def js_lit)

lemma join_last: "ts \<noteq> [] \<Longrightarrow> \<forall>t. f t \<noteq> [] \<and> last (f t) = (z :: nat) \<Longrightarrow> last (join sep (map f ts)) = z"
proof (induction ts)
  case (Cons t ts)
  then show ?case by (cases ts) (auto simp: last_append join_Cons)
qed simp

lemma generated_base_ok:
  assumes "config_ok ni ts"
  shows "base_ok (generateExprFromVisualConfig ni (Some ts))"
proof -
  let ?e = "generateExprFromVisualConfig ni (Some ts)" and ?j = "join colon (map (part_text ni) ts)"
  obtain u r where u: "?e = u # r" "u \<in> {116, 112, 99, 108}" using generated_hd [OF assms] by blast
  have ts: "ts \<noteq> []" using assms by (simp add: config_ok_def)
  have jl: "last ?j = 41" using ts length_part part_last by (intro join_last) auto
  have l: "last ?e = 41 \<or> last ?e = 48" using assms
    by (rule generated_text) (use jl in \<open>simp_all add: js_lit\<close>)
  have "list_all bal (map (part_text ni) ts)" using assms bal_part by (auto simp: config_ok_def list_all_iff)
  then have j: "bal ?j" by (rule join_bal) (simp add: colon_def no_paren_def)
  have "bal (js '' : p * 0 + c * 0'')" by (rule bal_no_paren) (simp add: no_paren_def js_lit)
  then have "bal ?e" using assms by (elim generated_text) (simp_all only: j bal_append)
  moreover have "trim ?e = ?e" using u l by (intro trim_id) (auto simp: is_ws_def)
  moreover have "\<not> hasFullOuterParens ?e" using u by (auto simp: hasFullOuterParens_def startsWith_def js_lit)
  moreover have "\<not> endsWith ?e (js '' : 1'')" using l by (auto simp: endsWith_iff js_lit)
  ultimately show ?thesis using u by (simp add: base_ok_def)
qed

text \<open>C26 [tier_config_reparsed]: tiers in normal form survive printing and parsing. They are in normal form
  when there is at least one; labels are non-empty and plain; conditions compare \<open>p\<close>, \<open>c\<close> or \<open>len\<close> with
  a number; limits and costs are numbers whose printed form is read back as the same number; the cache
  mode is timed exactly when there is a one-hour cost; and the last of several tiers has no condition.
  (The editor can also produce other tiers, such as a last tier that still has a condition after the
  one behind it was removed; nothing is stated of them.) The expression generated from tiers in normal
  form parses to exactly these tiers, and it is well formed as the base of an expression with request
  rules.\<close>

theorem tier_config_reparsed:
  assumes "config_ok ni ts"
  shows "tryParseVisualConfig ni (Some (generateExprFromVisualConfig ni (Some ts))) = Some ts \<and>
    base_ok (generateExprFromVisualConfig ni (Some ts))"
  using config_reparse [OF assms] generated_base_ok [OF assms] by (rule conjI)

definition sample_config :: visual_config where
  "sample_config =
     [\<lparr>vt_label = js ''short'', vt_conditions = [\<lparr>ti_var = js ''len'', ti_op = js ''<='', ti_value = CNum (Some 200000)\<rparr>,
         \<lparr>ti_var = js ''c'', ti_op = js ''<'', ti_value = CNum (Some 4000)\<rparr>],
       vt_input = Some 3, vt_output = Some 15, vt_cache_mode = CACHE_MODE_TIMED, vt_extra = [0, 4, 6, 0, 0, 0, 9]\<rparr>,
      \<lparr>vt_label = js ''long context'', vt_conditions = [], vt_input = Some 6, vt_output = Some 22,
       vt_cache_mode = CACHE_MODE_GENERIC, vt_extra = [1, 0, 0, 0, 0, 0, 0]\<rparr>]"

lemma sample_config_ok: "config_ok (\<lambda>_. []) sample_config"
  by code_simp

theorem tier_config_reparsed_witness:
  "tryParseVisualConfig (\<lambda>_. []) (Some (generateExprFromVisualConfig (\<lambda>_. []) (Some sample_config))) = Some sample_config \<and>
    base_ok (generateExprFromVisualConfig (\<lambda>_. []) (Some sample_config))"
  by (rule tier_config_reparsed [OF sample_config_ok])

end
