(* ===== verification/TieredEditor.thy ===== *)
theory TieredEditor
  imports TierRules
begin

text \<open>
  \<open>features/system-settings/models/tiered-pricing-editor.tsx\<close>: the editor of tiered prices. Its state is the
  mode, the visual configuration, the raw expression and the rule groups; the expression and the rules
  themselves belong to the parent, which the editor informs through its callbacks. Handlers change the
  state; then React renders and runs the effects whose dependencies changed, with the values of that
  render, until nothing changes. One such round is \<open>commit\<close>. An exception while rendering, which takes the
  component down, is \<open>None\<close>.
\<close>

section \<open>Number inputs\<close>

definition CACHE_PRICE_VARS :: "billing_var list" where
  "CACHE_PRICE_VARS = filter (\<lambda>v. bv_group v = Some (js ''cache'')) BILLING_EXTRA_VARS"

definition MEDIA_PRICE_VARS :: "billing_var list" where
  "MEDIA_PRICE_VARS = filter (\<lambda>v. bv_group v = Some (js ''media'')) BILLING_EXTRA_VARS"

definition CONDITION_INPUT_OPTIONS :: "(jstring \<times> jstring) list" where
  "CONDITION_INPUT_OPTIONS = [(js ''len'', js ''Full input length''), (js ''p'', js ''Billable input tokens''),
     (js ''c'', js ''Billable output tokens'')]"

definition OPS :: "jstring list" where
  "OPS = [js ''<'', js ''<='', js ''>'', js ''>='']"

text \<open>\<open>loc\<close> is \<open>toLocaleString\<close>.\<close>

definition formatTokenHint :: "(rat \<Rightarrow> jstring) \<Rightarrow> cond_value option \<Rightarrow> jstring" where
  "formatTokenHint loc n =
     (case n of
        None \<Rightarrow> []
      | Some (CStr []) \<Rightarrow> []
      | Some c \<Rightarrow>
          (case (case c of CNum q \<Rightarrow> q | CStr s \<Rightarrow> string_to_number s) of
             None \<Rightarrow> []
           | Some v \<Rightarrow>
               if v = 0 then js ''= 0''
               else if v \<ge> 1000000 then js ''= '' @ loc (v / 1000000) @ js ''M tokens''
               else if v \<ge> 1000 then js ''= '' @ loc (v / 1000) @ js ''K tokens''
               else js ''= '' @ loc v @ js '' tokens''))"

definition formatNumberDraft :: "(rat \<Rightarrow> jstring) \<Rightarrow> cond_value \<Rightarrow> jstring" where
  "formatNumberDraft ni v =
     (case v of
        CStr s \<Rightarrow> s
      | CNum (Some q) \<Rightarrow> num_str ni q
      | CNum None \<Rightarrow> js ''0'')"

definition parseNumberDraft :: "jstring \<Rightarrow> rat" where
  "parseNumberDraft v = (if trim v = [] then 0 else coalesce (string_to_number v) 0)"

definition isZeroDraft :: "jstring \<Rightarrow> bool" where
  "isZeroDraft v \<longleftrightarrow> trim v \<noteq> [] \<and> parseNumberDraft v = 0"

text \<open>The input keeps its own draft text while it has the focus; the second component is the value it
  reports.\<close>

record draft_input =
  di_draft :: jstring
  di_focused :: bool

definition draft_mount :: "(rat \<Rightarrow> jstring) \<Rightarrow> cond_value \<Rightarrow> draft_input" where
  "draft_mount ni v = \<lparr>di_draft = formatNumberDraft ni v, di_focused = False\<rparr>"

definition draft_effect :: "(rat \<Rightarrow> jstring) \<Rightarrow> cond_value \<Rightarrow> draft_input \<Rightarrow> draft_input" where
  "draft_effect ni v d = (if di_focused d then d else d\<lparr>di_draft := formatNumberDraft ni v\<rparr>)"

definition draft_handleChange :: "jstring \<Rightarrow> draft_input \<Rightarrow> draft_input \<times> rat" where
  "draft_handleChange nextDraft d = (d\<lparr>di_draft := nextDraft\<rparr>, parseNumberDraft nextDraft)"

definition draft_handleFocus :: "draft_input \<Rightarrow> draft_input \<times> bool" where
  "draft_handleFocus d = (d\<lparr>di_focused := True\<rparr>, isZeroDraft (di_draft d))"

definition draft_handleMouseUp :: "draft_input \<Rightarrow> bool" where
  "draft_handleMouseUp d = isZeroDraft (di_draft d)"

definition draft_handleBlur :: "(rat \<Rightarrow> jstring) \<Rightarrow> draft_input \<Rightarrow> draft_input \<times> rat" where
  "draft_handleBlur ni d =
     (let normalized = parseNumberDraft (di_draft d)
      in (d\<lparr>di_focused := False, di_draft := num_str ni normalized\<rparr>, normalized))"


section \<open>Editing tiers\<close>

definition unitCostToPrice :: "rat option \<Rightarrow> rat" where
  "unitCostToPrice uc = coalesce uc 0"

definition priceToUnitCost :: "rat option \<Rightarrow> rat" where
  "priceToUnitCost price = coalesce price 0"

datatype tier_edit =
    TierLabel jstring
  | TierConditionChange nat tier_cond_input
  | TierConditionRemove nat
  | TierInputPrice rat
  | TierOutputPrice rat
  | TierExtraPrice nat rat
  | TierCacheMode cache_mode

text \<open>\<open>xs.filter((_, i) => i !== k)\<close>.\<close>

definition remove_index :: "nat \<Rightarrow> 'a list \<Rightarrow> 'a list" where
  "remove_index k xs = take k xs @ drop (Suc k) xs"

definition handleCacheModeChange :: "cache_mode \<Rightarrow> visual_tier \<Rightarrow> visual_tier" where
  "handleCacheModeChange mode tier = tier\<lparr>vt_cache_mode := mode,
     vt_extra := (if mode = CACHE_MODE_TIMED then vt_extra tier else (vt_extra tier)[extra_index ''cc1h'' := 0])\<rparr>"

fun edit_tier :: "tier_edit \<Rightarrow> visual_tier \<Rightarrow> visual_tier" where
  "edit_tier (TierLabel l) tier = tier\<lparr>vt_label := l\<rparr>"
| "edit_tier (TierConditionChange i c) tier = tier\<lparr>vt_conditions := (vt_conditions tier)[i := c]\<rparr>"
| "edit_tier (TierConditionRemove i) tier = tier\<lparr>vt_conditions := remove_index i (vt_conditions tier)\<rparr>"
| "edit_tier (TierInputPrice v) tier = tier\<lparr>vt_input := Some (priceToUnitCost (Some v))\<rparr>"
| "edit_tier (TierOutputPrice v) tier = tier\<lparr>vt_output := Some (priceToUnitCost (Some v))\<rparr>"
| "edit_tier (TierExtraPrice i v) tier = tier\<lparr>vt_extra := (vt_extra tier)[i := priceToUnitCost (Some v)]\<rparr>"
| "edit_tier (TierCacheMode m) tier = handleCacheModeChange m tier"

definition hasMediaPricing :: "visual_tier \<Rightarrow> bool" where
  "hasMediaPricing tier \<longleftrightarrow>
     (\<exists>(cv, q) \<in> set (zip BILLING_EXTRA_VARS (vt_extra tier)). cv \<in> set MEDIA_PRICE_VARS \<and> unitCostToPrice (Some q) > 0)"

definition handleTierChange :: "nat \<Rightarrow> visual_tier \<Rightarrow> visual_config \<Rightarrow> visual_config" where
  "handleTierChange index next config = config[index := normalizeVisualTier (tier_partial next)]"

definition default_condition :: "jstring \<Rightarrow> tier_cond_input" where
  "default_condition v = \<lparr>ti_var = v, ti_op = js ''<'', ti_value = CNum (Some 200000)\<rparr>"

definition handleAddTier :: "visual_config \<Rightarrow> visual_config" where
  "handleAddTier config =
     (let lastIndex = length config - 1;
          tiers = (if config \<noteq> [] \<and> vt_conditions (last config) = []
                   then config[lastIndex := normalizeVisualTier (tier_partial
                          ((last config)\<lparr>vt_conditions := [default_condition (js ''len'')]\<rparr>))]
                   else config)
      in tiers @ [normalizeVisualTier \<lparr>qt_label = Some (js ''tier_'' @ show_nat (length tiers + 1)), qt_conditions = Some [],
           qt_input = Some (Some 0), qt_output = Some (Some 0), qt_cache_mode = None,
           qt_extra = map (\<lambda>_. None) BILLING_CACHE_VAR_MAP\<rparr>])"

definition handleRemoveTier :: "nat \<Rightarrow> visual_config \<Rightarrow> visual_config" where
  "handleRemoveTier index config =
     (let tiers = remove_index index config in if tiers \<noteq> [] then tiers else config)"

definition handleAddCondition :: "nat \<Rightarrow> visual_config \<Rightarrow> visual_config" where
  "handleAddCondition index config =
     (if index < length config
      then let tier = config ! index
           in if length (vt_conditions tier) \<ge> 2 then config
              else let nextVar = (if js ''len'' \<in> set (map ti_var (vt_conditions tier)) then js ''c'' else js ''len'')
                   in config[index := tier\<lparr>vt_conditions := vt_conditions tier @ [default_condition nextVar]\<rparr>]
      else config)"


section \<open>Editing rule groups\<close>

datatype cond_edit =
    CondSource jstring
  | CondMode jstring
  | CondPath jstring
  | CondValue jstring
  | CondTimeFunc jstring
  | CondTimezone jstring
  | CondTimeValue rat
  | CondRangeStart rat
  | CondRangeEnd rat

text \<open>A field that the condition does not have is not rendered.\<close>

fun edit_condition :: "(rat \<Rightarrow> jstring) \<Rightarrow> cond_edit \<Rightarrow> request_condition \<Rightarrow> request_condition" where
  "edit_condition ni (CondSource src) c =
     (if src = js ''time'' then TimeCondition createEmptyTimeCondition
      else if src = js ''header'' \<or> src = js ''param'' then ParamHeaderCondition (createEmptyCondition\<lparr>ph_source := src\<rparr>)
      else c)"
| "edit_condition ni (CondMode mode) (TimeCondition c) = TimeCondition (c\<lparr>tc_mode := mode\<rparr>)"
| "edit_condition ni (CondMode mode) (ParamHeaderCondition c) = ParamHeaderCondition (c\<lparr>ph_mode := mode\<rparr>)"
| "edit_condition ni (CondPath p) (ParamHeaderCondition c) = ParamHeaderCondition (c\<lparr>ph_path := p\<rparr>)"
| "edit_condition ni (CondValue v) (ParamHeaderCondition c) = ParamHeaderCondition (c\<lparr>ph_value := v\<rparr>)"
| "edit_condition ni (CondTimeFunc f) (TimeCondition c) = TimeCondition (c\<lparr>tc_timeFunc := f\<rparr>)"
| "edit_condition ni (CondTimezone z) (TimeCondition c) = TimeCondition (c\<lparr>tc_timezone := z\<rparr>)"
| "edit_condition ni (CondTimeValue v) (TimeCondition c) = TimeCondition (c\<lparr>tc_value := num_str ni v\<rparr>)"
| "edit_condition ni (CondRangeStart v) (TimeCondition c) = TimeCondition (c\<lparr>tc_rangeStart := num_str ni v\<rparr>)"
| "edit_condition ni (CondRangeEnd v) (TimeCondition c) = TimeCondition (c\<lparr>tc_rangeEnd := num_str ni v\<rparr>)"
| "edit_condition ni _ c = c"

datatype group_edit =
    GroupCondition nat cond_edit
  | GroupConditionRemove nat
  | GroupConditionAdd bool
  | GroupMultiplier rat

fun edit_group :: "(rat \<Rightarrow> jstring) \<Rightarrow> group_edit \<Rightarrow> rule_group \<Rightarrow> rule_group" where
  "edit_group ni (GroupCondition i e) g =
     (if i < length (rg_conditions g) then g\<lparr>rg_conditions := (rg_conditions g)[i := edit_condition ni e (rg_conditions g ! i)]\<rparr> else g)"
| "edit_group ni (GroupConditionRemove i) g = g\<lparr>rg_conditions := remove_index i (rg_conditions g)\<rparr>"
| "edit_group ni (GroupConditionAdd timeMode) g = g\<lparr>rg_conditions := rg_conditions g @
     [if timeMode then TimeCondition createEmptyTimeCondition else ParamHeaderCondition createEmptyCondition]\<rparr>"
| "edit_group ni (GroupMultiplier v) g = g\<lparr>rg_multiplier := num_str ni v\<rparr>"


section \<open>The editor\<close>

datatype editor_mode = EditorVisual | EditorRaw

text \<open>\<open>ed_seen\<close> holds the properties of the last committed render, the dependencies of the first two
  effects; \<open>None\<close> before the first one. \<open>ed_init\<close> is \<open>initRef\<close>.\<close>

record editor =
  ed_mode :: editor_mode
  ed_visual :: "visual_config option"
  ed_raw :: jstring
  ed_groups :: "rule_group list"
  ed_init :: bool
  ed_model :: jstring
  ed_expr :: jstring
  ed_rule :: jstring
  ed_seen :: "(jstring \<times> jstring \<times> jstring) option"

definition editor_mount :: "(rat \<Rightarrow> jstring) \<Rightarrow> jstring \<Rightarrow> jstring \<Rightarrow> jstring \<Rightarrow> editor option" where
  "editor_mount ni model expr rule =
     map_option (\<lambda>gs. \<lparr>ed_mode = EditorVisual, ed_visual = tryParseVisualConfig ni (Some expr),
         ed_raw = combineBillingExpr expr rule, ed_groups = coalesce gs [], ed_init = False, ed_model = model,
         ed_expr = expr, ed_rule = rule, ed_seen = None\<rparr>)
       (tryParseRequestRuleExpr ni rule)"

definition canUseVisualRules :: "(rat \<Rightarrow> jstring) \<Rightarrow> editor \<Rightarrow> bool option" where
  "canUseVisualRules ni s =
     (if ed_rule s = [] then Some True
      else map_option (\<lambda>r. r \<noteq> None) (tryParseRequestRuleExpr ni (ed_rule s)))"

definition effectiveExpr :: "(rat \<Rightarrow> jstring) \<Rightarrow> editor \<Rightarrow> jstring option" where
  "effectiveExpr ni s =
     (if ed_mode s = EditorVisual then Some (generateExprFromVisualConfig ni (ed_visual s))
      else map_option sx_billingExpr (splitBillingExprAndRequestRules ni (ed_raw s)))"

text \<open>The first effect: the state is set up again from the properties \<open>expr\<close> and \<open>rule\<close> of the render.\<close>

definition init_effect :: "(rat \<Rightarrow> jstring) \<Rightarrow> jstring \<Rightarrow> jstring \<Rightarrow> editor \<Rightarrow> editor option" where
  "init_effect ni expr rule s =
     (if ed_init s then Some s
      else map_option (\<lambda>gs.
          (let s1 = s\<lparr>ed_init := True\<rparr>;
               s2 = (case tryParseVisualConfig ni (Some expr) of
                       Some cfg \<Rightarrow> s1\<lparr>ed_visual := Some cfg, ed_mode := EditorVisual\<rparr>
                     | None \<Rightarrow> if expr \<noteq> [] then s1\<lparr>ed_visual := None, ed_mode := EditorRaw\<rparr>
                               else s1\<lparr>ed_visual := Some createDefaultVisualConfig\<rparr>)
           in s2\<lparr>ed_raw := combineBillingExpr expr rule, ed_groups := coalesce gs []\<rparr>))
        (tryParseRequestRuleExpr ni rule))"

text \<open>One render with its effects, in their order. The last two effects only compare, so that running
  them in every round is running them when a dependency changed.\<close>

definition props_changed :: "editor \<Rightarrow> bool" where
  "props_changed c = (case ed_seen c of None \<Rightarrow> True | Some (e, r, m) \<Rightarrow> (e, r) \<noteq> (ed_expr c, ed_rule c))"

definition name_changed :: "editor \<Rightarrow> bool" where
  "name_changed c = (case ed_seen c of None \<Rightarrow> True | Some (e, r, m) \<Rightarrow> m \<noteq> ed_model c)"

definition later_effects :: "jstring \<Rightarrow> editor \<Rightarrow> editor \<Rightarrow> editor" where
  "later_effects effective c s =
     (let ruleExpr = buildRequestRuleExpr (ed_groups c);
          s1 = (if name_changed c then s\<lparr>ed_init := False\<rparr> else s);
          s2 = s1\<lparr>ed_expr := effective\<rparr>;
          s3 = (if ed_mode c = EditorVisual then s2\<lparr>ed_rule := ruleExpr\<rparr> else s2)
      in s3\<lparr>ed_seen := Some (ed_expr c, ed_rule c, ed_model c)\<rparr>)"

definition commit :: "(rat \<Rightarrow> jstring) \<Rightarrow> editor \<Rightarrow> editor option" where
  "commit ni c =
     (case (effectiveExpr ni c, canUseVisualRules ni c) of
        (Some effective, Some _) \<Rightarrow>
          map_option (later_effects effective c)
            (if props_changed c then init_effect ni (ed_expr c) (ed_rule c) c else Some c)
      | _ \<Rightarrow> None)"

fun commits :: "(rat \<Rightarrow> jstring) \<Rightarrow> nat \<Rightarrow> editor \<Rightarrow> editor option" where
  "commits ni 0 s = Some s"
| "commits ni (Suc n) s = Option.bind (commit ni s) (commits ni n)"


section \<open>Handlers\<close>

record preset =
  pr_key :: jstring
  pr_label :: jstring
  pr_expr :: jstring
  pr_requestRules :: "rule_group list option"

record preset_group =
  pg_group :: jstring
  pg_presets :: "preset list"

definition PRESET_GROUPS :: "preset_group list" where
  "PRESET_GROUPS =
    [\<lparr>pg_group = js ''Fixed price'', pg_presets =
      [\<lparr>pr_key = js ''flat'', pr_label = js ''Flat'',
        pr_expr = js ''tier(\"base\", p * 2 + c * 4)'',
        pr_requestRules = None\<rparr>,
       \<lparr>pr_key = js ''claude-opus'', pr_label = js ''Claude Opus 4.6'',
        pr_expr = js ''tier(\"base\", p * 5 + c * 25 + cr * 0.5 + cc * 6.25 + cc1h * 10)'',
        pr_requestRules = None\<rparr>,
       \<lparr>pr_key = js ''gpt-5.4'', pr_label = js ''GPT-5.4'',
        pr_expr = js ''len <= 272000 ? tier(\"standard\", p * 2.5 + c * 15 + cr * 0.25) : tier(\"long_context\", p * 5 + c * 22.5 + cr * 0.5)'',
        pr_requestRules = None\<rparr>]\<rparr>,
     \<lparr>pg_group = js ''Tiered'', pg_presets =
      [\<lparr>pr_key = js ''claude-sonnet'', pr_label = js ''Claude Sonnet 4.5'',
        pr_expr = js ''len <= 200000 ? tier(\"standard\", p * 3 + c * 15 + cr * 0.3 + cc * 3.75 + cc1h * 6) : tier(\"long_context\", p * 6 + c * 22.5 + cr * 0.6 + cc * 7.5 + cc1h * 12)'',
        pr_requestRules = None\<rparr>,
       \<lparr>pr_key = js ''qwen3-max'', pr_label = js ''Qwen3 Max'',
        pr_expr = js ''len <= 32000 ? tier(\"short\", p * 1.2 + c * 6 + cr * 0.24 + cc * 1.5) : len <= 128000 ? tier(\"mid\", p * 2.4 + c * 12 + cr * 0.48 + cc * 3) : tier(\"long\", p * 3 + c * 15 + cr * 0.6 + cc * 3.75)'',
        pr_requestRules = None\<rparr>,
       \<lparr>pr_key = js ''glm-4.5-air'', pr_label = js ''GLM-4.5 Air'',
        pr_expr = js ''len < 32000 && c < 200 ? tier(\"short_output\", p * 0.8 + c * 2 + cr * 0.16) : len < 32000 && c >= 200 ? tier(\"long_output\", p * 0.8 + c * 6 + cr * 0.16) : tier(\"mid_context\", p * 1.2 + c * 8 + cr * 0.24)'',
        pr_requestRules = None\<rparr>,
       \<lparr>pr_key = js ''doubao-seed-1.8'', pr_label = js ''Doubao Seed 1.8'',
        pr_expr = js ''len <= 32000 && c <= 200 ? tier(\"discount\", p * 0.8 + c * 2 + cr * 0.16 + cc * 0.17) : len <= 32000 ? tier(\"short\", p * 0.8 + c * 8 + cr * 0.16 + cc * 0.17) : len <= 128000 ? tier(\"mid\", p * 1.2 + c * 16 + cr * 0.16 + cc * 0.17) : tier(\"long\", p * 2.4 + c * 24 + cr * 0.16 + cc * 0.17)'',
        pr_requestRules = None\<rparr>]\<rparr>,
     \<lparr>pg_group = js ''Multimodal'', pg_presets =
      [\<lparr>pr_key = js ''gpt-image-1-mini'', pr_label = js ''GPT Image 1 Mini'',
        pr_expr = js ''tier(\"base\", p * 2 + c * 8 + img * 2.5)'',
        pr_requestRules = None\<rparr>,
       \<lparr>pr_key = js ''gemini-2.5-flash'', pr_label = js ''Gemini 2.5 Flash'',
        pr_expr = js ''tier(\"base\", p * 0.3 + c * 2.5 + cr * 0.03 + ai * 1.0)'',
        pr_requestRules = None\<rparr>,
       \<lparr>pr_key = js ''gemini-3-pro-image'', pr_label = js ''Gemini 3 Pro Image'',
        pr_expr = js ''tier(\"base\", p * 2 + c * 12 + img_o * 120)'',
        pr_requestRules = None\<rparr>,
       \<lparr>pr_key = js ''qwen3-omni-flash'', pr_label = js ''Qwen3 Omni Flash'',
        pr_expr = js ''tier(\"base\", p * 0.43 + c * 3.06 + img * 0.78 + ai * 3.81 + ao * 15.11)'',
        pr_requestRules = None\<rparr>]\<rparr>,
     \<lparr>pg_group = js ''Request rule'', pg_presets =
      [\<lparr>pr_key = js ''claude-opus-fast'', pr_label = js ''Claude Opus 4.6 Fast'',
        pr_expr = js ''tier(\"base\", p * 5 + c * 25 + cr * 0.5 + cc * 6.25 + cc1h * 10)'',
        pr_requestRules = Some [
         \<lparr>rg_conditions = [ParamHeaderCondition \<lparr>ph_source = js ''header'', ph_path = js ''anthropic-beta'', ph_mode = js ''contains'',
             ph_value = js ''fast-mode-2026-02-01''\<rparr>],
           rg_multiplier = js ''6'', rg_conditionText = None, rg_matched = None\<rparr>]\<rparr>,
       \<lparr>pr_key = js ''gpt-5.4-tiers'', pr_label = js ''GPT-5.4 Priority/Flex'',
        pr_expr = js ''len <= 272000 ? tier(\"standard\", p * 2.5 + c * 15 + cr * 0.25) : tier(\"long_context\", p * 5 + c * 22.5 + cr * 0.5)'',
        pr_requestRules = Some [
         \<lparr>rg_conditions = [ParamHeaderCondition \<lparr>ph_source = js ''param'', ph_path = js ''service_tier'', ph_mode = js ''eq'',
             ph_value = js ''priority''\<rparr>],
           rg_multiplier = js ''2'', rg_conditionText = None, rg_matched = None\<rparr>,
         \<lparr>rg_conditions = [ParamHeaderCondition \<lparr>ph_source = js ''param'', ph_path = js ''service_tier'', ph_mode = js ''eq'',
             ph_value = js ''flex''\<rparr>],
           rg_multiplier = js ''0.5'', rg_conditionText = None, rg_matched = None\<rparr>]\<rparr>]\<rparr>,
     \<lparr>pg_group = js ''Time-based'', pg_presets =
      [\<lparr>pr_key = js ''night-discount'', pr_label = js ''Night discount (50%)'',
        pr_expr = js ''tier(\"base\", p * 3 + c * 15)'',
        pr_requestRules = Some [
         \<lparr>rg_conditions = [TimeCondition \<lparr>tc_timeFunc = js ''hour'', tc_timezone = js ''Asia/Shanghai'', tc_mode = js ''range'', tc_value = [],
             tc_rangeStart = js ''21'', tc_rangeEnd = js ''6''\<rparr>],
           rg_multiplier = js ''0.5'', rg_conditionText = None, rg_matched = None\<rparr>]\<rparr>,
       \<lparr>pr_key = js ''weekend-discount'', pr_label = js ''Weekend discount (80%)'',
        pr_expr = js ''tier(\"base\", p * 3 + c * 15)'',
        pr_requestRules = Some [
         \<lparr>rg_conditions = [TimeCondition \<lparr>tc_timeFunc = js ''weekday'', tc_timezone = js ''Asia/Shanghai'', tc_mode = js ''eq'', tc_value = js ''0'',
             tc_rangeStart = [], tc_rangeEnd = []\<rparr>],
           rg_multiplier = js ''0.8'', rg_conditionText = None, rg_matched = None\<rparr>,
         \<lparr>rg_conditions = [TimeCondition \<lparr>tc_timeFunc = js ''weekday'', tc_timezone = js ''Asia/Shanghai'', tc_mode = js ''eq'', tc_value = js ''6'',
             tc_rangeStart = [], tc_rangeEnd = []\<rparr>],
           rg_multiplier = js ''0.8'', rg_conditionText = None, rg_matched = None\<rparr>]\<rparr>]\<rparr>]"

definition handleVisualChange :: "visual_config \<Rightarrow> editor \<Rightarrow> editor" where
  "handleVisualChange next s = s\<lparr>ed_visual := Some next\<rparr>"

definition handleRuleGroupsChange :: "rule_group list \<Rightarrow> editor \<Rightarrow> editor" where
  "handleRuleGroupsChange next s = s\<lparr>ed_groups := next\<rparr>"

text \<open>An exception in a handler leaves what was set before it.\<close>

definition handleRawChange :: "(rat \<Rightarrow> jstring) \<Rightarrow> jstring \<Rightarrow> editor \<Rightarrow> editor" where
  "handleRawChange ni v s =
     (let s1 = s\<lparr>ed_raw := v\<rparr>
      in (case splitBillingExprAndRequestRules ni v of
            Some x \<Rightarrow> s1\<lparr>ed_rule := sx_requestRuleExpr x\<rparr>
          | None \<Rightarrow> s1))"

definition handleModeChange :: "(rat \<Rightarrow> jstring) \<Rightarrow> editor_mode \<Rightarrow> editor \<Rightarrow> editor" where
  "handleModeChange ni next s =
     (if next = EditorVisual
      then (case splitBillingExprAndRequestRules ni (ed_raw s) of
              None \<Rightarrow> s
            | Some x \<Rightarrow>
                let s1 = s\<lparr>ed_visual := Some (coalesce (tryParseVisualConfig ni (Some (sx_billingExpr x))) createDefaultVisualConfig)\<rparr>
                in (case tryParseRequestRuleExpr ni (sx_requestRuleExpr x) of
                      None \<Rightarrow> s1
                    | Some gs \<Rightarrow> s1\<lparr>ed_groups := coalesce gs [], ed_rule := sx_requestRuleExpr x, ed_mode := next\<rparr>))
      else let expr = generateExprFromVisualConfig ni (ed_visual s);
               combined = combineBillingExpr expr (buildRequestRuleExpr (ed_groups s))
           in s\<lparr>ed_raw := (if combined = [] then expr else combined), ed_mode := next\<rparr>)"

definition applyPreset :: "(rat \<Rightarrow> jstring) \<Rightarrow> preset \<Rightarrow> editor \<Rightarrow> editor" where
  "applyPreset ni p s =
     (let presetGroups = coalesce (pr_requestRules p) [];
          ruleExpr = buildRequestRuleExpr presetGroups;
          combined = combineBillingExpr (pr_expr p) ruleExpr;
          s1 = s\<lparr>ed_raw := (if combined = [] then pr_expr p else combined)\<rparr>;
          s2 = (case tryParseVisualConfig ni (Some (pr_expr p)) of
                  Some cfg \<Rightarrow> s1\<lparr>ed_visual := Some cfg, ed_mode := EditorVisual\<rparr>
                | None \<Rightarrow> s1\<lparr>ed_mode := EditorRaw, ed_visual := None\<rparr>)
      in s2\<lparr>ed_groups := presetGroups, ed_rule := ruleExpr\<rparr>)"

datatype editor_event =
    TierEdited nat tier_edit
  | TierAdded
  | TierRemoved nat
  | ConditionAdded nat
  | GroupEdited nat group_edit
  | GroupRemoved nat
  | GroupAdded
  | RawEdited jstring
  | ModeSelected editor_mode
  | PresetApplied preset
  | ModelRenamed jstring
  | Rendered

text \<open>The controls of the other mode, and those of rules that do not parse, are not on the page.\<close>

definition visual_event :: "(visual_config \<Rightarrow> visual_config) \<Rightarrow> editor \<Rightarrow> editor" where
  "visual_event f s =
     (if ed_mode s = EditorVisual then handleVisualChange (f (normalizeVisualConfig (ed_visual s))) s else s)"

definition group_event :: "(rat \<Rightarrow> jstring) \<Rightarrow> (rule_group list \<Rightarrow> rule_group list) \<Rightarrow> editor \<Rightarrow> editor" where
  "group_event ni f s =
     (if ed_mode s = EditorVisual \<and> canUseVisualRules ni s = Some True then handleRuleGroupsChange (f (ed_groups s)) s else s)"

fun editor_step :: "(rat \<Rightarrow> jstring) \<Rightarrow> editor \<Rightarrow> editor_event \<Rightarrow> editor option" where
  "editor_step ni s (TierEdited i e) =
     Some (visual_event (\<lambda>config. if i < length config then handleTierChange i (edit_tier e (config ! i)) config else config) s)"
| "editor_step ni s TierAdded = Some (visual_event handleAddTier s)"
| "editor_step ni s (TierRemoved i) = Some (visual_event (handleRemoveTier i) s)"
| "editor_step ni s (ConditionAdded i) = Some (visual_event (handleAddCondition i) s)"
| "editor_step ni s (GroupEdited i e) =
     Some (group_event ni (\<lambda>gs. if i < length gs then gs[i := edit_group ni e (gs ! i)] else gs) s)"
| "editor_step ni s (GroupRemoved i) = Some (group_event ni (remove_index i) s)"
| "editor_step ni s GroupAdded = Some (group_event ni (\<lambda>gs. gs @ [createEmptyRuleGroup]) s)"
| "editor_step ni s (RawEdited v) = Some (if ed_mode s = EditorRaw then handleRawChange ni v s else s)"
| "editor_step ni s (ModeSelected m) = Some (handleModeChange ni m s)"
| "editor_step ni s (PresetApplied p) = Some (applyPreset ni p s)"
| "editor_step ni s (ModelRenamed m) = Some (s\<lparr>ed_model := m\<rparr>)"
| "editor_step ni s Rendered = commit ni s"



section \<open>The effects settle\<close>

definition synced :: "jstring \<Rightarrow> editor \<Rightarrow> editor" where
  "synced effective c = c\<lparr>ed_expr := effective,
     ed_rule := (if ed_mode c = EditorVisual then buildRequestRuleExpr (ed_groups c) else ed_rule c),
     ed_seen := Some (ed_expr c, ed_rule c, ed_model c)\<rparr>"

definition settled :: "(rat \<Rightarrow> jstring) \<Rightarrow> editor \<Rightarrow> bool" where
  "settled ni t \<longleftrightarrow> commit ni t = Some t \<and> effectiveExpr ni t = Some (ed_expr t) \<and>
     (ed_mode t = EditorVisual \<longrightarrow> ed_rule t = buildRequestRuleExpr (ed_groups t))"

lemma commit_SomeE:
  assumes "commit ni c = Some d"
  obtains e s where "effectiveExpr ni c = Some e" "canUseVisualRules ni c \<noteq> None" "d = later_effects e c s"
    "(if props_changed c then init_effect ni (ed_expr c) (ed_rule c) c else Some c) = Some s"
  using assms unfolding commit_def by (auto split: option.splits)

lemma init_effect_props:
  assumes "init_effect ni x r s = Some t"
  shows "ed_init t" "ed_model t = ed_model s" "ed_init s \<Longrightarrow> t = s"
  using assms unfolding init_effect_def Let_def by (auto split: option.splits if_splits)

lemma later_effects_props:
  "ed_model (later_effects e c s) = ed_model s" "ed_seen (later_effects e c s) = Some (ed_expr c, ed_rule c, ed_model c)"
  "ed_init (later_effects e c s) = (ed_init s \<and> \<not> name_changed c)" "\<not> name_changed c \<Longrightarrow> later_effects e c c = synced e c"
  by (simp_all add: later_effects_def Let_def synced_def)

lemma commit_quiet:
  assumes "commit ni c = Some d" "ed_init c \<or> \<not> props_changed c" "\<not> name_changed c"
  shows "\<exists>e. effectiveExpr ni c = Some e \<and> d = synced e c"
proof -
  obtain e s where e: "effectiveExpr ni c = Some e" "d = later_effects e c s"
    "(if props_changed c then init_effect ni (ed_expr c) (ed_rule c) c else Some c) = Some s"
    using assms(1) by (rule commit_SomeE)
  have "s = c" using e(3) assms(2) init_effect_props(3) by (auto split: if_splits)
  with e later_effects_props(4) [OF assms(3)] show ?thesis by simp
qed

lemma commit_quietI:
  assumes "effectiveExpr ni c = Some e" "canUseVisualRules ni c \<noteq> None" "ed_init c \<or> \<not> props_changed c" "\<not> name_changed c"
  shows "commit ni c = Some (synced e c)"
  using assms later_effects_props(4) [OF assms(4)] by (auto simp: commit_def init_effect_def)

lemma commit_seen:
  assumes "commit ni c = Some d"
  shows "ed_seen d = Some (ed_expr c, ed_rule c, ed_model c)" "ed_model d = ed_model c" "\<not> name_changed d"
    "props_changed c \<Longrightarrow> \<not> name_changed c \<Longrightarrow> ed_init d"
proof -
  obtain e s where e: "d = later_effects e c s"
    "(if props_changed c then init_effect ni (ed_expr c) (ed_rule c) c else Some c) = Some s"
    using assms(1) by (rule commit_SomeE)
  have "ed_model s = ed_model c" using e(2) init_effect_props(2) by (auto split: if_splits)
  then show "ed_seen d = Some (ed_expr c, ed_rule c, ed_model c)" "ed_model d = ed_model c" "\<not> name_changed d"
    by (simp_all add: e(1) later_effects_props name_changed_def)
  show "props_changed c \<Longrightarrow> \<not> name_changed c \<Longrightarrow> ed_init d"
    using e(2) init_effect_props(1) by (simp add: e(1) later_effects_props)
qed

lemma effective_core:
  "ed_mode d = ed_mode c \<Longrightarrow> ed_visual d = ed_visual c \<Longrightarrow> ed_raw d = ed_raw c \<Longrightarrow> effectiveExpr ni d = effectiveExpr ni c"
  by (simp add: effectiveExpr_def)

lemma effective_synced [simp]: "effectiveExpr ni (synced e c) = effectiveExpr ni c"
  by (rule effective_core) (simp_all add: synced_def)

lemma commit_fix:
  assumes "commit ni c = Some d" "ed_seen c = Some (ed_expr c, ed_rule c, ed_model c)" "effectiveExpr ni c = Some (ed_expr c)"
    "ed_mode c = EditorVisual \<longrightarrow> ed_rule c = buildRequestRuleExpr (ed_groups c)"
  shows "settled ni c"
proof -
  have q: "\<not> props_changed c" "\<not> name_changed c" using assms(2) by (simp_all add: props_changed_def name_changed_def)
  obtain e where "effectiveExpr ni c = Some e" "d = synced e c" using commit_quiet [OF assms(1) _ q(2)] q(1) by blast
  with assms have "d = c" by (cases c) (auto simp: synced_def)
  with assms show ?thesis by (simp add: settled_def)
qed

text \<open>Two rounds without the first effect settle the editor.\<close>

lemma quiet_settles:
  assumes "commit ni c = Some d" "commit ni d = Some e" "commit ni e = Some f"
    and c: "ed_init c \<or> \<not> props_changed c" "\<not> name_changed c" and d: "ed_init d \<or> \<not> props_changed d"
  shows "settled ni e"
proof -
  obtain x where x: "effectiveExpr ni c = Some x" "d = synced x c" using commit_quiet [OF assms(1) c] by blast
  have n: "\<not> name_changed d" by (rule commit_seen(3) [OF assms(1)])
  obtain y where y: "effectiveExpr ni d = Some y" "e = synced y d" using commit_quiet [OF assms(2) d n] by blast
  have "y = x" using x y by simp
  show ?thesis
    using x y \<open>y = x\<close> by (intro commit_fix [OF assms(3)]) (auto simp: synced_def effectiveExpr_def)
qed

lemma settled_commits: "settled ni t \<Longrightarrow> commits ni n t = Some t"
  by (induction n) (simp_all add: settled_def)

lemma commits_Suc: "commits ni (Suc n) s = Some t \<longleftrightarrow> (\<exists>u. commit ni s = Some u \<and> commits ni n u = Some t)"
  by (cases "commit ni s") auto

lemma commits_add: "commits ni (m + n) s = Option.bind (commits ni m s) (commits ni n)"
  by (induction m arbitrary: s) (simp_all, metis bind_assoc)

lemma settles:
  assumes "commits ni 6 s = Some t"
  shows "settled ni t"
proof -
  have six: "commits ni (Suc (Suc (Suc (Suc (Suc (Suc 0)))))) s = Some t" using assms by (simp add: eval_nat_numeral)
  then obtain s1 s2 s3 s4 s5 where s: "commit ni s = Some s1" "commit ni s1 = Some s2" "commit ni s2 = Some s3"
    "commit ni s3 = Some s4" "commit ni s4 = Some s5" "commit ni s5 = Some t"
    by (auto simp: commits_Suc simp del: commits.simps(2))
  have stay: "settled ni x \<Longrightarrow> commit ni x = Some x" for x by (simp add: settled_def)
  note n = commit_seen(3) [OF s(1)] commit_seen(3) [OF s(2)] commit_seen(3) [OF s(3)] commit_seen(3) [OF s(4)]
  have keep: "ed_init d" if "commit ni c = Some d" "ed_init c" "\<not> name_changed c" for c d
    using commit_quiet [OF that(1) _ that(3)] that(2) by (auto simp: synced_def)
  consider (a) "ed_init s1" | (b) "\<not> ed_init s1" "props_changed s1"
    | (c) "\<not> ed_init s1" "\<not> props_changed s1" "props_changed s2" | (d) "\<not> props_changed s1" "\<not> props_changed s2" by blast
  then show ?thesis
  proof cases
    case a
    have "settled ni s3" using quiet_settles [OF s(2,3,4) _ n(1)] a keep [OF s(2) a n(1)] by blast
    with s stay show ?thesis by (metis option.inject)
  next
    case b
    have i: "ed_init s2" by (rule commit_seen(4) [OF s(2) b(2) n(1)])
    have "settled ni s4" using quiet_settles [OF s(3,4,5) _ n(2)] i keep [OF s(3) i n(2)] by blast
    with s stay show ?thesis by (metis option.inject)
  next
    case c
    have i: "ed_init s3" by (rule commit_seen(4) [OF s(3) c(3) n(2)])
    have "settled ni s5" using quiet_settles [OF s(4,5,6) _ n(3)] i keep [OF s(4) i n(3)] by blast
    with s stay show ?thesis by (metis option.inject)
  next
    case d
    have "settled ni s3" using quiet_settles [OF s(2,3,4) _ n(1)] d by blast
    with s stay show ?thesis by (metis option.inject)
  qed
qed



section \<open>Splitting an expression without rules\<close>

lemma trim_start: "s \<noteq> [] \<Longrightarrow> \<not> is_ws (hd s) \<Longrightarrow> trim s \<noteq> [] \<and> hd (trim s) = hd s"
proof (cases s)
  case (Cons u r)
  assume "s \<noteq> []" "\<not> is_ws (hd s)"
  with Cons have u: "\<not> is_ws u" by simp
  have "dropWhile is_ws (rev r @ [u]) \<noteq> [] \<and> last (dropWhile is_ws (rev r @ [u])) = u"
    using u by (simp add: dropWhile_append)
  with Cons u show ?thesis by (simp add: trim_def trimStart_def trimEnd_def hd_rev)
qed simp

lemma split_top_hd:
  assumes "cur \<noteq> []" "\<not> is_ws (hd cur)"
  shows "\<exists>q qs. split_top sep d cur s = q # qs \<and> q \<noteq> [] \<and> hd q = hd cur"
  using assms
proof (induction sep d cur s rule: split_top.induct)
  case (1 sep depth cur)
  then show ?case using trim_start [of cur] by simp
next
  case (2 sep depth cur u s)
  show ?case
  proof (cases "dstep depth u = 0 \<and> startsWith (u # s) sep")
    case True
    then show ?thesis using trim_start [OF 2(3,4)] by (subst split_top_step) simp
  next
    case False
    have "\<exists>q qs. split_top sep (dstep depth u) (cur @ [u]) s = q # qs \<and> q \<noteq> [] \<and> hd q = hd (cur @ [u])"
      using 2 False by (intro 2(2)) (auto simp: dstep_def Let_def)
    with False 2(3) show ?thesis by (subst split_top_step) (auto simp del: split_top.simps)
  qed
qed

lemma split_mult_hd:
  assumes "\<not> is_ws u"
  shows "\<exists>q qs. splitTopLevelMultiply (u # s) = q # qs \<and> hd q = u"
proof -
  have "\<not> startsWith (u # s) (js '' * '')" using assms by (auto simp: startsWith_def js_lit is_ws_def)
  then have "split_top (js '' * '') 0 [] (u # s) = split_top (js '' * '') (dstep 0 u) [u] s"
    by (subst split_top_step) simp
  with split_top_hd [of "[u]" "js '' * ''" "dstep 0 u" s] assms show ?thesis by (auto simp: splitTopLevelMultiply_def)
qed

lemma no_rule_start:
  assumes "trim p = u # s" "\<not> is_ws u" "u \<noteq> 40"
  shows "is_rule_part ni p = Some False"
proof -
  obtain q qs where q: "splitTopLevelMultiply (u # s) = q # qs" "hd q = u" using split_mult_hd [OF assms(2)] by blast
  have "full_match rule_factor_re q = None"
    unfolding rule_factor_re_def using q(2) assms(3) by (intro no_start) (cases q; auto simp: startsWith_def js_lit)
  then show ?thesis by (simp add: is_rule_part_def tryParseRequestRuleExpr_def assms(1) q(1) tryParseRuleGroupFactor_def Let_def)
qed

lemma split_no_rules:
  assumes "trim b = b" "b \<noteq> []" "\<forall>p\<in>set (splitTopLevelMultiply b). is_rule_part ni p = Some False"
  shows "splitBillingExprAndRequestRules ni b = Some \<lparr>sx_billingExpr = b, sx_requestRuleExpr = []\<rparr>"
proof -
  have f: "those (map (is_rule_part ni) (splitTopLevelMultiply b)) = Some (map (\<lambda>_. False) (splitTopLevelMultiply b))"
    using assms(3) by (intro those_Some) simp
  have z: "filter snd (zip xs (map (\<lambda>_. False) xs)) = []" for xs :: "jstring list" by (induction xs) simp_all
  show ?thesis using assms(1,2) f z by (simp add: splitBillingExprAndRequestRules_def Let_def)
qed

lemma js_times: "js '' * '' = 32 # 42 # [32]"
  by (simp add: js_lit)

lemma conds_no_star:
  assumes "tier_ok ni t"
  shows "42 \<notin> set (conds_text ni t)"
proof -
  have "42 \<notin> set (ctext ni c)" if c: "tcond_ok ni c" for c
  proof -
    obtain q where q: "printable cond_unit ni q" "cond_value_text ni (ti_value c) = num_str ni q"
      by (rule tcond_okE [OF c]) (rule that)
    then have "42 \<notin> set (num_str ni q)" by (auto simp: printable_def list_all_iff cond_unit_def is_digit_def)
    moreover have "42 \<notin> set (ti_var c)" "42 \<notin> set (ti_op c)" using c by (auto simp: tcond_ok_def js_lit)
    ultimately show ?thesis unfolding ctext_def q(2) by simp
  qed
  with assms show ?thesis
    unfolding conds_text_def by (cases "vt_conditions t") (auto simp: tier_ok_def join_and and_text_def list_all_iff)
qed

lemma never_part:
  assumes t: "tier_ok ni t" and w: "42 \<notin> set w" "no_paren w"
  shows "never (js '' * '') 0 (w @ part_text ni t) s"
proof -
  let ?v = "w @ (if vt_conditions t = [] then [] else conds_text ni t @ [32, 63, 32]) @ js ''tier''"
  let ?b = "34 # vt_label t @ js ''\", '' @ buildTierBodyExpr ni t"
  have e: "w @ part_text ni t = ?v @ 40 # ?b @ [41]" by (simp add: part_text_def tier_text_def js_lit)
  have v: "42 \<notin> set ?v" using w conds_no_star [OF t] by (simp add: js_lit)
  have l: "?v = [] \<or> last ?v \<noteq> 32" by (simp add: js_lit)
  have "no_paren (vt_label t)" using t plain_sets by (simp add: tier_ok_def)
  then have "no_paren ?b" using no_paren_body [OF t] by (simp add: no_paren_def js_lit)
  then have b: "bal ?b" by (rule bal_no_paren)
  have "list_all no_paren (map (ctext ni) (vt_conditions t))"
    using t no_paren_ctext by (auto simp: tier_ok_def list_all_iff)
  then have "no_paren (conds_text ni t)"
    unfolding conds_text_def by (cases "vt_conditions t") (auto simp: join_and and_text_def list_all_iff no_paren_def)
  then have p: "no_paren ?v" using w(2) by (simp add: no_paren_def js_lit)
  have "never (js '' * '') 0 ?v (40 # ?b @ [41] @ s)"
    unfolding js_times by (rule never_unit [OF v l])
  moreover have "never (js '' * '') 0 (40 # ?b @ [41]) s" by (rule never_paren [OF b js_times]) simp_all
  ultimately show ?thesis unfolding e never_append using dep_no_paren [OF p, of 0] by simp
qed

lemma never_parts:
  assumes "list_all (tier_ok ni) ts" "ts \<noteq> []" "42 \<notin> set w" "no_paren w"
  shows "never (js '' * '') 0 (w @ join colon (map (part_text ni) ts)) s"
  using assms(2,1,3,4)
proof (induction ts arbitrary: w rule: list_nonempty_induct)
  case (single t)
  then show ?case using never_part by simp
next
  case (cons t ts)
  have e: "w @ join colon (map (part_text ni) (t # ts)) = (w @ part_text ni t) @ (colon @ join colon (map (part_text ni) ts))"
    using cons(1) by (cases ts) simp_all
  have "bal (w @ part_text ni t)" using cons.prems bal_part by (intro bal_append [OF bal_no_paren]) simp_all
  then have "dep 0 (w @ part_text ni t) = 0" by (rule bal_dep)
  moreover have "never (js '' * '') 0 (colon @ join colon (map (part_text ni) ts)) s"
    using cons.prems by (intro cons.IH) (simp_all add: colon_def no_paren_def)
  moreover have "never (js '' * '') 0 (w @ part_text ni t) ((colon @ join colon (map (part_text ni) ts)) @ s)"
    using cons.prems by (intro never_part) simp_all
  ultimately show ?case unfolding e never_append [of _ _ "w @ part_text ni t"] by simp
qed

lemma split_generated:
  assumes "config_ok ni ts"
  shows "splitBillingExprAndRequestRules ni (generateExprFromVisualConfig ni (Some ts)) =
    Some \<lparr>sx_billingExpr = generateExprFromVisualConfig ni (Some ts), sx_requestRuleExpr = []\<rparr>"
proof (rule split_no_rules)
  let ?e = "generateExprFromVisualConfig ni (Some ts)" and ?j = "join colon (map (part_text ni) ts)"
  have b: "base_ok ?e" using assms by (rule generated_base_ok)
  then show "trim ?e = ?e" "?e \<noteq> []" by (simp_all add: base_ok_def)
  have ok: "list_all (tier_ok ni) ts" "ts \<noteq> []" using assms by (simp_all add: config_ok_def)
  have "\<exists>u r. ?e = u # r \<and> u \<in> {116, 112, 99, 108}" using assms by (rule generated_hd)
  then obtain u r where u: "?e = u # r" "u \<in> {116, 112, 99, 108}" by blast
  have w: "\<not> is_ws u" "u \<noteq> 40" using u(2) by (auto simp: is_ws_def)
  have j: "dep 0 ?j = 0"
    using ok bal_part by (intro bal_dep join_bal) (auto simp: list_all_iff colon_def no_paren_def)
  have nv: "never (js '' * '') 0 ?j s" for s using never_parts [OF ok, of "[]"] by (simp add: no_paren_def)
  show "\<forall>p\<in>set (splitTopLevelMultiply ?e). is_rule_part ni p = Some False" using assms
  proof (rule generated_text)
    assume e: "?e = ?j"
    have "split_top (js '' * '') 0 [] ?e = [?e]"
      using split_top_skip [OF nv [of "[]"], of "[]"] j b e by (simp add: base_ok_def)
    then show ?thesis using no_rule_start [of ?e u r] b u w by (simp add: splitTopLevelMultiply_def base_ok_def)
  next
    assume e: "?e = ?j @ js '' : p * 0 + c * 0''"
    have "split_top (js '' * '') 0 [] ?e = [trim (?j @ js '' : p''), js ''0 + c'', js ''0'']"
      unfolding e split_top_skip [OF nv, of "[]"] j
      by (simp add: js_lit startsWith_def trim_def trimStart_def trimEnd_def is_ws_def)
    moreover have "is_rule_part ni (trim (?j @ js '' : p'')) = Some False"
    proof -
      have ne: "?j \<noteq> []" using ok length_part by (intro join_ne) (auto simp: list_all_iff)
      then have "hd ?j = u" using arg_cong [OF u(1), of hd] unfolding e by simp
      with ne w obtain v where "trim (?j @ js '' : p'') = u # v"
        using trim_start [of "?j @ js '' : p''"] by (cases "trim (?j @ js '' : p'')") auto
      then show ?thesis by (intro no_rule_start [OF trans [OF trim_trim] w])
    qed
    moreover have "is_rule_part ni (js ''0 + c'') = Some False" "is_rule_part ni (js ''0'') = Some False"
      using no_rule_start [of "js ''0 + c''" 48 "js '' + c''"] no_rule_start [of "js ''0''" 48 "[]"]
      by (simp_all add: js_lit trim_def trimStart_def trimEnd_def is_ws_def)
    ultimately show ?thesis by (auto simp: splitTopLevelMultiply_def)
  qed
qed


lemma split_editor:
  assumes c: "config_ok ni ts" and g: "list_all group_ok gs"
  shows "splitBillingExprAndRequestRules ni (combineBillingExpr (generateExprFromVisualConfig ni (Some ts)) (buildRequestRuleExpr gs)) =
    Some \<lparr>sx_billingExpr = generateExprFromVisualConfig ni (Some ts), sx_requestRuleExpr = buildRequestRuleExpr gs\<rparr>"
proof (cases "gs = []")
  case True
  have "base_ok (generateExprFromVisualConfig ni (Some ts))" using c by (rule generated_base_ok)
  with True split_generated [OF c] show ?thesis
    by (simp add: buildRequestRuleExpr_def combineBillingExpr_def base_ok_def)
next
  case False
  with split_combine [OF generated_base_ok [OF c] g] show ?thesis by simp
qed

lemma combine_ne: "trim b = b \<Longrightarrow> b \<noteq> [] \<Longrightarrow> combineBillingExpr b r \<noteq> []"
  by (simp add: combineBillingExpr_def Let_def js_lit)

lemma combine_both:
  "trim b = b \<Longrightarrow> b \<noteq> [] \<Longrightarrow> trim r = r \<Longrightarrow> r \<noteq> [] \<Longrightarrow> combineBillingExpr b r = js ''('' @ b @ js '') * '' @ r"
  by (simp add: combineBillingExpr_def)


section \<open>Opening the editor and switching its mode\<close>

definition opened :: "(rat \<Rightarrow> jstring) \<Rightarrow> jstring \<Rightarrow> visual_config \<Rightarrow> rule_group list \<Rightarrow> editor" where
  "opened ni m ts gs =
     (let e = generateExprFromVisualConfig ni (Some ts); r = buildRequestRuleExpr gs
      in \<lparr>ed_mode = EditorVisual, ed_visual = Some ts, ed_raw = combineBillingExpr e r, ed_groups = gs, ed_init = False,
          ed_model = m, ed_expr = e, ed_rule = r, ed_seen = Some (e, r, m)\<rparr>)"

lemma can_use: "list_all group_ok gs \<Longrightarrow> ed_rule s = buildRequestRuleExpr gs \<Longrightarrow> canUseVisualRules ni s = Some True"
  using rules_reparse [of gs ni] by (simp add: canUseVisualRules_def)

text \<open>The rules of every preset are read back, so that a preset can be edited visually.\<close>

lemma preset_groups_ok:
  "list_all (\<lambda>g. list_all (\<lambda>p. list_all group_ok (coalesce (pr_requestRules p) [])) (pg_presets g)) PRESET_GROUPS"
  by code_simp

lemma preset_rules_usable:
  assumes "g \<in> set PRESET_GROUPS" and "p \<in> set (pg_presets g)"
  shows "canUseVisualRules ni (applyPreset ni p s) = Some True"
proof (rule can_use)
  show "list_all group_ok (coalesce (pr_requestRules p) [])"
    using preset_groups_ok assms unfolding list_all_iff by blast
qed (simp add: applyPreset_def Let_def split: option.split)

lemma open_editor:
  assumes c: "config_ok ni ts" and g: "list_all group_ok gs"
  shows "Option.bind (editor_mount ni m (generateExprFromVisualConfig ni (Some ts)) (buildRequestRuleExpr gs)) (commit ni) = Some (opened ni m ts gs)"
proof -
  let ?e = "generateExprFromVisualConfig ni (Some ts)" and ?r = "buildRequestRuleExpr gs"
  let ?s = "\<lparr>ed_mode = EditorVisual, ed_visual = Some ts, ed_raw = combineBillingExpr ?e ?r, ed_groups = gs, ed_init = False,
      ed_model = m, ed_expr = ?e, ed_rule = ?r, ed_seen = None\<rparr>"
  have "editor_mount ni m ?e ?r = Some ?s"
    by (simp add: editor_mount_def config_reparse [OF c] rules_reparse [OF g] coalesce_def)
  moreover have "commit ni ?s = Some (opened ni m ts gs)"
    using can_use [OF g, of ?s ni]
    by (simp add: commit_def effectiveExpr_def props_changed_def name_changed_def init_effect_def later_effects_def opened_def
        config_reparse [OF c] rules_reparse [OF g] coalesce_def Let_def)
  ultimately show ?thesis by simp
qed

text \<open>A state in which the properties have been seen and agree with the state is settled.\<close>

lemma settledI:
  assumes "ed_seen c = Some (ed_expr c, ed_rule c, ed_model c)" "effectiveExpr ni c = Some (ed_expr c)"
    "ed_mode c = EditorVisual \<Longrightarrow> ed_rule c = buildRequestRuleExpr (ed_groups c)" "canUseVisualRules ni c \<noteq> None"
  shows "settled ni c"
proof -
  have "commit ni c \<noteq> None"
    using assms(1,2,4) by (auto simp: commit_def props_changed_def)
  then obtain d where "commit ni c = Some d" by blast
  then show ?thesis using assms by (intro commit_fix) auto
qed

definition visual_of :: "(rat \<Rightarrow> jstring) \<Rightarrow> visual_config \<Rightarrow> rule_group list \<Rightarrow> editor \<Rightarrow> bool" where
  "visual_of ni ts gs s \<longleftrightarrow> ed_mode s = EditorVisual \<and> ed_visual s = Some ts \<and> ed_groups s = gs \<and>
     ed_expr s = generateExprFromVisualConfig ni (Some ts) \<and> ed_rule s = buildRequestRuleExpr gs \<and>
     ed_seen s = Some (ed_expr s, ed_rule s, ed_model s)"

lemma visual_settled: "list_all group_ok gs \<Longrightarrow> visual_of ni ts gs s \<Longrightarrow> settled ni s"
  using can_use [of gs s ni] by (intro settledI) (auto simp: visual_of_def effectiveExpr_def)

lemma switch_raw:
  assumes c: "config_ok ni ts" and g: "list_all group_ok gs" and s: "visual_of ni ts gs s"
  defines "u \<equiv> handleModeChange ni EditorRaw s"
  shows "settled ni u" "ed_expr u = ed_expr s" "ed_rule u = ed_rule s" "visual_of ni ts gs (handleModeChange ni EditorVisual u)"
proof -
  have b: "base_ok (generateExprFromVisualConfig ni (Some ts))" using c by (rule generated_base_ok)
  have u: "u = s\<lparr>ed_raw := combineBillingExpr (ed_expr s) (ed_rule s), ed_mode := EditorRaw\<rparr>"
    using s b combine_ne unfolding u_def handleModeChange_def by (simp add: visual_of_def base_ok_def Let_def)
  show "ed_expr u = ed_expr s" "ed_rule u = ed_rule s" by (simp_all add: u)
  have "effectiveExpr ni u = Some (ed_expr s)"
    using s split_editor [OF c g] by (simp add: u effectiveExpr_def visual_of_def)
  then show "settled ni u"
    using s can_use [OF g, of u ni] by (intro settledI) (auto simp: u visual_of_def)
  show "visual_of ni ts gs (handleModeChange ni EditorVisual u)"
    using s split_editor [OF c g]
    by (simp add: u handleModeChange_def visual_of_def Let_def config_reparse [OF c] rules_reparse [OF g] coalesce_def)
qed


section \<open>An expression the visual editor does not know\<close>

abbreviation zero_expr :: jstring where
  "zero_expr \<equiv> js ''p * 0 + c * 0''"

lemma zero_base: "base_ok zero_expr"
  by code_simp

lemma zero_not_visual: "tryParseVisualConfig ni (Some zero_expr) = None"
proof -
  have "no_tiers zero_expr"
    unfolding js_lit by (simp, intro no_tiers_Cons no_tiers_Nil) (auto intro: refuses_blank refuses_factor)
  then have "exec_all visualTierRe [] zero_expr = []" by (intro exec_all_none search_none) (simp add: no_tiers_def)
  moreover have "strip_version zero_expr = zero_expr"
    by (rule strip_version_id [of _ 112 "js '' * 0 + c * 0''"]) (simp_all add: js_lit)
  moreover have "full_match singleRe zero_expr = None"
    unfolding singleRe_def by (rule no_start) (simp add: startsWith_def js_lit)
  moreover have "zero_expr = 112 # js '' * 0 + c * 0''" by (simp add: js_lit)
  ultimately show ?thesis by (simp add: tryParseVisualConfig_def Let_def split: list.split)
qed

lemma split_zero:
  assumes "list_all group_ok gs"
  shows "splitBillingExprAndRequestRules ni (combineBillingExpr zero_expr (buildRequestRuleExpr gs)) =
    Some \<lparr>sx_billingExpr = zero_expr, sx_requestRuleExpr = buildRequestRuleExpr gs\<rparr>"
proof (cases "gs = []")
  case False
  with split_combine [OF zero_base assms] show ?thesis by simp
next
  case True
  have "splitTopLevelMultiply zero_expr = [js ''p'', js ''0 + c'', js ''0'']" by code_simp
  moreover have "is_rule_part ni (js ''p'') = Some False" "is_rule_part ni (js ''0 + c'') = Some False" "is_rule_part ni (js ''0'') = Some False"
    using no_rule_start [of "js ''p''" 112 "[]"] no_rule_start [of "js ''0 + c''" 48 "js '' + c''"] no_rule_start [of "js ''0''" 48 "[]"]
    by (simp_all add: js_lit trim_def trimStart_def trimEnd_def is_ws_def)
  ultimately have "splitBillingExprAndRequestRules ni zero_expr = Some \<lparr>sx_billingExpr = zero_expr, sx_requestRuleExpr = []\<rparr>"
    using zero_base by (intro split_no_rules) (auto simp: base_ok_def)
  with True zero_base show ?thesis by (simp add: buildRequestRuleExpr_def combineBillingExpr_def base_ok_def)
qed


text \<open>The rounds after opening it: the first one reports the price of no tiers, the second one reads that
  back into the editor.\<close>

lemma unparsed_rounds:
  assumes e: "e \<noteq> []" "tryParseVisualConfig ni (Some e) = None"
    and x: "splitBillingExprAndRequestRules ni (combineBillingExpr e (buildRequestRuleExpr gs)) = Some x"
    and g: "list_all group_ok gs"
  shows "\<exists>s. Option.bind (editor_mount ni m e (buildRequestRuleExpr gs)) (commits ni (Suc (Suc (Suc (Suc 0))))) = Some s \<and> settled ni s \<and>
    ed_mode s = EditorRaw \<and> ed_raw s = combineBillingExpr zero_expr (buildRequestRuleExpr gs) \<and> ed_expr s = zero_expr \<and>
    ed_rule s = buildRequestRuleExpr gs"
proof -
  let ?r = "buildRequestRuleExpr gs" and ?z = "combineBillingExpr zero_expr (buildRequestRuleExpr gs)"
  have can: "canUseVisualRules ni s = Some True" if "ed_rule s = ?r" for s :: editor using can_use [OF g that] .
  have gen: "generateExprFromVisualConfig ni None = zero_expr" by (simp add: generateExprFromVisualConfig_def)
  let ?s0 = "\<lparr>ed_mode = EditorVisual, ed_visual = None, ed_raw = combineBillingExpr e ?r, ed_groups = gs, ed_init = False,
      ed_model = m, ed_expr = e, ed_rule = ?r, ed_seen = None\<rparr>"
  let ?s1 = "\<lparr>ed_mode = EditorRaw, ed_visual = None, ed_raw = combineBillingExpr e ?r, ed_groups = gs, ed_init = False,
      ed_model = m, ed_expr = zero_expr, ed_rule = ?r, ed_seen = Some (e, ?r, m)\<rparr>"
  have m0: "editor_mount ni m e ?r = Some ?s0" by (simp add: editor_mount_def e(2) rules_reparse [OF g] coalesce_def)
  have s1: "commit ni ?s0 = Some ?s1"
    using can [of ?s0] e
    by (simp add: commit_def effectiveExpr_def props_changed_def name_changed_def init_effect_def later_effects_def gen
        rules_reparse [OF g] coalesce_def Let_def)
  show ?thesis
  proof (cases "e = zero_expr")
    case True
    have "settled ni ?s1" using can [of ?s1] split_zero [OF g] True by (intro settledI) (simp_all add: effectiveExpr_def)
    then have "commits ni (Suc (Suc (Suc 0))) ?s1 = Some ?s1" by (rule settled_commits)
    with m0 s1 True \<open>settled ni ?s1\<close> show ?thesis by (simp del: commits.simps(2) add: commits.simps(2) [of ni "Suc (Suc (Suc 0))"])
  next
    case False
    let ?s2 = "?s1\<lparr>ed_raw := ?z, ed_init := True, ed_expr := sx_billingExpr x, ed_seen := Some (zero_expr, ?r, m)\<rparr>"
    let ?s3 = "?s2\<lparr>ed_expr := zero_expr, ed_seen := Some (sx_billingExpr x, ?r, m)\<rparr>"
    let ?s4 = "?s3\<lparr>ed_seen := Some (zero_expr, ?r, m)\<rparr>"
    have s2: "commit ni ?s1 = Some ?s2"
      using can [of ?s1] x False zero_not_visual
      by (simp add: commit_def effectiveExpr_def props_changed_def name_changed_def init_effect_def later_effects_def
          rules_reparse [OF g] coalesce_def Let_def)
    have s3: "commit ni ?s2 = Some ?s3" "commit ni ?s3 = Some ?s4"
      using can [of ?s2] can [of ?s3] split_zero [OF g]
      by (simp_all add: commit_def effectiveExpr_def props_changed_def name_changed_def init_effect_def later_effects_def Let_def)
    have "settled ni ?s4" using can [of ?s4] split_zero [OF g] by (intro settledI) (simp_all add: effectiveExpr_def)
    then show ?thesis using m0 s1 s2 s3 by (intro exI [of _ ?s4]) (simp add: commits.simps)
  qed
qed


section \<open>Comparisons of parameters\<close>

definition compare_ok :: "rule_group \<Rightarrow> bool" where
  "compare_ok g \<longleftrightarrow> is_numeric (rg_multiplier g) \<and>
     (case rg_conditions g of
        [ParamHeaderCondition c] \<Rightarrow>
          ph_source c = js ''param'' \<and> ph_path c \<noteq> [] \<and> list_all plain (ph_path c) \<and> trim (ph_path c) = ph_path c \<and>
          ph_mode c \<in> {js ''gt'', js ''gte'', js ''lt'', js ''lte''} \<and> is_numeric (ph_value c)
      | _ \<Rightarrow> False)"

definition compare_text :: "param_header_condition \<Rightarrow> jstring" where
  "compare_text c = call_text (js ''param'') (ph_path c) @ js '' '' @ compare_op (ph_mode c) @ js '' '' @ ph_value c"

definition exists_text :: "param_header_condition \<Rightarrow> jstring" where
  "exists_text c = call_text (js ''param'') (ph_path c) @ js '' != nil''"

lemma compare_okE:
  assumes "compare_ok g"
  obtains c where "rg_conditions g = [ParamHeaderCondition c]" "ph_source c = js ''param''" "ph_path c \<noteq> []"
    "list_all plain (ph_path c)" "trim (ph_path c) = ph_path c" "ph_mode c \<in> {js ''gt'', js ''gte'', js ''lt'', js ''lte''}"
    "is_numeric (ph_value c)" "is_numeric (rg_multiplier g)"
proof -
  obtain a as where a: "rg_conditions g = a # as" using assms by (cases "rg_conditions g") (auto simp: compare_ok_def)
  have "as = []" using assms a by (cases as) (auto simp: compare_ok_def split: request_condition.splits)
  moreover obtain c where "a = ParamHeaderCondition c" using assms a \<open>as = []\<close> by (cases a) (auto simp: compare_ok_def)
  ultimately show thesis using assms a by (intro that [of c]) (simp_all add: compare_ok_def)
qed

lemma refuses_Group_Alt:
  "refuses (Seq (Group i a) c) s gs \<Longrightarrow> refuses (Seq (Group i b) c) s gs \<Longrightarrow> refuses (Seq (Group i (Alt a b)) c) s gs"
  unfolding refuses_def matches_Group_Alt by simp

text \<open>The second half of the printed comparison is no condition of the parser.\<close>

lemma compare_unparsed:
  assumes x: "list_all plain x" and t: "t = js ''\") '' @ op @ v" "op \<noteq> []" "hd op \<in> {60, 62}"
  shows "tryParseRequestCondition ni (js ''param(\"'' @ x @ t) = Some None"
proof -
  have h: "t \<noteq> []" "hd t = 34" "\<not> startsWith t (js ''\") != nil'')" "\<not> startsWith t (js ''\") == '')"
    "\<not> startsWith t (js ''\") != nil && has(param(\"'')" "\<not> startsWith t (js ''\") != nil && param(\"'')"
    using t by (auto simp: js_lit startsWith_def neq_Nil_conv)
  have p: "js ''param(\"'' @ r = js ''param('' @ 34 # r" for r by (simp add: js_lit)
  have "full_match param_exists_re (js ''param(\"'' @ x @ t) = None" "full_match param_contains_re (js ''param(\"'' @ x @ t) = None"
    "full_match param_compare_re (js ''param(\"'' @ x @ t) = None"
    unfolding param_exists_re_def param_contains_re_def param_compare_re_def
    by (rule refusedI, simp only: append_Cons append_Nil Seqs.simps, intro refuses_then refuses_path x h; simp add: js_lit)+
  moreover have "full_match equals_re (js ''param(\"'' @ x @ t) = None"
  proof -
    have r: "refuses (Seq (L ''(\"'') (Seq (Group 2 not_quote) (Seq (L ''\") == '') b))) (js ''(\"'' @ x @ t) gs" for b gs
      by (intro refuses_then refuses_path x h) (simp_all add: js_lit)
    have a: "js ''param(\"'' @ x @ t = js ''param'' @ js ''(\"'' @ x @ t" by (simp add: js_lit)
    have n: "\<not> startsWith (js ''param'' @ js ''(\"'' @ x @ t) (js ''header'')" by (simp add: startsWith_def js_lit)
    show ?thesis unfolding equals_re_def
      by (rule refusedI, simp only: append_Cons append_Nil Seqs.simps Alts.simps a,
          intro refuses_Group_Alt refuses_Group_Lit r refuses_Seq [OF refuses_Group [OF refuses_Lit [OF n]]])
  qed
  ultimately show ?thesis
    using param_no_time(1) [of "34 # x @ t"] param_no_header [of "34 # x @ t"]
    by (simp add: tryParseRequestCondition_def same_groups_def p [symmetric])
qed

lemma compare_group:
  assumes g: "compare_ok g"
  obtains w where "buildRequestRuleExpr [g] = 40 # w @ [41]" "bal w" "trim (40 # w @ [41]) = 40 # w @ [41]"
    "tryParseRuleGroupFactor ni (40 # w @ [41]) = Some None"
proof -
  obtain c where c: "rg_conditions g = [ParamHeaderCondition c]" "ph_source c = js ''param''" "ph_path c \<noteq> []"
    "list_all plain (ph_path c)" "trim (ph_path c) = ph_path c" "ph_mode c \<in> {js ''gt'', js ''gte'', js ''lt'', js ''lte''}"
    "is_numeric (ph_value c)" "is_numeric (rg_multiplier g)" using g by (rule compare_okE)
  let ?t = "join (js '' && '') [exists_text c, compare_text c]" and ?m = "rg_multiplier g"
  have nv: "trim (ph_value c) = ph_value c" "trim ?m = ?m" using c numeric_facts(2) by blast+
  have "normalizeCondition (Some (partial_of (ParamHeaderCondition c))) = ParamHeaderCondition c"
    using c(2,6) by (cases c) (auto simp: normalizeCondition_def allowed_mode_def getRequestRuleMatchOptions_def coalesce_def Let_def)
  then have "buildRequestConditionExpr (ParamHeaderCondition c) = ?t"
    using c nv quote_plain [OF c(4)]
    by (auto simp: buildRequestConditionExpr_def Let_def exists_text_def compare_text_def call_text_def js_lit)
  then have "buildRuleGroupFactor g = js ''('' @ ?t @ js '' ? '' @ ?m @ js '' : 1)''"
    using c nv by (simp add: buildRuleGroupFactor_def exists_text_def call_text_def js_lit)
  then have b: "buildRequestRuleExpr [g] = 40 # (?t @ js '' ? '' @ ?m @ js '' : 1'') @ [41]"
    by (simp add: buildRequestRuleExpr_def js_lit)
  have op: "no_paren (compare_op (ph_mode c))" "38 \<notin> set (compare_op (ph_mode c))" "124 \<notin> set (compare_op (ph_mode c))"
    "compare_op (ph_mode c) \<noteq> []" "hd (compare_op (ph_mode c)) \<in> {60, 62}"
    using c(6) by (auto simp: compare_op_def no_paren_def js_lit)
  have nf: "no_paren (js ''param'')" "js ''param'' \<noteq> []" "\<not> is_ws (hd (js ''param''))" "38 \<notin> set (js ''param'')"
    by (simp_all add: js_lit is_ws_def)
  have e: "part_ok (exists_text c)" unfolding exists_text_def
    using nf c(4) by (intro call_part_append) (simp_all add: js_lit is_ws_def)
  have d: "part_ok (compare_text c)" unfolding compare_text_def
    using nf c(4) op numeric_facts [OF c(7)] num_last [OF c(7)]
    by (intro call_part_append) (simp_all add: js_lit is_ws_def)
  have sp: "splitTopLevelAnd ?t = [exists_text c, compare_text c]" using e d by (intro split_and) simp_all
  have bt: "bal ?t" using e d by (intro join_bal) (simp_all add: part_ok_def js_lit)
  have w: "bal (?t @ js '' ? '' @ ?m @ js '' : 1'')"
    using numeric_facts(3) [OF c(8)] by (intro bal_append [OF bt] bal_no_paren) (simp add: js_lit)
  have p1: "tryParseRequestCondition ni (exists_text c) = Some (Some (ParamHeaderCondition
      \<lparr>ph_source = js ''param'', ph_path = ph_path c, ph_mode = js ''exists'', ph_value = []\<rparr>))"
    using parse_param_exists [OF c(4,3)] by (simp add: exists_text_def call_text_def js_lit)
  have p2: "tryParseRequestCondition ni (compare_text c) = Some None"
    using compare_unparsed [OF c(4) refl op(4,5), of ni "js '' '' @ ph_value c"] by (simp add: compare_text_def call_text_def js_lit)
  have "tryParseRequestConditions ni ?t = Some None"
    by (simp only: tryParseRequestConditions_def sp parse_parts.simps part_trim [OF e] part_trim [OF d] p1 p2 option.case option.map)
  note cond = this
  have "?t \<noteq> []" using e by (simp add: part_ok_def)
  from gets_factor [OF this c(8)] obtain m where m: "full_match rule_factor_re (js ''('' @ ?t @ js '' ? '' @ ?m @ js '' : 1)'') = Some m"
    "\<And>i. group m i = map_of [(2, ?m), (1, ?t)] i" by (rule getsE) (rule that)
  have "coalesce (group m 1) [] = ?t" unfolding m(2) by (simp add: coalesce_def)
  then have "tryParseRuleGroupFactor ni (js ''('' @ ?t @ js '' ? '' @ ?m @ js '' : 1)'') = Some None"
    unfolding tryParseRuleGroupFactor_def m(1) option.case using cond by (simp only: option.map)
  then have f: "tryParseRuleGroupFactor ni (40 # (?t @ js '' ? '' @ ?m @ js '' : 1'') @ [41]) = Some None"
    by (simp add: js_lit)
  show thesis by (rule that [OF b w _ f]) (rule trim_id, simp add: is_ws_def)
qed

lemma compare_unparsed_rule:
  assumes "compare_ok g"
  shows "tryParseRequestRuleExpr ni (buildRequestRuleExpr [g]) = Some None"
    "base_ok b \<Longrightarrow> splitBillingExprAndRequestRules ni (combineBillingExpr b (buildRequestRuleExpr [g])) =
       Some \<lparr>sx_billingExpr = combineBillingExpr b (buildRequestRuleExpr [g]), sx_requestRuleExpr = []\<rparr>"
proof -
  obtain w where w: "buildRequestRuleExpr [g] = 40 # w @ [41]" "bal w" "trim (40 # w @ [41]) = 40 # w @ [41]"
    "tryParseRuleGroupFactor ni (40 # w @ [41]) = Some None" using assms by (rule compare_group)
  have s: "splitTopLevelMultiply (40 # w @ [41]) = [40 # w @ [41]]" using split_mult_join(1) [of "[40 # w @ [41]]"] w(2) by simp
  show r: "tryParseRequestRuleExpr ni (buildRequestRuleExpr [g]) = Some None"
    by (simp add: tryParseRequestRuleExpr_def w(1,3,4) s)
  assume b: "base_ok b"
  let ?ps = "[40 # b @ [41], 40 # w @ [41]]"
  have ps: "\<forall>p\<in>set ?ps. \<exists>w. p = 40 # w @ [41] \<and> bal w" using w(2) b by (auto simp: base_ok_def)
  have c: "combineBillingExpr b (buildRequestRuleExpr [g]) = join (js '' * '') ?ps"
    using b w(1,3) by (simp add: combineBillingExpr_def base_ok_def js_lit)
  have "is_rule_part ni (40 # w @ [41]) = Some False" using r by (simp add: is_rule_part_def w(1))
  then show "splitBillingExprAndRequestRules ni (combineBillingExpr b (buildRequestRuleExpr [g])) =
       Some \<lparr>sx_billingExpr = combineBillingExpr b (buildRequestRuleExpr [g]), sx_requestRuleExpr = []\<rparr>"
    unfolding c using split_mult_join [OF ps] base_no_rule [OF b] by (intro split_no_rules) auto
qed


lemma compare_rounds:
  assumes c: "config_ok ni ts" and g: "compare_ok g" and s: "visual_of ni ts [g] s" "ed_init s"
  defines "u \<equiv> handleModeChange ni EditorRaw s" and "w \<equiv> combineBillingExpr (ed_expr s) (ed_rule s)"
  shows "\<exists>v. commits ni (Suc (Suc n)) u = Some v \<and> ed_expr v = w \<and> ed_rule v = ed_rule s"
proof -
  have b: "base_ok (generateExprFromVisualConfig ni (Some ts))" using c by (rule generated_base_ok)
  note r = compare_unparsed_rule [OF g, where ni = ni]
  have u: "u = s\<lparr>ed_raw := w, ed_mode := EditorRaw\<rparr>"
    using s b combine_ne unfolding u_def w_def handleModeChange_def by (simp add: visual_of_def base_ok_def Let_def)
  have e: "effectiveExpr ni v = Some w" if "ed_mode v = EditorRaw" "ed_raw v = w" for v :: editor
    using that s r(2) [OF b] by (simp add: effectiveExpr_def w_def visual_of_def)
  have k: "canUseVisualRules ni v \<noteq> None" if "ed_rule v = ed_rule s" for v :: editor
    using that s r(1) unfolding canUseVisualRules_def visual_of_def by auto
  let ?v1 = "synced w u" and ?v2 = "synced w (synced w u)"
  have "commit ni u = Some ?v1"
    using s by (intro commit_quietI e k) (simp_all add: u name_changed_def visual_of_def)
  moreover have "commit ni ?v1 = Some ?v2"
    using s by (intro commit_quietI e k) (simp_all add: u synced_def name_changed_def)
  moreover have "settled ni ?v2"
    using e [of ?v2] k [of ?v2] by (intro settledI) (auto simp: u synced_def)
  then have "commits ni n ?v2 = Some ?v2" by (rule settled_commits)
  ultimately show ?thesis by (intro exI [of _ ?v2]) (simp add: synced_def u)
qed


section \<open>Properties\<close>

text \<open>C27 [editor_settles]: the effects of the editor, which write to the properties they depend on, do not
  run for ever. From every state, unless a render throws, six rounds of rendering reach a state that
  no further round changes, in which the parent has the expression the editor stands for and, in
  visual mode, the rules of its groups.\<close>

theorem editor_settles:
  "commits ni 6 s = None \<or>
   (\<exists>t. (\<forall>n. commits ni (6 + n) s = Some t) \<and> effectiveExpr ni t = Some (ed_expr t) \<and>
     (ed_mode t = EditorVisual \<longrightarrow> ed_rule t = buildRequestRuleExpr (ed_groups t)))"
proof (cases "commits ni 6 s")
  case (Some t)
  then have t: "settled ni t" by (rule settles)
  have "commits ni (6 + n) s = Some t" for n using Some settled_commits [OF t] by (simp add: commits_add del: commits.simps)
  with t show ?thesis by (auto simp: settled_def)
qed simp

theorem editor_settles_witness:
  "\<exists>t. (\<forall>n. commits (\<lambda>_. []) (6 + n) (opened (\<lambda>_. []) (js ''m'') sample_config sample_groups) = Some t) \<and>
     effectiveExpr (\<lambda>_. []) t = Some (ed_expr t) \<and>
     (ed_mode t = EditorVisual \<longrightarrow> ed_rule t = buildRequestRuleExpr (ed_groups t))"
proof -
  have "visual_of (\<lambda>_. []) sample_config sample_groups (opened (\<lambda>_. []) (js ''m'') sample_config sample_groups)"
    by (simp add: visual_of_def opened_def Let_def)
  then have "commits (\<lambda>_. []) 6 (opened (\<lambda>_. []) (js ''m'') sample_config sample_groups) \<noteq> None"
    using settled_commits [OF visual_settled [OF sample_groups_ok]] by simp
  with editor_settles [of "\<lambda>_. []" "opened (\<lambda>_. []) (js ''m'') sample_config sample_groups"] show ?thesis by blast
qed

text \<open>C12 [editor_session_neutral]: looking at a price in normal form does not change it. Opening the editor on
  the expression and the rules of tiers and groups in normal form (\<open>config_ok\<close>, \<open>group_ok\<close>), switching to
  the raw text and back, with any number of rounds of rendering in between, shows the same tiers and
  groups and leaves the parent's expression and rules as they were. Expressions that were not printed
  from tiers and groups in normal form are not covered.\<close>

theorem editor_session_neutral:
  assumes "config_ok ni ts" and "list_all group_ok gs"
  shows "\<exists>t u v. Option.bind (editor_mount ni m (generateExprFromVisualConfig ni (Some ts)) (buildRequestRuleExpr gs)) (commits ni (Suc i)) = Some t \<and>
    visual_of ni ts gs t \<and>
    commits ni j (handleModeChange ni EditorRaw t) = Some u \<and> ed_expr u = ed_expr t \<and> ed_rule u = ed_rule t \<and>
    commits ni k (handleModeChange ni EditorVisual u) = Some v \<and> visual_of ni ts gs v"
proof -
  have t: "visual_of ni ts gs (opened ni m ts gs)" by (simp add: visual_of_def opened_def Let_def)
  note u = switch_raw [OF assms t]
  have "Option.bind (editor_mount ni m (generateExprFromVisualConfig ni (Some ts)) (buildRequestRuleExpr gs)) (commits ni (Suc i)) =
      Some (opened ni m ts gs)"
    using open_editor [OF assms, of m] settled_commits [OF visual_settled [OF assms(2) t], of i]
    by (auto simp: option_bind_Some_iff)
  with t u settled_commits [OF u(1), of j] settled_commits [OF visual_settled [OF assms(2) u(4)], of k] show ?thesis by blast
qed

theorem editor_session_neutral_witness:
  "\<exists>t u v. Option.bind (editor_mount (\<lambda>_. []) (js ''m'') (generateExprFromVisualConfig (\<lambda>_. []) (Some sample_config))
      (buildRequestRuleExpr sample_groups)) (commits (\<lambda>_. []) (Suc 3)) = Some t \<and>
    visual_of (\<lambda>_. []) sample_config sample_groups t \<and>
    commits (\<lambda>_. []) 2 (handleModeChange (\<lambda>_. []) EditorRaw t) = Some u \<and> ed_expr u = ed_expr t \<and> ed_rule u = ed_rule t \<and>
    commits (\<lambda>_. []) 1 (handleModeChange (\<lambda>_. []) EditorVisual u) = Some v \<and> visual_of (\<lambda>_. []) sample_config sample_groups v"
  by (rule editor_session_neutral [OF sample_config_ok sample_groups_ok])

text \<open>C28 [unparsed_expression_lost]: opening the editor on an expression its visual mode does not understand
  destroys the expression. Before the editor changes to the raw mode, it reports the expression of an
  empty configuration to the parent; as the reference that guards the set-up was reset by the second
  effect, the set-up then runs again on that expression. After four rounds the parent and the raw text
  have \<open>p * 0 + c * 0\<close>.\<close>

theorem unparsed_expression_lost:
  assumes "e \<noteq> []" and "tryParseVisualConfig ni (Some e) = None" and "list_all group_ok gs"
    and "splitBillingExprAndRequestRules ni (combineBillingExpr e (buildRequestRuleExpr gs)) \<noteq> None"
  shows "\<exists>t. Option.bind (editor_mount ni m e (buildRequestRuleExpr gs)) (commits ni (4 + n)) = Some t \<and>
    ed_expr t = js ''p * 0 + c * 0'' \<and> ed_raw t = combineBillingExpr (js ''p * 0 + c * 0'') (buildRequestRuleExpr gs)"
proof -
  obtain x where x: "splitBillingExprAndRequestRules ni (combineBillingExpr e (buildRequestRuleExpr gs)) = Some x" using assms(4) by blast
  obtain s where s: "Option.bind (editor_mount ni m e (buildRequestRuleExpr gs)) (commits ni (Suc (Suc (Suc (Suc 0))))) = Some s" "settled ni s"
    "ed_raw s = combineBillingExpr zero_expr (buildRequestRuleExpr gs)" "ed_expr s = zero_expr"
    using unparsed_rounds [OF assms(1,2) x assms(3)] by blast
  obtain a where a: "editor_mount ni m e (buildRequestRuleExpr gs) = Some a" "commits ni 4 a = Some s"
    using s(1) unfolding option_bind_Some_iff by (auto simp: eval_nat_numeral)
  have "commits ni (4 + n) a = Some s" using a(2) settled_commits [OF s(2)] by (simp add: commits_add del: commits.simps)
  with a(1) s(3,4) show ?thesis by simp
qed

lemma sample_unparsed:
  "tryParseVisualConfig (\<lambda>_. []) (Some (js ''max(p * 2, c * 8)'')) = None"
  "splitBillingExprAndRequestRules (\<lambda>_. []) (combineBillingExpr (js ''max(p * 2, c * 8)'') (buildRequestRuleExpr [])) \<noteq> None"
  by code_simp+

theorem unparsed_expression_lost_witness:
  "\<exists>t. Option.bind (editor_mount (\<lambda>_. []) (js ''m'') (js ''max(p * 2, c * 8)'') (buildRequestRuleExpr [])) (commits (\<lambda>_. []) (4 + 0)) = Some t \<and>
    ed_expr t = js ''p * 0 + c * 0'' \<and> ed_raw t = combineBillingExpr (js ''p * 0 + c * 0'') (buildRequestRuleExpr [])"
  by (rule unparsed_expression_lost [OF _ sample_unparsed(1) _ sample_unparsed(2)]) simp_all

text \<open>C29 [comparison_rule_doubled]: a rule that compares a body parameter with a number is applied twice
  after a look at the raw text. The parser splits the printed comparison at its ampersands and then knows
  neither half, so in raw mode the whole text counts as the base expression, while the parent still
  has the rule; what is saved multiplies with the rule twice.\<close>

theorem comparison_rule_doubled:
  assumes "config_ok ni ts" and "compare_ok g" and "visual_of ni ts [g] s" and "ed_init s"
  shows "\<exists>v. commits ni (2 + n) (handleModeChange ni EditorRaw s) = Some v \<and>
    combineBillingExpr (ed_expr v) (ed_rule v) =
      js ''(('' @ generateExprFromVisualConfig ni (Some ts) @ js '') * '' @ buildRequestRuleExpr [g] @ js '') * '' @ buildRequestRuleExpr [g]"
proof -
  let ?b = "generateExprFromVisualConfig ni (Some ts)" and ?r = "buildRequestRuleExpr [g]"
  obtain v where v: "commits ni (Suc (Suc n)) (handleModeChange ni EditorRaw s) = Some v" "ed_rule v = ?r" "ed_expr v = combineBillingExpr ?b ?r"
    using compare_rounds [OF assms, of n] assms(3) by (auto simp: visual_of_def)
  obtain w where w: "?r = 40 # w @ [41]" "trim (40 # w @ [41]) = 40 # w @ [41]" using assms(2) by (rule compare_group [where ni = ni])
  have b: "base_ok ?b" using assms(1) by (rule generated_base_ok)
  let ?c = "js ''('' @ ?b @ js '') * '' @ ?r"
  have r: "trim ?r = ?r" "?r \<noteq> []" using w by simp_all
  have c: "combineBillingExpr ?b ?r = ?c" using b r by (intro combine_both) (simp_all add: base_ok_def)
  have t: "trim ?c = ?c" by (rule trim_id) (simp add: w js_lit is_ws_def)
  have "combineBillingExpr ?c ?r = js ''('' @ ?c @ js '') * '' @ ?r" using t r by (intro combine_both) (simp_all add: js_lit)
  then have "combineBillingExpr (ed_expr v) (ed_rule v) = js ''(('' @ ?b @ js '') * '' @ ?r @ js '') * '' @ ?r"
    unfolding v(2,3) c by (simp add: js_lit)
  with v(1) show ?thesis by auto
qed

definition sample_compare :: rule_group where
  "sample_compare = \<lparr>rg_conditions = [ParamHeaderCondition \<lparr>ph_source = js ''param'', ph_path = js ''max_tokens'', ph_mode = js ''gt'',
     ph_value = js ''4096''\<rparr>], rg_multiplier = js ''2'', rg_conditionText = None, rg_matched = None\<rparr>"

lemma sample_compare_ok: "compare_ok sample_compare"
  by code_simp

definition sample_session :: editor where
  "sample_session = (opened (\<lambda>_. []) (js ''m'') sample_config [sample_compare])\<lparr>ed_init := True\<rparr>"

theorem comparison_rule_doubled_witness:
  "\<exists>v. commits (\<lambda>_. []) (2 + 0) (handleModeChange (\<lambda>_. []) EditorRaw sample_session) = Some v \<and>
    combineBillingExpr (ed_expr v) (ed_rule v) =
      js ''(('' @ generateExprFromVisualConfig (\<lambda>_. []) (Some sample_config) @ js '') * '' @ buildRequestRuleExpr [sample_compare] @
        js '') * '' @ buildRequestRuleExpr [sample_compare]"
  by (rule comparison_rule_doubled [OF sample_config_ok sample_compare_ok]) (simp_all add: sample_session_def visual_of_def opened_def Let_def)

end
