(* ===== verification/PricingPanel.thy ===== *)
theory PricingPanel
  imports JsNumber BillingExpr
begin

text \<open>
  The form that edits the price of one model: \<open>features/system-settings/models/pricing-format.ts\<close>,
  \<open>model-pricing-core.ts\<close>, \<open>model-pricing-inputs.tsx\<close> and the panel of \<open>model-pricing-sheet.tsx\<close>. Prices
  are shown in dollars and stored as ratios; a lane is a kind of token with a price of its own, and what the
  code keeps in records over the lanes is a function. The form library is reduced to the values it
  holds.
\<close>

section \<open>Numbers as text\<close>

definition DISPLAY_DECIMALS :: nat where
  "DISPLAY_DECIMALS = 12"

definition SNAP_DECIMALS :: nat where
  "SNAP_DECIMALS = 8"

definition SNAP_EPSILON :: rat where
  "SNAP_EPSILON = 1 / 10 ^ 12"

definition hasValue :: "json option \<Rightarrow> bool" where
  "hasValue v \<longleftrightarrow> v \<noteq> Some (JStr []) \<and> v \<noteq> Some JNull \<and> v \<noteq> None \<and> v \<noteq> Some (JBool False)"

definition toNumberOrNull :: "json option \<Rightarrow> rat option" where
  "toNumberOrNull v = (if \<not> hasValue v \<and> v \<noteq> Some (JNum 0) then None else Option.bind v js_number)"

definition format_toNumberOrNull :: "json option \<Rightarrow> rat option" where
  "format_toNumberOrNull v =
     (if v = Some (JStr []) \<or> v = Some JNull \<or> v = None \<or> v = Some (JBool False) then None else Option.bind v js_number)"

definition roundToDecimals :: "rat \<Rightarrow> nat \<Rightarrow> rat" where
  "roundToDecimals v decimals = (let factor = 10 ^ decimals in of_int \<lfloor>v * factor + 1 / 2\<rfloor> / factor)"

definition snap_tolerance :: "rat \<Rightarrow> rat" where
  "snap_tolerance v = max SNAP_EPSILON (\<bar>v\<bar> * (1 / 2 ^ 52) * 8)"

definition snapFloatDrift :: "rat \<Rightarrow> rat" where
  "snapFloatDrift v =
     (case filter (\<lambda>rounded. \<bar>v - rounded\<bar> \<le> snap_tolerance v) (map (roundToDecimals v) [0..<Suc SNAP_DECIMALS]) of
        rounded # _ \<Rightarrow> rounded
      | [] \<Rightarrow> v)"

text \<open>The number that \<open>v.toFixed(decimals)\<close> shows.\<close>

definition to_fixed :: "nat \<Rightarrow> rat \<Rightarrow> rat" where
  "to_fixed decimals v =
     (if \<bar>v\<bar> \<ge> 10 ^ 21 then v
      else if v < 0 then - roundToDecimals (- v) decimals
      else roundToDecimals v decimals)"

definition display_number :: "rat \<Rightarrow> rat" where
  "display_number num = to_fixed DISPLAY_DECIMALS (snapFloatDrift num)"

definition formatPricingNumber :: "(rat \<Rightarrow> jstring) \<Rightarrow> json option \<Rightarrow> jstring" where
  "formatPricingNumber ni v =
     (case format_toNumberOrNull v of
        None \<Rightarrow> []
      | Some num \<Rightarrow> num_str ni (display_number num))"


section \<open>Prices and ratios\<close>

datatype lane = LaneCompletion | LaneCache | LaneCreateCache | LaneImage | LaneAudioInput | LaneAudioOutput

datatype pricing_mode = PerToken | PerRequest | TieredExpr

record model_ratio_data =
  md_name :: jstring
  md_price :: "jstring option"
  md_ratio :: "jstring option"
  md_lane :: "lane \<Rightarrow> jstring option"
  md_billingMode :: "pricing_mode option"
  md_billingExpr :: "jstring option"
  md_requestRuleExpr :: "jstring option"

text \<open>The values of the form; \<open>pf_lane\<close> holds the fields that \<open>ratioFieldByLane\<close> names.\<close>

record form_values =
  pf_name :: jstring
  pf_price :: jstring
  pf_ratio :: jstring
  pf_lane :: "lane \<Rightarrow> jstring"

fun ratioFieldByLane :: "lane \<Rightarrow> jstring" where
  "ratioFieldByLane LaneCompletion = js ''completionRatio''"
| "ratioFieldByLane LaneCache = js ''cacheRatio''"
| "ratioFieldByLane LaneCreateCache = js ''createCacheRatio''"
| "ratioFieldByLane LaneImage = js ''imageRatio''"
| "ratioFieldByLane LaneAudioInput = js ''audioRatio''"
| "ratioFieldByLane LaneAudioOutput = js ''audioCompletionRatio''"

record lane_config =
  lc_key :: lane
  lc_titleKey :: jstring
  lc_descriptionKey :: jstring
  lc_placeholder :: jstring

definition laneConfigs :: "lane_config list" where
  "laneConfigs =
     [\<lparr>lc_key = LaneCompletion, lc_titleKey = js ''Completion price'',
       lc_descriptionKey = js ''Output token price for generated tokens.'', lc_placeholder = js ''15''\<rparr>,
      \<lparr>lc_key = LaneCache, lc_titleKey = js ''Cache read price'',
       lc_descriptionKey = js ''Token price for cache reads.'', lc_placeholder = js ''0.3''\<rparr>,
      \<lparr>lc_key = LaneCreateCache, lc_titleKey = js ''Cache write price'',
       lc_descriptionKey = js ''Token price for creating cache entries.'', lc_placeholder = js ''3.75''\<rparr>,
      \<lparr>lc_key = LaneImage, lc_titleKey = js ''Image input price'',
       lc_descriptionKey = js ''Token price for image input.'', lc_placeholder = js ''2.5''\<rparr>,
      \<lparr>lc_key = LaneAudioInput, lc_titleKey = js ''Audio input price'',
       lc_descriptionKey = js ''Token price for audio input.'', lc_placeholder = js ''3.81''\<rparr>,
      \<lparr>lc_key = LaneAudioOutput, lc_titleKey = js ''Audio output price'',
       lc_descriptionKey = js ''Token price for audio output.'', lc_placeholder = js ''15.11''\<rparr>]"

definition EMPTY_LANE_PRICES :: "lane \<Rightarrow> jstring" where
  "EMPTY_LANE_PRICES = (\<lambda>_. [])"

definition EMPTY_LANE_ENABLED :: "lane \<Rightarrow> bool" where
  "EMPTY_LANE_ENABLED = (\<lambda>_. False)"

definition numericDraftRegex :: regex where
  "numericDraftRegex =
     Opt (Group 1 (Alt (Seq (Plus (Chr is_digit)) (Opt (Group 2 (Seq (L ''.'') (Star (Chr is_digit))))))
       (Seq (L ''.'') (Star (Chr is_digit)))))"

definition numeric_draft :: "jstring \<Rightarrow> bool" where
  "numeric_draft v \<longleftrightarrow> full_match numericDraftRegex v \<noteq> None"

definition text_number :: "jstring \<Rightarrow> rat option" where
  "text_number s = toNumberOrNull (Some (JStr s))"

definition ratioToBasePrice :: "(rat \<Rightarrow> jstring) \<Rightarrow> jstring option \<Rightarrow> jstring" where
  "ratioToBasePrice ni ratio =
     (case toNumberOrNull (map_option JStr ratio) of
        None \<Rightarrow> []
      | Some num \<Rightarrow> formatPricingNumber ni (Some (JNum (num * 2))))"

definition deriveLanePrice :: "(rat \<Rightarrow> jstring) \<Rightarrow> jstring option \<Rightarrow> jstring \<Rightarrow> jstring" where
  "deriveLanePrice ni ratio denominator =
     (case (toNumberOrNull (map_option JStr ratio), text_number denominator) of
        (Some ratioNumber, Some denominatorNumber) \<Rightarrow> formatPricingNumber ni (Some (JNum (ratioNumber * denominatorNumber)))
      | _ \<Rightarrow> [])"

record lane_state =
  ls_promptPrice :: jstring
  ls_prices :: "lane \<Rightarrow> jstring"
  ls_enabled :: "lane \<Rightarrow> bool"

definition createInitialLaneState :: "(rat \<Rightarrow> jstring) \<Rightarrow> model_ratio_data option \<Rightarrow> lane_state" where
  "createInitialLaneState ni data =
     (case data of
        None \<Rightarrow> \<lparr>ls_promptPrice = [], ls_prices = EMPTY_LANE_PRICES, ls_enabled = EMPTY_LANE_ENABLED\<rparr>
      | Some d \<Rightarrow>
          let promptPrice = ratioToBasePrice ni (md_ratio d);
              audioInputPrice = deriveLanePrice ni (md_lane d LaneAudioInput) promptPrice
          in \<lparr>ls_promptPrice = promptPrice,
              ls_prices = (\<lambda>lane. if lane = LaneAudioOutput then deriveLanePrice ni (md_lane d lane) audioInputPrice
                                  else deriveLanePrice ni (md_lane d lane) promptPrice),
              ls_enabled = (\<lambda>lane. hasValue (map_option JStr (md_lane d lane)))\<rparr>)"

record preview_row =
  pv_key :: jstring
  pv_label :: jstring
  pv_value :: jstring
  pv_multiline :: bool

definition or_text :: "jstring \<Rightarrow> jstring \<Rightarrow> jstring" where
  "or_text a b = (if a \<noteq> [] then a else b)"

definition lane_row :: "(jstring \<Rightarrow> jstring) \<Rightarrow> (lane \<Rightarrow> jstring) \<Rightarrow> (lane \<Rightarrow> bool) \<Rightarrow> string \<Rightarrow> string \<Rightarrow> lane \<Rightarrow> preview_row" where
  "lane_row t lanePrices laneEnabled key label lane =
     \<lparr>pv_key = js key, pv_label = t (js label),
      pv_value = (if laneEnabled lane \<and> lanePrices lane \<noteq> [] then js ''$'' @ lanePrices lane else t (js ''Empty'')), pv_multiline = False\<rparr>"

definition buildPreviewRows ::
  "form_values \<Rightarrow> pricing_mode \<Rightarrow> jstring \<Rightarrow> jstring \<Rightarrow> jstring \<Rightarrow> (lane \<Rightarrow> jstring) \<Rightarrow> (lane \<Rightarrow> bool) \<Rightarrow> (jstring \<Rightarrow> jstring) \<Rightarrow> preview_row list" where
  "buildPreviewRows values mode billingExpr requestRuleExpr promptPrice lanePrices laneEnabled t =
     (case mode of
        TieredExpr \<Rightarrow>
          [\<lparr>pv_key = js ''mode'', pv_label = js ''BillingMode'', pv_value = js ''tiered_expr'', pv_multiline = False\<rparr>,
           \<lparr>pv_key = js ''expr'', pv_label = t (js ''Expression''),
            pv_value = or_text (combineBillingExpr billingExpr requestRuleExpr) (t (js ''Empty'')), pv_multiline = True\<rparr>]
      | PerRequest \<Rightarrow>
          [\<lparr>pv_key = js ''price'', pv_label = js ''ModelPrice'', pv_value = or_text (pf_price values) (t (js ''Empty'')), pv_multiline = False\<rparr>]
      | PerToken \<Rightarrow>
          [\<lparr>pv_key = js ''inputPrice'', pv_label = t (js ''Input price''),
            pv_value = (if promptPrice \<noteq> [] then js ''$'' @ promptPrice else t (js ''Empty'')), pv_multiline = False\<rparr>,
           lane_row t lanePrices laneEnabled ''completion'' ''Completion price'' LaneCompletion,
           lane_row t lanePrices laneEnabled ''cache'' ''Cache read price'' LaneCache,
           lane_row t lanePrices laneEnabled ''createCache'' ''Cache write price'' LaneCreateCache,
           lane_row t lanePrices laneEnabled ''image'' ''Image input price'' LaneImage,
           lane_row t lanePrices laneEnabled ''audio'' ''Audio input price'' LaneAudioInput,
           lane_row t lanePrices laneEnabled ''audioCompletion'' ''Audio output price'' LaneAudioOutput])"


section \<open>The panel\<close>

record panel =
  pn_editData :: "model_ratio_data option"
  pn_pricingMode :: pricing_mode
  pn_promptPrice :: jstring
  pn_lanePrices :: "lane \<Rightarrow> jstring"
  pn_laneEnabled :: "lane \<Rightarrow> bool"
  pn_billingExpr :: jstring
  pn_requestRuleExpr :: jstring
  pn_reloadToken :: nat
  pn_form :: form_values

definition empty_form :: form_values where
  "empty_form = \<lparr>pf_name = [], pf_price = [], pf_ratio = [], pf_lane = (\<lambda>_. [])\<rparr>"

definition initial_panel :: panel where
  "initial_panel = \<lparr>pn_editData = None, pn_pricingMode = PerToken, pn_promptPrice = [], pn_lanePrices = EMPTY_LANE_PRICES,
     pn_laneEnabled = EMPTY_LANE_ENABLED, pn_billingExpr = [], pn_requestRuleExpr = [], pn_reloadToken = 0, pn_form = empty_form\<rparr>"

text \<open>The effect that loads another model, or none.\<close>

definition load_panel :: "(rat \<Rightarrow> jstring) \<Rightarrow> model_ratio_data option \<Rightarrow> panel \<Rightarrow> panel" where
  "load_panel ni editData p =
     (let next = createInitialLaneState ni editData;
          p1 = (case editData of
              Some d \<Rightarrow> p\<lparr>pn_form := \<lparr>pf_name = md_name d, pf_price = coalesce (md_price d) [], pf_ratio = coalesce (md_ratio d) [],
                    pf_lane = (\<lambda>lane. coalesce (md_lane d lane) [])\<rparr>,
                  pn_pricingMode := (if md_billingMode d = Some TieredExpr then TieredExpr
                    else if coalesce (md_price d) [] \<noteq> [] then PerRequest else PerToken),
                  pn_billingExpr := coalesce (md_billingExpr d) [],
                  pn_requestRuleExpr := coalesce (md_requestRuleExpr d) []\<rparr>
            | None \<Rightarrow> p\<lparr>pn_form := empty_form, pn_pricingMode := PerToken, pn_billingExpr := [], pn_requestRuleExpr := []\<rparr>)
      in p1\<lparr>pn_editData := editData, pn_promptPrice := ls_promptPrice next, pn_lanePrices := ls_prices next,
           pn_laneEnabled := ls_enabled next, pn_reloadToken := pn_reloadToken p + 1\<rparr>)"

definition setLaneValue :: "lane \<Rightarrow> jstring \<Rightarrow> panel \<Rightarrow> panel" where
  "setLaneValue lane v p = p\<lparr>pn_form := (pn_form p)\<lparr>pf_lane := (pf_lane (pn_form p))(lane := v)\<rparr>\<rparr>"

definition deriveLaneRatio :: "(rat \<Rightarrow> jstring) \<Rightarrow> lane \<Rightarrow> jstring \<Rightarrow> jstring \<Rightarrow> (lane \<Rightarrow> jstring) \<Rightarrow> jstring" where
  "deriveLaneRatio ni lane price nextPromptPrice nextLanePrices =
     (case text_number price of
        None \<Rightarrow> []
      | Some priceNumber \<Rightarrow>
          (case text_number (if lane = LaneAudioOutput then nextLanePrices LaneAudioInput else nextPromptPrice) of
             None \<Rightarrow> []
           | Some base \<Rightarrow> if base = 0 then [] else formatPricingNumber ni (Some (JNum (priceNumber / base)))))"

definition sync_lane :: "(rat \<Rightarrow> jstring) \<Rightarrow> jstring \<Rightarrow> (lane \<Rightarrow> jstring) \<Rightarrow> (lane \<Rightarrow> bool) \<Rightarrow> panel \<Rightarrow> lane \<Rightarrow> panel" where
  "sync_lane ni nextPromptPrice nextLanePrices nextLaneEnabled p lane =
     (if \<not> nextLaneEnabled lane then setLaneValue lane [] p
      else setLaneValue lane (deriveLaneRatio ni lane (nextLanePrices lane) nextPromptPrice nextLanePrices) p)"

definition syncLaneRatios :: "(rat \<Rightarrow> jstring) \<Rightarrow> jstring \<Rightarrow> (lane \<Rightarrow> jstring) \<Rightarrow> (lane \<Rightarrow> bool) \<Rightarrow> panel \<Rightarrow> panel" where
  "syncLaneRatios ni nextPromptPrice nextLanePrices nextLaneEnabled p =
     (let p1 = p\<lparr>pn_form := (pn_form p)\<lparr>pf_ratio := (case text_number nextPromptPrice of
            Some inputPrice \<Rightarrow> formatPricingNumber ni (Some (JNum (inputPrice / 2))) | None \<Rightarrow> [])\<rparr>\<rparr>
      in foldl (sync_lane ni nextPromptPrice nextLanePrices nextLaneEnabled) p1 (map lc_key laneConfigs))"

definition handlePromptPriceChange :: "(rat \<Rightarrow> jstring) \<Rightarrow> jstring \<Rightarrow> panel \<Rightarrow> panel" where
  "handlePromptPriceChange ni v p =
     (if \<not> numeric_draft v then p
      else syncLaneRatios ni v (pn_lanePrices p) (pn_laneEnabled p) (p\<lparr>pn_promptPrice := v\<rparr>))"

definition handleLanePriceChange :: "(rat \<Rightarrow> jstring) \<Rightarrow> lane \<Rightarrow> jstring \<Rightarrow> panel \<Rightarrow> panel" where
  "handleLanePriceChange ni lane v p =
     (if \<not> numeric_draft v then p
      else let nextLanePrices = (pn_lanePrices p)(lane := v);
               p1 = p\<lparr>pn_lanePrices := nextLanePrices\<rparr>;
               p2 = (if pn_laneEnabled p lane
                     then setLaneValue lane (deriveLaneRatio ni lane v (pn_promptPrice p) nextLanePrices) p1 else p1)
           in if lane = LaneAudioInput \<and> pn_laneEnabled p LaneAudioOutput
              then setLaneValue LaneAudioOutput
                     (deriveLaneRatio ni LaneAudioOutput (nextLanePrices LaneAudioOutput) (pn_promptPrice p) nextLanePrices) p2
              else p2)"

definition handleLaneToggle :: "(rat \<Rightarrow> jstring) \<Rightarrow> lane \<Rightarrow> bool \<Rightarrow> panel \<Rightarrow> panel" where
  "handleLaneToggle ni lane checked p =
     (if checked
      then setLaneValue lane (deriveLaneRatio ni lane (pn_lanePrices p lane) (pn_promptPrice p) (pn_lanePrices p))
             (p\<lparr>pn_laneEnabled := (pn_laneEnabled p)(lane := True)\<rparr>)
      else let p1 = setLaneValue lane [] (p\<lparr>pn_laneEnabled := (pn_laneEnabled p)(lane := False),
                      pn_lanePrices := (pn_lanePrices p)(lane := [])\<rparr>)
           in if lane = LaneAudioInput
              then setLaneValue LaneAudioOutput [] (p1\<lparr>pn_laneEnabled := (pn_laneEnabled p1)(LaneAudioOutput := False),
                     pn_lanePrices := (pn_lanePrices p1)(LaneAudioOutput := [])\<rparr>)
              else p1)"

definition panel_handleModeChange :: "pricing_mode \<Rightarrow> panel \<Rightarrow> panel" where
  "panel_handleModeChange nextMode p =
     (let p1 = p\<lparr>pn_pricingMode := nextMode\<rparr>
      in if nextMode = TieredExpr \<and> pn_billingExpr p = []
         then p1\<lparr>pn_billingExpr := js ''tier(\"base\", p * 0 + c * 0)''\<rparr> else p1)"

text \<open>The two conditions on the prices that \<open>warnings\<close> and \<open>validatePricingValues\<close> share.\<close>

definition input_price_missing :: "panel \<Rightarrow> bool" where
  "input_price_missing p \<longleftrightarrow> pn_pricingMode p = PerToken \<and> text_number (pn_promptPrice p) = None \<and>
     list_ex (\<lambda>key. pn_laneEnabled p key \<and> hasValue (Some (JStr (pn_lanePrices p key)))) (map lc_key laneConfigs)"

definition audio_input_missing :: "panel \<Rightarrow> bool" where
  "audio_input_missing p \<longleftrightarrow> pn_pricingMode p = PerToken \<and> pn_laneEnabled p LaneAudioOutput \<and>
     \<not> hasValue (Some (JStr (pn_lanePrices p LaneAudioInput)))"

definition edit_conflict :: "model_ratio_data option \<Rightarrow> bool" where
  "edit_conflict editData =
     (case editData of
        None \<Rightarrow> False
      | Some d \<Rightarrow> coalesce (md_price d) [] \<noteq> [] \<and>
          (hasValue (map_option JStr (md_ratio d)) \<or> list_ex (\<lambda>lane. hasValue (map_option JStr (md_lane d lane))) (map lc_key laneConfigs)))"

definition warnings :: "panel \<Rightarrow> jstring list" where
  "warnings p =
     (if edit_conflict (pn_editData p)
      then [js ''This model has both fixed-price and token-price settings. Saving the current mode will rewrite the conflicting fields.'']
      else []) @
     (if input_price_missing p then [js ''Input price is required before saving dependent prices.''] else []) @
     (if audio_input_missing p then [js ''Audio output price requires an audio input price.''] else [])"

definition validatePricingValues :: "panel \<Rightarrow> bool" where
  "validatePricingValues p \<longleftrightarrow> \<not> input_price_missing p \<and> \<not> audio_input_missing p"

definition buildSubmitData :: "panel \<Rightarrow> model_ratio_data" where
  "buildSubmitData p =
     (let values = pn_form p; tiered = (pn_pricingMode p = TieredExpr)
      in \<lparr>md_name = trim (pf_name values), md_price = Some (pf_price values), md_ratio = Some (pf_ratio values),
          md_lane = (\<lambda>lane. Some (pf_lane values lane)), md_billingMode = Some (pn_pricingMode p),
          md_billingExpr = (if tiered then Some (pn_billingExpr p) else None),
          md_requestRuleExpr = (if tiered then Some (pn_requestRuleExpr p) else None)\<rparr>)"

text \<open>The schema asks for a name of at least one character; the other fields are optional texts.\<close>

definition createModelPricingSchema :: "form_values \<Rightarrow> bool" where
  "createModelPricingSchema values \<longleftrightarrow> length (pf_name values) \<ge> 1"

definition commitDraft :: "panel \<Rightarrow> model_ratio_data option" where
  "commitDraft p =
     (if \<not> createModelPricingSchema (pn_form p) \<or> \<not> validatePricingValues p then None else Some (buildSubmitData p))"

text \<open>The controls. An audio output price cannot be edited without an audio input price, the price of a
  disabled lane cannot be edited, and the name of an existing model is fixed. The tiered editor reports
  its expression and its rules.\<close>

definition lane_disabled :: "panel \<Rightarrow> lane \<Rightarrow> bool" where
  "lane_disabled p lane \<longleftrightarrow> lane = LaneAudioOutput \<and>
     (\<not> pn_laneEnabled p LaneAudioInput \<or> \<not> hasValue (Some (JStr (pn_lanePrices p LaneAudioInput))))"

datatype panel_event =
    NameTyped jstring
  | FixedPriceTyped jstring
  | PromptPriceTyped jstring
  | LanePriceTyped lane jstring
  | LaneToggled lane bool
  | ModeChosen pricing_mode
  | ExprReported jstring
  | RuleReported jstring
  | ModelLoaded "model_ratio_data option"

fun panel_step :: "(rat \<Rightarrow> jstring) \<Rightarrow> panel \<Rightarrow> panel_event \<Rightarrow> panel \<times> unit list" where
  "panel_step ni p (NameTyped v) =
     ((if pn_editData p = None then p\<lparr>pn_form := (pn_form p)\<lparr>pf_name := v\<rparr>\<rparr> else p), [])"
| "panel_step ni p (FixedPriceTyped v) =
     ((if numeric_draft v then p\<lparr>pn_form := (pn_form p)\<lparr>pf_price := v\<rparr>\<rparr> else p), [])"
| "panel_step ni p (PromptPriceTyped v) = (handlePromptPriceChange ni v p, [])"
| "panel_step ni p (LanePriceTyped lane v) =
     ((if lane_disabled p lane \<or> \<not> pn_laneEnabled p lane then p else handleLanePriceChange ni lane v p), [])"
| "panel_step ni p (LaneToggled lane checked) =
     ((if lane_disabled p lane then p else handleLaneToggle ni lane checked p), [])"
| "panel_step ni p (ModeChosen mode) = (panel_handleModeChange mode p, [])"
| "panel_step ni p (ExprReported e) = (p\<lparr>pn_billingExpr := e\<rparr>, [])"
| "panel_step ni p (RuleReported r) = (p\<lparr>pn_requestRuleExpr := r\<rparr>, [])"
| "panel_step ni p (ModelLoaded d) = (load_panel ni d p, [])"

fun is_load :: "panel_event \<Rightarrow> bool" where
  "is_load (ModelLoaded d) = True"
| "is_load _ = False"


section \<open>Lanes that are off\<close>

lemma lane_keys: "map lc_key laneConfigs = [LaneCompletion, LaneCache, LaneCreateCache, LaneImage, LaneAudioInput, LaneAudioOutput]"
  by (simp add: laneConfigs_def)

lemma lane_mem [simp]: "lane \<in> lc_key ` set laneConfigs"
  by (cases lane) (simp_all add: laneConfigs_def)

lemma setLaneValue_simps [simp]:
  "pn_editData (setLaneValue l v p) = pn_editData p" "pn_pricingMode (setLaneValue l v p) = pn_pricingMode p"
  "pn_promptPrice (setLaneValue l v p) = pn_promptPrice p" "pn_lanePrices (setLaneValue l v p) = pn_lanePrices p"
  "pn_laneEnabled (setLaneValue l v p) = pn_laneEnabled p" "pn_billingExpr (setLaneValue l v p) = pn_billingExpr p"
  "pn_requestRuleExpr (setLaneValue l v p) = pn_requestRuleExpr p"
  "pf_lane (pn_form (setLaneValue l v p)) = (pf_lane (pn_form p))(l := v)"
  "pf_name (pn_form (setLaneValue l v p)) = pf_name (pn_form p)" "pf_price (pn_form (setLaneValue l v p)) = pf_price (pn_form p)"
  "pf_ratio (pn_form (setLaneValue l v p)) = pf_ratio (pn_form p)"
  by (simp_all add: setLaneValue_def)

definition lane_ratio :: "(rat \<Rightarrow> jstring) \<Rightarrow> panel \<Rightarrow> lane \<Rightarrow> jstring" where
  "lane_ratio ni p lane =
     (if pn_laneEnabled p lane then deriveLaneRatio ni lane (pn_lanePrices p lane) (pn_promptPrice p) (pn_lanePrices p) else [])"

definition base_ratio :: "(rat \<Rightarrow> jstring) \<Rightarrow> panel \<Rightarrow> jstring" where
  "base_ratio ni p =
     (case text_number (pn_promptPrice p) of Some q \<Rightarrow> formatPricingNumber ni (Some (JNum (q / 2))) | None \<Rightarrow> [])"

lemma sync_fold:
  "foldl (sync_lane ni v ps en) p ls = p\<lparr>pn_form := (pn_form p)\<lparr>pf_lane := (\<lambda>l. if l \<in> set ls
     then (if en l then deriveLaneRatio ni l (ps l) v ps else []) else pf_lane (pn_form p) l)\<rparr>\<rparr>"
proof (induction ls arbitrary: p)
  case (Cons l ls)
  show ?case by (simp add: Cons.IH) (auto simp: sync_lane_def setLaneValue_def fun_eq_iff)
qed simp

lemma prompt_change:
  "numeric_draft v \<Longrightarrow> handlePromptPriceChange ni v p =
     (let q = p\<lparr>pn_promptPrice := v\<rparr> in q\<lparr>pn_form := (pn_form p)\<lparr>pf_ratio := base_ratio ni q, pf_lane := lane_ratio ni q\<rparr>\<rparr>)"
  by (simp add: handlePromptPriceChange_def syncLaneRatios_def sync_fold lane_ratio_def [abs_def] base_ratio_def Let_def cong: if_cong)

definition lanes_off :: "panel \<Rightarrow> bool" where
  "lanes_off p \<longleftrightarrow> (\<forall>lane. pn_laneEnabled p lane \<or> pf_lane (pn_form p) lane = [])"

lemma lanes_off_prompt: "lanes_off p \<Longrightarrow> lanes_off (handlePromptPriceChange ni v p)"
proof (cases "numeric_draft v")
  case True
  then show ?thesis by (simp add: prompt_change lanes_off_def lane_ratio_def Let_def)
qed (simp add: handlePromptPriceChange_def)

lemma lanes_off_price: "lanes_off p \<Longrightarrow> lanes_off (handleLanePriceChange ni l v p)"
  by (auto simp: handleLanePriceChange_def lanes_off_def Let_def)

lemma lanes_off_toggle: "lanes_off p \<Longrightarrow> lanes_off (handleLaneToggle ni l c p)"
  by (auto simp: handleLaneToggle_def lanes_off_def Let_def)

lemma lanes_off_load: "lanes_off (load_panel ni d p)"
  by (cases d) (auto simp: load_panel_def lanes_off_def createInitialLaneState_def empty_form_def hasValue_def Let_def coalesce_def
      split: option.splits)

interpretation pp: machine initial_panel "panel_step ni" lanes_off
proof
  show "lanes_off initial_panel" by (simp add: lanes_off_def initial_panel_def empty_form_def)
next
  fix p e
  assume p: "lanes_off p"
  then show "lanes_off (fst (panel_step ni p e))"
    by (cases e) (auto simp: lanes_off_prompt lanes_off_price lanes_off_toggle lanes_off_load panel_handleModeChange_def,
        auto simp: lanes_off_def Let_def)
qed



section \<open>What the form saves is what it shows\<close>

definition shown :: "(rat \<Rightarrow> jstring) \<Rightarrow> panel \<Rightarrow> bool" where
  "shown ni p \<longleftrightarrow> pf_ratio (pn_form p) = base_ratio ni p \<and> pf_lane (pn_form p) = lane_ratio ni p"

lemma ratio_simps [simp]:
  "lane_ratio ni (p\<lparr>pn_form := f\<rparr>) = lane_ratio ni p" "base_ratio ni (p\<lparr>pn_form := f\<rparr>) = base_ratio ni p"
  "lane_ratio ni (p\<lparr>pn_pricingMode := m\<rparr>) = lane_ratio ni p" "base_ratio ni (p\<lparr>pn_pricingMode := m\<rparr>) = base_ratio ni p"
  "lane_ratio ni (p\<lparr>pn_billingExpr := e\<rparr>) = lane_ratio ni p" "base_ratio ni (p\<lparr>pn_billingExpr := e\<rparr>) = base_ratio ni p"
  "lane_ratio ni (p\<lparr>pn_requestRuleExpr := e\<rparr>) = lane_ratio ni p" "base_ratio ni (p\<lparr>pn_requestRuleExpr := e\<rparr>) = base_ratio ni p"
  by (simp_all add: lane_ratio_def base_ratio_def fun_eq_iff)

lemma shown_prompt: "numeric_draft v \<Longrightarrow> shown ni (handlePromptPriceChange ni v p)"
  by (simp add: prompt_change shown_def Let_def)

text \<open>Apart from the audio output, a ratio depends on no other lane.\<close>

lemma derive_other: "l \<noteq> LaneAudioOutput \<or> ps LaneAudioInput = qs LaneAudioInput \<Longrightarrow>
    deriveLaneRatio ni l v pr ps = deriveLaneRatio ni l v pr qs"
  by (auto simp: deriveLaneRatio_def cong: option.case_cong)

lemma shown_lane:
  assumes "shown ni p" "pn_laneEnabled p l"
  shows "shown ni (handleLanePriceChange ni l v p)"
proof (cases "numeric_draft v")
  case True
  let ?ps = "(pn_lanePrices p)(l := v)"
  have "deriveLaneRatio ni k (pn_lanePrices p k) (pn_promptPrice p) (pn_lanePrices p) =
      deriveLaneRatio ni k (?ps k) (pn_promptPrice p) ?ps" if "k \<noteq> l" "k \<noteq> LaneAudioOutput \<or> l \<noteq> LaneAudioInput" for k
    using that by (simp, intro derive_other) auto
  with assms True show ?thesis
    by (auto simp: handleLanePriceChange_def shown_def base_ratio_def lane_ratio_def Let_def fun_eq_iff)
qed (simp add: handleLanePriceChange_def assms)

lemma shown_toggle:
  assumes "shown ni p"
  shows "shown ni (handleLaneToggle ni l c p)"
proof (cases c)
  case True
  with assms show ?thesis by (auto simp: handleLaneToggle_def shown_def base_ratio_def lane_ratio_def fun_eq_iff)
next
  case False
  have "deriveLaneRatio ni k v (pn_promptPrice p) ((pn_lanePrices p)(l := [])) = deriveLaneRatio ni k v (pn_promptPrice p) (pn_lanePrices p)"
    if "k \<noteq> LaneAudioOutput \<or> l \<noteq> LaneAudioInput" for k v
    using that by (intro derive_other) auto
  moreover have "deriveLaneRatio ni k v (pn_promptPrice p) ((pn_lanePrices p)(LaneAudioInput := [], LaneAudioOutput := [])) =
      deriveLaneRatio ni k v (pn_promptPrice p) (pn_lanePrices p)" if "k \<noteq> LaneAudioOutput" for k v
    using that by (intro derive_other) auto
  ultimately show ?thesis
    using assms False by (auto simp: handleLaneToggle_def shown_def base_ratio_def lane_ratio_def Let_def fun_eq_iff)
qed

lemma shown_step: "shown ni p \<Longrightarrow> \<not> is_load e \<Longrightarrow> shown ni (fst (panel_step ni p e))"
proof (cases e)
  case (PromptPriceTyped v)
  then show "shown ni p \<Longrightarrow> shown ni (fst (panel_step ni p e))"
    using shown_prompt [of v ni p] by (cases "numeric_draft v") (simp_all add: handlePromptPriceChange_def)
qed (auto simp: shown_lane shown_toggle panel_handleModeChange_def Let_def, auto simp: shown_def)

lemma shown_run: "shown ni p \<Longrightarrow> list_all (\<lambda>e. \<not> is_load e) es \<Longrightarrow> shown ni (fst (run_events (panel_step ni) p es))"
proof (induction es arbitrary: p)
  case (Cons e es)
  then show ?case using shown_step [of ni p e] by (simp add: case_prod_beta)
qed simp


section \<open>Rounding\<close>

lemma round_error: "\<bar>roundToDecimals v d - v\<bar> \<le> 1 / (2 * 10 ^ d)"
proof -
  let ?f = "10 ^ d :: rat" and ?n = "of_int \<lfloor>v * 10 ^ d + 1 / 2\<rfloor> :: rat"
  have "?n \<le> v * ?f + 1 / 2" "v * ?f + 1 / 2 < ?n + 1" by linarith+
  then have "\<bar>?n - v * ?f\<bar> \<le> 1 / 2" unfolding abs_le_iff by linarith
  then have "\<bar>?n - v * ?f\<bar> / ?f \<le> 1 / 2 / ?f" by (intro divide_right_mono) simp_all
  moreover have "roundToDecimals v d - v = (?n - v * ?f) / ?f" by (simp add: roundToDecimals_def Let_def field_simps)
  ultimately show ?thesis by (simp add: abs_divide)
qed

lemma to_fixed_error: "\<bar>to_fixed d v - v\<bar> \<le> 1 / (2 * 10 ^ d)"
  using round_error [of v d] round_error [of "- v" d] by (auto simp: to_fixed_def abs_if split: if_splits)

lemma snap_error: "\<bar>snapFloatDrift v - v\<bar> \<le> snap_tolerance v"
proof -
  define rs where "rs = filter (\<lambda>rounded. \<bar>v - rounded\<bar> \<le> snap_tolerance v) (map (roundToDecimals v) [0..<Suc SNAP_DECIMALS])"
  have "snapFloatDrift v = (case rs of rounded # _ \<Rightarrow> rounded | [] \<Rightarrow> v)" unfolding snapFloatDrift_def rs_def ..
  moreover have "0 \<le> snap_tolerance v" by (simp add: snap_tolerance_def SNAP_EPSILON_def le_max_iff_disj)
  moreover have "\<forall>r\<in>set rs. \<bar>v - r\<bar> \<le> snap_tolerance v" unfolding rs_def set_filter by blast
  ultimately show ?thesis by (cases rs) (simp_all add: abs_minus_commute)
qed

lemma display_error: "\<bar>display_number v - v\<bar> \<le> snap_tolerance v + 1 / (2 * 10 ^ 12)"
proof -
  let ?s = "snapFloatDrift v"
  have "\<bar>display_number v - v\<bar> \<le> \<bar>to_fixed 12 ?s - ?s\<bar> + \<bar>?s - v\<bar>"
    by (simp add: display_number_def DISPLAY_DECIMALS_def abs_if)
  with snap_error [of v] to_fixed_error [of 12 ?s] show ?thesis by linarith
qed

definition base_price :: "panel \<Rightarrow> lane \<Rightarrow> jstring" where
  "base_price p lane = (if lane = LaneAudioOutput then pn_lanePrices p LaneAudioInput else pn_promptPrice p)"

lemma format_num: "formatPricingNumber ni (Some (JNum q)) = num_str ni (display_number q)"
  by (simp add: formatPricingNumber_def format_toNumberOrNull_def)

lemma lane_error:
  assumes "shown ni q" "pn_laneEnabled q lane" "text_number (pn_lanePrices q lane) = Some A"
    "text_number (base_price q lane) = Some P" "P \<noteq> 0"
  shows "\<exists>r. pf_lane (pn_form q) lane = num_str ni r \<and> \<bar>r * P - A\<bar> \<le> \<bar>P\<bar> * (snap_tolerance (A / P) + 1 / (2 * 10 ^ 12))"
proof (intro exI conjI)
  let ?r = "display_number (A / P)"
  show "pf_lane (pn_form q) lane = num_str ni ?r"
    using assms by (simp add: shown_def lane_ratio_def deriveLaneRatio_def base_price_def format_num)
  have "?r * P - A = P * (?r - A / P)" using assms(5) by (simp add: field_simps)
  then have "\<bar>?r * P - A\<bar> = \<bar>P\<bar> * \<bar>?r - A / P\<bar>" by (simp add: abs_mult)
  then show "\<bar>?r * P - A\<bar> \<le> \<bar>P\<bar> * (snap_tolerance (A / P) + 1 / (2 * 10 ^ 12))"
    using mult_left_mono [OF display_error, of "\<bar>P\<bar>" "A / P"] by simp
qed

lemma base_error:
  assumes "shown ni q" "text_number (pn_promptPrice q) = Some P"
  shows "\<exists>r. pf_ratio (pn_form q) = num_str ni r \<and> \<bar>2 * r - P\<bar> \<le> 2 * (snap_tolerance (P / 2) + 1 / (2 * 10 ^ 12))"
proof (intro exI conjI)
  let ?r = "display_number (P / 2)"
  show "pf_ratio (pn_form q) = num_str ni ?r" using assms by (simp add: shown_def base_ratio_def format_num)
  have "\<bar>2 * ?r - P\<bar> = 2 * \<bar>?r - P / 2\<bar>" by (simp add: abs_if field_simps)
  then show "\<bar>2 * ?r - P\<bar> \<le> 2 * (snap_tolerance (P / 2) + 1 / (2 * 10 ^ 12))" using display_error [of "P / 2"] by simp
qed

text \<open>C31 [panel_prices_exact]: from the first edit of the input price on, whatever is typed, switched on and off or
  reported afterwards, the ratios in the form are those of the prices on the screen: the input price is twice
  the ratio and the price of an enabled lane its ratio times its base price, up to the rounding of the
  format, and the ratio of a disabled lane is empty.\<close>

theorem panel_prices_exact:
  assumes "numeric_draft v" and "list_all (\<lambda>e. \<not> is_load e) es"
    and "q = fst (run_events (panel_step ni) (handlePromptPriceChange ni v p) es)"
  shows "(\<forall>P. text_number (pn_promptPrice q) = Some P \<longrightarrow>
      (\<exists>r. pf_ratio (pn_form q) = num_str ni r \<and> \<bar>2 * r - P\<bar> \<le> 2 * (snap_tolerance (P / 2) + 1 / (2 * 10 ^ 12)))) \<and>
    (\<forall>lane. \<not> pn_laneEnabled q lane \<longrightarrow> pf_lane (pn_form q) lane = []) \<and>
    (\<forall>lane P A. pn_laneEnabled q lane \<longrightarrow> text_number (pn_lanePrices q lane) = Some A \<longrightarrow>
      text_number (base_price q lane) = Some P \<longrightarrow> P \<noteq> 0 \<longrightarrow>
      (\<exists>r. pf_lane (pn_form q) lane = num_str ni r \<and> \<bar>r * P - A\<bar> \<le> \<bar>P\<bar> * (snap_tolerance (A / P) + 1 / (2 * 10 ^ 12))))"
proof -
  have q: "shown ni q" unfolding assms(3) using assms(2) by (intro shown_run shown_prompt assms(1))
  then have "\<not> pn_laneEnabled q lane \<Longrightarrow> pf_lane (pn_form q) lane = []" for lane by (simp add: shown_def lane_ratio_def)
  with lane_error [OF q] base_error [OF q] show ?thesis by blast
qed

definition sample_edits :: "panel_event list" where
  "sample_edits = [LaneToggled LaneCompletion True, LanePriceTyped LaneCompletion (js ''15'')]"

definition sample_edited :: panel where
  "sample_edited = fst (run_events (panel_step (\<lambda>_. [])) (handlePromptPriceChange (\<lambda>_. []) (js ''2.5'') initial_panel) sample_edits)"

lemma sample_edited_simps:
  "numeric_draft (js ''2.5'')" "list_all (\<lambda>e. \<not> is_load e) sample_edits"
  "pn_laneEnabled sample_edited LaneCompletion" "text_number (pn_lanePrices sample_edited LaneCompletion) = Some 15"
  "text_number (base_price sample_edited LaneCompletion) = Some (5 / 2)"
  by code_simp+

theorem panel_prices_exact_witness:
  "\<exists>r. pf_lane (pn_form sample_edited) LaneCompletion = num_str (\<lambda>_. []) r \<and>
     \<bar>r * (5 / 2) - 15\<bar> \<le> \<bar>5 / 2\<bar> * (snap_tolerance (15 / (5 / 2)) + 1 / (2 * 10 ^ 12))"
proof -
  have "(5 / 2 :: rat) \<noteq> 0" by simp
  with panel_prices_exact [OF sample_edited_simps(1,2) sample_edited_def] sample_edited_simps(3-5) show ?thesis by blast
qed

end
