(* ===== verification/JsPretty.thy ===== *)
theory JsPretty
  imports JsRoundTrip
begin

text \<open>
  \<open>JSON.stringify(v, null, 2)\<close>, and that \<open>JSON.parse\<close> reads it back. Numbers need not be integers: a number
  is fine if its printed form is read back as the number.
\<close>

definition nl :: "nat \<Rightarrow> jstring" where
  "nl d = 10 # replicate (2 * d) 32"

fun pretty :: "(rat \<Rightarrow> jstring) \<Rightarrow> nat \<Rightarrow> json \<Rightarrow> jstring"
  and pretty_elems :: "(rat \<Rightarrow> jstring) \<Rightarrow> nat \<Rightarrow> json list \<Rightarrow> jstring"
  and pretty_members :: "(rat \<Rightarrow> jstring) \<Rightarrow> nat \<Rightarrow> json jobj \<Rightarrow> jstring" where
  "pretty ni d JNull = js ''null''"
| "pretty ni d (JBool b) = (if b then js ''true'' else js ''false'')"
| "pretty ni d (JNum q) = num_str ni q"
| "pretty ni d (JStr s) = json_quote s"
| "pretty ni d (JArr xs) = (if xs = [] then [91, 93] else 91 # pretty_elems ni d xs)"
| "pretty ni d (JObj ob) = (if ob = [] then [123, 125] else 123 # pretty_members ni d ob)"
| "pretty_elems ni d [] = nl d @ [93]"
| "pretty_elems ni d (x # xs) =
     nl (d + 1) @ pretty ni (d + 1) x @ (if xs = [] then nl d @ [93] else 44 # pretty_elems ni d xs)"
| "pretty_members ni d [] = nl d @ [125]"
| "pretty_members ni d ((k, v) # ob) =
     nl (d + 1) @ json_quote k @ 58 # 32 # pretty ni (d + 1) v @
     (if ob = [] then nl d @ [125] else 44 # pretty_members ni d ob)"

definition stringify_indented :: "(rat \<Rightarrow> jstring) \<Rightarrow> json \<Rightarrow> jstring" where
  "stringify_indented ni v = pretty ni 0 v"


section \<open>Numbers\<close>

definition num_ok :: "(rat \<Rightarrow> jstring) \<Rightarrow> rat \<Rightarrow> bool" where
  "num_ok ni q \<longleftrightarrow> p_number (num_str ni q) = Some (q, [])"

fun printable_json :: "(rat \<Rightarrow> jstring) \<Rightarrow> json \<Rightarrow> bool"
  and printable_elems :: "(rat \<Rightarrow> jstring) \<Rightarrow> json list \<Rightarrow> bool"
  and printable_members :: "(rat \<Rightarrow> jstring) \<Rightarrow> json jobj \<Rightarrow> bool" where
  "printable_json ni (JNum q) = num_ok ni q"
| "printable_json ni (JStr s) = units_ok s"
| "printable_json ni (JArr xs) = printable_elems ni xs"
| "printable_json ni (JObj ob) = (obj_wf ob \<and> printable_members ni ob)"
| "printable_json ni _ = True"
| "printable_elems ni [] = True"
| "printable_elems ni (x # xs) = (printable_json ni x \<and> printable_elems ni xs)"
| "printable_members ni [] = True"
| "printable_members ni ((k, v) # ob) = (units_ok k \<and> printable_json ni v \<and> printable_members ni ob)"

lemma printable_members_iff: "printable_members ni ob \<longleftrightarrow> (\<forall>(k, v)\<in>set ob. units_ok k \<and> printable_json ni v)"
proof (induction ob)
  case (Cons e ob)
  then show ?case by (cases e) auto
qed simp

text \<open>What may follow a number.\<close>

definition stops :: "jstring \<Rightarrow> bool" where
  "stops r \<longleftrightarrow> r = [] \<or> \<not> is_digit (hd r) \<and> hd r \<noteq> 46 \<and> hd r \<noteq> 101 \<and> hd r \<noteq> 69"

lemma while_append:
  assumes "r = [] \<or> \<not> P (hd r)"
  shows "takeWhile P (t @ r) = takeWhile P t" "dropWhile P (t @ r) = dropWhile P t @ r"
  using assms by (induction t) (cases r; auto)+

lemma p_int_append: "p_int t = Some (ds, s) \<Longrightarrow> stops r \<Longrightarrow> p_int (t @ r) = Some (ds, s @ r)"
proof (cases t)
  case (Cons u v)
  assume a: "p_int t = Some (ds, s)" "stops r"
  have r: "r = [] \<or> \<not> is_digit (hd r)" using a(2) by (auto simp: stops_def)
  show ?thesis using a(1) Cons while_append [of r is_digit t] r by (auto simp: p_int_def split: if_splits)
qed (simp add: p_int_def)

lemma p_digits_append: "p_digits t = Some (ds, s) \<Longrightarrow> stops r \<Longrightarrow> p_digits (t @ r) = Some (ds, s @ r)"
  using while_append [of r is_digit t] by (auto simp: p_digits_def stops_def split: if_splits)

lemma p_frac_append: "p_frac t = Some (ds, s) \<Longrightarrow> stops r \<Longrightarrow> p_frac (t @ r) = Some (ds, s @ r)"
  using p_digits_append [of "tl t" ds s r]
  by (cases t; cases r) (auto simp: p_frac_def stops_def split: if_splits)

lemma p_exp_append:
  assumes "p_exp t = Some (e, s)" "stops r"
  shows "p_exp (t @ r) = Some (e, s @ r)"
proof (cases t)
  case Nil
  with assms show ?thesis by (cases r) (auto simp: p_exp_def stops_def)
next
  case (Cons u v)
  show ?thesis
  proof (cases "u = 101 \<or> u = 69")
    case False
    with Cons assms(1) show ?thesis by (auto simp: p_exp_def)
  next
    case True
    have "v \<noteq> []" using assms(1) Cons True by (auto simp: p_exp_def p_digits_def)
    then obtain w x where v: "v = w # x" by (cases v) auto
    show ?thesis
      using assms(1) Cons True v p_digits_append [OF _ assms(2), of x] p_digits_append [OF _ assms(2), of v]
      by (auto simp: p_exp_def split: if_splits)
  qed
qed

definition p_unsigned :: "bool \<Rightarrow> jstring \<Rightarrow> (rat \<times> jstring) option" where
  "p_unsigned neg s = (case p_int s of None \<Rightarrow> None | Some (ds, s2) \<Rightarrow>
     (case p_frac s2 of None \<Rightarrow> None | Some (fs, s3) \<Rightarrow>
     (case p_exp s3 of None \<Rightarrow> None | Some (e, s4) \<Rightarrow> Some (num_value neg ds fs e, s4))))"

lemma p_number_unsigned: "p_number (u # v) = (if u = 45 then p_unsigned True v else p_unsigned False (u # v))"
  by (simp add: p_number_def p_unsigned_def)

lemma p_unsigned_append:
  assumes "p_unsigned neg t = Some (q, [])" "stops r"
  shows "p_unsigned neg (t @ r) = Some (q, r)"
proof -
  from assms(1) obtain ds s2 fs s3 e where p: "p_int t = Some (ds, s2)" "p_frac s2 = Some (fs, s3)" "p_exp s3 = Some (e, [])"
    "q = num_value neg ds fs e" by (auto simp: p_unsigned_def split: option.splits)
  show ?thesis
    using p(4) p_int_append [OF p(1) assms(2)] p_frac_append [OF p(2) assms(2)] p_exp_append [OF p(3) assms(2)]
    by (simp add: p_unsigned_def)
qed

lemma p_number_append:
  assumes "p_number t = Some (q, [])" "stops r"
  shows "p_number (t @ r) = Some (q, r)"
proof (cases t)
  case Nil
  with assms(1) show ?thesis by (simp add: p_number_def p_int_def)
next
  case (Cons u v)
  then show ?thesis
    using assms p_unsigned_append [OF _ assms(2), of _ v] p_unsigned_append [OF _ assms(2), of _ t]
    by (auto simp: p_number_unsigned split: if_splits)
qed

lemma p_number_hd: "p_number t = Some (q, r) \<Longrightarrow> t \<noteq> [] \<and> (is_digit (hd t) \<or> hd t = 45)"
  by (cases t) (auto simp: p_number_def p_int_def is_digit_def split: if_splits option.splits)

lemma num_ok_int: "q = of_int \<lfloor>q\<rfloor> \<Longrightarrow> num_ok ni q"
  using p_number_int [of "[]" "\<lfloor>q\<rfloor>"] by (simp add: num_ok_def num_str_def)


section \<open>Reading back\<close>

lemma skip_nl [simp]: "skip_ws (nl d @ s) = skip_ws s" "skip_ws (32 # s) = skip_ws s"
proof -
  have "dropWhile json_ws (replicate n 32 @ s) = dropWhile json_ws s" for n by (induction n) (simp_all add: json_ws_def)
  then show "skip_ws (nl d @ s) = skip_ws s" by (simp add: skip_ws_def nl_def json_ws_def)
qed (simp add: skip_ws_def json_ws_def)

lemma punct_nl [simp]: "punct u (nl d @ s) = punct u s" "punct u (32 # s) = punct u s"
  by (simp_all add: punct_def)

lemma p_value_nl [simp]: "p_value n (nl d @ s) = p_value n s" "p_value n (32 # s) = p_value n s"
  by (cases n; simp only: p_value.simps punct_nl skip_nl)+

definition ends :: "jstring \<Rightarrow> bool" where
  "ends r \<longleftrightarrow> r = [] \<or> hd r = 44 \<or> hd r = 93 \<or> hd r = 125 \<or> hd r = 10"

lemma ends_stops: "ends r \<Longrightarrow> stops r"
  by (auto simp: ends_def stops_def is_digit_def)

lemma ends_simps [simp]: "ends (44 # r)" "ends (93 # r)" "ends (125 # r)" "ends []" "ends (nl d @ r)"
  by (simp_all add: ends_def nl_def)

lemma p_value_num:
  assumes "num_ok ni q" "ends r"
  shows "p_value (Suc n) (num_str ni q @ r) = Some (JNum q, r)"
proof -
  let ?t = "num_str ni q"
  have p: "p_number (?t @ r) = Some (q, r)"
    using assms by (intro p_number_append) (simp_all add: num_ok_def ends_stops)
  obtain d ds where d: "?t = d # ds" "is_digit d \<or> d = 45"
    using assms(1) p_number_hd [of ?t q "[]"] by (cases ?t) (auto simp: num_ok_def)
  then have ws: "\<not> json_ws d" and ne: "d \<noteq> 34" "d \<noteq> 91" "d \<noteq> 123" "d \<noteq> 110" "d \<noteq> 116" "d \<noteq> 102"
    by (auto simp: is_digit_def json_ws_def)
  have "p_scalar (?t @ r) = Some (JNum q, r)"
    using ne d(1) p by (simp add: p_scalar_def startsWith_def js_lit)
  moreover have "skip_ws (?t @ r) = ?t @ r" using ws d(1) by (simp add: skip_ws_def)
  ultimately show ?thesis using ws ne d(1) by (simp add: punct_Cons)
qed

lemma pretty_hd: "printable_json ni v \<Longrightarrow> punct 93 (pretty ni d v @ r) = None"
proof (cases v)
  case (JNum q)
  assume "printable_json ni v"
  with JNum p_number_hd [of "num_str ni q" q "[]"] obtain u ds where d: "num_str ni q = u # ds" "is_digit u \<or> u = 45"
    by (cases "num_str ni q") (auto simp: num_ok_def)
  then have "\<not> json_ws u" "u \<noteq> 93" by (auto simp: is_digit_def json_ws_def)
  with d JNum show ?thesis by (simp add: punct_Cons)
qed (auto simp: json_quote_def js_lit punct_Cons)

lemma punct_pretty_elems: "printable_elems ni xs \<Longrightarrow> xs \<noteq> [] \<Longrightarrow> punct 93 (pretty_elems ni d xs @ r) = None"
  by (cases xs) (auto simp: pretty_hd)

lemma punct_pretty_members: "ob \<noteq> [] \<Longrightarrow> punct 125 (pretty_members ni d ob @ r) = None"
  by (cases ob) (auto simp: json_quote_def punct_Cons)

lemma parse_pretty:
  "printable_json ni v \<Longrightarrow> ends r \<Longrightarrow> 2 * length (pretty ni d v @ r) < n \<Longrightarrow>
     p_value n (pretty ni d v @ r) = Some (v, r)"
  "printable_elems ni xs \<Longrightarrow> xs \<noteq> [] \<Longrightarrow> 2 * length (pretty_elems ni d xs @ r) + 1 < n \<Longrightarrow>
     p_elems n (pretty_elems ni d xs @ r) = Some (xs, r)"
  "printable_members ni ob \<Longrightarrow> ob \<noteq> [] \<Longrightarrow> 2 * length (pretty_members ni d ob @ r) + 1 < n \<Longrightarrow>
     p_members n (pretty_members ni d ob @ r) = Some (ob, r)"
proof (induction ni d v and ni d xs and ni d ob arbitrary: r n and r n and r n
    rule: pretty_pretty_elems_pretty_members.induct)
  case (1 ni d)
  then show ?case
    by (cases n) (auto simp: js_lit punct_Cons p_scalar_def startsWith_def skip_ws_def)
next
  case (2 ni d b)
  then show ?case
    by (cases n) (auto simp: js_lit punct_Cons p_scalar_def startsWith_def skip_ws_def)
next
  case (3 ni d q)
  then show ?case using p_value_num [OF _ 3(2)] by (cases n) auto
next
  case (4 ni d s)
  then show ?case by (cases n) (auto simp: json_quote_def punct_Cons p_chars_quote)
next
  case (5 ni d xs)
  then show ?case
    by (cases n) (auto simp: punct_Cons punct_pretty_elems)
next
  case (6 ni d ob)
  then show ?case
    by (cases n) (auto simp: punct_Cons punct_pretty_members obj_of_members_def obj_spread_Nil)
next
  case (8 ni d x xs)
  then show ?case by (cases n) (auto simp: punct_Cons)
next
  case (10 ni d k v ob)
  then show ?case
    by (cases n) (auto simp: json_quote_def punct_Cons p_chars_quote)
qed auto

theorem pretty_round_trip: "printable_json ni v \<Longrightarrow> json_parse (stringify_indented ni v) = Some v"
  using parse_pretty(1) [of ni v "[]" 0 "parse_fuel (pretty ni 0 v)"]
  by (simp add: json_parse_def stringify_indented_def parse_fuel_def skip_ws_def)

end
