(* ===== verification/PricingStore.thy ===== *)
theory PricingStore
  imports PricingPanel JsPretty TieredEditor
begin

text \<open>
  The prices of all models: \<open>features/system-settings/utils/json-parser.ts\<close>,
  \<open>models/model-pricing-snapshots.ts\<close> and \<open>models/model-ratio-visual-editor.tsx\<close>. The settings are ten JSON
  texts, each an object from model names to a value; the editor parses them, changes the entries of a
  model and prints them again. A text that parses to something that is not an object, which the declared
  types exclude, has the value \<open>None\<close>, and so has an exception. The table component contributes the names of the
  selected rows and the order of names, and of the two places that show the panel one is kept. In the
  tiered mode the panel has the editor of tiered prices mounted, whose effects write the panel's
  expression and rules.
\<close>

section \<open>Parsing texts\<close>

definition unsigned_float :: "bool \<Rightarrow> jstring \<Rightarrow> rat option" where
  "unsigned_float neg r =
     (let ds = takeWhile is_digit r; r1 = dropWhile is_digit r;
          (fs, r2) = (case r1 of
              u # r' \<Rightarrow> if u = 46 then (takeWhile is_digit r', dropWhile is_digit r') else ([], r1)
            | [] \<Rightarrow> ([], r1))
      in if ds = [] \<and> fs = [] then None
         else Some (num_value neg ds fs (case p_exp r2 of Some (e, _) \<Rightarrow> e | None \<Rightarrow> 0)))"

definition parse_float :: "jstring \<Rightarrow> rat option" where
  "parse_float s =
     (case trimStart s of
        [] \<Rightarrow> None
      | u # r \<Rightarrow>
          if u = 45 then unsigned_float True r
          else if u = 43 then unsigned_float False r
          else unsigned_float False (u # r))"

definition safeJsonParse :: "jstring option \<Rightarrow> json option \<Rightarrow> json" where
  "safeJsonParse v fallback =
     (let text = coalesce v []
      in if text = [] \<or> trim text = [] then coalesce fallback JNull
         else coalesce (json_parse (trim text)) (coalesce fallback JNull))"

definition safeJsonParseWithValidation :: "jstring option \<Rightarrow> json \<Rightarrow> (json \<Rightarrow> bool) \<Rightarrow> json" where
  "safeJsonParseWithValidation v fallback validator =
     (let parsed = safeJsonParse v (Some fallback) in if \<not> validator parsed then fallback else parsed)"

text \<open>\<open>message\<close> is the text of the exception.\<close>

definition tryJsonParse :: "(jstring \<Rightarrow> jstring) \<Rightarrow> jstring option \<Rightarrow> jstring + json" where
  "tryJsonParse message v =
     (let text = coalesce v []
      in if text = [] \<or> trim text = [] then Inl (js ''Empty value'')
         else case json_parse (trim text) of Some data \<Rightarrow> Inr data | None \<Rightarrow> Inl (message (trim text)))"

definition pricing_map :: "jstring \<Rightarrow> json jobj option" where
  "pricing_map text = (case safeJsonParse (Some text) (Some (JObj [])) of JObj ob \<Rightarrow> Some ob | _ \<Rightarrow> None)"

record pricing_texts =
  tx_price :: jstring
  tx_ratio :: jstring
  tx_lane :: "lane \<Rightarrow> jstring"
  tx_billingMode :: jstring
  tx_billingExpr :: jstring

record pricing_maps =
  pm_price :: "json jobj"
  pm_ratio :: "json jobj"
  pm_lane :: "lane \<Rightarrow> json jobj"
  pm_billingMode :: "json jobj"
  pm_billingExpr :: "json jobj"

definition map_lanes :: "lane list" where
  "map_lanes = [LaneCache, LaneCreateCache, LaneCompletion, LaneImage, LaneAudioInput, LaneAudioOutput]"

definition parse_maps :: "pricing_texts \<Rightarrow> pricing_maps option" where
  "parse_maps tx =
     (case (pricing_map (tx_price tx), pricing_map (tx_ratio tx), pricing_map (tx_billingMode tx), pricing_map (tx_billingExpr tx)) of
        (Some priceMap, Some ratioMap, Some billingModeMap, Some billingExprMap) \<Rightarrow>
          if list_all (\<lambda>l. pricing_map (tx_lane tx l) \<noteq> None) map_lanes
          then Some \<lparr>pm_price = priceMap, pm_ratio = ratioMap, pm_lane = (\<lambda>l. coalesce (pricing_map (tx_lane tx l)) []),
                     pm_billingMode = billingModeMap, pm_billingExpr = billingExprMap\<rparr>
          else None
      | _ \<Rightarrow> None)"


section \<open>Snapshots\<close>

record snapshot =
  sn_name :: jstring
  sn_price :: "jstring option"
  sn_ratio :: "jstring option"
  sn_lane :: "lane \<Rightarrow> jstring option"
  sn_billingMode :: "jstring option"
  sn_billingExpr :: "jstring option"
  sn_requestRuleExpr :: "jstring option"
  sn_hasConflict :: bool

definition hasPricingValue :: "jstring option \<Rightarrow> bool" where
  "hasPricingValue v \<longleftrightarrow> v \<noteq> None \<and> v \<noteq> Some []"

definition isBasePricingUnset :: "snapshot option \<Rightarrow> bool" where
  "isBasePricingUnset s =
     (case s of
        None \<Rightarrow> True
      | Some r \<Rightarrow> sn_billingMode r \<noteq> Some (js ''tiered_expr'') \<and> \<not> hasPricingValue (sn_price r) \<and> \<not> hasPricingValue (sn_ratio r))"

definition snapshot_toNumberOrNull :: "jstring option \<Rightarrow> rat option" where
  "snapshot_toNumberOrNull v = (if \<not> hasPricingValue v then None else Option.bind v string_to_number)"

definition ratioToPrice :: "(rat \<Rightarrow> jstring) \<Rightarrow> jstring option \<Rightarrow> jstring option \<Rightarrow> jstring" where
  "ratioToPrice ni ratio denominator =
     (case (snapshot_toNumberOrNull ratio,
            if coalesce denominator [] \<noteq> [] then snapshot_toNumberOrNull denominator else Some 2) of
        (Some ratioNumber, Some denominatorNumber) \<Rightarrow> formatPricingNumber ni (Some (JNum (ratioNumber * denominatorNumber)))
      | _ \<Rightarrow> [])"

definition getModeLabel :: "jstring option \<Rightarrow> jstring" where
  "getModeLabel mode =
     (if mode = Some (js ''per-request'') then js ''Per-request''
      else if mode = Some (js ''tiered_expr'') then js ''Expression'' else js ''Per-token'')"

definition getModeVariant :: "jstring option \<Rightarrow> jstring" where
  "getModeVariant mode =
     (if mode = Some (js ''per-request'') then js ''warning''
      else if mode = Some (js ''tiered_expr'') then js ''info'' else js ''success'')"

definition middle_dot :: jstring where
  "middle_dot = [32, 183, 32]"

definition getExpressionSummary :: "snapshot \<Rightarrow> (jstring \<Rightarrow> jstring) \<Rightarrow> jstring" where
  "getExpressionSummary row t =
     (let tierCount = (case sn_billingExpr row of None \<Rightarrow> 0 | Some e \<Rightarrow> length (exec_all (L ''tier('') [] e))
      in if tierCount > 0 then t (js ''Tiered pricing'') @ middle_dot @ show_nat tierCount @ js '' '' @ t (js ''tiers'')
           else t (js ''Expression pricing''))"

definition getPriceSummary :: "(rat \<Rightarrow> jstring) \<Rightarrow> snapshot \<Rightarrow> (jstring \<Rightarrow> jstring) \<Rightarrow> jstring" where
  "getPriceSummary ni row t =
     (if sn_billingMode row = Some (js ''tiered_expr'') then getExpressionSummary row t
      else if sn_billingMode row = Some (js ''per-request'')
      then (let price = coalesce (sn_price row) []
            in if price \<noteq> [] then js ''$'' @ price @ js '' / '' @ t (js ''request'') else t (js ''Unset price''))
      else let inputPrice = ratioToPrice ni (sn_ratio row) None
           in if inputPrice = [] then t (js ''Unset price'')
              else let extraCount = length (filter (\<lambda>l. hasPricingValue (sn_lane row l)) map_lanes)
                   in if extraCount > 0
                      then t (js ''Input'') @ js '' $'' @ inputPrice @ middle_dot @ show_nat extraCount @ js '' '' @ t (js ''extras'')
                      else t (js ''Input'') @ js '' $'' @ inputPrice)"

definition getPriceDetail :: "(rat \<Rightarrow> jstring) \<Rightarrow> snapshot \<Rightarrow> (jstring \<Rightarrow> jstring) \<Rightarrow> jstring" where
  "getPriceDetail ni row t =
     (if sn_billingMode row = Some (js ''tiered_expr'')
      then if coalesce (sn_requestRuleExpr row) [] \<noteq> [] then t (js ''Includes request rules'') else t (js ''Expression based'')
      else if sn_billingMode row = Some (js ''per-request'') then t (js ''Fixed request price'')
      else let inputPrice = ratioToPrice ni (sn_ratio row) None
           in if inputPrice = [] then t (js ''No base input price'')
              else let details = take 2 (concat (map (\<lambda>(l, label).
                         if coalesce (sn_lane row l) [] \<noteq> []
                         then [t (js label) @ js '' $'' @ ratioToPrice ni (sn_lane row l) (Some inputPrice)] else [])
                       [(LaneCompletion, ''Output''), (LaneCache, ''Cache''), (LaneCreateCache, ''Cache write'')]))
                   in if details \<noteq> [] then join middle_dot details else t (js ''Base input price only''))"

text \<open>\<open>map[name]?.toString() || ''\<close>, and the expression of a model.\<close>

definition value_text :: "(rat \<Rightarrow> jstring) \<Rightarrow> json jobj \<Rightarrow> jstring \<Rightarrow> jstring" where
  "value_text ni ob name = (case obj_get ob name of None \<Rightarrow> [] | Some JNull \<Rightarrow> [] | Some v \<Rightarrow> js_to_string ni v)"

definition full_expr :: "json jobj \<Rightarrow> jstring \<Rightarrow> jstring option" where
  "full_expr ob name =
     (case obj_get ob name of
        None \<Rightarrow> Some []
      | Some (JStr s) \<Rightarrow> Some s
      | Some v \<Rightarrow> if v = JNull \<or> v = JBool False \<or> v = JNum 0 then Some [] else None)"

definition model_snapshot :: "(rat \<Rightarrow> jstring) \<Rightarrow> pricing_maps \<Rightarrow> jstring \<Rightarrow> snapshot option" where
  "model_snapshot ni m name =
     (let price = value_text ni (pm_price m) name;
          ratio = value_text ni (pm_ratio m) name;
          lanes = (\<lambda>l. value_text ni (pm_lane m l) name)
      in if obj_get (pm_billingMode m) name = Some (JStr (js ''tiered_expr''))
         then map_option (\<lambda>x. \<lparr>sn_name = name, sn_price = Some price, sn_ratio = Some ratio, sn_lane = (\<lambda>l. Some (lanes l)),
                  sn_billingMode = Some (js ''tiered_expr''), sn_billingExpr = Some (sx_billingExpr x),
                  sn_requestRuleExpr = Some (sx_requestRuleExpr x), sn_hasConflict = False\<rparr>)
                (Option.bind (full_expr (pm_billingExpr m) name) (splitBillingExprAndRequestRules ni))
         else Some \<lparr>sn_name = name, sn_price = Some price, sn_ratio = Some ratio, sn_lane = (\<lambda>l. Some (lanes l)),
                sn_billingMode = Some (if price \<noteq> [] then js ''per-request'' else js ''per-token''),
                sn_billingExpr = None, sn_requestRuleExpr = None,
                sn_hasConflict = (price \<noteq> [] \<and> (ratio \<noteq> [] \<or> list_ex (\<lambda>l. lanes l \<noteq> []) map_lanes))\<rparr>)"

definition model_names :: "pricing_maps \<Rightarrow> jstring list" where
  "model_names m = js_set (obj_keys (pm_price m) @ obj_keys (pm_ratio m) @ concat (map (\<lambda>l. obj_keys (pm_lane m l)) map_lanes) @
     obj_keys (pm_billingMode m) @ obj_keys (pm_billingExpr m))"

definition buildModelSnapshots :: "(rat \<Rightarrow> jstring) \<Rightarrow> pricing_texts \<Rightarrow> snapshot list option" where
  "buildModelSnapshots ni tx = Option.bind (parse_maps tx) (\<lambda>m. those (map (model_snapshot ni m) (model_names m)))"

definition getSnapshotSignature :: "(rat \<Rightarrow> jstring) \<Rightarrow> snapshot option \<Rightarrow> jstring" where
  "getSnapshotSignature ni s =
     (case s of
        None \<Rightarrow> []
      | Some r \<Rightarrow> stringify ni (JObj [
          (js ''price'', JStr (coalesce (sn_price r) [])),
          (js ''ratio'', JStr (coalesce (sn_ratio r) [])),
          (js ''cacheRatio'', JStr (coalesce (sn_lane r LaneCache) [])),
          (js ''createCacheRatio'', JStr (coalesce (sn_lane r LaneCreateCache) [])),
          (js ''completionRatio'', JStr (coalesce (sn_lane r LaneCompletion) [])),
          (js ''imageRatio'', JStr (coalesce (sn_lane r LaneImage) [])),
          (js ''audioRatio'', JStr (coalesce (sn_lane r LaneAudioInput) [])),
          (js ''audioCompletionRatio'', JStr (coalesce (sn_lane r LaneAudioOutput) [])),
          (js ''billingMode'', JStr (or_text (coalesce (sn_billingMode r) []) (js ''per-token''))),
          (js ''billingExpr'', JStr (coalesce (sn_billingExpr r) [])),
          (js ''requestRuleExpr'', JStr (coalesce (sn_requestRuleExpr r) []))]))"


section \<open>The rows of the table\<close>

record model_row =
  mr_displayed :: snapshot
  mr_saved :: "snapshot option"
  mr_draft :: "snapshot option"
  mr_isDraftChanged :: bool
  mr_isDraftDeleted :: bool
  mr_isDraftNew :: bool

definition by_name :: "snapshot list \<Rightarrow> jstring \<Rightarrow> snapshot option" where
  "by_name rows name = find (\<lambda>r. sn_name r = name) (rev rows)"

definition model_row_of :: "(rat \<Rightarrow> jstring) \<Rightarrow> snapshot list \<Rightarrow> snapshot list \<Rightarrow> jstring \<Rightarrow> model_row" where
  "model_row_of ni savedRows draftRows name =
     (let saved = by_name savedRows name; draft = by_name draftRows name
      in \<lparr>mr_displayed = (case saved of Some r \<Rightarrow> r | None \<Rightarrow> (case draft of Some r \<Rightarrow> r | None \<Rightarrow>
             \<lparr>sn_name = name, sn_price = None, sn_ratio = None, sn_lane = (\<lambda>_. None), sn_billingMode = Some (js ''per-token''),
              sn_billingExpr = None, sn_requestRuleExpr = None, sn_hasConflict = False\<rparr>)),
          mr_saved = saved, mr_draft = draft,
          mr_isDraftChanged = (getSnapshotSignature ni saved \<noteq> getSnapshotSignature ni draft),
          mr_isDraftDeleted = (saved \<noteq> None \<and> draft = None),
          mr_isDraftNew = (saved = None \<and> draft \<noteq> None)\<rparr>)"

text \<open>\<open>before\<close> is the order of names of \<open>localeCompare\<close>.\<close>

fun insert_row :: "(jstring \<Rightarrow> jstring \<Rightarrow> bool) \<Rightarrow> model_row \<Rightarrow> model_row list \<Rightarrow> model_row list" where
  "insert_row before r [] = [r]"
| "insert_row before r (x # xs) =
     (if before (sn_name (mr_displayed x)) (sn_name (mr_displayed r)) then x # insert_row before r xs else r # x # xs)"

definition build_rows ::
  "(rat \<Rightarrow> jstring) \<Rightarrow> (jstring \<Rightarrow> jstring \<Rightarrow> bool) \<Rightarrow> bool \<Rightarrow> jstring list \<Rightarrow> pricing_texts \<Rightarrow> pricing_texts \<Rightarrow> model_row list option" where
  "build_rows ni before unset candidateModelNames savedTexts texts =
     (case (buildModelSnapshots ni savedTexts, buildModelSnapshots ni texts) of
        (Some savedRows, Some draftRows) \<Rightarrow>
          let modelNames = (if unset then js_set candidateModelNames else js_set (map sn_name savedRows @ map sn_name draftRows));
              rows = filter (\<lambda>r. \<not> unset \<or> isBasePricingUnset (mr_saved r))
                (filter (\<lambda>r. \<not> mr_isDraftDeleted r) (map (model_row_of ni savedRows draftRows) modelNames))
          in Some (foldr (insert_row before) rows [])
      | _ \<Rightarrow> None)"

text \<open>How many rows have a price per token, per request and by expression.\<close>

definition mode_counts :: "model_row list \<Rightarrow> nat \<times> nat \<times> nat" where
  "mode_counts rows =
     foldl (\<lambda>(a, b, c) r.
         if sn_billingMode (mr_displayed r) = Some (js ''per-request'') then (a, b + 1, c)
         else if sn_billingMode (mr_displayed r) = Some (js ''tiered_expr'') then (a, b, c + 1)
         else (a + 1, b, c)) (0, 0, 0) rows"

definition edit_data :: "model_row \<Rightarrow> model_ratio_data" where
  "edit_data row =
     (let m = (case mr_draft row of Some d \<Rightarrow> d | None \<Rightarrow> (case mr_saved row of Some d \<Rightarrow> d | None \<Rightarrow> mr_displayed row))
      in \<lparr>md_name = sn_name m, md_price = sn_price m, md_ratio = sn_ratio m, md_lane = sn_lane m,
          md_billingMode = Some (if sn_billingMode m = Some (js ''tiered_expr'') then TieredExpr
            else if coalesce (sn_price m) [] \<noteq> [] then PerRequest else PerToken),
          md_billingExpr = sn_billingExpr m, md_requestRuleExpr = sn_requestRuleExpr m\<rparr>)"


section \<open>Writing prices\<close>

definition setIfPresent :: "jstring \<Rightarrow> jstring option \<Rightarrow> json jobj \<Rightarrow> json jobj" where
  "setIfPresent name v target =
     (if coalesce v [] = [] then target
      else case parse_float (coalesce v []) of Some parsed \<Rightarrow> obj_put name (JNum parsed) target | None \<Rightarrow> target)"

definition delete_entries :: "jstring \<Rightarrow> pricing_maps \<Rightarrow> pricing_maps" where
  "delete_entries name m = \<lparr>pm_price = obj_del name (pm_price m), pm_ratio = obj_del name (pm_ratio m),
     pm_lane = (\<lambda>l. obj_del name (pm_lane m l)), pm_billingMode = obj_del name (pm_billingMode m),
     pm_billingExpr = obj_del name (pm_billingExpr m)\<rparr>"

definition set_ratios :: "model_ratio_data \<Rightarrow> jstring \<Rightarrow> pricing_maps \<Rightarrow> pricing_maps" where
  "set_ratios data name m = m\<lparr>pm_ratio := setIfPresent name (md_ratio data) (pm_ratio m),
     pm_lane := (\<lambda>l. setIfPresent name (md_lane data l) (pm_lane m l))\<rparr>"

definition persist_model :: "model_ratio_data \<Rightarrow> pricing_maps \<Rightarrow> jstring \<Rightarrow> pricing_maps" where
  "persist_model data m0 name =
     (let m = delete_entries name m0
      in if md_billingMode data = Some TieredExpr
         then let combined = combineBillingExpr (coalesce (md_billingExpr data) []) (coalesce (md_requestRuleExpr data) []);
                  m1 = (if combined \<noteq> []
                        then m\<lparr>pm_billingMode := obj_put name (JStr (js ''tiered_expr'')) (pm_billingMode m),
                               pm_billingExpr := obj_put name (JStr combined) (pm_billingExpr m)\<rparr>
                        else m)
              in set_ratios data name (m1\<lparr>pm_price := setIfPresent name (md_price data) (pm_price m1)\<rparr>)
         else if coalesce (md_price data) [] \<noteq> []
         then m\<lparr>pm_price := setIfPresent name (md_price data) (pm_price m)\<rparr>
         else set_ratios data name m)"

definition print_maps :: "(rat \<Rightarrow> jstring) \<Rightarrow> pricing_maps \<Rightarrow> pricing_texts" where
  "print_maps ni m = \<lparr>tx_price = stringify_indented ni (JObj (pm_price m)), tx_ratio = stringify_indented ni (JObj (pm_ratio m)),
     tx_lane = (\<lambda>l. stringify_indented ni (JObj (pm_lane m l))),
     tx_billingMode = stringify_indented ni (JObj (pm_billingMode m)),
     tx_billingExpr = stringify_indented ni (JObj (pm_billingExpr m))\<rparr>"

definition persistPricingData :: "(rat \<Rightarrow> jstring) \<Rightarrow> model_ratio_data \<Rightarrow> jstring list \<Rightarrow> pricing_texts \<Rightarrow> pricing_texts option" where
  "persistPricingData ni data targetNames tx =
     map_option (\<lambda>m. print_maps ni (foldl (persist_model data) m targetNames)) (parse_maps tx)"

text \<open>The editor around the panel. Setting other edit data loads the panel, and opening the editor
  mounts it. \<open>re_tiered\<close> is the mounted editor of tiered prices; loading gives it another key, so that the
  instance at hand goes.\<close>

record ratio_editor =
  re_texts :: pricing_texts
  re_editData :: "model_ratio_data option"
  re_editorOpen :: bool
  re_sheetOpen :: bool
  re_panel :: panel
  re_tiered :: "editor option"

definition setEditData :: "(rat \<Rightarrow> jstring) \<Rightarrow> model_ratio_data option \<Rightarrow> ratio_editor \<Rightarrow> ratio_editor" where
  "setEditData ni d s =
     (if d = None \<and> re_editData s = None then s
      else s\<lparr>re_editData := d, re_panel := (if re_editorOpen s then load_panel ni d (re_panel s) else re_panel s),
             re_tiered := None\<rparr>)"

definition open_panel :: "(rat \<Rightarrow> jstring) \<Rightarrow> bool \<Rightarrow> ratio_editor \<Rightarrow> ratio_editor" where
  "open_panel ni isMobile s =
     (if re_editorOpen s then s\<lparr>re_sheetOpen := (isMobile \<or> re_sheetOpen s)\<rparr>
      else s\<lparr>re_editorOpen := True, re_panel := load_panel ni (re_editData s) initial_panel, re_tiered := None,
             re_sheetOpen := (isMobile \<or> re_sheetOpen s)\<rparr>)"

definition close_panel :: "(rat \<Rightarrow> jstring) \<Rightarrow> ratio_editor \<Rightarrow> ratio_editor" where
  "close_panel ni s = (setEditData ni None s)\<lparr>re_editorOpen := False, re_sheetOpen := False, re_tiered := None\<rparr>"

text \<open>A render of the panel. Only the chosen tab has its content mounted: in the tiered mode the editor,
  with the panel's expression, rules and model name as its properties, runs its effects, which report
  through \<open>setBillingExpr\<close> and \<open>setRequestRuleExpr\<close>. An exception while rendering is \<open>None\<close>.\<close>

definition tiered_props :: "(rat \<Rightarrow> jstring) \<Rightarrow> ratio_editor \<Rightarrow> editor option" where
  "tiered_props ni s =
     (let p = re_panel s
      in case re_tiered s of
           None \<Rightarrow> editor_mount ni (pf_name (pn_form p)) (pn_billingExpr p) (pn_requestRuleExpr p)
         | Some ed \<Rightarrow> Some (ed\<lparr>ed_model := pf_name (pn_form p), ed_expr := pn_billingExpr p, ed_rule := pn_requestRuleExpr p\<rparr>))"

definition render_panel :: "(rat \<Rightarrow> jstring) \<Rightarrow> ratio_editor \<Rightarrow> ratio_editor option" where
  "render_panel ni s =
     (if \<not> re_editorOpen s \<or> pn_pricingMode (re_panel s) \<noteq> TieredExpr then Some (s\<lparr>re_tiered := None\<rparr>)
      else map_option (\<lambda>ed. s\<lparr>re_tiered := Some ed,
               re_panel := (re_panel s)\<lparr>pn_billingExpr := ed_expr ed, pn_requestRuleExpr := ed_rule ed\<rparr>\<rparr>)
             (Option.bind (tiered_props ni s) (commit ni)))"

fun renders :: "(rat \<Rightarrow> jstring) \<Rightarrow> nat \<Rightarrow> ratio_editor \<Rightarrow> ratio_editor option" where
  "renders ni 0 s = Some s"
| "renders ni (Suc n) s = Option.bind (render_panel ni s) (renders ni n)"

definition handleEdit :: "(rat \<Rightarrow> jstring) \<Rightarrow> bool \<Rightarrow> model_row \<Rightarrow> ratio_editor \<Rightarrow> ratio_editor" where
  "handleEdit ni isMobile row s = open_panel ni isMobile (setEditData ni (Some (edit_data row)) s)"

definition handleAdd :: "(rat \<Rightarrow> jstring) \<Rightarrow> bool \<Rightarrow> ratio_editor \<Rightarrow> ratio_editor" where
  "handleAdd ni isMobile s = open_panel ni isMobile (setEditData ni None s)"

definition handleGlobalFilterChange :: "(rat \<Rightarrow> jstring) \<Rightarrow> jstring \<Rightarrow> jstring \<Rightarrow> ratio_editor \<Rightarrow> ratio_editor" where
  "handleGlobalFilterChange ni previous next s = (if next \<noteq> previous then close_panel ni s else s)"

definition handleDelete :: "(rat \<Rightarrow> jstring) \<Rightarrow> jstring \<Rightarrow> ratio_editor \<Rightarrow> ratio_editor option" where
  "handleDelete ni name s =
     map_option (\<lambda>m.
         let s1 = s\<lparr>re_texts := print_maps ni (delete_entries name m)\<rparr>
         in if map_option md_name (re_editData s) = Some name then close_panel ni s1 else s1)
       (parse_maps (re_texts s))"

definition persist_edit :: "(rat \<Rightarrow> jstring) \<Rightarrow> model_ratio_data \<Rightarrow> jstring list \<Rightarrow> ratio_editor \<Rightarrow> ratio_editor option" where
  "persist_edit ni data names s = map_option (\<lambda>tx. s\<lparr>re_texts := tx\<rparr>) (persistPricingData ni data names (re_texts s))"

text \<open>\<open>targetNames\<close> are the selected rows.\<close>

definition handleBatchCopy :: "(rat \<Rightarrow> jstring) \<Rightarrow> jstring list \<Rightarrow> ratio_editor \<Rightarrow> ratio_editor option" where
  "handleBatchCopy ni targetNames s =
     (case re_editData s of
        None \<Rightarrow> Some s
      | Some editData \<Rightarrow>
          (let copy = (\<lambda>sourceData s1. if targetNames = [] then Some s1
                         else persist_edit ni sourceData (js_set (md_name sourceData # targetNames)) s1)
           in if re_editorOpen s
              then (case commitDraft (re_panel s) of
                      None \<Rightarrow> Some s
                    | Some committed \<Rightarrow> copy committed (setEditData ni (Some committed) s))
              else copy editData s))"

definition commitOpenEditor :: "(rat \<Rightarrow> jstring) \<Rightarrow> ratio_editor \<Rightarrow> (ratio_editor \<times> bool) option" where
  "commitOpenEditor ni s =
     (if \<not> re_editorOpen s then Some (s, True)
      else case commitDraft (re_panel s) of
             None \<Rightarrow> Some (s, False)
           | Some data \<Rightarrow> map_option (\<lambda>s1. (setEditData ni (Some data) s1, True)) (persist_edit ni data [md_name data] s))"



section \<open>The texts hold the maps\<close>

definition maps_ok :: "(rat \<Rightarrow> jstring) \<Rightarrow> pricing_maps \<Rightarrow> bool" where
  "maps_ok ni m \<longleftrightarrow> printable_json ni (JObj (pm_price m)) \<and> printable_json ni (JObj (pm_ratio m)) \<and>
     list_all (\<lambda>l. printable_json ni (JObj (pm_lane m l))) map_lanes \<and>
     printable_json ni (JObj (pm_billingMode m)) \<and> printable_json ni (JObj (pm_billingExpr m))"

lemma lane_in: "l \<in> set map_lanes"
  by (cases l) (simp_all add: map_lanes_def)

lemma maps_ok_lane: "maps_ok ni m \<longleftrightarrow> printable_json ni (JObj (pm_price m)) \<and> printable_json ni (JObj (pm_ratio m)) \<and>
     (\<forall>l. printable_json ni (JObj (pm_lane m l))) \<and>
     printable_json ni (JObj (pm_billingMode m)) \<and> printable_json ni (JObj (pm_billingExpr m))"
  using lane_in by (auto simp: maps_ok_def list_all_iff)

lemma pretty_members_last: "pretty_members ni d ob \<noteq> [] \<and> last (pretty_members ni d ob) = 125"
proof (induction ob)
  case (Cons e ob)
  then show ?case by (cases e; cases "ob = []") (simp_all add: nl_def)
qed (simp add: nl_def)

lemma pricing_map_print:
  assumes "printable_json ni (JObj ob)"
  shows "pricing_map (stringify_indented ni (JObj ob)) = Some ob"
proof -
  let ?s = "stringify_indented ni (JObj ob)"
  have ne: "?s \<noteq> []" by (simp add: stringify_indented_def)
  have "hd ?s = 123" "last ?s = 125" using pretty_members_last [of ni 0 ob] by (simp_all add: stringify_indented_def)
  then have "trim ?s = ?s" using trim_id [of ?s] by (simp add: is_ws_def)
  then show ?thesis using ne pretty_round_trip [OF assms] by (simp add: pricing_map_def safeJsonParse_def coalesce_def)
qed

lemma parse_print_maps: "maps_ok ni m \<Longrightarrow> parse_maps (print_maps ni m) = Some m"
  by (simp add: maps_ok_lane parse_maps_def print_maps_def pricing_map_print list_all_iff coalesce_def del: printable_json.simps)

lemma printable_put:
  assumes "printable_json ni (JObj ob)" "units_ok k" "printable_json ni v"
  shows "printable_json ni (JObj (obj_put k v ob))"
proof -
  have "set (obj_insert k v xs) = insert (k, v) (set xs)" for xs by (induction k v xs rule: obj_insert.induct) auto
  then have "set (obj_put k v ob) \<subseteq> insert (k, v) (set ob)" by (auto simp: obj_put_def split: if_splits)
  with assms show ?thesis by (fastforce simp: printable_members_iff obj_wf_put)
qed

lemma printable_del: "printable_json ni (JObj ob) \<Longrightarrow> printable_json ni (JObj (obj_del k ob))"
  by (auto simp: printable_members_iff obj_wf_del) (auto simp: obj_del_def)


section \<open>Entries of a model\<close>

record model_entry =
  me_price :: "json option"
  me_ratio :: "json option"
  me_lane :: "lane \<Rightarrow> json option"
  me_billingMode :: "json option"
  me_billingExpr :: "json option"

definition entry :: "pricing_maps \<Rightarrow> jstring \<Rightarrow> model_entry" where
  "entry m n = \<lparr>me_price = obj_get (pm_price m) n, me_ratio = obj_get (pm_ratio m) n, me_lane = (\<lambda>l. obj_get (pm_lane m l) n),
     me_billingMode = obj_get (pm_billingMode m) n, me_billingExpr = obj_get (pm_billingExpr m) n\<rparr>"

definition no_entry :: model_entry where
  "no_entry = \<lparr>me_price = None, me_ratio = None, me_lane = (\<lambda>_. None), me_billingMode = None, me_billingExpr = None\<rparr>"

text \<open>What a text leaves in a numeric map, and what the data of the panel are to leave of a model.\<close>

definition number_entry :: "jstring option \<Rightarrow> json option" where
  "number_entry v = (if coalesce v [] = [] then None else map_option JNum (parse_float (coalesce v [])))"

definition entry_of_data :: "model_ratio_data \<Rightarrow> model_entry" where
  "entry_of_data d =
     (if md_billingMode d = Some TieredExpr
      then let e = combineBillingExpr (coalesce (md_billingExpr d) []) (coalesce (md_requestRuleExpr d) [])
           in \<lparr>me_price = number_entry (md_price d), me_ratio = number_entry (md_ratio d), me_lane = (\<lambda>l. number_entry (md_lane d l)),
               me_billingMode = (if e = [] then None else Some (JStr (js ''tiered_expr''))),
               me_billingExpr = (if e = [] then None else Some (JStr e))\<rparr>
      else if coalesce (md_price d) [] \<noteq> [] then no_entry\<lparr>me_price := number_entry (md_price d)\<rparr>
      else no_entry\<lparr>me_ratio := number_entry (md_ratio d), me_lane := (\<lambda>l. number_entry (md_lane d l))\<rparr>)"

definition value_ok :: "(rat \<Rightarrow> jstring) \<Rightarrow> json option \<Rightarrow> bool" where
  "value_ok ni v = (case v of Some w \<Rightarrow> printable_json ni w | None \<Rightarrow> True)"

definition entry_ok :: "(rat \<Rightarrow> jstring) \<Rightarrow> model_entry \<Rightarrow> bool" where
  "entry_ok ni e \<longleftrightarrow> list_all (value_ok ni) (me_price e # me_ratio e # me_billingMode e # me_billingExpr e # map (me_lane e) map_lanes)"

lemma entry_ok_iff: "entry_ok ni e \<longleftrightarrow> value_ok ni (me_price e) \<and> value_ok ni (me_ratio e) \<and> value_ok ni (me_billingMode e) \<and>
    value_ok ni (me_billingExpr e) \<and> (\<forall>l. value_ok ni (me_lane e l))"
  using lane_in by (auto simp: entry_ok_def list_all_iff)

lemma setIfPresent_get: "obj_get (setIfPresent n v (obj_del n ob)) = (obj_get ob)(n := number_entry v)"
  by (auto simp: setIfPresent_def number_entry_def obj_get_put obj_get_del fun_eq_iff split: option.split)

lemma setIfPresent_ok:
  assumes "printable_json ni (JObj ob)" "units_ok n" "value_ok ni (number_entry v)"
  shows "printable_json ni (JObj (setIfPresent n v (obj_del n ob)))"
  using assms by (auto simp: value_ok_def setIfPresent_def number_entry_def printable_put printable_del simp del: printable_json.simps
      split: option.splits if_splits)

lemma entry_delete: "entry (delete_entries n m) k = (if k = n then no_entry else entry m k)"
  by (simp add: entry_def delete_entries_def obj_get_del no_entry_def)

lemma entry_persist: "entry (persist_model d m n) k = (if k = n then entry_of_data d else entry m k)"
  by (simp add: persist_model_def Let_def entry_def delete_entries_def set_ratios_def entry_of_data_def no_entry_def setIfPresent_get
      obj_get_put obj_get_del)

lemma entry_persist_all: "entry (foldl (persist_model d) m ns) k = (if k \<in> set ns then entry_of_data d else entry m k)"
  by (induction ns arbitrary: m) (auto simp: entry_persist)

lemma maps_ok_delete: "maps_ok ni m \<Longrightarrow> maps_ok ni (delete_entries n m)"
  by (simp add: maps_ok_lane delete_entries_def printable_del del: printable_json.simps)

lemma maps_ok_persist:
  assumes m: "maps_ok ni m" and d: "entry_ok ni (entry_of_data d)" and n: "units_ok n"
  shows "maps_ok ni (persist_model d m n)"
proof -
  let ?e = "combineBillingExpr (coalesce (md_billingExpr d) []) (coalesce (md_requestRuleExpr d) [])"
  note defs = persist_model_def Let_def delete_entries_def set_ratios_def
  consider (tiered) "md_billingMode d = Some TieredExpr" | (price) "md_billingMode d \<noteq> Some TieredExpr" "coalesce (md_price d) [] \<noteq> []"
    | (ratio) "md_billingMode d \<noteq> Some TieredExpr" "coalesce (md_price d) [] = []" by blast
  then show ?thesis
  proof cases
    case tiered
    have v: "value_ok ni (number_entry (md_price d))" "value_ok ni (number_entry (md_ratio d))" "value_ok ni (number_entry (md_lane d l))" for l
      using d tiered by (simp_all add: entry_ok_iff entry_of_data_def Let_def)
    have "?e \<noteq> [] \<longrightarrow> printable_json ni (JStr (js ''tiered_expr'')) \<and> printable_json ni (JStr ?e)"
      using d tiered by (auto simp: entry_ok_iff entry_of_data_def Let_def value_ok_def)
    with m n v tiered show ?thesis unfolding maps_ok_lane
      by (simp add: defs setIfPresent_ok printable_put printable_del del: printable_json.simps)
  next
    case price
    have "value_ok ni (number_entry (md_price d))" using d price by (simp add: entry_ok_iff entry_of_data_def)
    with m n price show ?thesis unfolding maps_ok_lane by (simp add: defs setIfPresent_ok printable_del del: printable_json.simps)
  next
    case ratio
    have "value_ok ni (number_entry (md_ratio d))" "value_ok ni (number_entry (md_lane d l))" for l
      using d ratio by (simp_all add: entry_ok_iff entry_of_data_def)
    with m n ratio show ?thesis unfolding maps_ok_lane by (simp add: defs setIfPresent_ok printable_del del: printable_json.simps)
  qed
qed

lemma maps_ok_persist_all:
  "maps_ok ni m \<Longrightarrow> entry_ok ni (entry_of_data d) \<Longrightarrow> list_all units_ok ns \<Longrightarrow> maps_ok ni (foldl (persist_model d) m ns)"
  by (induction ns arbitrary: m) (auto simp: maps_ok_persist)

lemma persist_exact:
  assumes "parse_maps tx = Some m" "maps_ok ni m" "entry_ok ni (entry_of_data d)" "list_all units_ok ns"
  shows "\<exists>tx' m'. persistPricingData ni d ns tx = Some tx' \<and> parse_maps tx' = Some m' \<and> maps_ok ni m' \<and>
    (\<forall>n. entry m' n = (if n \<in> set ns then entry_of_data d else entry m n))"
  using parse_print_maps [OF maps_ok_persist_all [OF assms(2-4)]] maps_ok_persist_all [OF assms(2-4)] entry_persist_all [of d m ns] assms(1)
  by (simp add: persistPricingData_def)

lemma delete_exact:
  assumes "parse_maps (re_texts s) = Some m" "maps_ok ni m"
  shows "\<exists>s' m'. handleDelete ni n s = Some s' \<and> parse_maps (re_texts s') = Some m' \<and> maps_ok ni m' \<and>
    (\<forall>k. entry m' k = (if k = n then no_entry else entry m k))"
  using parse_print_maps [OF maps_ok_delete [OF assms(2)], of n] maps_ok_delete [OF assms(2), of n] assms(1)
  by (simp add: handleDelete_def Let_def entry_delete close_panel_def setEditData_def)


section \<open>Opening a model and saving it\<close>

lemma unsigned_float_number:
  assumes "p_unsigned neg r = Some (q, [])"
  shows "unsigned_float neg r = Some q"
proof -
  obtain ds s2 fs s3 e where p: "p_int r = Some (ds, s2)" "p_frac s2 = Some (fs, s3)" "p_exp s3 = Some (e, [])"
    "q = num_value neg ds fs e" using assms by (auto simp: p_unsigned_def split: option.splits)
  have s2: "s2 = [] \<or> \<not> is_digit (hd s2)"
  proof (cases s2)
    case (Cons u v)
    have "is_digit u \<Longrightarrow> u \<noteq> 46 \<and> u \<noteq> 101 \<and> u \<noteq> 69" by (auto simp: is_digit_def)
    with p(2,3) Cons show ?thesis by (auto simp: p_frac_def p_exp_def)
  qed simp
  obtain a b where r: "r = a # b" using p(1) by (cases r) (simp_all add: p_int_def)
  have "takeWhile is_digit r = ds \<and> dropWhile is_digit r = s2 \<and> ds \<noteq> []"
  proof (cases "a = 48")
    case True
    then have "ds = [48]" "s2 = b" "is_digit a" using p(1) r by (simp_all add: p_int_def is_digit_def)
    with s2 r True show ?thesis by (cases b) auto
  next
    case False
    then show ?thesis using p(1) r by (auto simp: p_int_def split: if_splits)
  qed
  then have d: "takeWhile is_digit r = ds" "dropWhile is_digit r = s2" "ds \<noteq> []" by blast+
  show ?thesis unfolding unsigned_float_def d(1,2) Let_def using p(2-4) d(3)
    by (cases s2) (auto simp: p_frac_def p_digits_def split: if_splits)
qed

lemma parse_float_number:
  assumes "p_number t = Some (q, [])"
  shows "parse_float t = Some q"
proof (cases t)
  case (Cons v w)
  have v: "is_digit v \<or> v = 45" using p_number_hd [OF assms] Cons by simp
  then have "\<not> is_ws v" "v \<noteq> 43" by (auto simp: is_ws_def is_digit_def)
  then show ?thesis using assms Cons unsigned_float_number [of True w q] unsigned_float_number [of False t q]
    by (simp add: parse_float_def p_number_unsigned trimStart_def split: if_splits)
qed (use p_number_hd [OF assms] in simp)

text \<open>A stored number, its text and what is saved of the text.\<close>

definition num_stored :: "(rat \<Rightarrow> jstring) \<Rightarrow> json option \<Rightarrow> bool" where
  "num_stored ni v = (case v of None \<Rightarrow> True | Some (JNum q) \<Rightarrow> num_ok ni q | _ \<Rightarrow> False)"

definition stored_text :: "(rat \<Rightarrow> jstring) \<Rightarrow> json option \<Rightarrow> jstring" where
  "stored_text ni v = (case v of None \<Rightarrow> [] | Some JNull \<Rightarrow> [] | Some w \<Rightarrow> js_to_string ni w)"

lemma value_text_stored: "value_text ni ob n = stored_text ni (obj_get ob n)"
  by (simp add: value_text_def stored_text_def)

lemma num_stored_cases:
  assumes "num_stored ni v"
  obtains "v = None" "stored_text ni v = []"
    | q where "v = Some (JNum q)" "num_ok ni q" "stored_text ni v = num_str ni q" "num_str ni q \<noteq> []" "parse_float (num_str ni q) = Some q"
proof (cases v)
  case (Some w)
  with assms obtain q where "v = Some (JNum q)" "num_ok ni q" by (cases w) (simp_all add: num_stored_def)
  with that(2) [of q] p_number_hd [of "num_str ni q" q "[]"] parse_float_number [of "num_str ni q" q]
  show ?thesis by (auto simp: stored_text_def num_ok_def)
qed (use that(1) in \<open>simp add: stored_text_def\<close>)

lemma number_entry_stored: "num_stored ni v \<Longrightarrow> number_entry (Some (stored_text ni v)) = v"
  by (erule num_stored_cases) (simp_all add: number_entry_def coalesce_def)

lemma stored_text_empty: "num_stored ni v \<Longrightarrow> stored_text ni v = [] \<longleftrightarrow> v = None"
  by (erule num_stored_cases) simp_all

lemma value_ok_stored: "num_stored ni v \<Longrightarrow> value_ok ni v"
  by (erule num_stored_cases) (simp_all add: value_ok_def)

text \<open>A model as the editor leaves it: numbers that are read back, a mode only with an expression printed
  from tiers and rule groups in normal form, and otherwise not both kinds of price; an audio output only
  with an audio input price to relate it to.\<close>

definition numbers_stored :: "(rat \<Rightarrow> jstring) \<Rightarrow> model_entry \<Rightarrow> bool" where
  "numbers_stored ni e \<longleftrightarrow> num_stored ni (me_price e) \<and> num_stored ni (me_ratio e) \<and> list_all (\<lambda>l. num_stored ni (me_lane e l)) map_lanes"

definition audio_shown :: "(rat \<Rightarrow> jstring) \<Rightarrow> model_entry \<Rightarrow> bool" where
  "audio_shown ni e \<longleftrightarrow> me_lane e LaneAudioOutput = None \<or>
     deriveLanePrice ni (Some (stored_text ni (me_lane e LaneAudioInput))) (ratioToBasePrice ni (Some (stored_text ni (me_ratio e)))) \<noteq> []"

definition normal_expr :: "(rat \<Rightarrow> jstring) \<Rightarrow> jstring \<Rightarrow> jstring \<Rightarrow> bool" where
  "normal_expr ni expr rule =
     (case (tryParseVisualConfig ni (Some expr), tryParseRequestRuleExpr ni rule) of
        (Some ts, Some (Some gs)) \<Rightarrow>
          config_ok ni ts \<and> list_all group_ok gs \<and>
          expr = generateExprFromVisualConfig ni (Some ts) \<and> rule = buildRequestRuleExpr gs
      | _ \<Rightarrow> False)"

definition expr_stored :: "(rat \<Rightarrow> jstring) \<Rightarrow> model_entry \<Rightarrow> bool" where
  "expr_stored ni e =
     (case me_billingExpr e of
        Some (JStr x) \<Rightarrow> x \<noteq> [] \<and> (case splitBillingExprAndRequestRules ni x of
            Some y \<Rightarrow> combineBillingExpr (sx_billingExpr y) (sx_requestRuleExpr y) = x \<and>
              normal_expr ni (sx_billingExpr y) (sx_requestRuleExpr y)
          | None \<Rightarrow> False)
      | _ \<Rightarrow> False)"

definition stored_ok :: "(rat \<Rightarrow> jstring) \<Rightarrow> model_entry \<Rightarrow> bool" where
  "stored_ok ni e \<longleftrightarrow> numbers_stored ni e \<and>
     (if me_billingMode e = Some (JStr (js ''tiered_expr'')) then expr_stored ni e
      else me_billingMode e = None \<and> me_billingExpr e = None \<and>
        (if me_price e = None then audio_shown ni e else me_ratio e = None \<and> list_all (\<lambda>l. me_lane e l = None) map_lanes))"

definition name_ok :: "jstring \<Rightarrow> bool" where
  "name_ok n \<longleftrightarrow> n \<noteq> [] \<and> trim n = n \<and> units_ok n"

lemma lanes_all: "list_all P map_lanes \<longleftrightarrow> (\<forall>l. P l)"
  using lane_in by (auto simp: list_all_iff)

text \<open>The data the panel is opened with.\<close>

lemma edit_data_draft:
  assumes "mr_draft row = Some r" "model_snapshot ni m n = Some r"
  shows "md_name (edit_data row) = n" "md_price (edit_data row) = Some (stored_text ni (me_price (entry m n)))"
    "md_ratio (edit_data row) = Some (stored_text ni (me_ratio (entry m n)))"
    "md_lane (edit_data row) = (\<lambda>l. Some (stored_text ni (me_lane (entry m n) l)))"
    "md_billingMode (edit_data row) = Some TieredExpr \<longleftrightarrow> me_billingMode (entry m n) = Some (JStr (js ''tiered_expr''))"
  using assms by (auto simp: edit_data_def model_snapshot_def Let_def value_text_stored entry_def js_inj split: if_splits)

lemma edit_data_expr:
  assumes "mr_draft row = Some r" "model_snapshot ni m n = Some r" "me_billingMode (entry m n) = Some (JStr (js ''tiered_expr''))"
    "expr_stored ni (entry m n)"
  obtains x where "me_billingExpr (entry m n) = Some (JStr x)" "x \<noteq> []"
    "combineBillingExpr (coalesce (md_billingExpr (edit_data row)) []) (coalesce (md_requestRuleExpr (edit_data row)) []) = x"
    "normal_expr ni (coalesce (md_billingExpr (edit_data row)) []) (coalesce (md_requestRuleExpr (edit_data row)) [])"
  using assms by (auto simp: expr_stored_def edit_data_def model_snapshot_def full_expr_def Let_def entry_def coalesce_def
      split: option.splits json.splits)

lemma load_panel_simps:
  "pn_form (load_panel ni (Some d) p) = \<lparr>pf_name = md_name d, pf_price = coalesce (md_price d) [], pf_ratio = coalesce (md_ratio d) [],
     pf_lane = (\<lambda>lane. coalesce (md_lane d lane) [])\<rparr>"
  "pn_pricingMode (load_panel ni (Some d) p) = (if md_billingMode d = Some TieredExpr then TieredExpr
     else if coalesce (md_price d) [] \<noteq> [] then PerRequest else PerToken)"
  "pn_billingExpr (load_panel ni (Some d) p) = coalesce (md_billingExpr d) []"
  "pn_requestRuleExpr (load_panel ni (Some d) p) = coalesce (md_requestRuleExpr d) []"
  "pn_editData (load_panel ni (Some d) p) = Some d"
  "pn_promptPrice (load_panel ni (Some d) p) = ls_promptPrice (createInitialLaneState ni (Some d))"
  "pn_lanePrices (load_panel ni (Some d) p) = ls_prices (createInitialLaneState ni (Some d))"
  "pn_laneEnabled (load_panel ni (Some d) p) = ls_enabled (createInitialLaneState ni (Some d))"
  by (simp_all add: load_panel_def Let_def)

lemma opened_panel:
  "\<exists>p. re_panel (handleEdit ni mob row s) = load_panel ni (Some (edit_data row)) p"
  "re_editorOpen (handleEdit ni mob row s)" "re_texts (handleEdit ni mob row s) = re_texts s"
  "re_tiered (handleEdit ni mob row s) = None"
  by (auto simp: handleEdit_def setEditData_def open_panel_def)

text \<open>However often the panel is rendered, with the tiered editor mounted or not, what it would save stays:
  the editor reports the expression and the rules it was given.\<close>

definition same_panel :: "ratio_editor \<Rightarrow> ratio_editor \<Rightarrow> bool" where
  "same_panel s t \<longleftrightarrow> re_panel t = re_panel s \<and> re_texts t = re_texts s \<and> re_editorOpen t = re_editorOpen s"

definition tiered_settled :: "(rat \<Rightarrow> jstring) \<Rightarrow> visual_config \<Rightarrow> rule_group list \<Rightarrow> ratio_editor \<Rightarrow> bool" where
  "tiered_settled ni ts gs s \<longleftrightarrow>
     pn_billingExpr (re_panel s) = generateExprFromVisualConfig ni (Some ts) \<and>
     pn_requestRuleExpr (re_panel s) = buildRequestRuleExpr gs \<and>
     (case re_tiered s of None \<Rightarrow> True
      | Some ed \<Rightarrow> visual_of ni ts gs ed \<and> ed_model ed = pf_name (pn_form (re_panel s)))"

lemma render_tiered:
  assumes c: "config_ok ni ts" "list_all group_ok gs"
    and o: "re_editorOpen s" "pn_pricingMode (re_panel s) = TieredExpr" and t: "tiered_settled ni ts gs s"
  shows "\<exists>t. render_panel ni s = Some t \<and> same_panel s t \<and> tiered_settled ni ts gs t"
proof -
  let ?p = "re_panel s" and ?n = "pf_name (pn_form (re_panel s))"
  have e: "pn_billingExpr ?p = generateExprFromVisualConfig ni (Some ts)" "pn_requestRuleExpr ?p = buildRequestRuleExpr gs"
    using t by (simp_all add: tiered_settled_def)
  have "\<exists>ed. Option.bind (tiered_props ni s) (commit ni) = Some ed \<and> visual_of ni ts gs ed \<and> ed_model ed = ?n"
  proof (cases "re_tiered s")
    case None
    then have "Option.bind (tiered_props ni s) (commit ni) = Some (opened ni ?n ts gs)"
      using open_editor [OF c, of ?n] e by (simp add: tiered_props_def)
    moreover have "visual_of ni ts gs (opened ni ?n ts gs)" "ed_model (opened ni ?n ts gs) = ?n"
      by (simp_all add: visual_of_def opened_def Let_def)
    ultimately show ?thesis by blast
  next
    case (Some ed)
    with t have v: "visual_of ni ts gs ed" "ed_model ed = ?n" by (simp_all add: tiered_settled_def)
    then have "ed\<lparr>ed_model := ?n, ed_expr := pn_billingExpr ?p, ed_rule := pn_requestRuleExpr ?p\<rparr> = ed"
      using e by (simp add: visual_of_def)
    with Some have "tiered_props ni s = Some ed" by (simp add: tiered_props_def)
    with visual_settled [OF c(2) v(1)] v show ?thesis by (simp add: settled_def)
  qed
  then obtain ed where ed: "Option.bind (tiered_props ni s) (commit ni) = Some ed" "visual_of ni ts gs ed" "ed_model ed = ?n"
    by blast
  then have "ed_expr ed = pn_billingExpr ?p" "ed_rule ed = pn_requestRuleExpr ?p" using e by (simp_all add: visual_of_def)
  with ed o e show ?thesis by (simp add: render_panel_def same_panel_def tiered_settled_def)
qed

lemma renders_tiered:
  assumes "config_ok ni ts" "list_all group_ok gs"
    and "re_editorOpen s" "pn_pricingMode (re_panel s) = TieredExpr" "tiered_settled ni ts gs s"
  shows "\<exists>t. renders ni k s = Some t \<and> same_panel s t"
  using assms(3-5)
proof (induction k arbitrary: s)
  case (Suc k)
  from render_tiered [OF assms(1,2) Suc.prems] obtain u where u: "render_panel ni s = Some u" "same_panel s u"
    "tiered_settled ni ts gs u" by blast
  then have "re_editorOpen u" "pn_pricingMode (re_panel u) = TieredExpr" using Suc.prems by (simp_all add: same_panel_def)
  from Suc.IH [OF this u(3)] u show ?case by (auto simp: same_panel_def)
qed (simp add: same_panel_def)

lemma renders_plain:
  "pn_pricingMode (re_panel s) \<noteq> TieredExpr \<Longrightarrow> \<exists>t. renders ni k s = Some t \<and> same_panel s t"
proof (induction k arbitrary: s)
  case (Suc k)
  then show ?case using Suc.IH [of "s\<lparr>re_tiered := None\<rparr>"] by (simp add: render_panel_def same_panel_def)
qed (simp add: same_panel_def)

lemma commit_open:
  assumes "re_editorOpen s" "commitDraft (re_panel s) = Some d" "parse_maps (re_texts s) = Some m" "maps_ok ni m"
    "entry_ok ni (entry_of_data d)" "units_ok (md_name d)"
  shows "\<exists>s' m'. commitOpenEditor ni s = Some (s', True) \<and> parse_maps (re_texts s') = Some m' \<and>
    (\<forall>k. entry m' k = (if k = md_name d then entry_of_data d else entry m k))"
proof -
  obtain tx m' where t: "persistPricingData ni d [md_name d] (re_texts s) = Some tx" "parse_maps tx = Some m'"
    "\<forall>k. entry m' k = (if k = md_name d then entry_of_data d else entry m k)"
    using persist_exact [OF assms(3,4,5), of "[md_name d]"] assms(6) by auto
  have "commitOpenEditor ni s = Some (setEditData ni (Some d) (s\<lparr>re_texts := tx\<rparr>), True)"
    using t(1) assms(1,2) by (simp add: commitOpenEditor_def persist_edit_def)
  moreover have "re_texts (setEditData ni (Some d) (s\<lparr>re_texts := tx\<rparr>)) = tx" by (simp add: setEditData_def)
  ultimately show ?thesis using t(2,3) by auto
qed

text \<open>The panel accepts a stored model as it is, and its data stand for the stored entry.\<close>

lemma derive_empty: "deriveLanePrice ni v [] = []"
  by (simp add: deriveLanePrice_def text_number_def toNumberOrNull_def hasValue_def split: option.split)

lemma no_text: "text_number s = None \<Longrightarrow> deriveLanePrice ni v s = []"
  by (simp add: deriveLanePrice_def split: option.split)

lemma lane_price_missing:
  "text_number (ls_promptPrice (createInitialLaneState ni (Some d))) = None \<Longrightarrow> ls_prices (createInitialLaneState ni (Some d)) l = []"
  by (simp add: createInitialLaneState_def Let_def no_text derive_empty)

lemma accepted_stored:
  assumes d: "mr_draft row = Some r" "model_snapshot ni m n = Some r" and s: "stored_ok ni (entry m n)" and n: "name_ok n"
  shows "commitDraft (load_panel ni (Some (edit_data row)) p) = Some (buildSubmitData (load_panel ni (Some (edit_data row)) p))"
proof -
  let ?p = "load_panel ni (Some (edit_data row)) p" and ?e = "entry m n"
  note e = edit_data_draft [OF d]
  have "createModelPricingSchema (pn_form ?p)"
    using n e(1) by (cases n) (simp_all add: createModelPricingSchema_def load_panel_simps name_ok_def)
  moreover have "\<not> input_price_missing ?p"
    by (auto simp: input_price_missing_def load_panel_simps lane_price_missing hasValue_def list_ex_iff)
  moreover have "\<not> audio_input_missing ?p"
  proof
    assume a: "audio_input_missing ?p"
    then have t: "md_billingMode (edit_data row) \<noteq> Some TieredExpr" "coalesce (md_price (edit_data row)) [] = []"
      by (auto simp: audio_input_missing_def load_panel_simps split: if_splits)
    then have mode: "me_billingMode ?e \<noteq> Some (JStr (js ''tiered_expr''))" "me_price ?e = None"
      using e(2,5) s stored_text_empty [of ni "me_price ?e"] by (auto simp: coalesce_def stored_ok_def numbers_stored_def)
    from a have "stored_text ni (me_lane ?e LaneAudioOutput) \<noteq> []" "deriveLanePrice ni (Some (stored_text ni (me_lane ?e LaneAudioInput)))
        (ratioToBasePrice ni (Some (stored_text ni (me_ratio ?e)))) = []"
      by (auto simp: audio_input_missing_def load_panel_simps createInitialLaneState_def Let_def e(3,4) hasValue_def)
    with mode s show False by (auto simp: stored_ok_def audio_shown_def stored_text_def)
  qed
  ultimately show ?thesis by (simp add: commitDraft_def validatePricingValues_def)
qed

lemma submitted_stored:
  assumes d: "mr_draft row = Some r" "model_snapshot ni m n = Some r" and s: "stored_ok ni (entry m n)" and n: "name_ok n"
  shows "md_name (buildSubmitData (load_panel ni (Some (edit_data row)) p)) = n"
    "entry_of_data (buildSubmitData (load_panel ni (Some (edit_data row)) p)) = entry m n"
proof -
  let ?p = "load_panel ni (Some (edit_data row)) p" and ?e = "entry m n"
  let ?d = "buildSubmitData ?p"
  note e = edit_data_draft [OF d]
  show "md_name ?d = n" using n e(1) by (simp add: buildSubmitData_def load_panel_simps Let_def name_ok_def)
  have st: "num_stored ni (me_price ?e)" "num_stored ni (me_ratio ?e)" "num_stored ni (me_lane ?e l)" for l
    using s by (simp_all add: stored_ok_def numbers_stored_def lanes_all)
  have nums: "number_entry (md_price ?d) = me_price ?e" "number_entry (md_ratio ?d) = me_ratio ?e"
      "(\<lambda>l. number_entry (md_lane ?d l)) = me_lane ?e"
    using st by (simp_all add: buildSubmitData_def load_panel_simps Let_def e(2-4) coalesce_def number_entry_stored)
  have mode: "md_billingMode ?d = Some TieredExpr \<longleftrightarrow> me_billingMode ?e = Some (JStr (js ''tiered_expr''))"
    using e(5) by (simp add: buildSubmitData_def load_panel_simps Let_def)
  have price: "coalesce (md_price ?d) [] = [] \<longleftrightarrow> me_price ?e = None"
    using stored_text_empty [OF st(1)] by (simp add: buildSubmitData_def load_panel_simps Let_def e(2) coalesce_def)
  show "entry_of_data ?d = ?e"
  proof (cases "me_billingMode ?e = Some (JStr (js ''tiered_expr''))")
    case True
    then have "expr_stored ni ?e" using s by (simp add: stored_ok_def)
    then obtain x where x: "me_billingExpr ?e = Some (JStr x)" "x \<noteq> []"
      "combineBillingExpr (coalesce (md_billingExpr (edit_data row)) []) (coalesce (md_requestRuleExpr (edit_data row)) []) = x"
      using edit_data_expr [OF d True] by blast
    have "combineBillingExpr (coalesce (md_billingExpr ?d) []) (coalesce (md_requestRuleExpr ?d) []) = x"
      using x(3) mode True by (simp add: buildSubmitData_def load_panel_simps Let_def coalesce_def split: option.splits if_splits)
    with mode True x(1,2) nums show ?thesis by (simp add: entry_of_data_def Let_def)
  next
    case False
    then have "me_billingMode ?e = None" "me_billingExpr ?e = None"
      "me_price ?e \<noteq> None \<Longrightarrow> me_ratio ?e = None \<and> me_lane ?e = (\<lambda>_. None)"
      using s by (auto simp: stored_ok_def lanes_all split: if_splits)
    with mode False nums price show ?thesis by (auto simp: entry_of_data_def no_entry_def)
  qed
qed

lemma renders_stored:
  assumes d: "mr_draft row = Some r" "model_snapshot ni m n = Some r" and s: "stored_ok ni (entry m n)"
  shows "\<exists>t. renders ni k (handleEdit ni mob row s) = Some t \<and> same_panel (handleEdit ni mob row s) t"
proof -
  let ?s = "handleEdit ni mob row s"
  obtain p where p: "re_panel ?s = load_panel ni (Some (edit_data row)) p" using opened_panel(1) by blast
  show ?thesis
  proof (cases "pn_pricingMode (re_panel ?s) = TieredExpr")
    case True
    then have t: "me_billingMode (entry m n) = Some (JStr (js ''tiered_expr''))"
      using edit_data_draft(5) [OF d] by (simp add: p load_panel_simps split: if_splits)
    then have "expr_stored ni (entry m n)" using s by (simp add: stored_ok_def)
    then have "normal_expr ni (pn_billingExpr (re_panel ?s)) (pn_requestRuleExpr (re_panel ?s))"
      using edit_data_expr [OF d t] by (simp add: p load_panel_simps) blast
    then obtain ts gs where "config_ok ni ts" "list_all group_ok gs"
      "pn_billingExpr (re_panel ?s) = generateExprFromVisualConfig ni (Some ts)"
      "pn_requestRuleExpr (re_panel ?s) = buildRequestRuleExpr gs"
      by (auto simp: normal_expr_def split: option.splits)
    then show ?thesis
      using True opened_panel(2,4) by (intro renders_tiered) (simp_all add: tiered_settled_def)
  qed (rule renders_plain)
qed

lemma entry_ok_maps: "maps_ok ni m \<Longrightarrow> entry_ok ni (entry m n)"
proof -
  have "value_ok ni (obj_get ob n)" if "printable_json ni (JObj ob)" for ob
    using that by (auto simp: value_ok_def printable_members_iff split: option.split dest: obj_get_Some_mem)
  then show "maps_ok ni m \<Longrightarrow> entry_ok ni (entry m n)" by (simp add: maps_ok_lane entry_ok_iff entry_def del: printable_json.simps)
qed

fun is_fixed_price :: "panel_event \<Rightarrow> bool" where
  "is_fixed_price (FixedPriceTyped v) = True"
| "is_fixed_price _ = False"

text \<open>Without typing a fixed price, the panel keeps the one it was opened with, and the name.\<close>

definition keeps :: "panel \<Rightarrow> panel \<Rightarrow> bool" where
  "keeps p q \<longleftrightarrow> pn_editData q = pn_editData p \<and> pf_price (pn_form q) = pf_price (pn_form p) \<and>
     (pn_editData p \<noteq> None \<longrightarrow> pf_name (pn_form q) = pf_name (pn_form p))"

lemma keeps_prompt: "keeps p (handlePromptPriceChange ni v p)"
proof (cases "numeric_draft v")
  case True
  then show ?thesis by (simp add: prompt_change Let_def keeps_def)
qed (simp add: handlePromptPriceChange_def keeps_def)

lemma keeps_step: "\<not> is_load e \<Longrightarrow> \<not> is_fixed_price e \<Longrightarrow> keeps p (fst (panel_step ni p e))"
  by (cases e) (auto simp: keeps_prompt, auto simp: keeps_def handleLanePriceChange_def handleLaneToggle_def panel_handleModeChange_def Let_def)

lemma keeps_run: "list_all (\<lambda>e. \<not> is_load e \<and> \<not> is_fixed_price e) es \<Longrightarrow> keeps p (fst (run_events (panel_step ni) p es))"
proof (induction es arbitrary: p)
  case (Cons e es)
  then show ?case using keeps_step [of e p ni] Cons.IH [of "fst (panel_step ni p e)"] by (auto simp: case_prod_beta keeps_def)
qed (simp add: keeps_def)


section \<open>A sample store\<close>

definition sample_texts :: pricing_texts where
  "sample_texts = \<lparr>tx_price = js ''{\"image\": 2}'', tx_ratio = js ''{\"chat\": 15}'',
     tx_lane = (\<lambda>l. if l = LaneCompletion then js ''{\"chat\": 2}'' else []),
     tx_billingMode = js ''{\"tiers\": \"tiered_expr\"}'',
     tx_billingExpr = js ''{\"tiers\": \"tier('' @ [92, 34] @ js ''base'' @ [92, 34] @ js '', p * 2 + c * 8)\"}''\<rparr>"

definition sample_maps :: pricing_maps where
  "sample_maps = \<lparr>pm_price = [(js ''image'', JNum 2)], pm_ratio = [(js ''chat'', JNum 15)],
     pm_lane = (\<lambda>l. if l = LaneCompletion then [(js ''chat'', JNum 2)] else []),
     pm_billingMode = [(js ''tiers'', JStr (js ''tiered_expr''))],
     pm_billingExpr = [(js ''tiers'', JStr (js ''tier('' @ [34] @ js ''base'' @ [34] @ js '', p * 2 + c * 8)''))]\<rparr>"

definition sample_row :: "jstring \<Rightarrow> model_row" where
  "sample_row n = (model_row_of (\<lambda>_. []) [] [] n)\<lparr>mr_draft := model_snapshot (\<lambda>_. []) sample_maps n\<rparr>"

definition sample_editor :: ratio_editor where
  "sample_editor = \<lparr>re_texts = sample_texts, re_editData = None, re_editorOpen = False, re_sheetOpen = False, re_panel = initial_panel,
     re_tiered = None\<rparr>"

lemma sample_parsed: "parse_maps sample_texts = Some sample_maps"
proof -
  have "pricing_map (tx_price sample_texts) = Some (pm_price sample_maps)" "pricing_map (tx_ratio sample_texts) = Some (pm_ratio sample_maps)"
    "pricing_map (tx_billingMode sample_texts) = Some (pm_billingMode sample_maps)"
    "pricing_map (tx_billingExpr sample_texts) = Some (pm_billingExpr sample_maps)" by code_simp+
  moreover have "pricing_map (tx_lane sample_texts LaneCompletion) = Some (pm_lane sample_maps LaneCompletion)" "pricing_map [] = Some []"
    by code_simp+
  then have "pricing_map (tx_lane sample_texts l) = Some (pm_lane sample_maps l)" for l
    by (cases "l = LaneCompletion") (simp_all add: sample_texts_def sample_maps_def)
  ultimately show ?thesis by (simp add: parse_maps_def list_all_iff coalesce_def sample_maps_def)
qed

lemma sample_ok:
  "maps_ok (\<lambda>_. []) sample_maps" "stored_ok (\<lambda>_. []) (entry sample_maps (js ''chat''))" "name_ok (js ''chat'')" "name_ok (js ''image'')"
  "me_price (entry sample_maps (js ''image'')) = Some (JNum 2)" "num_ok (\<lambda>_. []) 2"
  by code_simp+

lemma sample_tiers_ok: "stored_ok (\<lambda>_. []) (entry sample_maps (js ''tiers''))" "name_ok (js ''tiers'')"
  by code_simp+

lemma sample_snapshot:
  assumes "n \<in> {js ''chat'', js ''image'', js ''tiers''}"
  obtains r where "mr_draft (sample_row n) = Some r" "model_snapshot (\<lambda>_. []) sample_maps n = Some r"
proof -
  have "model_snapshot (\<lambda>_. []) sample_maps (js ''chat'') \<noteq> None" "model_snapshot (\<lambda>_. []) sample_maps (js ''image'') \<noteq> None"
    "model_snapshot (\<lambda>_. []) sample_maps (js ''tiers'') \<noteq> None" by code_simp+
  with assms have "model_snapshot (\<lambda>_. []) sample_maps n \<noteq> None" by blast
  with that show ?thesis by (auto simp: sample_row_def)
qed

definition sample_change :: "panel_event list" where
  "sample_change = [ModeChosen PerToken, PromptPriceTyped (js ''3'')]"

definition sample_changed :: panel where
  "sample_changed = fst (run_events (panel_step (\<lambda>_. [])) (re_panel (handleEdit (\<lambda>_. []) False (sample_row (js ''image'')) sample_editor)) sample_change)"

lemma sample_change_ok:
  "list_all (\<lambda>e. \<not> is_load e \<and> \<not> is_fixed_price e) sample_change" "pn_pricingMode sample_changed = PerToken"
  "validatePricingValues sample_changed"
  by code_simp+

definition sample_data :: model_ratio_data where
  "sample_data = \<lparr>md_name = js ''chat'', md_price = Some [], md_ratio = Some (js ''7''), md_lane = (\<lambda>_. Some []),
     md_billingMode = Some PerToken, md_billingExpr = None, md_requestRuleExpr = None\<rparr>"

lemma sample_data_ok: "entry_ok (\<lambda>_. []) (entry_of_data sample_data)" "list_all units_ok [js ''chat'', js ''image'']"
  by code_simp+


section \<open>Properties\<close>

text \<open>C30 [pricing_saved_exact]: saving the data of a panel for some models replaces exactly their entries in the ten
  texts by what the data stand for, all other models keep theirs, and the texts that are written parse
  again to well-formed maps.\<close>

theorem pricing_saved_exact:
  assumes "parse_maps tx = Some m" and "maps_ok ni m" and "entry_ok ni (entry_of_data d)" and "list_all units_ok names"
  shows "\<exists>tx' m'. persistPricingData ni d names tx = Some tx' \<and> parse_maps tx' = Some m' \<and> maps_ok ni m' \<and>
    (\<forall>n. entry m' n = (if n \<in> set names then entry_of_data d else entry m n))"
  by (rule persist_exact [OF assms])

theorem pricing_saved_exact_witness:
  "\<exists>tx' m'. persistPricingData (\<lambda>_. []) sample_data [js ''chat'', js ''image''] sample_texts = Some tx' \<and> parse_maps tx' = Some m' \<and>
    maps_ok (\<lambda>_. []) m' \<and> (\<forall>n. entry m' n = (if n \<in> set [js ''chat'', js ''image''] then entry_of_data sample_data else entry sample_maps n))"
  by (rule pricing_saved_exact [OF sample_parsed sample_ok(1) sample_data_ok])

text \<open>C13 [save_unchanged_neutral]: opening a stored model, letting the panel render any number of times and
  saving it without a change succeeds and leaves the stored prices of every model as they were. The
  model is priced per token or per request, or its expression is printed from tiers and rule groups in
  normal form, in which case the tiered editor is mounted and its effects run. Its stored numbers are
  read back as they are printed, it has not both a fixed price and ratios unless it is tiered, and an
  audio output price has an audio input price to relate it to.\<close>

theorem save_unchanged_neutral:
  assumes "parse_maps (re_texts s) = Some m" and "maps_ok ni m" and "mr_draft row = Some r" and "model_snapshot ni m n = Some r"
    and "stored_ok ni (entry m n)" and "name_ok n"
  shows "\<exists>t s' m'. renders ni k (handleEdit ni mob row s) = Some t \<and> commitOpenEditor ni t = Some (s', True) \<and>
    parse_maps (re_texts s') = Some m' \<and> (\<forall>k. entry m' k = entry m k)"
proof -
  obtain p where p: "re_panel (handleEdit ni mob row s) = load_panel ni (Some (edit_data row)) p" using opened_panel(1) by blast
  let ?d = "buildSubmitData (load_panel ni (Some (edit_data row)) p)"
  obtain t where t: "renders ni k (handleEdit ni mob row s) = Some t" "re_panel t = load_panel ni (Some (edit_data row)) p"
    "re_editorOpen t" "re_texts t = re_texts s"
    using renders_stored [OF assms(3-5)] opened_panel(2,3) [of ni mob row s] p by (force simp: same_panel_def)
  note d = submitted_stored [OF assms(3-6), of p]
  have "commitDraft (re_panel t) = Some ?d" unfolding t(2) by (rule accepted_stored [OF assms(3-6)])
  moreover have "entry_ok ni (entry_of_data ?d)" using d(2) entry_ok_maps [OF assms(2)] by simp
  ultimately show ?thesis
    using commit_open [of t ?d m ni] t assms(1,2,6) d by (auto simp: name_ok_def)
qed

theorem save_unchanged_neutral_witness:
  "\<exists>t s' m'. renders (\<lambda>_. []) 3 (handleEdit (\<lambda>_. []) False (sample_row (js ''tiers'')) sample_editor) = Some t \<and>
    commitOpenEditor (\<lambda>_. []) t = Some (s', True) \<and> parse_maps (re_texts s') = Some m' \<and>
    (\<forall>k. entry m' k = entry sample_maps k)"
proof -
  have t: "parse_maps (re_texts sample_editor) = Some sample_maps" by (simp add: sample_editor_def sample_parsed)
  obtain r where r: "mr_draft (sample_row (js ''tiers'')) = Some r" "model_snapshot (\<lambda>_. []) sample_maps (js ''tiers'') = Some r"
    by (rule sample_snapshot [of "js ''tiers''"]) simp_all
  show ?thesis by (rule save_unchanged_neutral [OF t sample_ok(1) r sample_tiers_ok])
qed

text \<open>C32 [fixed_price_kept]: a model with a fixed price cannot be given a price per token by choosing that mode and
  entering its prices. Unless the field of the other mode is emptied, saving stores the old
  fixed price again and drops every ratio.\<close>

theorem fixed_price_kept:
  assumes "parse_maps (re_texts s) = Some m" and "maps_ok ni m" and "mr_draft row = Some r" and "model_snapshot ni m n = Some r"
    and "name_ok n" and "me_price (entry m n) = Some (JNum q)" and "num_ok ni q"
    and "list_all (\<lambda>e. \<not> is_load e \<and> \<not> is_fixed_price e) es"
    and "p = fst (run_events (panel_step ni) (re_panel (handleEdit ni mob row s)) es)"
    and "pn_pricingMode p = PerToken" and "validatePricingValues p"
  shows "\<exists>s' m'. commitOpenEditor ni ((handleEdit ni mob row s)\<lparr>re_panel := p\<rparr>) = Some (s', True) \<and>
    parse_maps (re_texts s') = Some m' \<and> entry m' n = no_entry\<lparr>me_price := Some (JNum q)\<rparr>"
proof -
  let ?s = "(handleEdit ni mob row s)\<lparr>re_panel := p\<rparr>" and ?d = "buildSubmitData p"
  obtain p0 where p0: "re_panel (handleEdit ni mob row s) = load_panel ni (Some (edit_data row)) p0" using opened_panel(1) by blast
  have "num_stored ni (Some (JNum q))" using assms(7) by (simp add: num_stored_def)
  note st = stored_text_empty [OF this] number_entry_stored [OF this]
  have k: "pf_price (pn_form p) = stored_text ni (Some (JNum q))" "pf_name (pn_form p) = n"
    using keeps_run [OF assms(8), of "re_panel (handleEdit ni mob row s)" ni] edit_data_draft [OF assms(3,4)] assms(6)
    unfolding assms(9) p0 by (auto simp: keeps_def load_panel_simps coalesce_def)
  have e: "entry_of_data ?d = no_entry\<lparr>me_price := Some (JNum q)\<rparr>" "md_name ?d = n"
    using k st assms(5,10) by (simp_all add: entry_of_data_def buildSubmitData_def Let_def coalesce_def name_ok_def)
  have "commitDraft (re_panel ?s) = Some ?d"
    using assms(5,11) k(2) by (cases n) (simp_all add: commitDraft_def createModelPricingSchema_def name_ok_def)
  moreover have "entry_ok ni (entry_of_data ?d)" using assms(7) by (simp add: e(1) entry_ok_iff no_entry_def value_ok_def)
  ultimately show ?thesis
    using commit_open [of ?s ?d m ni] opened_panel(2,3) [of ni mob row s] assms(1,2,5) e by (auto simp: name_ok_def)
qed

theorem fixed_price_kept_witness:
  "\<exists>s' m'. commitOpenEditor (\<lambda>_. []) ((handleEdit (\<lambda>_. []) False (sample_row (js ''image'')) sample_editor)\<lparr>re_panel := sample_changed\<rparr>) = Some (s', True) \<and>
    parse_maps (re_texts s') = Some m' \<and> entry m' (js ''image'') = no_entry\<lparr>me_price := Some (JNum 2)\<rparr>"
proof -
  have t: "parse_maps (re_texts sample_editor) = Some sample_maps" by (simp add: sample_editor_def sample_parsed)
  obtain r where r: "mr_draft (sample_row (js ''image'')) = Some r" "model_snapshot (\<lambda>_. []) sample_maps (js ''image'') = Some r"
    by (rule sample_snapshot [of "js ''image''"]) simp_all
  show ?thesis
    by (rule fixed_price_kept [OF t sample_ok(1) r sample_ok(4-6) sample_change_ok(1) sample_changed_def sample_change_ok(2,3)])
qed

end
