(* ===== verification/Spec2Isabelle.thy ===== *)
theory Spec2Isabelle
  imports JsRoundTrip JsNumber StatusCodeRules RedirectGuard ModelMapping NavModules ManagementAccess
    AdminPermissions AuthSync HttpClient RatioSync PlaygroundStorage TieredEditor PricingStore
begin

text \<open>
  \<^bold>\<open>The program.\<close> The repository is an AI gateway: a Go server that relays requests to model providers
  and bills them, and a React web client (\<open>src/web/src\<close>, TypeScript) in which users chat, manage keys
  and wallets, and administrators configure channels, prices and access. This library models the
  parts of the web client that decide something: its session and HTTP layer, its access rules,
  the parsers and validators of configuration texts, the synchronisation of upstream prices, the
  editors of model prices and tiered prices, and the chat playground with its streaming requests.

  \<^bold>\<open>Language layer.\<close> \<open>Prelude\<close> has the machines driven by events (locales \<open>machine\<close> and \<open>metered\<close>) that
  every stateful component is an instance of. \<open>JsString\<close>, \<open>JsObject\<close>, \<open>JsNumber\<close>, \<open>JsJson\<close> and
  \<open>JsRoundTrip\<close> give JavaScript strings as lists of UTF-16 code units, objects and \<open>Map\<close>s as association
  lists in enumeration order (locale \<open>dictionary\<close>), \<open>Number(...)\<close>, and \<open>JSON.parse\<close> and
  \<open>JSON.stringify\<close> with their round trip. A value of type \<open>unknown\<close> is a \<open>json option\<close>, \<open>None\<close> being
  \<open>undefined\<close>. Numbers are exact rationals; a parameter \<open>ni\<close> prints those that are not integers.

  \<^bold>\<open>Session and HTTP.\<close> \<open>AuthStore\<close> models \<open>stores/auth-store.ts\<close> and the validators of server answers;
  \<open>AuthSession\<close> models \<open>lib/auth-session.ts\<close>: applying and rotating bundles, signing out, the refresh
  runner with its race delays, epochs and browser lock, the headers, and the listener in the root
  route, as one machine over the events of the network, the timers and other tabs; the login with a
  second factor (\<open>features/auth/otp\<close>), which applies the answer of the server without checking it, is
  an event of its own. \<open>AuthSync\<close> models \<open>lib/auth-session-sync.ts\<close>, with storage calls that may fail; \<open>HttpClient\<close> models \<open>lib/http-client.ts\<close> and
  \<open>lib/server-error-message.ts\<close>. The lemmas show that token, expiry and session are always set together, and
  valid when the answers to second factors are, that
  a refresh settles and sends a bounded number of requests, that a refresh overtaken in any reachable
  state has no effect, that tabs exchange events faithfully, that equal GET requests are shared and a request is repeated
  at most once.

  \<^bold>\<open>Access rules.\<close> \<open>SidebarAccess\<close> (sidebar configuration and URL prefixes), \<open>ManagementAccess\<close> (the
  form that edits it, and the roles), \<open>NavModules\<close> (header modules, the route guard and the
  playground route, \<open>routes/_authenticated/playground\<close>) and
  \<open>AdminPermissions\<close> (permission matrix). The lemmas say exactly which entries are visible for a stored
  text, that users can only narrow what administrators allow, that saving the form changes what
  was changed and nothing else, and that the playground route and its sidebar entry are governed by
  different sections of the text.

  \<^bold>\<open>Channel configuration.\<close> \<open>StatusCodeRules\<close>, \<open>RedirectGuard\<close> and \<open>ModelMapping\<close> model the parsers and
  checks under \<open>lib/http-status-code-rules.ts\<close> and \<open>features/channels/lib\<close>; \<open>RatioSync\<close> models the
  resolution of price differences in
  \<open>features/system-settings/models/upstream-ratio-sync-helpers.ts\<close>.

  \<^bold>\<open>Tiered prices.\<close> \<open>JsRegex\<close> has the regular expressions of the language as data with backtracking in the
  order of the specification, and a calculus that says what a pattern takes and refuses. \<open>BillingExpr\<close> models
  \<open>features/pricing/lib/billing-expr.ts\<close>, \<open>TierExpr\<close> models \<open>tier-expr.ts\<close>: the parsers and printers of price
  expressions and request rules; running an expression as a program is a parameter. \<open>BillingRules\<close> and
  \<open>TierRules\<close> show that what is printed is read back. \<open>TieredEditor\<close> models
  \<open>features/system-settings/models/tiered-pricing-editor.tsx\<close>: handlers change the state, and \<open>commit\<close> is one
  render with its effects in order, which write to the properties of the editor. The lemmas show that
  the effects settle, that a session without edits leaves a price in normal form (\<open>config_ok\<close>,
  \<open>group_ok\<close>) as it was, and two ways in which the editor loses or doubles what it shows.

  \<^bold>\<open>Model prices.\<close> \<open>PricingPanel\<close> models \<open>pricing-format.ts\<close>, \<open>model-pricing-core.ts\<close> and the panel of
  \<open>model-pricing-sheet.tsx\<close>, a machine over the handlers of its controls; \<open>PricingStore\<close> models
  \<open>model-pricing-snapshots.ts\<close>, \<open>model-ratio-visual-editor.tsx\<close> and \<open>utils/json-parser.ts\<close>, and mounts
  the tiered editor in the open panel, where each render runs its effects on the panel's texts. \<open>JsPretty\<close> has
  \<open>JSON.stringify(v, null, 2)\<close> and that it is read back. The abstract view of the ten price texts is the
  entry of every model; the lemmas show that saving and deleting change exactly the entries they name, that
  opening, rendering and saving a model unchanged changes nothing, that the ratios of the form are those of the prices it
  shows up to a stated rounding, and that a fixed price outlives the change of the pricing mode.

  \<^bold>\<open>Playground.\<close> \<open>PlaygroundMessage\<close> models \<open>features/playground/lib/message\<close>, \<open>PlaygroundStream\<close> the stream
  utilities and the controller of \<open>hooks/use-stream-request.ts\<close>, \<open>PlaygroundChat\<close> the request builder
  and the hooks \<open>use-chat-handler.ts\<close> and \<open>use-playground-conversation.ts\<close>. The state updaters that
  React runs later are data, and the machine decides when they run; the theorems hold for every
  interleaving. They show that think tags are split exactly, that streaming gives what a single
  response gives, that a request calls back at most once at the end and never after it was stopped or
  superseded, also when it still waits for its headers, that
  at most one event source is open, and that a completed, failed or stopped request leaves the
  conversation settled. \<open>PlaygroundStorage\<close> models \<open>lib/storage\<close>, \<open>lib/state\<close> and the hook
  \<open>use-playground-state.ts\<close>: schemas are data and zod's parser is an argument with its documented
  laws; the lemmas show that everything loaded has the declared type and is bounded, that the storage
  holds the text of the conversation whenever no save is due and the storage takes it, and that a conversation within the limits survives
  closing and opening the page.

  \<^bold>\<open>Bounds and fuel.\<close> \<open>JSON.parse\<close> runs with fuel linear in the length of the text, which \<open>JsRoundTrip\<close> shows
  enough for every printed value; the loop of \<open>parseThinkTags\<close> is a terminating function; a repetition in a regular expression stops when a
  round consumes nothing; every other loop is structural
  recursion.

  \<^bold>\<open>Outside.\<close> Translations, identifiers, the clock, random numbers, the transport, browser storage,
  locks and event sources are arguments or events, with what is assumed of them stated where they
  are used.

  \<^bold>\<open>Not modelled.\<close> The Go server (\<open>controller\<close>, \<open>relay\<close>, \<open>service\<close>, \<open>model\<close>, \<open>setting\<close> and the other Go
  packages) and the Electron shell, which are other programs; React components other than the price
  editor and the price panel, most of which render the state modelled here, and styling; generated files (\<open>routeTree.gen.ts\<close>); translations; API wrappers
  that only call the HTTP client; and, of the web client, the forms and tables of dashboards, keys,
  wallets, subscriptions and plans.
\<close>

end
